(* ===== verification/CQ_Prelude.thy ===== *)
theory CQ_Prelude
  imports Main "HOL-Library.Word" "HOL-Library.Monad_Syntax" "HOL-Library.Char_ord"
    "HOL-Library.List_Lexorder" "HOL-Library.AList" "HOL-Library.Multiset"
begin

text \<open>
  Shared vocabulary of the development: the machine numbers of Rust, the decimal text of
  integers, the documents of \<open>serde_json\<close>, two-dimensional arrays with Rust's bounds
  checks, the bag of functions that live outside the repository, and the generic lemmas on
  options and lists that the component theories rely on.

  Conventions used everywhere:
  \<^item> a Rust panic (an index out of range, a failed \<open>assert!\<close>) is the value \<open>None\<close> of an
    \<open>option\<close> result;
  \<^item> \<open>i64\<close>, \<open>i32\<close>, \<open>u64\<close> and \<open>u32\<close> data are words of that width, the signed ones read
    with \<open>sint\<close>; counters and indices that only ever grow by one (row numbers, sequence
    numbers, versions) are \<open>nat\<close>;
  \<^item> a Rust string is the list of its UTF-8 bytes, so \<open>length\<close> and the lexicographic order
    are those of \<open>str::len\<close> and \<open>str::cmp\<close>.
\<close>

named_theorems cell_simps \<open>reads and writes of the typed arrays\<close>
named_theorems inv_intros \<open>preservation of the component invariants\<close>

section \<open>Machine numbers\<close>

type_synonym i64 = "64 word"
type_synonym i32 = "32 word"
type_synonym u64 = "64 word"
type_synonym u32 = "32 word"

text \<open>An \<open>f64\<close> is its bit pattern (\<open>f64::to_bits\<close>); the operations read sign and magnitude.\<close>

type_synonym f64 = "64 word"

definition i64_min :: i64 where "i64_min = 0x8000000000000000"
definition i32_min :: i32 where "i32_min = 0x80000000"
definition f64_nan :: f64 where "f64_nan = 0x7FF8000000000000"

definition f64_neg :: "f64 \<Rightarrow> bool" where
  "f64_neg b \<longleftrightarrow> 0x8000000000000000 \<le> unat b"

definition f64_mag :: "f64 \<Rightarrow> nat" where
  "f64_mag b = unat b mod 0x8000000000000000"

definition f64_is_nan :: "f64 \<Rightarrow> bool" where
  "f64_is_nan b \<longleftrightarrow> 0x7FF0000000000000 < f64_mag b"

definition f64_is_infinite :: "f64 \<Rightarrow> bool" where
  "f64_is_infinite b \<longleftrightarrow> f64_mag b = 0x7FF0000000000000"

text \<open>
  IEEE numbers compare as sign and magnitude; both zeros have key 0. \<open>f64_total_key\<close> is the
  order of \<open>f64::total_cmp\<close>, which separates the zeros and places every NaN.
\<close>

definition f64_key :: "f64 \<Rightarrow> int" where
  "f64_key b = (if f64_neg b then - int (f64_mag b) else int (f64_mag b))"

definition f64_total_key :: "f64 \<Rightarrow> int" where
  "f64_total_key b = (if f64_neg b then - int (f64_mag b) - 1 else int (f64_mag b))"

definition f64_eq :: "f64 \<Rightarrow> f64 \<Rightarrow> bool" where
  "f64_eq a b \<longleftrightarrow> \<not> f64_is_nan a \<and> \<not> f64_is_nan b \<and> f64_key a = f64_key b"

definition f64_lt :: "f64 \<Rightarrow> f64 \<Rightarrow> bool" where
  "f64_lt a b \<longleftrightarrow> \<not> f64_is_nan a \<and> \<not> f64_is_nan b \<and> f64_key a < f64_key b"

definition f64_le :: "f64 \<Rightarrow> f64 \<Rightarrow> bool" where
  "f64_le a b \<longleftrightarrow> \<not> f64_is_nan a \<and> \<not> f64_is_nan b \<and> f64_key a \<le> f64_key b"

text \<open>The conversion \<open>n as f64\<close> of an integer: nearest, ties to even.\<close>

fun ilog2 :: "nat \<Rightarrow> nat" where
  "ilog2 n = (if n < 2 then 0 else Suc (ilog2 (n div 2)))"

declare ilog2.simps [simp del]

definition f64_of_nat :: "nat \<Rightarrow> nat" where
  "f64_of_nat m =
     (if m = 0 then 0
      else let e = ilog2 m;
               q = (if e \<le> 52 then m * 2 ^ (52 - e)
                    else let s = e - 52; d = m div 2 ^ s; r = m mod 2 ^ s; h = 2 ^ (s - 1)
                         in if h < r \<or> r = h \<and> odd d then d + 1 else d)
           in (e + 1023) * 2 ^ 52 + q - 2 ^ 52)"

definition f64_of_int :: "int \<Rightarrow> f64" where
  "f64_of_int n =
     (if n < 0 then word_of_nat (f64_of_nat (nat (- n)) + 0x8000000000000000)
      else word_of_nat (f64_of_nat (nat n)))"

lemma f64_nan_is_nan [simp]: "f64_is_nan f64_nan"
  by (simp add: f64_is_nan_def f64_mag_def f64_nan_def)

lemma f64_key_split:
  "unat b = (if f64_neg b then f64_mag b + 0x8000000000000000 else f64_mag b)"
proof -
  have "unat b < 2 ^ 64" using unsigned_less [of b] by simp
  then show ?thesis
    by (auto simp: f64_neg_def f64_mag_def mod_if)
qed

lemma f64_mag_less: "f64_mag b < 0x8000000000000000"
  by (simp add: f64_mag_def)

lemma f64_total_key_inj: "f64_total_key a = f64_total_key b \<Longrightarrow> a = b"
  using f64_key_split [of a] f64_key_split [of b]
  by (auto simp: f64_total_key_def word_unat_eq_iff split: if_splits)

text \<open>\<open>i64 as i32\<close> keeps the low 32 bits, \<open>i32 as i64\<close> extends the sign.\<close>

definition i64_as_i32 :: "i64 \<Rightarrow> i32" where "i64_as_i32 v = ucast v"
definition i32_as_i64 :: "i32 \<Rightarrow> i64" where "i32_as_i64 v = scast v"

text \<open>\<open>i64::saturating_mul\<close> by a small positive constant and \<open>i64 /\<close>, which truncates.\<close>

definition sat_i64 :: "int \<Rightarrow> i64" where
  "sat_i64 n = word_of_int (max (- (2 ^ 63)) (min (2 ^ 63 - 1) n))"

definition trunc_div :: "int \<Rightarrow> int \<Rightarrow> int" where
  "trunc_div a b = sgn a * sgn b * (\<bar>a\<bar> div \<bar>b\<bar>)"

section \<open>Decimal text\<close>

definition digit_char :: "nat \<Rightarrow> char" where "digit_char d = char_of (48 + d)"

definition char_digit :: "char \<Rightarrow> nat option" where
  "char_digit c = (let n = of_char c :: nat in if 48 \<le> n \<and> n \<le> 57 then Some (n - 48) else None)"

fun show_nat :: "nat \<Rightarrow> string" where
  "show_nat n = (if n < 10 then [digit_char n] else show_nat (n div 10) @ [digit_char (n mod 10)])"

declare show_nat.simps [simp del]

definition show_int :: "int \<Rightarrow> string" where
  "show_int n = (if n < 0 then CHR ''-'' # show_nat (nat (- n)) else show_nat (nat n))"

fun parse_digits :: "nat \<Rightarrow> string \<Rightarrow> nat option" where
  "parse_digits acc [] = Some acc"
| "parse_digits acc (c # cs) =
     (case char_digit c of None \<Rightarrow> None | Some d \<Rightarrow> parse_digits (acc * 10 + d) cs)"

definition parse_nat :: "string \<Rightarrow> nat option" where
  "parse_nat s = (if s = [] then None else parse_digits 0 s)"

text \<open>
  \<open>str::parse\<close> of an integer type with bounds \<open>lo\<close> and \<open>hi\<close>: one optional sign, at least
  one digit, a value in range. An unsigned type (\<open>lo = 0\<close>) accepts \<open>+\<close> but no \<open>-\<close>.
\<close>

definition parse_int_range :: "int \<Rightarrow> int \<Rightarrow> string \<Rightarrow> int option" where
  "parse_int_range lo hi s =
     (let (neg, ds) = (case s of c # cs \<Rightarrow>
                         if c = CHR ''-'' \<and> lo < 0 then (True, cs)
                         else if c = CHR ''+'' then (False, cs) else (False, s)
                       | [] \<Rightarrow> (False, s))
      in case parse_nat ds of None \<Rightarrow> None
         | Some n \<Rightarrow> let v = (if neg then - int n else int n)
                     in if lo \<le> v \<and> v \<le> hi then Some v else None)"

abbreviation parse_i64 :: "string \<Rightarrow> int option" where
  "parse_i64 \<equiv> parse_int_range (- (2 ^ 63)) (2 ^ 63 - 1)"
abbreviation parse_i32 :: "string \<Rightarrow> int option" where
  "parse_i32 \<equiv> parse_int_range (- (2 ^ 31)) (2 ^ 31 - 1)"
abbreviation parse_u32 :: "string \<Rightarrow> int option" where
  "parse_u32 \<equiv> parse_int_range 0 (2 ^ 32 - 1)"

lemma char_digit_digit_char [simp]: "d < 10 \<Longrightarrow> char_digit (digit_char d) = Some d"
  by (simp add: char_digit_def digit_char_def)

lemma parse_digits_append:
  "parse_digits a (xs @ ys) = Option.bind (parse_digits a xs) (\<lambda>b. parse_digits b ys)"
  by (induction a xs rule: parse_digits.induct) (auto split: option.splits)

lemma show_nat_nonempty [simp]: "show_nat n \<noteq> []"
  by (subst show_nat.simps) simp

lemma parse_digits_show_nat: "parse_digits 0 (show_nat n) = Some n"
proof (induction n rule: show_nat.induct)
  case (1 n)
  then show ?case
    by (subst show_nat.simps) (auto simp: parse_digits_append)
qed

lemma parse_nat_show_nat [simp]: "parse_nat (show_nat n) = Some n"
  by (simp add: parse_nat_def parse_digits_show_nat)

lemma digit_char_nat: "d < 10 \<Longrightarrow> of_char (digit_char d) = 48 + d"
  by (simp add: digit_char_def)

lemma show_nat_chars: "c \<in> set (show_nat n) \<Longrightarrow> 48 \<le> (of_char c :: nat) \<and> (of_char c :: nat) \<le> 57"
proof (induction n rule: show_nat.induct)
  case (1 n)
  then show ?case
    by (subst (asm) show_nat.simps) (auto simp: digit_char_nat split: if_splits)
qed

lemma parse_show_int:
  assumes "lo \<le> n" "n \<le> hi" shows "parse_int_range lo hi (show_int n) = Some n"
proof (cases "n < 0")
  case True
  with assms show ?thesis by (simp add: parse_int_range_def show_int_def)
next
  case False
  obtain c cs where s: "show_nat (nat n) = c # cs"
    using show_nat_nonempty by (cases "show_nat (nat n)") auto
  then have "48 \<le> (of_char c :: nat)" using show_nat_chars [of c "nat n"] by simp
  then have "c \<noteq> CHR ''-''" "c \<noteq> CHR ''+''" by auto
  moreover have "parse_nat (c # cs) = Some (nat n)" using parse_nat_show_nat [of "nat n"] s by simp
  ultimately show ?thesis using False assms s by (simp add: parse_int_range_def show_int_def)
qed

text \<open>\<open>str::to_ascii_lowercase\<close> and \<open>str::to_ascii_uppercase\<close>.\<close>

definition ascii_lower :: "string \<Rightarrow> string" where
  "ascii_lower = map (\<lambda>c. let n = of_char c :: nat in if 65 \<le> n \<and> n \<le> 90 then char_of (n + 32) else c)"

definition ascii_upper :: "string \<Rightarrow> string" where
  "ascii_upper = map (\<lambda>c. let n = of_char c :: nat in if 97 \<le> n \<and> n \<le> 122 then char_of (n - 32) else c)"

section \<open>JSON documents\<close>

text \<open>
  A document of \<open>serde_json::Value\<close>. A number is given by what its documented accessors
  return: whether it is a float, its \<open>i64\<close> and \<open>f64\<close> readings and its text. An object is
  the association list of its fields in iteration order.
\<close>

datatype json_number = JNum (num_is_f64: bool) (num_as_i64: "i64 option")
    (num_as_f64: "f64 option") (num_text: string)

datatype json =
    JNull
  | JBool bool
  | JNumber json_number
  | JString string
  | JArray "json list"
  | JObject "(string \<times> json) list"

type_synonym json_map = "(string \<times> json) list"

text \<open>
  A \<open>BTreeMap\<close> is the association list of its entries in key order: an insertion replaces
  the entry of the same key. \<open>serde_json::Map\<close> is one, keyed by field name.
\<close>

fun btree_insert :: "'k::linorder \<Rightarrow> 'v \<Rightarrow> ('k \<times> 'v) list \<Rightarrow> ('k \<times> 'v) list" where
  "btree_insert k v [] = [(k, v)]"
| "btree_insert k v ((k', v') # rest) =
     (if k < k' then (k, v) # (k', v') # rest
      else if k = k' then (k, v) # rest
      else (k', v') # btree_insert k v rest)"

abbreviation obj_insert :: "string \<Rightarrow> 'v \<Rightarrow> (string \<times> 'v) list \<Rightarrow> (string \<times> 'v) list" where
  "obj_insert \<equiv> btree_insert"

lemma map_of_btree_insert [simp]: "map_of (btree_insert k v m) = (map_of m)(k \<mapsto> v)"
  by (induction k v m rule: btree_insert.induct) (auto simp: fun_eq_iff)

lemma set_btree_insert: "fst ` set (btree_insert k v m) = insert k (fst ` set m)"
  by (induction k v m rule: btree_insert.induct) auto

lemma sorted_btree_insert:
  "sorted_wrt (<) (map fst m) \<Longrightarrow> sorted_wrt (<) (map fst (btree_insert k v m))"
proof (induction k v m rule: btree_insert.induct)
  case (1 k v)
  then show ?case by simp
next
  case (2 k v k' v' rest)
  have "fst ` set (btree_insert k v rest) = insert k (fst ` set rest)" by (rule set_btree_insert)
  with 2 show ?case by (auto simp: image_iff Ball_def)
qed

section \<open>Functions from outside the repository\<close>

text \<open>
  The functions the modelled code calls and does not define: number and document
  constructors of \<open>serde_json\<close>, the \<open>chrono\<close> date parser and printer, the \<open>base64\<close> engine,
  and the decimal texts of numbers (\<open>f64\<close>'s \<open>Display\<close>, \<open>ryu\<close>, \<open>itoa\<close>). They are one argument of every definition that uses one of
  them.
\<close>

record externals =
  json_of_i64 :: "i64 \<Rightarrow> json"
  json_of_f64 :: "f64 \<Rightarrow> json"
  json_text :: "json \<Rightarrow> string"
  f64_text :: "f64 \<Rightarrow> string"
  f64_parse :: "string \<Rightarrow> f64 option"
  parse_rfc3339 :: "string \<Rightarrow> i64 option"
  parse_naive :: "string \<Rightarrow> string \<Rightarrow> i64 option"
  parse_date :: "string \<Rightarrow> string \<Rightarrow> i64 option"
  chrono_format :: "int \<Rightarrow> int \<Rightarrow> string option"
  b64_encode :: "8 word list \<Rightarrow> string"
  b64_decode :: "string \<Rightarrow> 8 word list option"
  ryu_text :: "f64 \<Rightarrow> string"
  itoa_text :: "int \<Rightarrow> string"

text \<open>
  A small concrete instance, used only to evaluate definitions on concrete inputs: instants are
  printed as decimal microseconds, bytes as themselves, floats as their bit pattern.
\<close>

definition sample_externals :: externals where
  "sample_externals =
     \<lparr>json_of_i64 = (\<lambda>v. JNumber (JNum False (Some v) (Some (f64_of_int (sint v))) (show_int (sint v)))),
      json_of_f64 = (\<lambda>x. JNumber (JNum True None (Some x) (show_nat (unat x)))),
      json_text = (\<lambda>j. case j of JNumber n \<Rightarrow> num_text n | JString s \<Rightarrow> s | _ \<Rightarrow> []),
      f64_text = (\<lambda>x. show_nat (unat x)),
      f64_parse = (\<lambda>s. map_option of_nat (parse_nat s)),
      parse_rfc3339 = (\<lambda>s. map_option word_of_int (parse_i64 s)),
      parse_naive = (\<lambda>fmt s. None), parse_date = (\<lambda>fmt s. None),
      chrono_format = (\<lambda>secs nanos. Some (show_int (secs * 1000000 + nanos div 1000))),
      b64_encode = map (\<lambda>b. char_of (unat b)), b64_decode = (\<lambda>s. Some (map (\<lambda>c. of_nat (of_char c)) s)),
      ryu_text = (\<lambda>x. show_nat (unat x)), itoa_text = show_int\<rparr>"

section \<open>Arrays of arrays\<close>

text \<open>\<open>xs[i][j]\<close> and \<open>xs[i][j] = v\<close>, with \<open>None\<close> where Rust panics.\<close>

definition cell :: "'a list list \<Rightarrow> nat \<Rightarrow> nat \<Rightarrow> 'a option" where
  "cell xss i j = (if i < length xss \<and> j < length (xss ! i) then Some (xss ! i ! j) else None)"

definition set_cell :: "'a list list \<Rightarrow> nat \<Rightarrow> nat \<Rightarrow> 'a \<Rightarrow> 'a list list option" where
  "set_cell xss i j v =
     (if i < length xss \<and> j < length (xss ! i) then Some (xss[i := (xss ! i)[j := v]]) else None)"

text \<open>\<open>Vec::resize(n, d)\<close>: truncates, or fills with \<open>d\<close>.\<close>

definition resize :: "nat \<Rightarrow> 'a \<Rightarrow> 'a list \<Rightarrow> 'a list" where
  "resize n d xs = take n xs @ replicate (n - length xs) d"

lemma cell_set_cell [cell_simps]:
  "set_cell xss i j v = Some yss \<Longrightarrow>
   cell yss i' j' = (if i' = i \<and> j' = j then Some v else cell xss i' j')"
  by (auto simp: cell_def set_cell_def nth_list_update split: if_splits)

lemma set_cell_shape:
  "set_cell xss i j v = Some yss \<Longrightarrow> length yss = length xss \<and> map length yss = map length xss"
  by (auto simp: set_cell_def nth_list_update intro!: nth_equalityI split: if_splits)

lemma cell_defined: "cell xss i j \<noteq> None \<longleftrightarrow> i < length xss \<and> j < length (xss ! i)"
  by (simp add: cell_def)

lemma set_cell_defined: "set_cell xss i j v \<noteq> None \<longleftrightarrow> i < length xss \<and> j < length (xss ! i)"
  by (simp add: set_cell_def)

lemma length_resize [simp]: "length (resize n d xs) = n"
  by (simp add: resize_def)

lemma nth_resize: "i < n \<Longrightarrow> resize n d xs ! i = (if i < length xs then xs ! i else d)"
  by (auto simp: resize_def nth_append)

lemma cell_map_resize [cell_simps]:
  "cell (map (resize n d) xss) i j =
     (if i < length xss \<and> j < n then Some (if j < length (xss ! i) then xss ! i ! j else d) else None)"
  by (auto simp: cell_def nth_resize)

lemma cell_map_take [cell_simps]:
  "cell (map (take n) xss) i j = (if j < n then cell xss i j else None)"
  by (auto simp: cell_def)

lemma cell_replicate [cell_simps]:
  "cell (replicate k (replicate n d)) i j = (if i < k \<and> j < n then Some d else None)"
  by (auto simp: cell_def)

section \<open>Options and lists\<close>

lemma bind_eq_Some: "(Option.bind x f = Some y) \<longleftrightarrow> (\<exists>a. x = Some a \<and> f a = Some y)"
  by (cases x) auto

lemma map_option_bind: "map_option f (Option.bind x g) = Option.bind x (\<lambda>a. map_option f (g a))"
  by (cases x) auto

lemma update_fresh: "k \<notin> fst ` set al \<Longrightarrow> AList.update k v al = al @ [(k, v)]"
  by (induction al) auto

lemma sorted_remdups_adj_strict: "sorted xs \<Longrightarrow> sorted_wrt (<) (remdups_adj xs)"
  by (induction xs rule: remdups_adj.induct) (auto simp: order.strict_iff_order)

lemma those_eq_Some_conv:
  "those xs = Some ys \<longleftrightarrow> length ys = length xs \<and> (\<forall>i < length xs. xs ! i = Some (ys ! i))"
proof (induction xs arbitrary: ys)
  case Nil
  then show ?case by auto
next
  case (Cons x xs)
  show ?case
  proof (cases ys)
    case Nil
    then show ?thesis by (auto split: option.splits)
  next
    case (Cons y zs)
    then show ?thesis
      using Cons.IH [of zs] by (auto simp: All_less_Suc2 split: option.splits)
  qed
qed

section \<open>Results\<close>

text \<open>A \<open>Result\<close> is a sum with the error on the left; \<open>res_bind\<close> is the \<open>?\<close> operator and \<open>collect_results\<close> the \<open>collect\<close> of results, which stops at the first error.\<close>

fun res_bind :: "'e + 'a \<Rightarrow> ('a \<Rightarrow> 'e + 'b) \<Rightarrow> 'e + 'b" where
  "res_bind (Inl e) f = Inl e"
| "res_bind (Inr a) f = f a"

fun collect_results :: "('e + 'a) list \<Rightarrow> 'e + 'a list" where
  "collect_results [] = Inr []"
| "collect_results (r # rs) = res_bind r (\<lambda>a. res_bind (collect_results rs) (\<lambda>as. Inr (a # as)))"

definition ok_or :: "'a option \<Rightarrow> 'e \<Rightarrow> 'e + 'a" where
  "ok_or x e = (case x of Some a \<Rightarrow> Inr a | None \<Rightarrow> Inl e)"

lemma res_bind_cong [fundef_cong]: "m = m' \<Longrightarrow> (\<And>a. m' = Inr a \<Longrightarrow> f a = f' a) \<Longrightarrow> res_bind m f = res_bind m' f'"
  by (cases m') auto

lemma res_bind_Inr: "res_bind m f = Inr b \<longleftrightarrow> (\<exists>a. m = Inr a \<and> f a = Inr b)"
  by (cases m) auto

lemma collect_results_Inr: "collect_results rs = Inr as \<Longrightarrow> rs = map Inr as"
  by (induction rs arbitrary: as) (auto simp: res_bind_Inr)

lemma ok_or_Inr [simp]: "ok_or x e = Inr a \<longleftrightarrow> x = Some a"
  by (cases x) (auto simp: ok_or_def)

section \<open>Refinement of operation sequences\<close>

text \<open>
  A component promises an abstract specification: each operation, run in a state that
  satisfies the invariant and under its precondition, succeeds, keeps the invariant, and
  changes the abstract state as specified. Then so does every sequence of operations.
\<close>

fun run_steps :: "('op \<Rightarrow> 's \<Rightarrow> 's option) \<Rightarrow> 'op list \<Rightarrow> 's \<Rightarrow> 's option" where
  "run_steps step [] s = Some s"
| "run_steps step (x # xs) s = Option.bind (step x s) (run_steps step xs)"

fun run_pre :: "('op \<Rightarrow> 'a \<Rightarrow> bool) \<Rightarrow> ('op \<Rightarrow> 'a \<Rightarrow> 'a) \<Rightarrow> 'op list \<Rightarrow> 'a \<Rightarrow> bool" where
  "run_pre pre spec [] a = True"
| "run_pre pre spec (x # xs) a = (pre x a \<and> run_pre pre spec xs (spec x a))"

locale refinement =
  fixes ok :: "'s \<Rightarrow> bool" and abs :: "'s \<Rightarrow> 'a"
    and step :: "'op \<Rightarrow> 's \<Rightarrow> 's option" and spec :: "'op \<Rightarrow> 'a \<Rightarrow> 'a" and pre :: "'op \<Rightarrow> 'a \<Rightarrow> bool"
  assumes simulation: "ok s \<Longrightarrow> pre x (abs s) \<Longrightarrow> \<exists>t. step x s = Some t \<and> ok t \<and> abs t = spec x (abs s)"
begin

lemma run_refines:
  "ok s \<Longrightarrow> run_pre pre spec xs (abs s) \<Longrightarrow>
   \<exists>t. run_steps step xs s = Some t \<and> ok t \<and> abs t = fold spec xs (abs s)"
proof (induction xs arbitrary: s)
  case Nil
  then show ?case by simp
next
  case (Cons x xs)
  then obtain u where u: "step x s = Some u" "ok u" "abs u = spec x (abs s)"
    using simulation [of s x] by auto
  with Cons.IH [of u] Cons.prems show ?case by simp
qed

end

end
