(* ===== verification/CQ_Schema.thy ===== *)
theory CQ_Schema
  imports CQ_Prelude
begin

text \<open>
  The schema model of \<open>crates/cq-core/src/schema.rs\<close>: column types and their widening, the
  immutable \<open>Schema\<close> with its name index, and the layout computation that gives every
  column an array of its own. The lemmas show that widening is a join, that the name index
  finds exactly the columns of the schema, and that no two columns share an array.
\<close>

section \<open>Column types\<close>

datatype column_type = TDouble | TLong | TInt | TString | TBool | TTimestamp | TBytes

fun widen :: "column_type \<Rightarrow> column_type \<Rightarrow> column_type" where
  "widen a b =
     (if a = b then a
      else case (a, b) of
        (TLong, TDouble) \<Rightarrow> TDouble | (TDouble, TLong) \<Rightarrow> TDouble
      | (TInt, TLong) \<Rightarrow> TLong | (TLong, TInt) \<Rightarrow> TLong
      | (TInt, TDouble) \<Rightarrow> TDouble | (TDouble, TInt) \<Rightarrow> TDouble
      | _ \<Rightarrow> TString)"

fun type_from_json :: "json \<Rightarrow> column_type" where
  "type_from_json (JNumber n) = (if num_is_f64 n then TDouble else TLong)"
| "type_from_json (JBool _) = TBool"
| "type_from_json _ = TString"

definition infer_from_str :: "externals \<Rightarrow> string \<Rightarrow> column_type" where
  "infer_from_str ext s =
     (if s = [] then TString
      else if parse_i64 s \<noteq> None then TLong
      else if f64_parse ext s \<noteq> None then TDouble
      else TString)"

section \<open>Schemas\<close>

record column =
  col_name :: string
  col_type :: column_type
  col_index :: nat

record column_mapping =
  kind :: column_type
  array_index :: nat

record schema =
  columns :: "column list"
  name_to_index :: "string \<rightharpoonup> nat"

fun enumerate_columns :: "nat \<Rightarrow> (string \<times> column_type) list \<Rightarrow> column list" where
  "enumerate_columns i [] = []"
| "enumerate_columns i ((n, t) # rest) =
     \<lparr>col_name = n, col_type = t, col_index = i\<rparr> # enumerate_columns (Suc i) rest"

definition index_columns :: "column list \<Rightarrow> (string \<rightharpoonup> nat)" where
  "index_columns cols = fold (\<lambda>c m. m(col_name c \<mapsto> col_index c)) cols Map.empty"

definition schema_new :: "string list \<Rightarrow> column_type list \<Rightarrow> schema option" where
  "schema_new names types =
     (if length names \<noteq> length types then None
      else let cols = enumerate_columns 0 (zip names types)
           in Some \<lparr>columns = cols, name_to_index = index_columns cols\<rparr>)"

definition rebuild_index :: "schema \<Rightarrow> schema" where
  "rebuild_index s = s\<lparr>name_to_index := index_columns (columns s)\<rparr>"

definition column_count :: "schema \<Rightarrow> nat" where "column_count s = length (columns s)"
definition has_column :: "schema \<Rightarrow> string \<Rightarrow> bool" where "has_column s n = (name_to_index s n \<noteq> None)"
definition index_of :: "schema \<Rightarrow> string \<Rightarrow> nat option" where "index_of s n = name_to_index s n"

definition column_at :: "schema \<Rightarrow> nat \<Rightarrow> column option" where
  "column_at s i = (if i < length (columns s) then Some (columns s ! i) else None)"

definition column_type_at :: "schema \<Rightarrow> nat \<Rightarrow> column_type option" where
  "column_type_at s i = map_option col_type (column_at s i)"

definition column_name_at :: "schema \<Rightarrow> nat \<Rightarrow> string option" where
  "column_name_at s i = map_option col_name (column_at s i)"

section \<open>Array layout\<close>

record type_counts =
  double_count :: nat
  long_count :: nat
  int_count :: nat
  string_count :: nat
  bool_count :: nat
  timestamp_count :: nat
  bytes_count :: nat

definition no_counts :: type_counts where
  "no_counts = \<lparr>double_count = 0, long_count = 0, int_count = 0, string_count = 0,
                bool_count = 0, timestamp_count = 0, bytes_count = 0\<rparr>"

fun count_for :: "column_type \<Rightarrow> type_counts \<Rightarrow> nat" where
  "count_for TDouble c = double_count c"
| "count_for TLong c = long_count c"
| "count_for TInt c = int_count c"
| "count_for TString c = string_count c"
| "count_for TBool c = bool_count c"
| "count_for TTimestamp c = timestamp_count c"
| "count_for TBytes c = bytes_count c"

fun bump_count :: "column_type \<Rightarrow> type_counts \<Rightarrow> type_counts" where
  "bump_count TDouble c = c\<lparr>double_count := double_count c + 1\<rparr>"
| "bump_count TLong c = c\<lparr>long_count := long_count c + 1\<rparr>"
| "bump_count TInt c = c\<lparr>int_count := int_count c + 1\<rparr>"
| "bump_count TString c = c\<lparr>string_count := string_count c + 1\<rparr>"
| "bump_count TBool c = c\<lparr>bool_count := bool_count c + 1\<rparr>"
| "bump_count TTimestamp c = c\<lparr>timestamp_count := timestamp_count c + 1\<rparr>"
| "bump_count TBytes c = c\<lparr>bytes_count := bytes_count c + 1\<rparr>"

fun mappings_from :: "type_counts \<Rightarrow> column list \<Rightarrow> column_mapping list" where
  "mappings_from c [] = []"
| "mappings_from c (col # cols) =
     \<lparr>kind = col_type col, array_index = count_for (col_type col) c\<rparr>
       # mappings_from (bump_count (col_type col) c) cols"

definition compute_mappings :: "schema \<Rightarrow> column_mapping list" where
  "compute_mappings s = mappings_from no_counts (columns s)"

definition type_counts_of :: "schema \<Rightarrow> type_counts" where
  "type_counts_of s = fold (\<lambda>col c. bump_count (col_type col) c) (columns s) no_counts"

section \<open>Widening is a join\<close>

lemma widen_idem: "widen a a = a"
  by simp

lemma widen_commute: "widen a b = widen b a"
  by (cases a; cases b) simp_all

lemma widen_assoc: "widen (widen a b) c = widen a (widen b c)"
  by (cases a; cases b; cases c) simp_all

lemma widen_absorb: "widen a (widen a b) = widen a b"
  by (cases a; cases b) simp_all

section \<open>The name index\<close>

lemma enumerate_columns_length [simp]: "length (enumerate_columns i nts) = length nts"
  by (induction i nts rule: enumerate_columns.induct) auto

lemma enumerate_columns_nth:
  "k < length nts \<Longrightarrow>
   enumerate_columns i nts ! k = \<lparr>col_name = fst (nts ! k), col_type = snd (nts ! k), col_index = i + k\<rparr>"
  by (induction i nts arbitrary: k rule: enumerate_columns.induct) (auto simp: nth_Cons')

lemma map_col_name_enumerate [simp]: "map col_name (enumerate_columns i nts) = map fst nts"
  by (induction i nts rule: enumerate_columns.induct) auto

lemma map_col_type_enumerate [simp]: "map col_type (enumerate_columns i nts) = map snd nts"
  by (induction i nts rule: enumerate_columns.induct) auto

lemma index_columns_snoc:
  "index_columns (cols @ [c]) = (index_columns cols)(col_name c \<mapsto> col_index c)"
  by (simp add: index_columns_def)

text \<open>Where names repeat, the last column of that name is the one that is found.\<close>

lemma index_columns_Some:
  "index_columns cols n = Some i \<longleftrightarrow>
     (\<exists>k < length cols. col_name (cols ! k) = n \<and> col_index (cols ! k) = i \<and>
        (\<forall>j < length cols. k < j \<longrightarrow> col_name (cols ! j) \<noteq> n))"
proof (induction cols arbitrary: i rule: rev_induct)
  case Nil
  then show ?case by (simp add: index_columns_def)
next
  case (snoc c cols)
  show ?case
  proof (cases "col_name c = n")
    case True
    show ?thesis
    proof
      assume "index_columns (cols @ [c]) n = Some i"
      then have "col_index c = i" using True by (simp add: index_columns_snoc)
      then show "\<exists>k < length (cols @ [c]). col_name ((cols @ [c]) ! k) = n \<and>
          col_index ((cols @ [c]) ! k) = i \<and>
          (\<forall>j < length (cols @ [c]). k < j \<longrightarrow> col_name ((cols @ [c]) ! j) \<noteq> n)"
        using True by (intro exI [of _ "length cols"]) simp
    next
      assume "\<exists>k < length (cols @ [c]). col_name ((cols @ [c]) ! k) = n \<and>
          col_index ((cols @ [c]) ! k) = i \<and>
          (\<forall>j < length (cols @ [c]). k < j \<longrightarrow> col_name ((cols @ [c]) ! j) \<noteq> n)"
      then obtain k where k: "k \<le> length cols" "col_index ((cols @ [c]) ! k) = i"
        and last: "\<forall>j \<le> length cols. k < j \<longrightarrow> col_name ((cols @ [c]) ! j) \<noteq> n"
        by (auto simp: less_Suc_eq_le)
      from last True have "\<not> k < length cols" by (auto dest: spec [of _ "length cols"])
      with k have "col_index c = i" by (simp add: nth_append)
      then show "index_columns (cols @ [c]) n = Some i"
        using True by (simp add: index_columns_snoc)
    qed
  next
    case False
    then have "index_columns (cols @ [c]) n = index_columns cols n"
      by (simp add: index_columns_snoc)
    with snoc.IH [of i] False show ?thesis
      by (auto simp: nth_append less_Suc_eq)
  qed
qed

lemma schema_new_wf:
  assumes "schema_new names types = Some s"
  shows "map col_name (columns s) = names" "map col_type (columns s) = types"
    and "\<forall>i < length (columns s). col_index (columns s ! i) = i"
    and "name_to_index s = index_columns (columns s)"
  using assms by (auto simp: schema_new_def Let_def enumerate_columns_nth split: if_splits)

section \<open>No two columns share an array\<close>

lemma count_bump: "count_for t (bump_count u c) = (if t = u then Suc (count_for t c) else count_for t c)"
  by (cases t; cases u) simp_all

lemma mappings_from_length [simp]: "length (mappings_from c cols) = length cols"
  by (induction c cols rule: mappings_from.induct) auto

lemma mappings_from_nth:
  "i < length cols \<Longrightarrow>
   mappings_from c cols ! i =
     \<lparr>kind = col_type (cols ! i),
      array_index = count_for (col_type (cols ! i)) c +
        count_list (map col_type (take i cols)) (col_type (cols ! i))\<rparr>"
proof (induction c cols arbitrary: i rule: mappings_from.induct)
  case (1 c)
  then show ?case by simp
next
  case (2 c col cols)
  then show ?case by (cases i) (auto simp: count_bump)
qed

lemma count_fold_bump:
  "count_for t (fold (\<lambda>col c. bump_count (col_type col) c) cols c) =
     count_for t c + count_list (map col_type cols) t"
  by (induction cols arbitrary: c) (auto simp: count_bump)

lemma count_for_no_counts [simp]: "count_for t no_counts = 0"
  by (cases t) (simp_all add: no_counts_def)

lemma count_for_type_counts: "count_for t (type_counts_of s) = count_list (map col_type (columns s)) t"
  by (simp add: type_counts_of_def count_fold_bump)

lemma compute_mappings_length [simp]: "length (compute_mappings s) = length (columns s)"
  by (simp add: compute_mappings_def)

lemma compute_mappings_nth:
  "i < length (columns s) \<Longrightarrow>
   compute_mappings s ! i =
     \<lparr>kind = col_type (columns s ! i),
      array_index = count_list (map col_type (take i (columns s))) (col_type (columns s ! i))\<rparr>"
  by (simp add: compute_mappings_def mappings_from_nth)

lemma count_list_take_mono: "i \<le> j \<Longrightarrow> count_list (take i xs) x \<le> count_list (take j xs) x"
proof -
  assume "i \<le> j"
  then have "take j xs = take i xs @ take (j - i) (drop i xs)"
    by (metis le_add_diff_inverse take_add)
  then show ?thesis by simp
qed

lemma count_list_take_less:
  assumes "i < j" "i < length xs"
  shows "count_list (take i xs) (xs ! i) < count_list (take j xs) (xs ! i)"
proof -
  have "count_list (take (Suc i) xs) (xs ! i) \<le> count_list (take j xs) (xs ! i)"
    using assms by (intro count_list_take_mono) simp
  with assms show ?thesis by (simp add: take_Suc_conv_app_nth)
qed

lemma compute_mappings_inj:
  assumes "i < length (columns s)" "j < length (columns s)" "i \<noteq> j"
  shows "compute_mappings s ! i \<noteq> compute_mappings s ! j"
proof -
  have less: "compute_mappings s ! i \<noteq> compute_mappings s ! j" if "i < j" "j < length (columns s)" for i j
  proof
    assume eq: "compute_mappings s ! i = compute_mappings s ! j"
    from that have i: "i < length (columns s)" by simp
    with eq that have t: "col_type (columns s ! i) = col_type (columns s ! j)"
      by (simp add: compute_mappings_nth)
    have "count_list (take i (map col_type (columns s))) (map col_type (columns s) ! i)
        < count_list (take j (map col_type (columns s))) (map col_type (columns s) ! i)"
      using that i by (intro count_list_take_less) auto
    with eq t that i show False by (simp add: compute_mappings_nth take_map)
  qed
  from assms consider "i < j" | "j < i" by linarith
  then show ?thesis using less [of i j] less [of j i] assms by cases auto
qed

lemma compute_mappings_bound:
  assumes "i < length (columns s)"
  shows "array_index (compute_mappings s ! i) < count_for (kind (compute_mappings s ! i)) (type_counts_of s)"
proof -
  have "count_list (take i (map col_type (columns s))) (map col_type (columns s) ! i)
      < count_list (take (length (columns s)) (map col_type (columns s))) (map col_type (columns s) ! i)"
    using assms by (intro count_list_take_less) auto
  with assms show ?thesis by (simp add: compute_mappings_nth count_for_type_counts take_map)
qed

section \<open>A concrete schema for the witnesses\<close>

definition sample_schema :: schema where
  "sample_schema = the (schema_new [''id'', ''px'', ''name''] [TLong, TDouble, TString])"

lemma sample_kinds: "map col_type (columns sample_schema) = [TLong, TDouble, TString]"
  by code_simp

section \<open>Properties\<close>

text \<open>
  Widening two column types is a join: the order in which the types of a field are seen
  does not matter, and a type that was widened over absorbs what it already covers.
\<close>

theorem widen_join:
  "widen a a = a \<and> widen a b = widen b a \<and> widen (widen a b) c = widen a (widen b c) \<and>
   widen a (widen a b) = widen a b"
  using widen_idem widen_commute widen_assoc widen_absorb by blast

text \<open>
  C38: The array layout of a schema gives every column an array of its own kind that exists in
  the store, and no two columns share one.
\<close>

theorem layout_disjoint:
  assumes "i < column_count s"
  shows "kind (compute_mappings s ! i) = col_type (columns s ! i) \<and>
     array_index (compute_mappings s ! i) < count_for (kind (compute_mappings s ! i)) (type_counts_of s) \<and>
     (\<forall>j < column_count s. compute_mappings s ! i = compute_mappings s ! j \<longrightarrow> i = j)"
  using assms compute_mappings_bound [of i s] compute_mappings_inj [of i s] compute_mappings_nth [of i s]
  unfolding column_count_def by (metis column_mapping.select_convs(1))

theorem layout_disjoint_witness:
  "1 < column_count sample_schema \<and> kind (compute_mappings sample_schema ! 1) = TDouble"
proof -
  have "column_count sample_schema = 3" and "col_type (columns sample_schema ! 1) = TDouble" by code_simp+
  then show ?thesis using layout_disjoint [of 1 sample_schema] by simp
qed

end
