(* ===== verification/CQ_Value.thy ===== *)
theory CQ_Value
  imports CQ_Schema
begin

text \<open>
  Typed cell values (\<open>Value\<close> in \<open>crates/cq-core/src/store.rs\<close>): the null sentinels, the typed
  readings, the conversion to and from JSON documents and the timestamp conversions. The
  lemmas state when a value is null, that the conversion into a column's type always gives a
  value of that type, and that a stored value survives the way over JSON and back.
\<close>

section \<open>Values and null sentinels\<close>

datatype cq_value =
    VDouble f64
  | VLong i64
  | VInt i32
  | VString "string option"
  | VBool "bool option"
  | VTimestamp i64
  | VBytes "8 word list option"
  | VNull

abbreviation NULL_DOUBLE :: f64 where "NULL_DOUBLE \<equiv> f64_nan"
abbreviation NULL_LONG :: i64 where "NULL_LONG \<equiv> i64_min"
abbreviation NULL_INT :: i32 where "NULL_INT \<equiv> i32_min"
abbreviation NULL_TIMESTAMP :: i64 where "NULL_TIMESTAMP \<equiv> i64_min"

fun as_f64 :: "cq_value \<Rightarrow> f64 option" where
  "as_f64 (VDouble v) = (if f64_is_nan v then None else Some v)"
| "as_f64 (VLong v) = (if v \<noteq> NULL_LONG then Some (f64_of_int (sint v)) else None)"
| "as_f64 (VInt v) = (if v \<noteq> NULL_INT then Some (f64_of_int (sint v)) else None)"
| "as_f64 (VTimestamp v) = (if v \<noteq> NULL_TIMESTAMP then Some (f64_of_int (sint v)) else None)"
| "as_f64 _ = None"

fun as_i64 :: "cq_value \<Rightarrow> i64 option" where
  "as_i64 (VLong v) = (if v \<noteq> NULL_LONG then Some v else None)"
| "as_i64 (VInt v) = (if v \<noteq> NULL_INT then Some (i32_as_i64 v) else None)"
| "as_i64 _ = None"

fun as_str :: "cq_value \<Rightarrow> string option" where
  "as_str (VString v) = v"
| "as_str _ = None"

fun as_bool :: "cq_value \<Rightarrow> bool option" where
  "as_bool (VBool v) = v"
| "as_bool _ = None"

fun as_timestamp_micros :: "cq_value \<Rightarrow> i64 option" where
  "as_timestamp_micros (VTimestamp v) = (if v \<noteq> NULL_TIMESTAMP then Some v else None)"
| "as_timestamp_micros _ = None"

fun value_is_null :: "cq_value \<Rightarrow> bool" where
  "value_is_null (VDouble v) = f64_is_nan v"
| "value_is_null (VLong v) = (v = NULL_LONG)"
| "value_is_null (VInt v) = (v = NULL_INT)"
| "value_is_null (VString v) = (v = None)"
| "value_is_null (VBool v) = (v = None)"
| "value_is_null (VTimestamp v) = (v = NULL_TIMESTAMP)"
| "value_is_null (VBytes v) = (v = None)"
| "value_is_null VNull = True"

text \<open>The derived \<open>PartialEq\<close>: floats compare with \<open>==\<close>, so a NaN differs from itself.\<close>

fun value_eq :: "cq_value \<Rightarrow> cq_value \<Rightarrow> bool" where
  "value_eq (VDouble a) (VDouble b) = f64_eq a b"
| "value_eq a b = (a = b)"

section \<open>Timestamps\<close>

definition parse_timestamp_str :: "externals \<Rightarrow> string \<Rightarrow> i64 option" where
  "parse_timestamp_str ext s =
     (case parse_rfc3339 ext s of Some t \<Rightarrow> Some t | None \<Rightarrow>
      case parse_naive ext ''%Y-%m-%dT%H:%M:%S%.f'' s of Some t \<Rightarrow> Some t | None \<Rightarrow>
      case parse_naive ext ''%Y-%m-%dT%H:%M:%S'' s of Some t \<Rightarrow> Some t | None \<Rightarrow>
      case parse_naive ext ''%Y-%m-%d %H:%M:%S%.f'' s of Some t \<Rightarrow> Some t | None \<Rightarrow>
      case parse_naive ext ''%Y-%m-%d %H:%M:%S'' s of Some t \<Rightarrow> Some t | None \<Rightarrow>
      parse_date ext ''%Y-%m-%d'' s)"

fun parse_timestamp_json :: "externals \<Rightarrow> json \<Rightarrow> i64" where
  "parse_timestamp_json ext JNull = NULL_TIMESTAMP"
| "parse_timestamp_json ext (JString s) =
     (case parse_timestamp_str ext s of Some t \<Rightarrow> t | None \<Rightarrow> NULL_TIMESTAMP)"
| "parse_timestamp_json ext (JNumber n) =
     (let raw = (case num_as_i64 n of Some v \<Rightarrow> v | None \<Rightarrow> NULL_TIMESTAMP)
      in if raw = NULL_TIMESTAMP then NULL_TIMESTAMP
         else if \<bar>sint raw\<bar> < 100000000000 then sat_i64 (sint raw * 1000000)
         else if \<bar>sint raw\<bar> < 100000000000000 then sat_i64 (sint raw * 1000)
         else if \<bar>sint raw\<bar> < 100000000000000000 then raw
         else word_of_int (trunc_div (sint raw) 1000))"
| "parse_timestamp_json ext _ = NULL_TIMESTAMP"

definition format_timestamp_micros :: "externals \<Rightarrow> i64 \<Rightarrow> string" where
  "format_timestamp_micros ext micros =
     (case chrono_format ext (sint micros div 1000000) (sint micros mod 1000000 * 1000) of
        Some t \<Rightarrow> t
      | None \<Rightarrow> show_int (sint micros))"

section \<open>JSON conversions\<close>

fun to_json :: "externals \<Rightarrow> cq_value \<Rightarrow> json" where
  "to_json ext (VDouble v) = (if f64_is_nan v then JNull else json_of_f64 ext v)"
| "to_json ext (VLong v) = (if v \<noteq> NULL_LONG then json_of_i64 ext v else JNull)"
| "to_json ext (VInt v) = (if v \<noteq> NULL_INT then json_of_i64 ext (i32_as_i64 v) else JNull)"
| "to_json ext (VString (Some s)) = JString s"
| "to_json ext (VBool (Some b)) = JBool b"
| "to_json ext (VTimestamp v) =
     (if v \<noteq> NULL_TIMESTAMP then JString (format_timestamp_micros ext v) else JNull)"
| "to_json ext (VBytes (Some b)) = JString (b64_encode ext b)"
| "to_json ext _ = JNull"

definition bool_of_text :: "string \<Rightarrow> bool option" where
  "bool_of_text s =
     (let lc = ascii_lower s
      in if lc \<in> {''true'', ''1'', ''yes'', ''y''} then Some True
         else if lc \<in> {''false'', ''0'', ''no'', ''n''} then Some False
         else None)"

definition option_word :: "int option \<Rightarrow> 'a::len word \<Rightarrow> 'a word" where
  "option_word x d = (case x of Some n \<Rightarrow> word_of_int n | None \<Rightarrow> d)"

fun from_json :: "externals \<Rightarrow> json \<Rightarrow> column_type \<Rightarrow> cq_value" where
  "from_json ext j TDouble =
     (case j of
        JNumber n \<Rightarrow> VDouble (case num_as_f64 n of Some v \<Rightarrow> v | None \<Rightarrow> NULL_DOUBLE)
      | JString s \<Rightarrow> VDouble (case f64_parse ext s of Some v \<Rightarrow> v | None \<Rightarrow> NULL_DOUBLE)
      | _ \<Rightarrow> VDouble NULL_DOUBLE)"
| "from_json ext j TLong =
     (case j of
        JNumber n \<Rightarrow> VLong (case num_as_i64 n of Some v \<Rightarrow> v | None \<Rightarrow> NULL_LONG)
      | JString s \<Rightarrow> VLong (option_word (parse_i64 s) NULL_LONG)
      | _ \<Rightarrow> VLong NULL_LONG)"
| "from_json ext j TInt =
     (case j of
        JNumber n \<Rightarrow> VInt (case num_as_i64 n of Some v \<Rightarrow> i64_as_i32 v | None \<Rightarrow> NULL_INT)
      | JString s \<Rightarrow> VInt (option_word (parse_i32 s) NULL_INT)
      | _ \<Rightarrow> VInt NULL_INT)"
| "from_json ext j TString =
     (case j of
        JString s \<Rightarrow> VString (Some s)
      | JNull \<Rightarrow> VString None
      | JBool b \<Rightarrow> VString (Some (if b then ''true'' else ''false''))
      | other \<Rightarrow> VString (Some (json_text ext other)))"
| "from_json ext j TBool =
     (case j of
        JBool b \<Rightarrow> VBool (Some b)
      | JString s \<Rightarrow> VBool (bool_of_text s)
      | JNumber n \<Rightarrow> VBool (map_option (\<lambda>v. v \<noteq> 0) (num_as_i64 n))
      | _ \<Rightarrow> VBool None)"
| "from_json ext j TTimestamp = VTimestamp (parse_timestamp_json ext j)"
| "from_json ext j TBytes =
     (case j of
        JString s \<Rightarrow> VBytes (b64_decode ext s)
      | _ \<Rightarrow> VBytes None)"

section \<open>Types of values\<close>

fun typed :: "column_type \<Rightarrow> cq_value \<Rightarrow> bool" where
  "typed TDouble v = (case v of VDouble _ \<Rightarrow> True | _ \<Rightarrow> False)"
| "typed TLong v = (case v of VLong _ \<Rightarrow> True | _ \<Rightarrow> False)"
| "typed TInt v = (case v of VInt _ \<Rightarrow> True | _ \<Rightarrow> False)"
| "typed TString v = (case v of VString _ \<Rightarrow> True | _ \<Rightarrow> False)"
| "typed TBool v = (case v of VBool _ \<Rightarrow> True | _ \<Rightarrow> False)"
| "typed TTimestamp v = (case v of VTimestamp _ \<Rightarrow> True | _ \<Rightarrow> False)"
| "typed TBytes v = (case v of VBytes _ \<Rightarrow> True | _ \<Rightarrow> False)"

fun null_value :: "column_type \<Rightarrow> cq_value" where
  "null_value TDouble = VDouble NULL_DOUBLE"
| "null_value TLong = VLong NULL_LONG"
| "null_value TInt = VInt NULL_INT"
| "null_value TString = VString None"
| "null_value TBool = VBool None"
| "null_value TTimestamp = VTimestamp NULL_TIMESTAMP"
| "null_value TBytes = VBytes None"

lemma typed_null_value [simp]: "typed k (null_value k)"
  by (cases k) simp_all

lemma null_value_is_null [simp]: "value_is_null (null_value k)"
  by (cases k) simp_all

lemma typed_from_json: "typed k (from_json ext j k)"
  by (cases k; cases j) simp_all

lemma typed_not_VNull [simp]: "\<not> typed k VNull"
  by (cases k) simp_all

lemma from_json_not_VNull: "from_json ext j k \<noteq> VNull"
  using typed_from_json [of k ext j] by auto

lemma to_json_null: "value_is_null v \<Longrightarrow> to_json ext v = JNull"
  by (cases v) auto

lemma from_json_null [simp]: "from_json ext JNull k = null_value k"
  by (cases k) simp_all

lemma sint_sat_i64: "sint (sat_i64 n) = max (- (2 ^ 63)) (min (2 ^ 63 - 1) n)"
  by (simp add: sat_i64_def sint_sbintrunc' signed_take_bit_int_eq_self)

section \<open>What the JSON round trip needs of the libraries\<close>

text \<open>
  Documented behaviour of the libraries, as far as the round trip relies on it: an \<open>i64\<close> put
  into a document is read back by \<open>as_i64\<close>, a finite float by \<open>as_f64\<close>, the base64 engine
  decodes what it encoded, and the printed form of an instant of the years 1 to 9999 is
  parsed to the same instant.
\<close>

definition chrono_range :: "i64 \<Rightarrow> bool" where
  "chrono_range v \<longleftrightarrow> - 62135596800000000 \<le> sint v \<and> sint v \<le> 253402300799999999"

definition json_laws :: "externals \<Rightarrow> bool" where
  "json_laws ext \<longleftrightarrow>
     (\<forall>v. \<exists>n. json_of_i64 ext v = JNumber n \<and> num_as_i64 n = Some v) \<and>
     (\<forall>x. \<not> f64_is_nan x \<and> \<not> f64_is_infinite x \<longrightarrow>
        (\<exists>n. json_of_f64 ext x = JNumber n \<and> num_as_f64 n = Some x)) \<and>
     (\<forall>b. b64_decode ext (b64_encode ext b) = Some b) \<and>
     (\<forall>v. chrono_range v \<longrightarrow>
        parse_timestamp_str ext (format_timestamp_micros ext v) = Some v)"

text \<open>The values of a cell that the wire form can carry: not null, finite, a printable instant.\<close>

fun json_safe :: "cq_value \<Rightarrow> bool" where
  "json_safe (VDouble x) = (\<not> f64_is_nan x \<and> \<not> f64_is_infinite x)"
| "json_safe (VTimestamp v) = (v \<noteq> NULL_TIMESTAMP \<and> chrono_range v)"
| "json_safe v = (\<not> value_is_null v)"

lemma i64_as_i32_i32_as_i64 [simp]: "i64_as_i32 (i32_as_i64 v) = v"
  by (rule bit_word_eqI) (auto simp: i64_as_i32_def i32_as_i64_def bit_simps)

lemma json_round_trip:
  assumes laws: "json_laws ext" and k: "typed k v" and safe: "json_safe v"
  shows "from_json ext (to_json ext v) k = v"
proof (cases v)
  case (VLong x)
  obtain n where "json_of_i64 ext x = JNumber n" "num_as_i64 n = Some x"
    using laws unfolding json_laws_def by blast
  with VLong k safe show ?thesis by (cases k) auto
next
  case (VInt x)
  obtain n where "json_of_i64 ext (i32_as_i64 x) = JNumber n" "num_as_i64 n = Some (i32_as_i64 x)"
    using laws unfolding json_laws_def by blast
  with VInt k safe show ?thesis by (cases k) auto
next
  case (VDouble x)
  with safe obtain n where "json_of_f64 ext x = JNumber n" "num_as_f64 n = Some x"
    using laws unfolding json_laws_def by auto
  with VDouble k safe show ?thesis by (cases k) auto
next
  case (VTimestamp x)
  with safe have "parse_timestamp_str ext (format_timestamp_micros ext x) = Some x"
    using laws unfolding json_laws_def by auto
  with VTimestamp k safe show ?thesis by (cases k) auto
next
  case (VBytes x)
  then obtain b where "x = Some b" using safe by auto
  moreover have "b64_decode ext (b64_encode ext b) = Some b"
    using laws unfolding json_laws_def by blast
  ultimately show ?thesis using VBytes k by (cases k) auto
qed (use k safe in \<open>cases k; auto\<close>)+

section \<open>Properties\<close>

lemma sample_format: "format_timestamp_micros sample_externals v = show_int (sint v)"
  by (simp add: format_timestamp_micros_def sample_externals_def)

lemma i64_range: "- (2 ^ 63) \<le> sint (v :: i64)" "sint (v :: i64) \<le> 2 ^ 63 - 1"
  using sint_ge [of v] sint_lt [of v] by simp_all

lemma sample_json_laws: "json_laws sample_externals"
proof -
  have "parse_i64 (show_int (sint v)) = Some (sint v)" for v :: i64
    using i64_range [of v] by (intro parse_show_int) auto
  then have "parse_timestamp_str sample_externals (format_timestamp_micros sample_externals v) = Some v" for v
    unfolding sample_format by (simp add: parse_timestamp_str_def sample_externals_def)
  moreover have "(map ((\<lambda>c. of_nat (of_char c)) \<circ> (\<lambda>b. char_of (unat b))) b :: 8 word list) = b" for b
  proof (rule map_idI)
    fix x :: "8 word"
    have "unat x < 256" using unsigned_less [of x, where 'a = nat] by simp
    then show "((\<lambda>c. of_nat (of_char c)) \<circ> (\<lambda>b. char_of (unat b))) x = x" by simp
  qed
  ultimately show ?thesis
    by (simp add: json_laws_def) (simp add: sample_externals_def)
qed

text \<open>
  A cell value that is not null, not an infinite or NaN float and not an instant outside
  the years 1 to 9999 survives the way over JSON: converting it to a document and parsing the
  document at the column's type gives the value back.
\<close>

theorem value_json_round_trip:
  assumes "json_laws ext" "typed k v" "json_safe v"
  shows "from_json ext (to_json ext v) k = v"
  using assms by (rule json_round_trip)

theorem value_json_round_trip_witness:
  "from_json sample_externals (to_json sample_externals (VBytes (Some [255, 0]))) TBytes = VBytes (Some [255, 0])"
  by (rule value_json_round_trip) (simp_all add: sample_json_laws)

text \<open>
  Parsing any document at a column type gives a value of that type, never the untyped
  null, and a JSON null gives the type's null sentinel, which is read as null.
\<close>

theorem from_json_typed:
  "typed k (from_json ext j k) \<and> from_json ext j k \<noteq> VNull \<and> from_json ext JNull k = null_value k \<and>
   value_is_null (null_value k)"
  using typed_from_json from_json_not_VNull by auto

end
