(* ===== verification/CQ_Store.thy ===== *)
theory CQ_Store
  imports CQ_Value
begin

text \<open>
  The columnar store (\<open>ColumnStore\<close> in \<open>crates/cq-core/src/store.rs\<close>): one typed array per
  column, addressed through the layout of the schema, with per-row version stamps. Every
  operation that indexes an array returns \<open>None\<close> where the Rust code panics.

  Shown here: the store invariant \<open>store_ok\<close> and that every operation keeps it and does not
  panic under it; that a write changes exactly one cell; the row operations as operations on
  a table of values; that growing and shrinking keep every row; and that the moving variants
  \<open>set_owned\<close> and \<open>append_row_owned\<close> do what the copying ones do.
\<close>

section \<open>State\<close>

record column_store =
  cs_schema :: schema
  mappings :: "column_mapping list"
  double_cols :: "f64 list list"
  long_cols :: "i64 list list"
  int_cols :: "i32 list list"
  string_cols :: "string option list list"
  bool_cols :: "bool option list list"
  timestamp_cols :: "i64 list list"
  bytes_cols :: "8 word list option list list"
  row_count :: nat
  capacity :: nat
  row_versions :: "nat list"
  global_version :: nat

definition column_store_new :: "schema \<Rightarrow> nat \<Rightarrow> column_store" where
  "column_store_new sch cap =
     (let counts = type_counts_of sch in
      \<lparr>cs_schema = sch, mappings = compute_mappings sch,
       double_cols = replicate (double_count counts) (replicate cap NULL_DOUBLE),
       long_cols = replicate (long_count counts) (replicate cap NULL_LONG),
       int_cols = replicate (int_count counts) (replicate cap NULL_INT),
       string_cols = replicate (string_count counts) (replicate cap None),
       bool_cols = replicate (bool_count counts) (replicate cap None),
       timestamp_cols = replicate (timestamp_count counts) (replicate cap NULL_TIMESTAMP),
       bytes_cols = replicate (bytes_count counts) (replicate cap None),
       row_count = 0, capacity = cap, row_versions = replicate cap 0, global_version = 0\<rparr>)"

section \<open>Cells\<close>

fun get_cell :: "column_store \<Rightarrow> column_type \<Rightarrow> nat \<Rightarrow> nat \<Rightarrow> cq_value option" where
  "get_cell s TDouble a r = map_option VDouble (cell (double_cols s) a r)"
| "get_cell s TLong a r = map_option VLong (cell (long_cols s) a r)"
| "get_cell s TInt a r = map_option VInt (cell (int_cols s) a r)"
| "get_cell s TString a r = map_option VString (cell (string_cols s) a r)"
| "get_cell s TBool a r = map_option VBool (cell (bool_cols s) a r)"
| "get_cell s TTimestamp a r = map_option VTimestamp (cell (timestamp_cols s) a r)"
| "get_cell s TBytes a r = map_option VBytes (cell (bytes_cols s) a r)"

definition get_value :: "column_store \<Rightarrow> nat \<Rightarrow> nat \<Rightarrow> cq_value option" where
  "get_value s col row =
     (if col < length (mappings s)
      then get_cell s (kind (mappings s ! col)) (array_index (mappings s ! col)) row
      else None)"

text \<open>The assignment of one cell, by the kind of the array; a value of another kind has no arm.\<close>

fun put_cell :: "column_store \<Rightarrow> nat \<Rightarrow> nat \<Rightarrow> cq_value \<Rightarrow> column_store option" where
  "put_cell s a r (VDouble v) = map_option (\<lambda>x. s\<lparr>double_cols := x\<rparr>) (set_cell (double_cols s) a r v)"
| "put_cell s a r (VLong v) = map_option (\<lambda>x. s\<lparr>long_cols := x\<rparr>) (set_cell (long_cols s) a r v)"
| "put_cell s a r (VInt v) = map_option (\<lambda>x. s\<lparr>int_cols := x\<rparr>) (set_cell (int_cols s) a r v)"
| "put_cell s a r (VString v) = map_option (\<lambda>x. s\<lparr>string_cols := x\<rparr>) (set_cell (string_cols s) a r v)"
| "put_cell s a r (VBool v) = map_option (\<lambda>x. s\<lparr>bool_cols := x\<rparr>) (set_cell (bool_cols s) a r v)"
| "put_cell s a r (VTimestamp v) =
     map_option (\<lambda>x. s\<lparr>timestamp_cols := x\<rparr>) (set_cell (timestamp_cols s) a r v)"
| "put_cell s a r (VBytes v) = map_option (\<lambda>x. s\<lparr>bytes_cols := x\<rparr>) (set_cell (bytes_cols s) a r v)"
| "put_cell s a r VNull = Some s"

text \<open>
  The arms of \<open>ColumnStore::set\<close>: what is stored when a value is written to a column of a
  kind; \<open>None\<close> is the last arm, which ignores the value.
\<close>

definition text_of_value :: "externals \<Rightarrow> cq_value \<Rightarrow> string option" where
  "text_of_value ext v =
     (case v of
        VDouble x \<Rightarrow> Some (f64_text ext x)
      | VLong x \<Rightarrow> Some (show_int (sint x))
      | VInt x \<Rightarrow> Some (show_int (sint x))
      | VBool (Some b) \<Rightarrow> Some (if b then ''true'' else ''false'')
      | VTimestamp x \<Rightarrow> if x \<noteq> NULL_TIMESTAMP then Some (format_timestamp_micros ext x) else None
      | _ \<Rightarrow> None)"

definition micros_of_value :: "externals \<Rightarrow> cq_value \<Rightarrow> i64" where
  "micros_of_value ext v =
     (case v of
        VString (Some s) \<Rightarrow> (case parse_timestamp_str ext s of Some t \<Rightarrow> t | None \<Rightarrow> NULL_TIMESTAMP)
      | VLong x \<Rightarrow> if x \<noteq> NULL_LONG then x else NULL_TIMESTAMP
      | VInt x \<Rightarrow> if x \<noteq> NULL_INT then i32_as_i64 x else NULL_TIMESTAMP
      | _ \<Rightarrow> NULL_TIMESTAMP)"

definition bool_of_value :: "cq_value \<Rightarrow> bool option" where
  "bool_of_value v =
     (case v of
        VLong x \<Rightarrow> if x \<noteq> NULL_LONG then Some (x \<noteq> 0) else None
      | VInt x \<Rightarrow> if x \<noteq> NULL_INT then Some (x \<noteq> 0) else None
      | VDouble x \<Rightarrow> if f64_is_nan x then None else Some (\<not> f64_eq x 0)
      | VString (Some s) \<Rightarrow> bool_of_text s
      | _ \<Rightarrow> None)"

fun stored_as :: "externals \<Rightarrow> column_type \<Rightarrow> cq_value \<Rightarrow> cq_value option" where
  "stored_as ext TDouble v =
     (case v of
        VDouble x \<Rightarrow> Some (VDouble x)
      | VLong x \<Rightarrow> Some (VDouble (f64_of_int (sint x)))
      | VInt x \<Rightarrow> Some (VDouble (f64_of_int (sint x)))
      | VNull \<Rightarrow> Some (VDouble NULL_DOUBLE)
      | _ \<Rightarrow> None)"
| "stored_as ext TLong v =
     (case v of
        VLong x \<Rightarrow> Some (VLong x)
      | VInt x \<Rightarrow> Some (VLong (i32_as_i64 x))
      | VNull \<Rightarrow> Some (VLong NULL_LONG)
      | _ \<Rightarrow> None)"
| "stored_as ext TInt v =
     (case v of VInt x \<Rightarrow> Some (VInt x) | VNull \<Rightarrow> Some (VInt NULL_INT) | _ \<Rightarrow> None)"
| "stored_as ext TString v =
     (case v of
        VString x \<Rightarrow> Some (VString x)
      | VNull \<Rightarrow> Some (VString None)
      | other \<Rightarrow> Some (VString (text_of_value ext other)))"
| "stored_as ext TBool v =
     (case v of
        VBool x \<Rightarrow> Some (VBool x)
      | VNull \<Rightarrow> Some (VBool None)
      | other \<Rightarrow> Some (VBool (bool_of_value other)))"
| "stored_as ext TTimestamp v =
     (case v of
        VTimestamp x \<Rightarrow> Some (VTimestamp x)
      | VNull \<Rightarrow> Some (VTimestamp NULL_TIMESTAMP)
      | other \<Rightarrow> Some (VTimestamp (micros_of_value ext other)))"
| "stored_as ext TBytes v =
     (case v of VBytes x \<Rightarrow> Some (VBytes x) | VNull \<Rightarrow> Some (VBytes None) | _ \<Rightarrow> None)"

definition set_value :: "externals \<Rightarrow> column_store \<Rightarrow> nat \<Rightarrow> nat \<Rightarrow> cq_value \<Rightarrow> column_store option" where
  "set_value ext s col row v =
     (if col < length (mappings s)
      then case stored_as ext (kind (mappings s ! col)) v of
             Some w \<Rightarrow> put_cell s (array_index (mappings s ! col)) row w
           | None \<Rightarrow> Some s
      else None)"

definition set_owned :: "externals \<Rightarrow> column_store \<Rightarrow> nat \<Rightarrow> nat \<Rightarrow> cq_value \<Rightarrow> column_store option" where
  "set_owned ext s col row v =
     (if col < length (mappings s)
      then case (kind (mappings s ! col), v) of
             (TString, VString x) \<Rightarrow>
               map_option (\<lambda>y. s\<lparr>string_cols := y\<rparr>)
                 (set_cell (string_cols s) (array_index (mappings s ! col)) row x)
           | (TBytes, VBytes x) \<Rightarrow>
               map_option (\<lambda>y. s\<lparr>bytes_cols := y\<rparr>)
                 (set_cell (bytes_cols s) (array_index (mappings s ! col)) row x)
           | (_, other) \<Rightarrow> set_value ext s col row other
      else None)"

section \<open>Rows\<close>

definition grown_capacity :: "nat \<Rightarrow> nat" where
  "grown_capacity cap = (if cap < 64 * 1024 then cap * 2 else cap + max (cap div 4) (64 * 1024))"

definition grow :: "column_store \<Rightarrow> column_store" where
  "grow s =
     (let new_cap = grown_capacity (capacity s) in
      s\<lparr>double_cols := map (resize new_cap NULL_DOUBLE) (double_cols s),
        long_cols := map (resize new_cap NULL_LONG) (long_cols s),
        int_cols := map (resize new_cap NULL_INT) (int_cols s),
        string_cols := map (resize new_cap None) (string_cols s),
        bool_cols := map (resize new_cap None) (bool_cols s),
        timestamp_cols := map (resize new_cap NULL_TIMESTAMP) (timestamp_cols s),
        bytes_cols := map (resize new_cap None) (bytes_cols s),
        row_versions := resize new_cap 0 (row_versions s),
        capacity := new_cap\<rparr>)"

definition shrink_to_fit :: "column_store \<Rightarrow> column_store \<times> nat" where
  "shrink_to_fit s =
     (let target = max (row_count s) 1 in
      if capacity s - target < 16 * 1024 then (s, capacity s)
      else (s\<lparr>double_cols := map (take target) (double_cols s),
              long_cols := map (take target) (long_cols s),
              int_cols := map (take target) (int_cols s),
              string_cols := map (take target) (string_cols s),
              row_versions := take target (row_versions s),
              capacity := target\<rparr>, target))"

text \<open>\<open>row_versions[r]\<close> is stored to; out of range panics.\<close>

definition stamp :: "nat \<Rightarrow> nat \<Rightarrow> column_store \<Rightarrow> column_store option" where
  "stamp r v s = (if r < length (row_versions s) then Some (s\<lparr>row_versions := (row_versions s)[r := v]\<rparr>) else None)"

text \<open>
  The loop over the values of a row: column \<open>i\<close> is written with \<open>put\<close> unless it is past the
  last column or the value is skipped.
\<close>

fun write_columns ::
  "(column_store \<Rightarrow> nat \<Rightarrow> cq_value \<Rightarrow> column_store option) \<Rightarrow> (cq_value \<Rightarrow> bool) \<Rightarrow>
   nat \<Rightarrow> cq_value list \<Rightarrow> column_store \<Rightarrow> column_store option" where
  "write_columns put skip i [] s = Some s"
| "write_columns put skip i (v # vs) s =
     Option.bind (if i < length (mappings s) \<and> \<not> skip v then put s i v else Some s)
       (write_columns put skip (Suc i) vs)"

definition append_row :: "externals \<Rightarrow> column_store \<Rightarrow> cq_value list \<Rightarrow> (column_store \<times> nat) option" where
  "append_row ext s values = do {
     let row = row_count s;
     s1 \<leftarrow> stamp row 1 (if capacity s \<le> row then grow s else s);
     s2 \<leftarrow> write_columns (\<lambda>t i v. set_value ext t i row v) (\<lambda>_. False) 0 values s1;
     s3 \<leftarrow> stamp row 2 s2;
     Some (s3\<lparr>global_version := global_version s3 + 1, row_count := row + 1\<rparr>, row)
   }"

definition append_row_owned ::
  "externals \<Rightarrow> column_store \<Rightarrow> cq_value list \<Rightarrow> (column_store \<times> nat) option" where
  "append_row_owned ext s values = do {
     let row = row_count s;
     s1 \<leftarrow> stamp row 1 (if capacity s \<le> row then grow s else s);
     s2 \<leftarrow> write_columns (\<lambda>t i v. set_owned ext t i row v) (\<lambda>_. False) 0 values s1;
     s3 \<leftarrow> stamp row 2 s2;
     Some (s3\<lparr>global_version := global_version s3 + 1, row_count := row + 1\<rparr>, row)
   }"

text \<open>\<open>version_at s r\<close> is the load of \<open>row_versions[r]\<close>.\<close>

definition version_at :: "column_store \<Rightarrow> nat \<Rightarrow> nat option" where
  "version_at s r = (if r < length (row_versions s) then Some (row_versions s ! r) else None)"

definition write_row_at ::
  "externals \<Rightarrow> column_store \<Rightarrow> nat \<Rightarrow> cq_value list \<Rightarrow> column_store option" where
  "write_row_at ext s slot values = do {
     v \<leftarrow> version_at s slot;
     s1 \<leftarrow> stamp slot (v + 1) s;
     s2 \<leftarrow> write_columns (\<lambda>t i x. set_owned ext t i slot x) (\<lambda>_. False) 0 values s1;
     s3 \<leftarrow> stamp slot (v + 2) s2;
     Some (s3\<lparr>global_version := global_version s3 + 1\<rparr>)
   }"

definition update_row ::
  "externals \<Rightarrow> column_store \<Rightarrow> nat \<Rightarrow> cq_value list \<Rightarrow> column_store option" where
  "update_row ext s row values = do {
     v \<leftarrow> version_at s row;
     s1 \<leftarrow> stamp row (v + 1) s;
     s2 \<leftarrow> write_columns (\<lambda>t i x. set_value ext t i row x) (\<lambda>x. x = VNull) 0 values s1;
     s3 \<leftarrow> stamp row (v + 2) s2;
     Some (s3\<lparr>global_version := global_version s3 + 1\<rparr>)
   }"

fun null_columns :: "nat \<Rightarrow> column_mapping list \<Rightarrow> column_store \<Rightarrow> column_store option" where
  "null_columns row [] s = Some s"
| "null_columns row (m # ms) s =
     Option.bind (put_cell s (array_index m) row (null_value (kind m))) (null_columns row ms)"

definition null_out_row :: "column_store \<Rightarrow> nat \<Rightarrow> column_store option" where
  "null_out_row s row = do {
     v \<leftarrow> version_at s row;
     s1 \<leftarrow> stamp row (v + 1) s;
     s2 \<leftarrow> null_columns row (mappings s1) s1;
     s3 \<leftarrow> stamp row (v + 2) s2;
     Some (s3\<lparr>global_version := global_version s3 + 1\<rparr>)
   }"

section \<open>Cells as a table\<close>

text \<open>The fields that a write to a cell leaves alone.\<close>

definition store_meta :: "column_store \<Rightarrow> schema \<times> column_mapping list \<times> nat \<times> nat \<times> nat list \<times> nat" where
  "store_meta s = (cs_schema s, mappings s, row_count s, capacity s, row_versions s, global_version s)"

lemma get_cell_typed: "get_cell s k a r = Some v \<Longrightarrow> typed k v"
  by (cases k) auto

lemma get_value_typed: "get_value s c r = Some v \<Longrightarrow> typed (kind (mappings s ! c)) v"
  by (auto simp: get_value_def dest: get_cell_typed split: if_splits)

lemma stored_as_typed: "stored_as ext k v = Some w \<Longrightarrow> typed k w"
  by (cases k; cases v) (auto split: if_splits)

lemma stored_as_own_kind: "typed k v \<Longrightarrow> stored_as ext k v = Some v"
  by (cases k; cases v) auto

lemma stored_as_VNull [simp]: "stored_as ext k VNull = Some (null_value k)"
  by (cases k) auto

lemma set_cell_some: "cell xss a r \<noteq> None \<Longrightarrow> \<exists>yss. set_cell xss a r v = Some yss"
  using cell_defined [of xss a r] set_cell_defined [of xss a r v] by auto

lemma put_cell_defined:
  "typed k w \<Longrightarrow> get_cell s k a r \<noteq> None \<Longrightarrow> \<exists>t. put_cell s a r w = Some t"
  by (cases k; cases w) (auto dest!: set_cell_some [OF not_None_eq [THEN iffD2], OF exI])

lemma get_cell_put_cell:
  "put_cell s a r w = Some t \<Longrightarrow> typed k w \<Longrightarrow>
   get_cell t k' a' r' = (if k' = k \<and> a' = a \<and> r' = r then Some w else get_cell s k' a' r')"
  by (cases k; cases w; cases k') (auto simp: cell_set_cell)

lemma put_cell_meta: "put_cell s a r w = Some t \<Longrightarrow> store_meta t = store_meta s"
  by (cases w) (auto simp: store_meta_def)

definition store_layout :: "column_store \<Rightarrow> bool" where
  "store_layout s \<longleftrightarrow> mappings s = compute_mappings (cs_schema s)"

lemma mapping_inj:
  "store_layout s \<Longrightarrow> c < length (mappings s) \<Longrightarrow> d < length (mappings s) \<Longrightarrow>
   kind (mappings s ! c) = kind (mappings s ! d) \<and> array_index (mappings s ! c) = array_index (mappings s ! d)
   \<longleftrightarrow> c = d"
  using compute_mappings_inj [of c "cs_schema s" d]
  by (cases "c = d") (auto simp: store_layout_def intro: column_mapping.equality)

text \<open>What a cell holds after a value is written to it: the value itself when the arm ignores it.\<close>

definition cell_after :: "externals \<Rightarrow> column_type \<Rightarrow> cq_value \<Rightarrow> cq_value \<Rightarrow> cq_value" where
  "cell_after ext k old v = (case stored_as ext k v of Some w \<Rightarrow> w | None \<Rightarrow> old)"

lemma set_value_defined:
  assumes "get_value s c r = Some old"
  shows "\<exists>t. set_value ext s c r v = Some t"
  using assms put_cell_defined [OF stored_as_typed]
  by (fastforce simp: set_value_def get_value_def split: if_splits option.splits)

lemma set_value_meta: "set_value ext s c r v = Some t \<Longrightarrow> store_meta t = store_meta s"
  by (auto simp: set_value_def dest: put_cell_meta split: if_splits option.splits)

lemma get_value_set_value:
  assumes set: "set_value ext s c r v = Some t" and lay: "store_layout s"
    and old: "get_value s c r = Some old"
  shows "get_value t c' r' =
    (if c' = c \<and> r' = r then Some (cell_after ext (kind (mappings s ! c)) old v) else get_value s c' r')"
proof -
  have c: "c < length (mappings s)" using old by (auto simp: get_value_def split: if_splits)
  have m: "mappings t = mappings s" using set_value_meta [OF set] by (simp add: store_meta_def)
  show ?thesis
  proof (cases "stored_as ext (kind (mappings s ! c)) v")
    case None
    then have "t = s" using set c by (simp add: set_value_def)
    then show ?thesis using None old by (simp add: cell_after_def)
  next
    case (Some w)
    with set c have put: "put_cell s (array_index (mappings s ! c)) r w = Some t"
      by (simp add: set_value_def)
    show ?thesis
      using get_cell_put_cell [OF put stored_as_typed [OF Some]] mapping_inj [OF lay _ c, of c'] c m Some
      by (auto simp: get_value_def cell_after_def)
  qed
qed

lemma set_owned_eq_set_value: "set_owned ext s c r v = set_value ext s c r v"
  by (auto simp: set_owned_def set_value_def split: column_type.splits cq_value.splits)

section \<open>The store invariant\<close>

definition row_kinds :: "column_store \<Rightarrow> column_type list" where
  "row_kinds s = map kind (mappings s)"

definition row_of :: "column_store \<Rightarrow> nat \<Rightarrow> cq_value list" where
  "row_of s r = map (\<lambda>c. case get_value s c r of Some v \<Rightarrow> v | None \<Rightarrow> VNull) [0..<length (mappings s)]"

definition store_rows :: "column_store \<Rightarrow> cq_value list list" where
  "store_rows s = map (row_of s) [0..<row_count s]"

text \<open>
  The layout is the one of the schema; every column has a cell for every row up to the
  capacity; the version stamps are even between operations; and the slots past the last row
  are untouched: all null, with stamp zero.
\<close>

definition store_ok :: "column_store \<Rightarrow> bool" where
  "store_ok s \<longleftrightarrow>
     store_layout s \<and> 0 < capacity s \<and> row_count s \<le> capacity s \<and>
     length (row_versions s) = capacity s \<and>
     (\<forall>r < capacity s. even (row_versions s ! r)) \<and>
     (\<forall>c < length (mappings s). \<forall>r < capacity s. get_value s c r \<noteq> None) \<and>
     (\<forall>r < capacity s. row_count s \<le> r \<longrightarrow> row_versions s ! r = 0) \<and>
     (\<forall>c r v. row_count s \<le> r \<and> get_value s c r = Some v \<longrightarrow> v = null_value (kind (mappings s ! c)))"

lemma length_row_of [simp]: "length (row_of s r) = length (mappings s)"
  by (simp add: row_of_def)

lemma length_row_kinds [simp]: "length (row_kinds s) = length (mappings s)"
  by (simp add: row_kinds_def)

lemma length_store_rows [simp]: "length (store_rows s) = row_count s"
  by (simp add: store_rows_def)

lemma store_rows_nth [simp]: "r < row_count s \<Longrightarrow> store_rows s ! r = row_of s r"
  by (simp add: store_rows_def)

lemma row_kinds_nth: "c < length (mappings s) \<Longrightarrow> row_kinds s ! c = kind (mappings s ! c)"
  by (simp add: row_kinds_def)

lemma row_of_nth: "get_value s c r = Some v \<Longrightarrow> row_of s r ! c = v"
  by (auto simp: row_of_def get_value_def split: if_splits)

lemma store_okI:
  assumes "store_layout s" "0 < capacity s" "row_count s \<le> capacity s" "length (row_versions s) = capacity s"
    and "\<And>c r. c < length (mappings s) \<Longrightarrow> r < capacity s \<Longrightarrow> get_value s c r \<noteq> None"
    and "\<And>c r v. row_count s \<le> r \<Longrightarrow> get_value s c r = Some v \<Longrightarrow> v = null_value (kind (mappings s ! c))"
    and "\<And>r. r < capacity s \<Longrightarrow> even (row_versions s ! r)"
    and "\<And>r. r < capacity s \<Longrightarrow> row_count s \<le> r \<Longrightarrow> row_versions s ! r = 0"
  shows "store_ok s"
  unfolding store_ok_def by (intro conjI allI impI) (use assms in blast)+

lemma store_ok_total:
  "store_ok s \<Longrightarrow> c < length (mappings s) \<Longrightarrow> r < capacity s \<Longrightarrow> get_value s c r \<noteq> None"
  unfolding store_ok_def by blast

lemma store_ok_tail:
  "store_ok s \<Longrightarrow> row_count s \<le> r \<Longrightarrow> get_value s c r = Some v \<Longrightarrow> v = null_value (kind (mappings s ! c))"
  unfolding store_ok_def by blast

lemma store_ok_shape:
  assumes "store_ok s"
  shows "store_layout s" "0 < capacity s" "row_count s \<le> capacity s" "length (row_versions s) = capacity s"
    and "r < capacity s \<Longrightarrow> even (row_versions s ! r)"
    and "r < capacity s \<Longrightarrow> row_count s \<le> r \<Longrightarrow> row_versions s ! r = 0"
  using assms unfolding store_ok_def by blast+

lemma store_ok_cell:
  "store_ok s \<Longrightarrow> c < length (mappings s) \<Longrightarrow> r < capacity s \<Longrightarrow> get_value s c r = Some (row_of s r ! c)"
  using store_ok_total [of s c r] row_of_nth [of s c r] by fastforce

lemma row_of_typed:
  "store_ok s \<Longrightarrow> c < length (mappings s) \<Longrightarrow> r < capacity s \<Longrightarrow> typed (row_kinds s ! c) (row_of s r ! c)"
  by (metis get_value_typed row_kinds_nth store_ok_cell)

text \<open>
  A row written over another: position by position the coerced value, the old one where the
  input is shorter, skipped or of a kind the column ignores.
\<close>

definition overlay :: "externals \<Rightarrow> (cq_value \<Rightarrow> bool) \<Rightarrow> column_type list \<Rightarrow> cq_value list \<Rightarrow> cq_value list \<Rightarrow> cq_value list" where
  "overlay ext skip ks old vs =
     map (\<lambda>c. if c < length vs \<and> \<not> skip (vs ! c) then cell_after ext (ks ! c) (old ! c) (vs ! c) else old ! c)
       [0..<length old]"

lemma length_overlay [simp]: "length (overlay ext skip ks old vs) = length old"
  by (simp add: overlay_def)

section \<open>The column loop\<close>

lemma store_meta_fields:
  "store_meta t = store_meta s \<Longrightarrow>
   cs_schema t = cs_schema s \<and> mappings t = mappings s \<and> row_count t = row_count s \<and>
   capacity t = capacity s \<and> row_versions t = row_versions s \<and> global_version t = global_version s"
  by (simp add: store_meta_def)

text \<open>The cell at a column after the loop has run from column \<open>i\<close> on.\<close>

definition loop_cell ::
  "externals \<Rightarrow> (cq_value \<Rightarrow> bool) \<Rightarrow> nat \<Rightarrow> cq_value list \<Rightarrow> column_store \<Rightarrow> nat \<Rightarrow> nat \<Rightarrow> cq_value option" where
  "loop_cell ext skip i vs s c r =
     (if i \<le> c \<and> c < length (mappings s) \<and> c - i < length vs \<and> \<not> skip (vs ! (c - i))
      then map_option (\<lambda>old. cell_after ext (kind (mappings s ! c)) old (vs ! (c - i))) (get_value s c r)
      else get_value s c r)"

lemma loop_cell_Nil [simp]: "loop_cell ext skip i [] s c r = get_value s c r"
  by (simp add: loop_cell_def)

lemma loop_cell_skip:
  "\<not> (i < length (mappings s) \<and> \<not> skip v) \<Longrightarrow>
   loop_cell ext skip (Suc i) vs s c r = loop_cell ext skip i (v # vs) s c r"
  by (cases "c = i") (auto simp: loop_cell_def nth_Cons' Suc_le_eq)

lemma loop_cell_step:
  assumes "i < length (mappings s)" "\<not> skip v" "mappings u = mappings s" "get_value s i r = Some old"
    and "\<And>c'. get_value u c' r = (if c' = i then Some (cell_after ext (kind (mappings s ! i)) old v) else get_value s c' r)"
  shows "loop_cell ext skip (Suc i) vs u c r = loop_cell ext skip i (v # vs) s c r"
  using assms by (cases "c = i") (auto simp: loop_cell_def nth_Cons' Suc_le_eq)

lemma write_columns_set:
  assumes "store_layout s" "\<forall>c < length (mappings s). get_value s c r \<noteq> None"
  shows "\<exists>t. write_columns (\<lambda>u i v. set_value ext u i r v) skip i vs s = Some t \<and>
     store_meta t = store_meta s \<and>
     (\<forall>c r'. get_value t c r' = (if r' = r then loop_cell ext skip i vs s c r else get_value s c r'))"
  using assms
proof (induction vs arbitrary: i s)
  case Nil
  then show ?case by simp
next
  case (Cons v vs)
  show ?case
  proof (cases "i < length (mappings s) \<and> \<not> skip v")
    case False
    with Cons.IH [OF Cons.prems, of "Suc i"] show ?thesis
      by (simp only: write_columns.simps if_False Option.bind.bind_lunit loop_cell_skip [of i s skip v, OF False])
  next
    case True
    with Cons.prems obtain old where old: "get_value s i r = Some old" by blast
    obtain u where u: "set_value ext s i r v = Some u" using set_value_defined [OF old] by blast
    note m = store_meta_fields [OF set_value_meta [OF u]]
    note g = get_value_set_value [OF u Cons.prems(1) old]
    have "store_layout u" "\<forall>c < length (mappings u). get_value u c r \<noteq> None"
      using Cons.prems m by (auto simp: store_layout_def g)
    from Cons.IH [OF this, of "Suc i"] obtain t where
      t: "write_columns (\<lambda>u i v. set_value ext u i r v) skip (Suc i) vs u = Some t"
      "store_meta t = store_meta u"
      "\<And>c r'. get_value t c r' = (if r' = r then loop_cell ext skip (Suc i) vs u c r else get_value u c r')"
      by blast
    have l: "loop_cell ext skip (Suc i) vs u c r = loop_cell ext skip i (v # vs) s c r" for c
      using True m old g by (intro loop_cell_step) auto
    show ?thesis using True t u set_value_meta [OF u] by (intro exI [of _ t]) (simp add: l g)
  qed
qed

lemma write_columns_owned:
  "write_columns (\<lambda>u i v. set_owned ext u i r v) = write_columns (\<lambda>u i v. set_value ext u i r v)"
  by (simp add: set_owned_eq_set_value)


section \<open>Row operations\<close>

lemma get_value_bookkeeping [simp]:
  "get_value (s\<lparr>row_versions := x\<rparr>) = get_value s"
  "get_value (s\<lparr>global_version := n\<rparr>) = get_value s"
  "get_value (s\<lparr>row_count := n\<rparr>) = get_value s"
proof -
  have "get_cell (s\<lparr>row_versions := x\<rparr>) k a r = get_cell s k a r"
    "get_cell (s\<lparr>global_version := n\<rparr>) k a r = get_cell s k a r"
    "get_cell (s\<lparr>row_count := n\<rparr>) k a r = get_cell s k a r" for k a r
    by (cases k; simp)+
  then show "get_value (s\<lparr>row_versions := x\<rparr>) = get_value s"
    "get_value (s\<lparr>global_version := n\<rparr>) = get_value s"
    "get_value (s\<lparr>row_count := n\<rparr>) = get_value s"
    by (auto simp: fun_eq_iff get_value_def)
qed

lemma row_of_cong: "mappings t = mappings s \<Longrightarrow> (\<And>c. get_value t c r = get_value s c r) \<Longrightarrow> row_of t r = row_of s r"
  by (simp add: row_of_def)

lemma row_of_loop:
  assumes "mappings t = mappings s" "\<And>c. get_value t c r = loop_cell ext skip 0 vs s c r"
    and "\<forall>c < length (mappings s). get_value s c r \<noteq> None"
  shows "row_of t r = overlay ext skip (row_kinds s) (row_of s r) vs"
proof (rule nth_equalityI)
  fix c assume "c < length (row_of t r)"
  then have c: "c < length (mappings s)" using assms(1) by simp
  then obtain old where old: "get_value s c r = Some old" using assms(3) by blast
  have "get_value t c r = Some (if c < length vs \<and> \<not> skip (vs ! c)
          then cell_after ext (kind (mappings s ! c)) old (vs ! c) else old)"
    using assms(2) [of c] c old by (simp add: loop_cell_def)
  then show "row_of t r ! c = overlay ext skip (row_kinds s) (row_of s r) vs ! c"
    using c old by (simp add: row_of_nth overlay_def row_kinds_nth)
qed (use assms in simp)

text \<open>
  One write section: the stamps around the column loop, started from a committed stamp \<open>v\<close>
  or, for a fresh row, from zero.
\<close>

definition write_section ::
  "externals \<Rightarrow> (cq_value \<Rightarrow> bool) \<Rightarrow> nat \<Rightarrow> nat \<Rightarrow> cq_value list \<Rightarrow> column_store \<Rightarrow> column_store option" where
  "write_section ext skip r v vs s = do {
     s1 \<leftarrow> stamp r (v + 1) s;
     s2 \<leftarrow> write_columns (\<lambda>t i x. set_value ext t i r x) skip 0 vs s1;
     s3 \<leftarrow> stamp r (v + 2) s2;
     Some (s3\<lparr>global_version := global_version s3 + 1\<rparr>)
   }"

text \<open>What one operation on row \<open>r\<close> may change: that row, its stamp, and the global stamp.\<close>

definition row_step :: "nat \<Rightarrow> cq_value list \<Rightarrow> nat \<Rightarrow> column_store \<Rightarrow> column_store \<Rightarrow> bool" where
  "row_step r vals v s t \<longleftrightarrow>
     cs_schema t = cs_schema s \<and> mappings t = mappings s \<and> row_count t = row_count s \<and>
     capacity t = capacity s \<and> row_versions t = (row_versions s)[r := v] \<and>
     global_version t = global_version s + 1 \<and> row_of t r = vals \<and>
     (\<forall>c. get_value t c r = None \<longleftrightarrow> get_value s c r = None) \<and>
     (\<forall>c r'. r' \<noteq> r \<longrightarrow> get_value t c r' = get_value s c r')"

lemma write_section_step:
  assumes "store_layout s" "r < length (row_versions s)" "\<forall>c < length (mappings s). get_value s c r \<noteq> None"
  obtains t where "write_section ext skip r v vs s = Some t"
    "row_step r (overlay ext skip (row_kinds s) (row_of s r) vs) (v + 2) s t"
proof -
  define s1 where "s1 = s\<lparr>row_versions := (row_versions s)[r := v + 1]\<rparr>"
  have s1: "store_layout s1" "\<forall>c < length (mappings s1). get_value s1 c r \<noteq> None" "mappings s1 = mappings s"
    "get_value s1 = get_value s"
    using assms by (auto simp: s1_def store_layout_def)
  obtain s2 where s2: "write_columns (\<lambda>t i x. set_value ext t i r x) skip 0 vs s1 = Some s2"
    "store_meta s2 = store_meta s1"
    and g: "\<And>c r'. get_value s2 c r' = (if r' = r then loop_cell ext skip 0 vs s1 c r else get_value s1 c r')"
    using write_columns_set [OF s1(1,2)] by blast
  note m = store_meta_fields [OF s2(2)]
  define t where "t = s2\<lparr>row_versions := (row_versions s2)[r := v + 2], global_version := global_version s2 + 1\<rparr>"
  have gt: "get_value t = get_value s2" by (simp add: t_def)
  have l: "loop_cell ext skip 0 vs s1 c r = loop_cell ext skip 0 vs s c r" for c
    by (simp add: loop_cell_def s1)
  have "row_of t r = overlay ext skip (row_kinds s) (row_of s r) vs"
    by (rule row_of_loop) (use assms m s1 in \<open>auto simp: t_def gt [unfolded t_def] g l\<close>)
  moreover have "loop_cell ext skip 0 vs s c r = None \<longleftrightarrow> get_value s c r = None" for c
    by (simp add: loop_cell_def)
  moreover have "write_section ext skip r v vs s = Some t"
    using assms s2(1) m by (simp add: write_section_def stamp_def s1_def t_def)
  moreover have "get_value t c r' = (if r' = r then loop_cell ext skip 0 vs s c r else get_value s c r')" for c r'
    by (simp add: gt g l s1(4))
  moreover have "cs_schema t = cs_schema s \<and> mappings t = mappings s \<and> row_count t = row_count s \<and>
     capacity t = capacity s \<and> row_versions t = (row_versions s)[r := v + 2] \<and>
     global_version t = global_version s + 1"
    using m by (simp add: t_def s1_def)
  ultimately show thesis by (intro that [of t]) (simp_all add: row_step_def)
qed

lemma write_section_ok:
  assumes "store_ok s" "r < capacity s"
  obtains t where "write_section ext skip r v vs s = Some t"
    "row_step r (overlay ext skip (row_kinds s) (row_of s r) vs) (v + 2) s t"
  by (rule write_section_step [of s r ext skip v vs]) (use assms store_ok_shape [OF assms(1)] store_ok_total [OF assms(1)] in simp_all)

lemma fresh_row:
  assumes "store_ok s" "row_count s \<le> r" "r < capacity s"
  shows "row_of s r = map null_value (row_kinds s)"
  by (rule nth_equalityI)
    (use assms store_ok_tail [OF assms(1,2) store_ok_cell [OF assms(1) _ assms(3)]] in \<open>auto simp: row_kinds_nth\<close>)

lemma row_step_ok:
  assumes ok: "store_ok s" and r: "r < row_count s" and step: "row_step r vals v s t" and v: "even v"
  shows "store_ok t" "store_rows t = (store_rows s)[r := vals]" "row_kinds t = row_kinds s"
proof -
  note st = step [unfolded row_step_def]
  have rows: "row_of t r' = row_of s r'" if "r' \<noteq> r" for r'
    using st that by (intro row_of_cong) auto
  have "get_value t c r' \<noteq> None" if "c < length (mappings t)" "r' < capacity t" for c r'
    using store_ok_total [OF ok, of c r'] st that by (cases "r' = r") auto
  moreover have "x = null_value (kind (mappings t ! c))" if "row_count t \<le> r'" "get_value t c r' = Some x" for c r' x
    using store_ok_tail [OF ok, of r' c x] st that r by auto
  moreover have "even (row_versions t ! r')" if "r' < capacity t" for r'
    using store_ok_shape [OF ok] st that v by (cases "r' = r") simp_all
  moreover have "row_versions t ! r' = 0" if "r' < capacity t" "row_count t \<le> r'" for r'
    using store_ok_shape [OF ok] st that r by (cases "r' = r") simp_all
  moreover have "store_layout t" "0 < capacity t" "row_count t \<le> capacity t" "length (row_versions t) = capacity t"
    using store_ok_shape [OF ok] st by (simp_all add: store_layout_def)
  ultimately show "store_ok t" by (intro store_okI)
  show "store_rows t = (store_rows s)[r := vals]"
  proof (rule nth_equalityI)
    fix i assume "i < length (store_rows t)"
    then show "store_rows t ! i = (store_rows s)[r := vals] ! i"
      using st r rows by (cases "i = r") simp_all
  qed (use st in simp)
  show "row_kinds t = row_kinds s" using st by (simp add: row_kinds_def)
qed


section \<open>Appending, overwriting, nulling\<close>

text \<open>The table operations that the row operations implement.\<close>

definition fresh_values :: "externals \<Rightarrow> column_type list \<Rightarrow> cq_value list \<Rightarrow> cq_value list" where
  "fresh_values ext ks vs = overlay ext (\<lambda>_. False) ks (map null_value ks) vs"

definition full_values :: "externals \<Rightarrow> column_type list \<Rightarrow> cq_value list \<Rightarrow> cq_value list \<Rightarrow> cq_value list" where
  "full_values ext ks old vs = overlay ext (\<lambda>_. False) ks old vs"

definition merged_values :: "externals \<Rightarrow> column_type list \<Rightarrow> cq_value list \<Rightarrow> cq_value list \<Rightarrow> cq_value list" where
  "merged_values ext ks old vs = overlay ext (\<lambda>v. v = VNull) ks old vs"

lemma write_row_at_section:
  "r < length (row_versions s) \<Longrightarrow> write_row_at ext s r vs = write_section ext (\<lambda>_. False) r (row_versions s ! r) vs s"
  by (simp add: write_row_at_def write_section_def version_at_def write_columns_owned)

lemma update_row_section:
  "r < length (row_versions s) \<Longrightarrow> update_row ext s r vs = write_section ext (\<lambda>v. v = VNull) r (row_versions s ! r) vs s"
  by (simp add: update_row_def write_section_def version_at_def)

lemma write_row_at_ok:
  assumes "store_ok s" "r < row_count s"
  obtains t where "write_row_at ext s r vs = Some t" "store_ok t" "row_kinds t = row_kinds s"
    "cs_schema t = cs_schema s" "store_rows t = (store_rows s)[r := full_values ext (row_kinds s) (row_of s r) vs]"
    "row_versions t = (row_versions s)[r := row_versions s ! r + 2]" "global_version t = global_version s + 1"
proof -
  note sh = store_ok_shape [OF assms(1)]
  have r: "r < capacity s" using assms sh by simp
  obtain t where t: "write_section ext (\<lambda>_. False) r (row_versions s ! r) vs s = Some t"
    "row_step r (overlay ext (\<lambda>_. False) (row_kinds s) (row_of s r) vs) (row_versions s ! r + 2) s t"
    using write_section_ok [OF assms(1) r] by blast
  show thesis
    by (rule that [of t])
      (use t r row_step_ok [OF assms t(2)] sh in \<open>simp_all add: write_row_at_section full_values_def row_step_def\<close>)
qed

lemma update_row_ok:
  assumes "store_ok s" "r < row_count s"
  obtains t where "update_row ext s r vs = Some t" "store_ok t" "row_kinds t = row_kinds s"
    "cs_schema t = cs_schema s" "store_rows t = (store_rows s)[r := merged_values ext (row_kinds s) (row_of s r) vs]"
    "row_versions t = (row_versions s)[r := row_versions s ! r + 2]" "global_version t = global_version s + 1"
proof -
  note sh = store_ok_shape [OF assms(1)]
  have r: "r < capacity s" using assms sh by simp
  obtain t where t: "write_section ext (\<lambda>v. v = VNull) r (row_versions s ! r) vs s = Some t"
    "row_step r (overlay ext (\<lambda>v. v = VNull) (row_kinds s) (row_of s r) vs) (row_versions s ! r + 2) s t"
    using write_section_ok [OF assms(1) r] by blast
  show thesis
    by (rule that [of t])
      (use t r row_step_ok [OF assms t(2)] sh in \<open>simp_all add: update_row_section merged_values_def row_step_def\<close>)
qed

lemma null_columns_write:
  "mappings s = pre @ ms \<Longrightarrow>
   null_columns r ms s =
     write_columns (\<lambda>t i x. set_value ext t i r x) (\<lambda>_. False) (length pre) (map (\<lambda>_. VNull) ms) s"
proof (induction ms arbitrary: s pre)
  case Nil
  then show ?case by simp
next
  case (Cons m ms)
  have set: "set_value ext s (length pre) r VNull = put_cell s (array_index m) r (null_value (kind m))"
    using Cons.prems by (simp add: set_value_def)
  show ?case
  proof (cases "put_cell s (array_index m) r (null_value (kind m))")
    case None
    then show ?thesis using set Cons.prems by simp
  next
    case (Some t)
    then have "mappings t = (pre @ [m]) @ ms"
      using put_cell_meta [OF Some] Cons.prems by (simp add: store_meta_def)
    from Cons.IH [OF this] show ?thesis using Some set Cons.prems by simp
  qed
qed

lemma null_out_row_eq: "null_out_row s r = write_row_at ext s r (replicate (length (mappings s)) VNull)"
proof -
  have "null_columns r (mappings u) u =
      write_columns (\<lambda>t i x. set_value ext t i r x) (\<lambda>_. False) 0 (replicate (length (mappings u)) VNull) u" for u
    using null_columns_write [of u "[]" "mappings u" r ext] by (simp add: map_replicate_const)
  then show ?thesis
    by (auto simp: null_out_row_def write_row_at_def write_columns_owned stamp_def version_at_def)
qed

lemma full_values_null:
  "length old = length ks \<Longrightarrow> full_values ext ks old (replicate (length ks) VNull) = map null_value ks"
  by (rule nth_equalityI) (simp_all add: full_values_def overlay_def cell_after_def)

lemma null_out_row_ok:
  assumes "store_ok s" "r < row_count s"
  obtains t where "null_out_row s r = Some t" "store_ok t" "row_kinds t = row_kinds s"
    "cs_schema t = cs_schema s" "store_rows t = (store_rows s)[r := map null_value (row_kinds s)]"
    "row_versions t = (row_versions s)[r := row_versions s ! r + 2]" "global_version t = global_version s + 1"
  using write_row_at_ok [OF assms, of undefined "replicate (length (mappings s)) VNull"]
  by (metis null_out_row_eq full_values_null length_row_kinds length_row_of)

section \<open>Growing and shrinking\<close>

lemma cell_resize_option:
  "cell xss a 0 \<noteq> None \<Longrightarrow>
   cell (map (resize n d) xss) a r = (if r < n then Some (case cell xss a r of Some v \<Rightarrow> v | None \<Rightarrow> d) else None)"
  by (auto simp: cell_def nth_resize split: if_splits)

lemma get_cell_grow:
  "get_cell s k a 0 \<noteq> None \<Longrightarrow>
   get_cell (grow s) k a r =
     (if r < grown_capacity (capacity s)
      then Some (case get_cell s k a r of Some v \<Rightarrow> v | None \<Rightarrow> null_value k) else None)"
  by (cases k) (auto simp: grow_def Let_def cell_resize_option split: option.splits)

lemma get_value_grow:
  assumes "get_value s c 0 \<noteq> None"
  shows "get_value (grow s) c r =
     (if r < grown_capacity (capacity s)
      then Some (case get_value s c r of Some v \<Rightarrow> v | None \<Rightarrow> null_value (kind (mappings s ! c))) else None)"
proof -
  have "mappings (grow s) = mappings s" by (simp add: grow_def Let_def)
  with assms show ?thesis by (simp add: get_value_def get_cell_grow split: if_splits)
qed

lemma grown_capacity_greater: "0 < n \<Longrightarrow> n < grown_capacity n"
  by (auto simp: grown_capacity_def max_def)

lemma grow_fields:
  "cs_schema (grow s) = cs_schema s" "mappings (grow s) = mappings s" "row_count (grow s) = row_count s"
  "capacity (grow s) = grown_capacity (capacity s)" "global_version (grow s) = global_version s"
  "row_versions (grow s) = resize (grown_capacity (capacity s)) 0 (row_versions s)"
  by (simp_all add: grow_def Let_def)

lemma grow_ok:
  assumes ok: "store_ok s"
  shows "store_ok (grow s)" "\<And>r. r < capacity s \<Longrightarrow> row_of (grow s) r = row_of s r"
    "store_rows (grow s) = store_rows s" "row_kinds (grow s) = row_kinds s" "row_count (grow s) < capacity (grow s)"
proof -
  note sh = store_ok_shape [OF ok] and f = grow_fields [of s]
  have cap: "capacity s < grown_capacity (capacity s)" using sh grown_capacity_greater by blast
  have col: "get_value s c 0 \<noteq> None" if "c < length (mappings s)" for c
    using store_ok_total [OF ok that] sh by blast
  note g = get_value_grow [OF col]
  show "store_ok (grow s)"
  proof (rule store_okI)
    fix c r v assume r: "row_count (grow s) \<le> r" "get_value (grow s) c r = Some v"
    then have c: "c < length (mappings s)" using f by (auto simp: get_value_def split: if_splits)
    show "v = null_value (kind (mappings (grow s) ! c))"
      using r store_ok_tail [OF ok, of r c] g [OF c] f by (auto split: if_splits option.splits)
  qed (use f sh cap g in \<open>auto simp: store_layout_def nth_resize\<close>)
  show rows: "row_of (grow s) r = row_of s r" if "r < capacity s" for r
    by (rule nth_equalityI) (use f g cap that store_ok_cell [OF ok] in \<open>auto intro!: row_of_nth\<close>)
  show "store_rows (grow s) = store_rows s"
    by (rule nth_equalityI) (use f sh rows in auto)
  show "row_kinds (grow s) = row_kinds s" using f by (simp add: row_kinds_def)
  show "row_count (grow s) < capacity (grow s)" using f cap sh by simp
qed


lemma append_row_owned_eq: "append_row_owned ext s vs = append_row ext s vs"
  by (simp add: append_row_owned_def append_row_def write_columns_owned)

lemma append_row_section:
  "append_row ext s vs =
     map_option (\<lambda>t. (t\<lparr>row_count := row_count s + 1\<rparr>, row_count s))
       (write_section ext (\<lambda>_. False) (row_count s) 0 vs (if capacity s \<le> row_count s then grow s else s))"
  by (simp add: append_row_def write_section_def map_option_bind Let_def numeral_2_eq_2)

lemma append_row_ok:
  assumes ok: "store_ok s"
  obtains t where "append_row ext s vs = Some (t, row_count s)" "store_ok t" "row_kinds t = row_kinds s"
    "cs_schema t = cs_schema s" "store_rows t = store_rows s @ [fresh_values ext (row_kinds s) vs]"
    "global_version t = global_version s + 1"
proof -
  define u where "u = (if capacity s \<le> row_count s then grow s else s)"
  have u: "store_ok u" "store_rows u = store_rows s" "row_kinds u = row_kinds s" "row_count u < capacity u"
    "row_count u = row_count s" "cs_schema u = cs_schema s" "global_version u = global_version s"
    using ok grow_ok [OF ok] by (auto simp: u_def grow_fields)
  note sh = store_ok_shape [OF u(1)]
  let ?r = "row_count u"
  obtain t where w: "write_section ext (\<lambda>_. False) ?r 0 vs u = Some t"
    and step: "row_step ?r (overlay ext (\<lambda>_. False) (row_kinds u) (row_of u ?r) vs) 2 u t"
    using write_section_ok [OF u(1,4), of ext "\<lambda>_. False" 0 vs] by (metis add_0)
  note st = step [unfolded row_step_def]
  define t' where "t' = t\<lparr>row_count := row_count s + 1\<rparr>"
  have f: "mappings t' = mappings u" "cs_schema t' = cs_schema u" "capacity t' = capacity u"
    "row_versions t' = (row_versions u)[?r := 2]" "row_count t' = Suc ?r"
    "get_value t' = get_value t" "global_version t' = global_version u + 1"
    using st u by (simp_all add: t'_def)
  have rows: "row_of t' r' = row_of u r'" if "r' \<noteq> ?r" for r'
    using st f that by (intro row_of_cong) auto
  have new: "row_of t' ?r = fresh_values ext (row_kinds s) vs"
    using st f row_of_cong [of t' t ?r] fresh_row [OF u(1) order_refl u(4)] u(3)
    by (simp add: fresh_values_def)
  have "store_ok t'"
  proof (rule store_okI)
    fix c r assume "c < length (mappings t')" "r < capacity t'"
    then show "get_value t' c r \<noteq> None"
      using store_ok_total [OF u(1), of c r] st f by (cases "r = ?r") auto
  next
    fix c r v assume "row_count t' \<le> r" "get_value t' c r = Some v"
    then show "v = null_value (kind (mappings t' ! c))"
      using store_ok_tail [OF u(1), of r c v] st f by auto
  next
    fix r assume "r < capacity t'"
    then show "even (row_versions t' ! r)" using sh f by (cases "r = ?r") simp_all
  qed (use f sh u in \<open>simp_all add: store_layout_def\<close>)
  moreover have "store_rows t' = store_rows u @ [fresh_values ext (row_kinds s) vs]"
    unfolding store_rows_def by (simp add: f new rows)
  ultimately show thesis
    using that [of t'] w f u by (simp add: append_row_section u_def [symmetric] t'_def row_kinds_def)
qed


lemma get_cell_shrink:
  "16 * 1024 \<le> capacity s - max (row_count s) 1 \<Longrightarrow>
   get_cell (fst (shrink_to_fit s)) k a r =
     (if k \<in> {TDouble, TLong, TInt, TString} \<and> max (row_count s) 1 \<le> r then None else get_cell s k a r)"
  by (cases k) (simp_all add: shrink_to_fit_def Let_def cell_map_take not_le)

lemma shrink_fields:
  "cs_schema (fst (shrink_to_fit s)) = cs_schema s" "mappings (fst (shrink_to_fit s)) = mappings s"
  "row_count (fst (shrink_to_fit s)) = row_count s" "global_version (fst (shrink_to_fit s)) = global_version s"
  "snd (shrink_to_fit s) = capacity (fst (shrink_to_fit s))"
  by (simp_all add: shrink_to_fit_def Let_def)

lemma shrink_to_fit_ok:
  assumes ok: "store_ok s"
  shows "store_ok (fst (shrink_to_fit s))" "store_rows (fst (shrink_to_fit s)) = store_rows s"
    "row_kinds (fst (shrink_to_fit s)) = row_kinds s"
proof -
  let ?t = "fst (shrink_to_fit s)" and ?n = "max (row_count s) 1"
  note sh = store_ok_shape [OF ok] and f = shrink_fields [of s]
  show kinds: "row_kinds ?t = row_kinds s" using f by (simp add: row_kinds_def)
  have "store_ok ?t \<and> store_rows ?t = store_rows s"
  proof (cases "capacity s - ?n < 16 * 1024")
    case True
    then have "?t = s" by (simp add: shrink_to_fit_def Let_def)
    then show ?thesis using ok by simp
  next
    case False
    then have n: "?n < capacity s" "16 * 1024 \<le> capacity s - ?n" by auto
    have g: "get_value ?t c r = (if kind (mappings s ! c) \<in> {TDouble, TLong, TInt, TString} \<and> ?n \<le> r
        then None else get_value s c r)" for c r
      using get_cell_shrink [OF n(2)] f by (auto simp: get_value_def)
    have c: "capacity ?t = ?n" "row_versions ?t = take ?n (row_versions s)"
      using False by (simp_all add: shrink_to_fit_def Let_def)
    have "store_ok ?t"
    proof (rule store_okI)
      fix c r v assume "row_count ?t \<le> r" "get_value ?t c r = Some v"
      then show "v = null_value (kind (mappings ?t ! c))"
        using store_ok_tail [OF ok, of r c v] f g [of c r] by (auto split: if_splits)
    next
      fix i r assume "i < length (mappings ?t)" "r < capacity ?t"
      moreover from this have "\<not> ?n \<le> r" using c by linarith
      ultimately show "get_value ?t i r \<noteq> None" using store_ok_total [OF ok, of i r] c f n g [of i r] by simp
    qed (use c f sh n in \<open>auto simp: store_layout_def\<close>)
    moreover have "row_of ?t r = row_of s r" if "r < row_count s" for r
      using f g that by (intro row_of_cong) auto
    ultimately show ?thesis using f by (simp add: store_rows_def)
  qed
  then show "store_ok ?t" "store_rows ?t = store_rows s" by blast+
qed

lemma get_cell_new:
  "get_cell (column_store_new sch cap) k a r =
     (if a < count_for k (type_counts_of sch) \<and> r < cap then Some (null_value k) else None)"
  by (cases k) (simp_all add: column_store_new_def Let_def cell_replicate)

lemma column_store_new_ok:
  assumes "0 < cap"
  shows "store_ok (column_store_new sch cap)" "store_rows (column_store_new sch cap) = []"
    "row_kinds (column_store_new sch cap) = map col_type (columns sch)"
proof -
  let ?s = "column_store_new sch cap"
  have f: "cs_schema ?s = sch" "mappings ?s = compute_mappings sch" "row_count ?s = 0" "capacity ?s = cap"
    "row_versions ?s = replicate cap 0"
    by (simp_all add: column_store_new_def Let_def)
  have g: "get_value ?s c r = (if c < length (columns sch) \<and> r < cap then Some (null_value (kind (compute_mappings sch ! c))) else None)" for c r
    using compute_mappings_bound [of c sch] by (simp add: get_value_def get_cell_new f)
  show "store_ok ?s"
    by (rule store_okI) (use assms f g in \<open>auto simp: store_layout_def split: if_splits\<close>)
  show "store_rows ?s = []" by (simp add: store_rows_def f)
  show "row_kinds ?s = map col_type (columns sch)"
    by (rule nth_equalityI) (simp_all add: row_kinds_def f compute_mappings_nth)
qed


section \<open>The store implements a table\<close>

datatype row_op =
    RAppend "cq_value list"
  | RUpdate nat "cq_value list"
  | RWriteAt nat "cq_value list"
  | RNullOut nat
  | RShrink

fun row_op_step :: "externals \<Rightarrow> row_op \<Rightarrow> column_store \<Rightarrow> column_store option" where
  "row_op_step ext (RAppend vs) s = map_option fst (append_row ext s vs)"
| "row_op_step ext (RUpdate r vs) s = update_row ext s r vs"
| "row_op_step ext (RWriteAt r vs) s = write_row_at ext s r vs"
| "row_op_step ext (RNullOut r) s = null_out_row s r"
| "row_op_step ext RShrink s = Some (fst (shrink_to_fit s))"

fun row_op_spec ::
  "externals \<Rightarrow> row_op \<Rightarrow> column_type list \<times> cq_value list list \<Rightarrow> column_type list \<times> cq_value list list" where
  "row_op_spec ext (RAppend vs) (ks, rows) = (ks, rows @ [fresh_values ext ks vs])"
| "row_op_spec ext (RUpdate r vs) (ks, rows) = (ks, rows[r := merged_values ext ks (rows ! r) vs])"
| "row_op_spec ext (RWriteAt r vs) (ks, rows) = (ks, rows[r := full_values ext ks (rows ! r) vs])"
| "row_op_spec ext (RNullOut r) (ks, rows) = (ks, rows[r := map null_value ks])"
| "row_op_spec ext RShrink (ks, rows) = (ks, rows)"

fun row_op_pre :: "row_op \<Rightarrow> column_type list \<times> cq_value list list \<Rightarrow> bool" where
  "row_op_pre (RUpdate r vs) (ks, rows) = (r < length rows)"
| "row_op_pre (RWriteAt r vs) (ks, rows) = (r < length rows)"
| "row_op_pre (RNullOut r) (ks, rows) = (r < length rows)"
| "row_op_pre _ _ = True"

definition store_table :: "column_store \<Rightarrow> column_type list \<times> cq_value list list" where
  "store_table s = (row_kinds s, store_rows s)"

interpretation store: refinement store_ok store_table "row_op_step ext" "row_op_spec ext" row_op_pre for ext
proof
  fix s x assume ok: "store_ok s" and pre: "row_op_pre x (store_table s)"
  show "\<exists>t. row_op_step ext x s = Some t \<and> store_ok t \<and> store_table t = row_op_spec ext x (store_table s)"
  proof (cases x)
    case (RAppend vs)
    then show ?thesis by (rule_tac append_row_ok [OF ok, of ext vs]) (simp add: store_table_def)
  next
    case (RUpdate r vs)
    with pre have r: "r < row_count s" by (simp add: store_table_def)
    show ?thesis by (rule update_row_ok [OF ok r, of ext vs]) (simp add: store_table_def RUpdate r)
  next
    case (RWriteAt r vs)
    with pre have r: "r < row_count s" by (simp add: store_table_def)
    show ?thesis by (rule write_row_at_ok [OF ok r, of ext vs]) (simp add: store_table_def RWriteAt r)
  next
    case (RNullOut r)
    with pre have r: "r < row_count s" by (simp add: store_table_def)
    show ?thesis by (rule null_out_row_ok [OF ok r]) (simp add: store_table_def RNullOut)
  next
    case RShrink
    then show ?thesis using shrink_to_fit_ok [OF ok] by (simp add: store_table_def)
  qed
qed

section \<open>Properties\<close>

text \<open>
  C7: Any sequence of row operations (append, update in place, overwrite, null out, shrink)
  run on a fresh store of positive capacity, with row numbers that exist when they are used,
  never panics, keeps the store invariant, and leaves in the typed columns exactly the table
  that the same operations give on a plain list of rows.
\<close>

theorem store_implements_table:
  assumes "0 < cap" "run_pre row_op_pre (row_op_spec ext) ops (map col_type (columns sch), [])"
  shows "\<exists>t. run_steps (row_op_step ext) ops (column_store_new sch cap) = Some t \<and> store_ok t \<and>
     store_table t = fold (row_op_spec ext) ops (map col_type (columns sch), [])"
  using store.run_refines [of "column_store_new sch cap" ext ops] column_store_new_ok [OF assms(1), of sch] assms(2)
  by (simp add: store_table_def)

theorem store_implements_table_witness:
  "\<exists>t. run_steps (row_op_step sample_externals)
        [RAppend [VInt 7, VLong 3, VString (Some ''a'')], RAppend [VLong 8],
         RUpdate 0 [VNull, VNull, VString (Some ''b'')], RNullOut 1, RShrink]
        (column_store_new sample_schema 1) = Some t \<and> store_ok t \<and>
     store_table t =
       ([TLong, TDouble, TString],
        [[VLong 7, VDouble (f64_of_int 3), VString (Some ''b'')], [VLong NULL_LONG, VDouble NULL_DOUBLE, VString None]])"
proof -
  let ?ops = "[RAppend [VInt 7, VLong 3, VString (Some ''a'')], RAppend [VLong 8],
         RUpdate 0 [VNull, VNull, VString (Some ''b'')], RNullOut 1, RShrink]"
  let ?ks = "[TLong, TDouble, TString]"
  have "run_pre row_op_pre (row_op_spec sample_externals) ?ops (?ks, [])" by simp
  moreover have "fold (row_op_spec sample_externals) ?ops (?ks, []) =
      (?ks, [[VLong 7, VDouble (f64_of_int 3), VString (Some ''b'')], [VLong NULL_LONG, VDouble NULL_DOUBLE, VString None]])"
    by (simp add: fresh_values_def merged_values_def overlay_def cell_after_def i32_as_i64_def upt_rec)
  ultimately show ?thesis
    using store_implements_table [of 1 sample_externals ?ops sample_schema] unfolding sample_kinds by simp
qed

text \<open>
  Writing a value to a cell changes that cell to the coerced value, or leaves it when the
  column ignores values of that kind, and changes no other cell of any column or row, nor
  any bookkeeping field.
\<close>

theorem set_value_changes_one_cell:
  assumes "store_ok s" "c < column_count (cs_schema s)" "r < capacity s"
  shows "\<exists>t. set_value ext s c r v = Some t \<and> set_owned ext s c r v = Some t \<and> store_meta t = store_meta s \<and>
     (\<forall>c' r'. get_value t c' r' =
        (if c' = c \<and> r' = r then Some (cell_after ext (row_kinds s ! c) (row_of s r ! c) v) else get_value s c' r'))"
proof -
  have lay: "store_layout s" and c: "c < length (mappings s)"
    using store_ok_shape(1) [OF assms(1)] assms(2) by (auto simp: store_layout_def column_count_def)
  have cell: "get_value s c r = Some (row_of s r ! c)" by (rule store_ok_cell [OF assms(1) c assms(3)])
  obtain t where t: "set_value ext s c r v = Some t" using set_value_defined [OF cell] by blast
  show ?thesis
    using t set_value_meta [OF t] get_value_set_value [OF t lay cell] c
    by (auto simp: set_owned_eq_set_value row_kinds_nth)
qed

theorem set_value_changes_one_cell_witness:
  "\<exists>t. set_value sample_externals (column_store_new sample_schema 2) 1 0 (VInt 5) = Some t \<and>
     get_value t 1 0 = Some (VDouble (f64_of_int 5)) \<and> get_value t 1 1 = Some (VDouble NULL_DOUBLE)"
proof -
  have s: "store_ok (column_store_new sample_schema 2)" by (rule column_store_new_ok) simp
  have k: "row_kinds (column_store_new sample_schema 2) = [TLong, TDouble, TString]"
    using column_store_new_ok(3) [of 2 sample_schema] by (simp add: sample_kinds)
  have c: "1 < column_count (cs_schema (column_store_new sample_schema 2))" "capacity (column_store_new sample_schema 2) = 2"
    using sample_kinds by (auto simp: column_count_def column_store_new_def Let_def dest!: arg_cong [of _ _ length])
  have "get_value (column_store_new sample_schema 2) 1 1 = Some (VDouble NULL_DOUBLE)" by code_simp
  then show ?thesis
    using set_value_changes_one_cell [OF s, of 1 0 sample_externals "VInt 5"] c
    by (auto simp: k cell_after_def)
qed

text \<open>
  A store created with capacity zero never grows: doubling zero gives zero, so the first
  append indexes past the end of the version stamps and panics.
\<close>

theorem append_to_zero_capacity_panics:
  "append_row ext (column_store_new sch 0) vs = None \<and> append_row_owned ext (column_store_new sch 0) vs = None"
  by (simp add: append_row_owned_eq append_row_def column_store_new_def Let_def grow_def grown_capacity_def stamp_def resize_def)

end
