(* ===== verification/CQ_Row_Json.thy ===== *)
theory CQ_Row_Json
  imports CQ_Store
begin

text \<open>
  Rows on their way out of the store (\<open>crates/cq-core/src/store.rs\<close>): the typed accessors, the
  row as a JSON map, and the direct writer that puts the JSON bytes of a row into a buffer.

  Shown here: the typed accessors agree with the generic ones; the escape loop, which copies
  runs of plain bytes, produces the byte-by-byte escape of the string and can be undone; the
  row writer emits exactly the non-null columns, in the order asked for.
\<close>

section \<open>Typed accessors\<close>

definition get_typed :: "(column_store \<Rightarrow> 'a list list) \<Rightarrow> column_store \<Rightarrow> nat \<Rightarrow> nat \<Rightarrow> 'a option" where
  "get_typed cols s col row =
     (if col < length (mappings s) then cell (cols s) (array_index (mappings s ! col)) row else None)"

abbreviation get_double :: "column_store \<Rightarrow> nat \<Rightarrow> nat \<Rightarrow> f64 option" where "get_double \<equiv> get_typed double_cols"
abbreviation get_long :: "column_store \<Rightarrow> nat \<Rightarrow> nat \<Rightarrow> i64 option" where "get_long \<equiv> get_typed long_cols"
abbreviation get_int :: "column_store \<Rightarrow> nat \<Rightarrow> nat \<Rightarrow> i32 option" where "get_int \<equiv> get_typed int_cols"
abbreviation get_string :: "column_store \<Rightarrow> nat \<Rightarrow> nat \<Rightarrow> string option option" where
  "get_string \<equiv> get_typed string_cols"
abbreviation get_bool :: "column_store \<Rightarrow> nat \<Rightarrow> nat \<Rightarrow> bool option option" where
  "get_bool \<equiv> get_typed bool_cols"
abbreviation get_timestamp :: "column_store \<Rightarrow> nat \<Rightarrow> nat \<Rightarrow> i64 option" where
  "get_timestamp \<equiv> get_typed timestamp_cols"

definition set_typed ::
  "('a \<Rightarrow> cq_value) \<Rightarrow> column_store \<Rightarrow> nat \<Rightarrow> nat \<Rightarrow> 'a \<Rightarrow> column_store option" where
  "set_typed con s col row v =
     (if col < length (mappings s) then put_cell s (array_index (mappings s ! col)) row (con v) else None)"

abbreviation set_double :: "column_store \<Rightarrow> nat \<Rightarrow> nat \<Rightarrow> f64 \<Rightarrow> column_store option" where
  "set_double \<equiv> set_typed VDouble"
abbreviation set_long :: "column_store \<Rightarrow> nat \<Rightarrow> nat \<Rightarrow> i64 \<Rightarrow> column_store option" where
  "set_long \<equiv> set_typed VLong"
abbreviation set_int :: "column_store \<Rightarrow> nat \<Rightarrow> nat \<Rightarrow> i32 \<Rightarrow> column_store option" where
  "set_int \<equiv> set_typed VInt"
abbreviation set_string :: "column_store \<Rightarrow> nat \<Rightarrow> nat \<Rightarrow> string option \<Rightarrow> column_store option" where
  "set_string \<equiv> set_typed VString"
abbreviation set_bool :: "column_store \<Rightarrow> nat \<Rightarrow> nat \<Rightarrow> bool option \<Rightarrow> column_store option" where
  "set_bool \<equiv> set_typed VBool"
abbreviation set_timestamp :: "column_store \<Rightarrow> nat \<Rightarrow> nat \<Rightarrow> i64 \<Rightarrow> column_store option" where
  "set_timestamp \<equiv> set_typed VTimestamp"

section \<open>Rows as JSON maps\<close>

fun insert_fields :: "externals \<Rightarrow> (nat \<Rightarrow> string option) \<Rightarrow> column_store \<Rightarrow> nat \<Rightarrow> nat list \<Rightarrow> json_map \<Rightarrow> json_map option" where
  "insert_fields ext name s row [] m = Some m"
| "insert_fields ext name s row (c # cs) m = do {
     v \<leftarrow> get_value s c row;
     m' \<leftarrow> (if value_is_null v then Some m
            else do { n \<leftarrow> name c; Some (obj_insert n (to_json ext v) m) });
     insert_fields ext name s row cs m'
   }"

definition get_row_map :: "externals \<Rightarrow> column_store \<Rightarrow> nat \<Rightarrow> json_map option" where
  "get_row_map ext s row =
     insert_fields ext (column_name_at (cs_schema s)) s row (map col_index (columns (cs_schema s))) []"

definition get_row_map_projected :: "externals \<Rightarrow> column_store \<Rightarrow> nat \<Rightarrow> nat list \<Rightarrow> json_map option" where
  "get_row_map_projected ext s row cols = insert_fields ext (column_name_at (cs_schema s)) s row cols []"

section \<open>Escaping\<close>

definition hex_digit :: "nat \<Rightarrow> char" where
  "hex_digit n = (if n < 10 then digit_char n else char_of (87 + n))"

text \<open>What is written for a byte that is not copied; \<open>None\<close> is the \<open>continue\<close> of the loop.\<close>

definition byte_escape :: "char \<Rightarrow> string option" where
  "byte_escape b =
     (let n = of_char b :: nat in
      if n = 0x22 then Some [CHR 0x5C, CHR 0x22]
      else if n = 0x5C then Some [CHR 0x5C, CHR 0x5C]
      else if n = 0x0A then Some [CHR 0x5C, CHR ''n'']
      else if n = 0x0D then Some [CHR 0x5C, CHR ''r'']
      else if n = 0x09 then Some [CHR 0x5C, CHR ''t'']
      else if n = 0x08 then Some [CHR 0x5C, CHR ''b'']
      else if n = 0x0C then Some [CHR 0x5C, CHR ''f'']
      else if n \<le> 0x1F
        then Some [CHR 0x5C, CHR ''u'', CHR ''0'', CHR ''0'', hex_digit (n div 16), hex_digit (n mod 16)]
      else None)"

function write_json_loop :: "string \<Rightarrow> nat \<Rightarrow> nat \<Rightarrow> string \<Rightarrow> string" where
  "write_json_loop bytes i start buf =
     (if i < length bytes
      then case byte_escape (bytes ! i) of
             None \<Rightarrow> write_json_loop bytes (i + 1) start buf
           | Some esc \<Rightarrow>
               write_json_loop bytes (i + 1) (i + 1) (buf @ take (i - start) (drop start bytes) @ esc)
      else if start < length bytes then buf @ drop start bytes else buf)"
  by pat_completeness auto
termination
  by (relation "measure (\<lambda>(bytes, i, start, buf). length bytes - i)") auto

definition write_json_str :: "string \<Rightarrow> string \<Rightarrow> string" where
  "write_json_str s buf = write_json_loop s 0 0 buf"

section \<open>The row writer\<close>

fun value_bytes :: "externals \<Rightarrow> cq_value \<Rightarrow> string" where
  "value_bytes ext (VString (Some s)) = [CHR 0x22] @ write_json_str s [] @ [CHR 0x22]"
| "value_bytes ext (VLong n) = itoa_text ext (sint n)"
| "value_bytes ext (VInt n) = itoa_text ext (sint n)"
| "value_bytes ext (VDouble d) =
     (if f64_is_nan d \<or> f64_is_infinite d then ''null'' else ryu_text ext d)"
| "value_bytes ext (VBool (Some b)) = (if b then ''true'' else ''false'')"
| "value_bytes ext (VTimestamp v) =
     (if v \<noteq> NULL_TIMESTAMP
      then [CHR 0x22] @ write_json_str (format_timestamp_micros ext v) [] @ [CHR 0x22] else ''null'')"
| "value_bytes ext (VBytes (Some b)) = [CHR 0x22] @ b64_encode ext b @ [CHR 0x22]"
| "value_bytes ext _ = ''null''"

fun write_fields :: "externals \<Rightarrow> column_store \<Rightarrow> nat \<Rightarrow> nat list \<Rightarrow> bool \<Rightarrow> string \<Rightarrow> string option" where
  "write_fields ext s row [] first buf = Some buf"
| "write_fields ext s row (c # cs) first buf = do {
     v \<leftarrow> get_value s c row;
     if value_is_null v then write_fields ext s row cs first buf
     else do {
       name \<leftarrow> column_name_at (cs_schema s) c;
       let buf1 = (if first then buf else buf @ '','');
       let buf2 = write_json_str name (buf1 @ [CHR 0x22]) @ [CHR 0x22, CHR '':''];
       write_fields ext s row cs False (buf2 @ value_bytes ext v)
     }
   }"

definition write_row_json_projected ::
  "externals \<Rightarrow> column_store \<Rightarrow> nat \<Rightarrow> nat list \<Rightarrow> string \<Rightarrow> string option" where
  "write_row_json_projected ext s row cols buf =
     map_option (\<lambda>b. b @ [CHR 0x7D]) (write_fields ext s row cols True (buf @ [CHR 0x7B]))"

section \<open>The accessors agree\<close>

lemma get_typed_get_value:
  "c < length (mappings s) \<Longrightarrow>
   (kind (mappings s ! c) = TDouble \<longrightarrow> get_value s c r = map_option VDouble (get_double s c r)) \<and>
   (kind (mappings s ! c) = TLong \<longrightarrow> get_value s c r = map_option VLong (get_long s c r)) \<and>
   (kind (mappings s ! c) = TInt \<longrightarrow> get_value s c r = map_option VInt (get_int s c r)) \<and>
   (kind (mappings s ! c) = TString \<longrightarrow> get_value s c r = map_option VString (get_string s c r)) \<and>
   (kind (mappings s ! c) = TBool \<longrightarrow> get_value s c r = map_option VBool (get_bool s c r)) \<and>
   (kind (mappings s ! c) = TTimestamp \<longrightarrow> get_value s c r = map_option VTimestamp (get_timestamp s c r))"
  by (simp add: get_value_def get_typed_def)

lemma set_typed_set_value:
  "c < length (mappings s) \<Longrightarrow> typed (kind (mappings s ! c)) (con v) \<Longrightarrow>
   set_typed con s c r v = set_value ext s c r (con v)"
  by (simp add: set_typed_def set_value_def stored_as_own_kind)

section \<open>The escape loop is the byte-by-byte escape\<close>

definition escape_one :: "char \<Rightarrow> string" where
  "escape_one b = (case byte_escape b of Some e \<Rightarrow> e | None \<Rightarrow> [b])"

definition escaped :: "string \<Rightarrow> string" where
  "escaped s = concat (map escape_one s)"

lemma escaped_append [simp]: "escaped (a @ b) = escaped a @ escaped b"
  by (simp add: escaped_def)

lemma escaped_plain: "\<forall>b \<in> set s. byte_escape b = None \<Longrightarrow> escaped s = s"
  by (induction s) (auto simp: escaped_def escape_one_def)

lemma slice_snoc:
  assumes "start \<le> i" "i < length xs"
  shows "take (Suc i - start) (drop start xs) = take (i - start) (drop start xs) @ [xs ! i]"
  using assms by (simp add: Suc_diff_le take_Suc_conv_app_nth)

lemma write_json_loop_correct:
  assumes "start \<le> i" "i \<le> length bytes"
    and "\<forall>b \<in> set (take (i - start) (drop start bytes)). byte_escape b = None"
  shows "write_json_loop bytes i start buf =
    buf @ take (i - start) (drop start bytes) @ escaped (drop i bytes)"
  using assms
proof (induction bytes i start buf rule: write_json_loop.induct)
  case (1 bytes i start buf)
  show ?case
  proof (cases "i < length bytes")
    case False
    then have "i = length bytes" using 1 by simp
    then show ?thesis by (subst write_json_loop.simps) (auto simp: escaped_def)
  next
    case True
    then have d: "drop i bytes = bytes ! i # drop (Suc i) bytes" by (simp add: Cons_nth_drop_Suc)
    show ?thesis
    proof (cases "byte_escape (bytes ! i)")
      case None
      have "\<forall>b \<in> set (take (Suc i - start) (drop start bytes)). byte_escape b = None"
        using 1 None True by (simp add: slice_snoc)
      with 1 None True have "write_json_loop bytes (Suc i) start buf =
          buf @ take (Suc i - start) (drop start bytes) @ escaped (drop (Suc i) bytes)"
        by simp
      with True None d 1(3) show ?thesis
        by (subst write_json_loop.simps) (simp add: escaped_def escape_one_def slice_snoc)
    next
      case (Some esc)
      with 1 True d show ?thesis
        by (subst write_json_loop.simps) (simp add: escaped_def escape_one_def)
    qed
  qed
qed

declare write_json_loop.simps [simp del]

lemma write_json_str_escaped: "write_json_str s buf = buf @ escaped s"
  by (simp add: write_json_str_def write_json_loop_correct)

text \<open>
  Reading a string body back, by the grammar of JSON strings restricted to one-byte code
  points: a backslash starts an escape, a quote or a control byte may not occur bare.
\<close>

definition hex_value :: "char \<Rightarrow> nat option" where
  "hex_value c =
     (let n = of_char c :: nat in
      if 48 \<le> n \<and> n \<le> 57 then Some (n - 48) else if 97 \<le> n \<and> n \<le> 102 then Some (n - 87) else None)"

definition short_escape :: "char \<Rightarrow> char option" where
  "short_escape c =
     (if c = CHR 0x22 \<or> c = CHR 0x5C then Some c
      else if c = CHR ''n'' then Some (CHR 0x0A) else if c = CHR ''r'' then Some (CHR 0x0D)
      else if c = CHR ''t'' then Some (CHR 0x09) else if c = CHR ''b'' then Some (CHR 0x08)
      else if c = CHR ''f'' then Some (CHR 0x0C) else None)"

fun json_unescape :: "string \<Rightarrow> string option" where
  "json_unescape [] = Some []"
| "json_unescape (c # cs) =
     (if c = CHR 0x5C then
        (case cs of
           e # rest \<Rightarrow>
             (if e = CHR ''u'' then
                (case rest of
                   z1 # z2 # h # l # rest' \<Rightarrow>
                     if z1 = CHR ''0'' \<and> z2 = CHR ''0''
                     then (case (hex_value h, hex_value l) of
                             (Some a, Some b) \<Rightarrow> map_option ((#) (char_of (16 * a + b))) (json_unescape rest')
                           | _ \<Rightarrow> None)
                     else None
                 | _ \<Rightarrow> None)
              else case short_escape e of
                     Some x \<Rightarrow> map_option ((#) x) (json_unescape rest)
                   | None \<Rightarrow> None)
         | [] \<Rightarrow> None)
      else if c = CHR 0x22 \<or> (of_char c :: nat) < 0x20 then None
      else map_option ((#) c) (json_unescape cs))"

lemma hex_value_hex_digit: "n < 16 \<Longrightarrow> hex_value (hex_digit n) = Some n"
  by (simp add: hex_value_def hex_digit_def digit_char_def)

lemma unescape_escape_one: "json_unescape (escape_one b @ rest) = map_option ((#) b) (json_unescape rest)"
proof -
  define n where "n = (of_char b :: nat)"
  have lit: "b = c \<longleftrightarrow> n = of_char c" for c by (simp add: n_def)
  consider "b \<in> {CHR 0x22, CHR 0x5C, CHR 0x0A, CHR 0x0D, CHR 0x09, CHR 0x08, CHR 0x0C}"
    | (control) "n \<le> 0x1F" "n \<notin> {0x0A, 0x0D, 0x09, 0x08, 0x0C}"
    | (plain) "n > 0x1F" "n \<noteq> 0x22" "n \<noteq> 0x5C"
    using lit by fastforce
  then show ?thesis
  proof cases
    case 1
    then show ?thesis
      by (elim insertE) (simp_all add: escape_one_def byte_escape_def Let_def short_escape_def)
  next
    case control
    have n: "n div 16 < 16" "n mod 16 < 16" "char_of n = b"
      using control by (auto simp: n_def)
    have "escape_one b = [CHR 0x5C, CHR ''u'', CHR ''0'', CHR ''0'', hex_digit (n div 16), hex_digit (n mod 16)]"
      using control by (simp add: escape_one_def byte_escape_def Let_def n_def)
    then show ?thesis
      using n by (simp add: hex_value_hex_digit)
  next
    case plain
    then show ?thesis by (auto simp: escape_one_def byte_escape_def Let_def n_def)
  qed
qed

lemma unescape_escaped: "json_unescape (escaped s) = Some s"
  by (induction s) (simp_all add: escaped_def unescape_escape_one)


section \<open>What the row writer emits\<close>

definition field_bytes :: "externals \<Rightarrow> column_store \<Rightarrow> nat \<Rightarrow> nat \<Rightarrow> string" where
  "field_bytes ext s row c =
     [CHR 0x22] @ escaped (col_name (columns (cs_schema s) ! c)) @ [CHR 0x22, CHR '':''] @
       value_bytes ext (row_of s row ! c)"

definition live_columns :: "column_store \<Rightarrow> nat \<Rightarrow> nat list \<Rightarrow> nat list" where
  "live_columns s row cols = filter (\<lambda>c. \<not> value_is_null (row_of s row ! c)) cols"

fun comma_join :: "bool \<Rightarrow> string list \<Rightarrow> string" where
  "comma_join first [] = []"
| "comma_join first (x # xs) = (if first then [] else '','') @ x @ comma_join False xs"

lemma write_fields_emits:
  assumes ok: "store_ok s" and row: "row < capacity s" and cols: "\<forall>c \<in> set cols. c < length (columns (cs_schema s))"
  shows "write_fields ext s row cols first buf =
     Some (buf @ comma_join first (map (field_bytes ext s row) (live_columns s row cols)))"
  using cols
proof (induction cols arbitrary: first buf)
  case Nil
  then show ?case by (simp add: live_columns_def)
next
  case (Cons c cs)
  have c: "c < length (mappings s)"
    using Cons.prems store_ok_shape(1) [OF ok] by (simp add: store_layout_def)
  have name: "column_name_at (cs_schema s) c = Some (col_name (columns (cs_schema s) ! c))"
    using Cons.prems by (simp add: column_name_at_def column_at_def)
  show ?case
    using Cons c store_ok_cell [OF ok c row]
    by (simp add: name live_columns_def write_json_str_escaped field_bytes_def Let_def)
qed

lemma write_row_json_projected_emits:
  assumes "store_ok s" "row < capacity s" "\<forall>c \<in> set cols. c < length (columns (cs_schema s))"
  shows "write_row_json_projected ext s row cols buf =
     Some (buf @ [CHR 0x7B] @ comma_join True (map (field_bytes ext s row) (live_columns s row cols)) @ [CHR 0x7D])"
  by (simp add: write_row_json_projected_def write_fields_emits [OF assms])

lemma insert_fields_map:
  assumes ok: "store_ok s" and row: "row < capacity s" and cols: "\<forall>c \<in> set cols. c < length (columns (cs_schema s))"
  shows "insert_fields ext (column_name_at (cs_schema s)) s row cols m =
     Some (fold (\<lambda>c. obj_insert (col_name (columns (cs_schema s) ! c)) (to_json ext (row_of s row ! c)))
             (live_columns s row cols) m)"
  using cols
proof (induction cols arbitrary: m)
  case Nil
  then show ?case by (simp add: live_columns_def)
next
  case (Cons c cs)
  have c: "c < length (mappings s)"
    using Cons.prems store_ok_shape(1) [OF ok] by (simp add: store_layout_def)
  have name: "column_name_at (cs_schema s) c = Some (col_name (columns (cs_schema s) ! c))"
    using Cons.prems by (simp add: column_name_at_def column_at_def)
  show ?case
    using Cons c store_ok_cell [OF ok c row] by (simp add: name live_columns_def)
qed

lemma map_of_fold_obj_insert:
  assumes "c \<in> S" "inj_on f S" "set cs \<subseteq> S"
  shows "map_of (fold (\<lambda>c. obj_insert (f c) (g c)) cs m) (f c) = (if c \<in> set cs then Some (g c) else map_of m (f c))"
  using assms
proof (induction cs arbitrary: m)
  case Nil
  then show ?case by simp
next
  case (Cons d cs)
  then have "f c = f d \<longleftrightarrow> c = d" by (meson inj_on_eq_iff list.set_intros(1) subsetD)
  with Cons show ?case by simp
qed

text \<open>Looking a column up in the row map: absent when null, its document otherwise.\<close>

lemma get_row_map_lookup:
  assumes ok: "store_ok s" and row: "row < capacity s" and c: "c < length (columns (cs_schema s))"
    and names: "distinct (map col_name (columns (cs_schema s)))"
    and idx: "\<forall>i < length (columns (cs_schema s)). col_index (columns (cs_schema s) ! i) = i"
  shows "\<exists>m. get_row_map ext s row = Some m \<and>
     map_of m (col_name (columns (cs_schema s) ! c)) =
       (if value_is_null (row_of s row ! c) then None else Some (to_json ext (row_of s row ! c)))"
proof -
  let ?n = "length (columns (cs_schema s))"
  have cols: "map col_index (columns (cs_schema s)) = [0..<?n]"
    by (rule nth_equalityI) (use idx in simp_all)
  have inj: "inj_on (\<lambda>c. col_name (columns (cs_schema s) ! c)) {0..<?n}"
    unfolding inj_on_def using names by (metis atLeastLessThan_iff length_map nth_eq_iff_index_eq nth_map)
  have "set (live_columns s row [0..<?n]) \<subseteq> {0..<?n}" by (auto simp: live_columns_def)
  note m = map_of_fold_obj_insert [OF _ inj this, of c]
  have "get_row_map ext s row =
     Some (fold (\<lambda>c. obj_insert (col_name (columns (cs_schema s) ! c)) (to_json ext (row_of s row ! c)))
             (live_columns s row [0..<?n]) [])"
    unfolding get_row_map_def cols by (rule insert_fields_map [OF ok row]) simp
  then show ?thesis using c by (simp add: m) (simp add: live_columns_def)
qed

section \<open>Properties\<close>

text \<open>
  The escape loop, which copies runs of plain bytes and escapes the others, appends the
  byte-by-byte escape of the string to the buffer, and a JSON reader gets the string back.
\<close>

theorem write_json_str_correct:
  "write_json_str s buf = buf @ escaped s \<and> json_unescape (write_json_str s []) = Some s"
  by (simp add: write_json_str_escaped unescape_escaped)

text \<open>
  The row writer does not panic on columns of the schema and emits one object with
  exactly the non-null columns, in the order they were asked for.
\<close>

theorem row_writer_emits_live_columns:
  assumes "store_ok s" "row < capacity s" "\<forall>c \<in> set cols. c < column_count (cs_schema s)"
  shows "write_row_json_projected ext s row cols buf =
     Some (buf @ [CHR 0x7B] @ comma_join True (map (field_bytes ext s row) (live_columns s row cols)) @ [CHR 0x7D])"
  using assms by (simp add: write_row_json_projected_emits column_count_def)

theorem row_writer_emits_live_columns_witness:
  "write_row_json_projected sample_externals (column_store_new sample_schema 1) 0 [2, 0] ''x'' = Some ''x{}''"
proof -
  have s: "store_ok (column_store_new sample_schema 1)" by (rule column_store_new_ok) simp
  have "column_count (cs_schema (column_store_new sample_schema 1)) = 3" by code_simp
  moreover have "live_columns (column_store_new sample_schema 1) 0 [2, 0] = []"
    by code_simp
  moreover have "capacity (column_store_new sample_schema 1) = 1" by (simp add: column_store_new_def Let_def)
  ultimately show ?thesis
    using row_writer_emits_live_columns [OF s, of 0 "[2, 0]" sample_externals "''x''"] by simp
qed

end
