(* ===== verification/CQ_Seqlock.thy ===== *)
theory CQ_Seqlock
  imports CQ_Store
begin

text \<open>
  The per-row seqlock of \<open>crates/cq-core/src/store.rs\<close>: a writer brackets its column stores
  with an odd and an even version stamp, and \<open>read_row_consistent\<close> retries until two loads
  of the stamp agree on an even value. Writer and reader are interleaved one memory access at
  a time; the acquire and release fences of the code are what makes that interleaving the
  right granularity.

  The state keeps, besides the memory, the list of rows committed so far (a history variable
  that no step reads). Shown here: whatever the interleaving, a row the reader returns is one
  that was committed as a whole; a reader that is not disturbed returns; and the writer's steps
  are the ones \<open>update_row\<close> and \<open>write_row_at\<close> of the store take.
\<close>

section \<open>States and steps\<close>

datatype writer_pc =
    WIdle
  | WWriting nat "(nat \<times> cq_value) list"

datatype reader_pc =
    RStart
  | RReading nat "nat list" "cq_value list"
  | RDone nat "cq_value list"

record seq_state =
  sq_version :: nat
  sq_cells :: "nat \<Rightarrow> cq_value"
  sq_writer :: writer_pc
  sq_reader :: reader_pc
  sq_history :: "(nat \<Rightarrow> cq_value) list"

inductive seq_step :: "nat list \<Rightarrow> seq_state \<Rightarrow> seq_state \<Rightarrow> bool" for cols where
  w_begin: "sq_writer s = WIdle \<Longrightarrow>
    seq_step cols s (s\<lparr>sq_version := sq_version s + 1, sq_writer := WWriting (sq_version s) todo\<rparr>)"
| w_store: "sq_writer s = WWriting v ((c, x) # todo) \<Longrightarrow>
    seq_step cols s (s\<lparr>sq_cells := (sq_cells s)(c := x), sq_writer := WWriting v todo\<rparr>)"
| w_end: "sq_writer s = WWriting v [] \<Longrightarrow>
    seq_step cols s (s\<lparr>sq_version := v + 2, sq_writer := WIdle, sq_history := sq_history s @ [sq_cells s]\<rparr>)"
| r_spin: "sq_reader s = RStart \<Longrightarrow> odd (sq_version s) \<Longrightarrow> seq_step cols s s"
| r_begin: "sq_reader s = RStart \<Longrightarrow> even (sq_version s) \<Longrightarrow>
    seq_step cols s (s\<lparr>sq_reader := RReading (sq_version s) cols []\<rparr>)"
| r_load: "sq_reader s = RReading v (c # cs) acc \<Longrightarrow>
    seq_step cols s (s\<lparr>sq_reader := RReading v cs (acc @ [sq_cells s c])\<rparr>)"
| r_done: "sq_reader s = RReading v [] acc \<Longrightarrow> sq_version s = v \<Longrightarrow>
    seq_step cols s (s\<lparr>sq_reader := RDone v acc\<rparr>)"
| r_retry: "sq_reader s = RReading v [] acc \<Longrightarrow> sq_version s \<noteq> v \<Longrightarrow>
    seq_step cols s (s\<lparr>sq_reader := RStart\<rparr>)"

inductive_cases seq_stepE: "seq_step cols s t"

definition seq_init :: "(nat \<Rightarrow> cq_value) \<Rightarrow> seq_state" where
  "seq_init row = \<lparr>sq_version = 0, sq_cells = row, sq_writer = WIdle, sq_reader = RStart, sq_history = [row]\<rparr>"

definition seq_reachable :: "nat list \<Rightarrow> (nat \<Rightarrow> cq_value) \<Rightarrow> seq_state \<Rightarrow> bool" where
  "seq_reachable cols row s \<longleftrightarrow> (seq_step cols)\<^sup>*\<^sup>* (seq_init row) s"

section \<open>No torn reads\<close>

text \<open>
  The stamp counts the committed rows; while the writer is idle the cells are the last of
  them; and what the reader has gathered is from those cells as long as the stamp has not
  moved.
\<close>

definition writer_inv :: "seq_state \<Rightarrow> bool" where
  "writer_inv s \<longleftrightarrow>
     sq_history s \<noteq> [] \<and>
     (case sq_writer s of
        WIdle \<Rightarrow> sq_version s + 2 = 2 * length (sq_history s) \<and> last (sq_history s) = sq_cells s
      | WWriting v todo \<Rightarrow> v + 2 = 2 * length (sq_history s) \<and> sq_version s = v + 1)"

definition reader_inv :: "nat list \<Rightarrow> seq_state \<Rightarrow> bool" where
  "reader_inv cols s \<longleftrightarrow>
     (case sq_reader s of
        RStart \<Rightarrow> True
      | RReading v cs acc \<Rightarrow>
          even v \<and> v \<le> sq_version s \<and>
          (\<exists>done. cols = done @ cs \<and> (sq_version s = v \<longrightarrow> acc = map (sq_cells s) done))
      | RDone v acc \<Rightarrow>
          even v \<and> v div 2 < length (sq_history s) \<and> acc = map (sq_history s ! (v div 2)) cols)"

lemma writer_inv_step: "seq_step cols s t \<Longrightarrow> writer_inv s \<Longrightarrow> writer_inv t"
  by (induction rule: seq_step.induct) (auto simp: writer_inv_def split: writer_pc.splits)

lemma writing_stamps:
  assumes "writer_inv s" "sq_writer s = WWriting v todo"
  shows "sq_version s = v + 1" "even v"
proof -
  have "v + 2 = 2 * length (sq_history s)" "sq_version s = v + 1" using assms by (auto simp: writer_inv_def)
  then show "sq_version s = v + 1" "even v" by (simp, metis dvd_add_left_iff dvd_triv_left even_numeral)
qed

lemma reader_inv_step:
  assumes "seq_step cols s t" "writer_inv s" "reader_inv cols s"
  shows "reader_inv cols t"
  using assms
proof (induction rule: seq_step.induct)
  case (w_begin s todo)
  then show ?case by (auto simp: reader_inv_def split: reader_pc.splits)
next
  case (w_store s v c x todo)
  then have "odd (sq_version s)" using writing_stamps [OF w_store.prems(1)] by fastforce
  with w_store show ?case by (auto simp: reader_inv_def split: reader_pc.splits)
next
  case (w_end s v)
  then have "sq_version s = v + 1" "even v" using writing_stamps [OF w_end.prems(1)] by auto
  with w_end show ?case
    by (auto simp: reader_inv_def nth_append split: reader_pc.splits)
next
  case (r_done s v acc)
  then have v: "even v" "acc = map (sq_cells s) cols" by (auto simp: reader_inv_def)
  have "sq_writer s = WIdle"
    using writing_stamps [OF r_done.prems(1)] r_done.hyps v(1) by (cases "sq_writer s") auto
  then have h: "sq_cells s = last (sq_history s)" "v + 2 = 2 * length (sq_history s)" "sq_history s \<noteq> []"
    using r_done by (auto simp: writer_inv_def)
  then have "v div 2 = length (sq_history s) - 1" by linarith
  with v h show ?case by (simp add: reader_inv_def last_conv_nth)
qed (auto simp: reader_inv_def)

lemma seq_invariant: "seq_reachable cols row s \<Longrightarrow> writer_inv s \<and> reader_inv cols s"
  unfolding seq_reachable_def
proof (induction rule: rtranclp_induct)
  case base
  then show ?case by (simp add: seq_init_def writer_inv_def reader_inv_def)
next
  case (step s t)
  then show ?case using writer_inv_step reader_inv_step by blast
qed

section \<open>An undisturbed reader returns\<close>

lemma reader_runs:
  "sq_reader s = RReading (sq_version s) cs acc \<Longrightarrow>
   (seq_step cols)\<^sup>*\<^sup>* s (s\<lparr>sq_reader := RDone (sq_version s) (acc @ map (sq_cells s) cs)\<rparr>)"
proof (induction cs arbitrary: s acc)
  case Nil
  then show ?case using r_done [of s "sq_version s" acc cols] by auto
next
  case (Cons c cs)
  let ?t = "s\<lparr>sq_reader := RReading (sq_version s) cs (acc @ [sq_cells s c])\<rparr>"
  have "seq_step cols s ?t" using Cons.prems by (rule r_load)
  moreover have "(seq_step cols)\<^sup>*\<^sup>* ?t (?t\<lparr>sq_reader := RDone (sq_version s) ((acc @ [sq_cells s c]) @ map (sq_cells s) cs)\<rparr>)"
    using Cons.IH [of ?t "acc @ [sq_cells s c]"] by simp
  ultimately show ?case by (simp add: converse_rtranclp_into_rtranclp)
qed

section \<open>The writer of the store\<close>

definition column_todo ::
  "externals \<Rightarrow> (cq_value \<Rightarrow> bool) \<Rightarrow> column_store \<Rightarrow> nat \<Rightarrow> cq_value list \<Rightarrow> (nat \<times> cq_value) list" where
  "column_todo ext skip s r vs =
     map (\<lambda>c. (c, cell_after ext (row_kinds s ! c) (row_of s r ! c) (vs ! c)))
       (filter (\<lambda>c. \<not> skip (vs ! c)) [0..<min (length vs) (length (mappings s))])"

lemma writer_stores:
  "sq_writer s = WWriting v todo \<Longrightarrow>
   (seq_step cols)\<^sup>*\<^sup>* s (s\<lparr>sq_cells := fold (\<lambda>(c, x) m. m(c := x)) todo (sq_cells s), sq_writer := WWriting v []\<rparr>)"
proof (induction todo arbitrary: s)
  case Nil
  then have "s\<lparr>sq_cells := sq_cells s, sq_writer := WWriting v []\<rparr> = s" by (cases s) simp
  then show ?case by simp
next
  case (Cons p todo)
  obtain c x where p: "p = (c, x)" by (cases p)
  let ?t = "s\<lparr>sq_cells := (sq_cells s)(c := x), sq_writer := WWriting v todo\<rparr>"
  have "seq_step cols s ?t" using Cons.prems by (simp add: w_store p)
  with Cons.IH [of ?t] show ?case by (simp add: p converse_rtranclp_into_rtranclp)
qed

lemma fold_column_todo:
  "fold (\<lambda>(c, x) m. m(c := x)) (map (\<lambda>c. (c, f c)) cs) m d = (if d \<in> set cs then f d else m d)"
  by (induction cs arbitrary: m) auto


text \<open>The writer's steps for one write section of the store, and what they leave in the row.\<close>

lemma writer_section:
  assumes "sq_writer s = WIdle"
  shows "(seq_step cols)\<^sup>*\<^sup>* s
    (s\<lparr>sq_version := sq_version s + 2, sq_cells := fold (\<lambda>(c, x) m. m(c := x)) todo (sq_cells s),
       sq_history := sq_history s @ [fold (\<lambda>(c, x) m. m(c := x)) todo (sq_cells s)]\<rparr>)"
proof -
  let ?v = "sq_version s"
  let ?s1 = "s\<lparr>sq_version := ?v + 1, sq_writer := WWriting ?v todo\<rparr>"
  let ?s2 = "?s1\<lparr>sq_cells := fold (\<lambda>(c, x) m. m(c := x)) todo (sq_cells ?s1), sq_writer := WWriting ?v []\<rparr>"
  have "seq_step cols s ?s1" using assms by (rule w_begin)
  moreover have "(seq_step cols)\<^sup>*\<^sup>* ?s1 ?s2" by (rule writer_stores) simp
  moreover have "seq_step cols ?s2 (?s2\<lparr>sq_version := ?v + 2, sq_writer := WIdle, sq_history := sq_history ?s2 @ [sq_cells ?s2]\<rparr>)"
    by (rule w_end) simp
  moreover have "?s2\<lparr>sq_version := ?v + 2, sq_writer := WIdle, sq_history := sq_history ?s2 @ [sq_cells ?s2]\<rparr> =
    s\<lparr>sq_version := sq_version s + 2, sq_cells := fold (\<lambda>(c, x) m. m(c := x)) todo (sq_cells s),
       sq_history := sq_history s @ [fold (\<lambda>(c, x) m. m(c := x)) todo (sq_cells s)]\<rparr>"
    using assms by (cases s) simp
  ultimately show ?thesis by (metis (no_types, lifting) converse_rtranclp_into_rtranclp rtranclp.rtrancl_into_rtrancl)
qed

lemma column_todo_overlay:
  assumes "c < length (mappings s)"
  shows "fold (\<lambda>(c, x) m. m(c := x)) (column_todo ext skip s r vs) ((!) (row_of s r)) c =
    overlay ext skip (row_kinds s) (row_of s r) vs ! c"
  unfolding column_todo_def fold_column_todo using assms by (simp add: overlay_def)

section \<open>Properties\<close>

text \<open>
  C22: However the writer's and the reader's memory accesses interleave, a row that
  \<open>read_row_consistent\<close> returns is the row of one commit: all gathered columns come from
  the same committed row, the one the even stamp names.
\<close>

theorem read_row_consistent_not_torn:
  assumes "seq_reachable cols row s" "sq_reader s = RDone v result"
  shows "even v \<and> v div 2 < length (sq_history s) \<and> result = map (sq_history s ! (v div 2)) cols"
  using seq_invariant [OF assms(1)] assms(2) by (simp add: reader_inv_def)

theorem read_row_consistent_not_torn_witness:
  "\<exists>s. seq_reachable [0, 1] (\<lambda>_. VNull) s \<and> sq_reader s = RDone 2 [VBool (Some True), VNull] \<and>
     sq_history s ! 1 = (\<lambda>_. VNull)(0 := VBool (Some True))"
proof -
  let ?row = "(\<lambda>_. VNull)(0 := VBool (Some True))"
  let ?a = "seq_init (\<lambda>_. VNull)"
  let ?b = "?a\<lparr>sq_version := 2, sq_cells := ?row, sq_history := [\<lambda>_. VNull, ?row]\<rparr>"
  have "(seq_step [0, 1])\<^sup>*\<^sup>* ?a ?b"
    using writer_section [of ?a "[0, 1]" "[(0, VBool (Some True))]"] by (simp add: seq_init_def numeral_2_eq_2)
  moreover have "seq_step [0, 1] ?b (?b\<lparr>sq_reader := RReading (sq_version ?b) [0, 1] []\<rparr>)"
    by (rule r_begin) (simp_all add: seq_init_def)
  moreover note reader_runs [of "?b\<lparr>sq_reader := RReading (sq_version ?b) [0, 1] []\<rparr>" "[0, 1]" "[]" "[0, 1]"]
  ultimately have reach: "seq_reachable [0, 1] (\<lambda>_. VNull) (?b\<lparr>sq_reader := RDone 2 [VBool (Some True), VNull]\<rparr>)"
    unfolding seq_reachable_def by (simp add: seq_init_def)
  show ?thesis
    using read_row_consistent_not_torn [OF reach] reach by (intro exI conjI) (rule reach, simp_all)
qed

text \<open>
  C39: A reader that starts while no writer is active and is not interrupted returns, with the
  last committed row; the retry loop only repeats when a writer was at work.
\<close>

theorem read_row_consistent_returns:
  assumes "seq_reachable cols row s" "sq_reader s = RStart" "sq_writer s = WIdle"
  shows "(seq_step cols)\<^sup>*\<^sup>* s (s\<lparr>sq_reader := RDone (sq_version s) (map (last (sq_history s)) cols)\<rparr>)"
proof -
  have inv: "writer_inv s" using seq_invariant [OF assms(1)] by blast
  then have "sq_version s + 2 = 2 * length (sq_history s)" "last (sq_history s) = sq_cells s"
    using assms(3) by (auto simp: writer_inv_def)
  then have "even (sq_version s)" by (metis dvd_add_left_iff dvd_triv_left even_numeral)
  then have "seq_step cols s (s\<lparr>sq_reader := RReading (sq_version s) cols []\<rparr>)" by (rule r_begin [OF assms(2)])
  with reader_runs [of "s\<lparr>sq_reader := RReading (sq_version s) cols []\<rparr>" cols "[]" cols]
    \<open>last (sq_history s) = sq_cells s\<close>
  show ?thesis by (simp add: converse_rtranclp_into_rtranclp)
qed

theorem read_row_consistent_returns_witness:
  "(seq_step [3])\<^sup>*\<^sup>* (seq_init (\<lambda>_. VNull)) ((seq_init (\<lambda>_. VNull))\<lparr>sq_reader := RDone 0 [VNull]\<rparr>)"
  using read_row_consistent_returns [of "[3]" "\<lambda>_. VNull" "seq_init (\<lambda>_. VNull)"]
  by (simp add: seq_reachable_def seq_init_def)

text \<open>
  An in-place update of the store is one write section of the seqlock: the writer's steps
  on the row's stamp and cells, run from the row before the update, end with the stamp and the
  cells the store has after it.
\<close>

theorem update_row_is_write_section:
  assumes "store_ok s" "r < row_count s" "update_row ext s r vs = Some t"
    and "sq_writer q = WIdle" "sq_version q = row_versions s ! r" "sq_cells q = (!) (row_of s r)"
  shows "\<exists>q'. (seq_step cols)\<^sup>*\<^sup>* q q' \<and> sq_writer q' = WIdle \<and> sq_version q' = row_versions t ! r \<and>
     (\<forall>c < column_count (cs_schema s). sq_cells q' c = row_of t r ! c)"
proof -
  obtain t' where t': "update_row ext s r vs = Some t'" "row_count t' = row_count s"
    "store_rows t' = (store_rows s)[r := merged_values ext (row_kinds s) (row_of s r) vs]"
    "row_versions t' = (row_versions s)[r := row_versions s ! r + 2]"
    by (rule update_row_ok [OF assms(1,2), of ext vs]) (metis length_list_update length_store_rows)
  have t: "t' = t" using t' assms(3) by simp
  have row: "row_of t r = merged_values ext (row_kinds s) (row_of s r) vs"
    using t' assms(2) store_rows_nth [of r t'] unfolding t by simp
  have len: "r < length (row_versions s)" "length (mappings s) = column_count (cs_schema s)"
    using store_ok_shape [OF assms(1)] assms(2) by (simp_all add: store_layout_def column_count_def)
  show ?thesis
    using writer_section [OF assms(4), of cols "column_todo ext (\<lambda>v. v = VNull) s r vs"] t' len row assms(4-6)
    by (intro exI conjI) (assumption, simp_all add: t column_todo_overlay merged_values_def)
qed

theorem update_row_is_write_section_witness:
  "\<exists>s t q q'. update_row sample_externals s 0 [VLong 9] = Some t \<and> store_rows t = [[VLong 9, VDouble NULL_DOUBLE, VString None]] \<and>
     (seq_step [0])\<^sup>*\<^sup>* q q' \<and> sq_cells q 0 = VLong NULL_LONG \<and> sq_cells q' 0 = VLong 9"
proof -
  define s where "s = column_store_new sample_schema 1"
  have new: "store_ok s" "store_rows s = []" "row_kinds s = [TLong, TDouble, TString]" "cs_schema s = sample_schema"
    using column_store_new_ok [of 1 sample_schema]
    by (simp_all add: s_def sample_kinds) (simp add: column_store_new_def Let_def)
  obtain u where u: "store_ok u" "row_kinds u = row_kinds s" "cs_schema u = cs_schema s"
    "store_rows u = store_rows s @ [fresh_values sample_externals (row_kinds s) []]"
    by (rule append_row_ok [OF new(1), of sample_externals "[]"])
  then have rows: "store_rows u = [[VLong NULL_LONG, VDouble NULL_DOUBLE, VString None]]"
    by (simp add: new(2,3) fresh_values_def overlay_def upt_rec)
  then have r: "0 < row_count u" and row: "row_of u 0 = [VLong NULL_LONG, VDouble NULL_DOUBLE, VString None]"
    using length_store_rows [of u] store_rows_nth [of 0 u] by simp_all
  obtain t where t: "update_row sample_externals u 0 [VLong 9] = Some t"
    "store_rows t = (store_rows u)[0 := merged_values sample_externals (row_kinds u) (row_of u 0) [VLong 9]]"
    by (rule update_row_ok [OF u(1) r, of sample_externals "[VLong 9]"])
  then have rt: "store_rows t = [[VLong 9, VDouble NULL_DOUBLE, VString None]]"
    by (simp add: rows row u(2) new(3) merged_values_def overlay_def cell_after_def upt_rec)
  then have row_t: "row_of t 0 = [VLong 9, VDouble NULL_DOUBLE, VString None]"
    using length_store_rows [of t] store_rows_nth [of 0 t] by simp
  let ?q = "\<lparr>sq_version = row_versions u ! 0, sq_cells = (!) (row_of u 0), sq_writer = WIdle, sq_reader = RStart, sq_history = []\<rparr>"
  have "column_count (cs_schema u) = 3"
    using arg_cong [OF sample_kinds, of length] u new by (simp add: column_count_def)
  then obtain q' where "(seq_step [0])\<^sup>*\<^sup>* ?q q'" "sq_cells q' 0 = VLong 9"
    using update_row_is_write_section [OF u(1) r t(1), of ?q "[0]"] row_t by auto
  then show ?thesis using t(1) rt row by (intro exI conjI) (assumption+, simp, assumption)
qed

end
