(* ===== verification/CQ_Sec_Index.thy ===== *)
theory CQ_Sec_Index
  imports CQ_Value "HOL-Library.Product_Lexorder"
begin

text \<open>
  The secondary indexes of a topic (\<open>crates/cq-core/src/sec_index.rs\<close>): per indexed column a
  hash map for equality and an ordered map for ranges, from keys to the set of rows (a
  \<open>RoaringBitmap\<close>) that hold the key.

  Shown here: the key order is a linear order that agrees with the order of the values; adding
  and removing keep both maps in step with a table of cell values; and the lookups return
  exactly the rows a scan of that table finds, for equality of keys and for key ranges. The
  encoding of floats separates the two zeros, which a scan does not.
\<close>

section \<open>Keys\<close>

datatype ix_key =
    IxInt i32
  | IxLong i64
  | IxDoubleBits u64
  | IxString string
  | IxBool bool
  | IxTimestamp i64

fun ix_key_from_value :: "externals \<Rightarrow> cq_value \<Rightarrow> ix_key option" where
  "ix_key_from_value ext VNull = None"
| "ix_key_from_value ext (VString s) = map_option IxString s"
| "ix_key_from_value ext (VLong n) = (if n = NULL_LONG then None else Some (IxLong n))"
| "ix_key_from_value ext (VInt n) = (if n = NULL_INT then None else Some (IxInt n))"
| "ix_key_from_value ext (VDouble d) =
     (if f64_is_nan d \<or> f64_eq d NULL_DOUBLE then None else Some (IxDoubleBits d))"
| "ix_key_from_value ext (VBool b) = map_option IxBool b"
| "ix_key_from_value ext (VTimestamp t) = (if t = NULL_TIMESTAMP then None else Some (IxTimestamp t))"
| "ix_key_from_value ext (VBytes b) = map_option (\<lambda>x. IxString (b64_encode ext x)) b"

datatype range_key =
    RkInt i32
  | RkLong i64
  | RkDoubleOrdered u64
  | RkString string
  | RkBool bool
  | RkTimestamp i64

text \<open>The derived \<open>Ord\<close>: by variant, then by payload (signed for \<open>i32\<close> and \<open>i64\<close>).\<close>

fun range_key_rank :: "range_key \<Rightarrow> nat \<times> int \<times> string" where
  "range_key_rank (RkInt n) = (0, sint n, [])"
| "range_key_rank (RkLong n) = (1, sint n, [])"
| "range_key_rank (RkDoubleOrdered u) = (2, uint u, [])"
| "range_key_rank (RkString s) = (3, 0, s)"
| "range_key_rank (RkBool b) = (4, if b then 1 else 0, [])"
| "range_key_rank (RkTimestamp n) = (5, sint n, [])"

lemma range_key_rank_inj: "range_key_rank a = range_key_rank b \<Longrightarrow> a = b"
  by (cases a; cases b) (auto split: if_splits intro: signed_word_eqI unsigned_word_eqI)

instantiation range_key :: linorder
begin

definition less_eq_range_key :: "range_key \<Rightarrow> range_key \<Rightarrow> bool" where
  "less_eq_range_key a b \<longleftrightarrow> range_key_rank a \<le> range_key_rank b"

definition less_range_key :: "range_key \<Rightarrow> range_key \<Rightarrow> bool" where
  "less_range_key a b \<longleftrightarrow> range_key_rank a < range_key_rank b"

instance
  by standard (auto simp: less_eq_range_key_def less_range_key_def dest: range_key_rank_inj)

end

unbundle bit_operations_syntax

definition f64_to_ordered_bits :: "f64 \<Rightarrow> u64" where
  "f64_to_ordered_bits f =
     (if f AND push_bit 63 1 = 0 then f XOR push_bit 63 1 else NOT f)"

fun range_key_from_value :: "externals \<Rightarrow> cq_value \<Rightarrow> range_key option" where
  "range_key_from_value ext VNull = None"
| "range_key_from_value ext (VString s) = map_option RkString s"
| "range_key_from_value ext (VLong n) = (if n = NULL_LONG then None else Some (RkLong n))"
| "range_key_from_value ext (VInt n) = (if n = NULL_INT then None else Some (RkInt n))"
| "range_key_from_value ext (VDouble d) =
     (if f64_is_nan d \<or> f64_eq d NULL_DOUBLE then None else Some (RkDoubleOrdered (f64_to_ordered_bits d)))"
| "range_key_from_value ext (VBool b) = map_option RkBool b"
| "range_key_from_value ext (VTimestamp t) = (if t = NULL_TIMESTAMP then None else Some (RkTimestamp t))"
| "range_key_from_value ext (VBytes b) = map_option (\<lambda>x. RkString (b64_encode ext x)) b"

section \<open>Bitmaps by key\<close>

text \<open>
  \<open>entry(key).or_default().insert(row)\<close>, and the removal that drops an entry when its bitmap
  becomes empty, over the operations of the map that holds the bitmaps.
\<close>

definition bitmap_add ::
  "('k \<Rightarrow> nat set \<Rightarrow> 'm \<Rightarrow> 'm) \<Rightarrow> ('m \<Rightarrow> 'k \<Rightarrow> nat set option) \<Rightarrow> 'k \<Rightarrow> nat \<Rightarrow> 'm \<Rightarrow> 'm" where
  "bitmap_add put get k row m = put k (insert row (case get m k of Some b \<Rightarrow> b | None \<Rightarrow> {})) m"

definition bitmap_remove ::
  "('k \<Rightarrow> nat set \<Rightarrow> 'm \<Rightarrow> 'm) \<Rightarrow> ('k \<Rightarrow> 'm \<Rightarrow> 'm) \<Rightarrow> ('m \<Rightarrow> 'k \<Rightarrow> nat set option) \<Rightarrow> 'k \<Rightarrow> nat \<Rightarrow> 'm \<Rightarrow> 'm" where
  "bitmap_remove put del get k row m =
     (case get m k of
        Some b \<Rightarrow> if b - {row} = {} then del k m else put k (b - {row}) m
      | None \<Rightarrow> m)"

text \<open>The rows of a key: those of its bitmap, none when there is no entry.\<close>

definition bitmap_rows :: "('m \<Rightarrow> 'k \<Rightarrow> nat set option) \<Rightarrow> 'm \<Rightarrow> 'k \<Rightarrow> nat set" where
  "bitmap_rows get m k = (case get m k of Some b \<Rightarrow> b | None \<Rightarrow> {})"

section \<open>The index\<close>

record sec_index =
  indexed_cols :: "nat list"
  by_col :: "nat \<rightharpoonup> (ix_key \<times> nat set) list"
  range_by_col :: "nat \<rightharpoonup> (range_key \<times> nat set) list"

definition sec_index_new :: "nat list \<Rightarrow> sec_index" where
  "sec_index_new cols =
     \<lparr>indexed_cols = cols,
      by_col = fold (\<lambda>c m. m(c \<mapsto> [])) cols Map.empty,
      range_by_col = fold (\<lambda>c m. m(c \<mapsto> [])) cols Map.empty\<rparr>"

definition index_is_empty :: "sec_index \<Rightarrow> bool" where "index_is_empty ix = (indexed_cols ix = [])"
definition covers :: "sec_index \<Rightarrow> nat \<Rightarrow> bool" where "covers ix col = (col \<in> set (indexed_cols ix))"

abbreviation hash_add where "hash_add \<equiv> bitmap_add AList.update map_of"
abbreviation hash_remove where "hash_remove \<equiv> bitmap_remove AList.update AList.delete map_of"
abbreviation tree_add where "tree_add \<equiv> bitmap_add btree_insert map_of"
abbreviation tree_remove where "tree_remove \<equiv> bitmap_remove btree_insert AList.delete map_of"

text \<open>\<open>if let Some(inner) = map.get_mut(&col) \<dots>\<close>: the column's inner map changed in place.\<close>

definition on_column :: "('m \<Rightarrow> 'm) \<Rightarrow> nat \<Rightarrow> (nat \<rightharpoonup> 'm) \<Rightarrow> (nat \<rightharpoonup> 'm)" where
  "on_column f col m = (case m col of Some inner \<Rightarrow> m(col \<mapsto> f inner) | None \<Rightarrow> m)"

definition index_add :: "externals \<Rightarrow> nat \<Rightarrow> cq_value \<Rightarrow> nat \<Rightarrow> sec_index \<Rightarrow> sec_index" where
  "index_add ext col v row ix =
     ix\<lparr>by_col := (case ix_key_from_value ext v of
                      Some k \<Rightarrow> on_column (hash_add k row) col (by_col ix)
                    | None \<Rightarrow> by_col ix),
        range_by_col := (case range_key_from_value ext v of
                      Some k \<Rightarrow> on_column (tree_add k row) col (range_by_col ix)
                    | None \<Rightarrow> range_by_col ix)\<rparr>"

definition index_remove :: "externals \<Rightarrow> nat \<Rightarrow> cq_value \<Rightarrow> nat \<Rightarrow> sec_index \<Rightarrow> sec_index" where
  "index_remove ext col v row ix =
     ix\<lparr>by_col := (case ix_key_from_value ext v of
                      Some k \<Rightarrow> on_column (hash_remove k row) col (by_col ix)
                    | None \<Rightarrow> by_col ix),
        range_by_col := (case range_key_from_value ext v of
                      Some k \<Rightarrow> on_column (tree_remove k row) col (range_by_col ix)
                    | None \<Rightarrow> range_by_col ix)\<rparr>"

definition rows_for_key :: "sec_index \<Rightarrow> nat \<Rightarrow> ix_key \<Rightarrow> nat set option" where
  "rows_for_key ix col key = Option.bind (by_col ix col) (\<lambda>inner. map_of inner key)"

definition rows_for :: "externals \<Rightarrow> sec_index \<Rightarrow> nat \<Rightarrow> cq_value \<Rightarrow> nat set option" where
  "rows_for ext ix col v = do {
     inner \<leftarrow> by_col ix col;
     key \<leftarrow> ix_key_from_value ext v;
     map_of inner key
   }"

definition distinct_value_count :: "sec_index \<Rightarrow> nat \<Rightarrow> nat option" where
  "distinct_value_count ix col = map_option length (by_col ix col)"

definition non_null_row_count :: "sec_index \<Rightarrow> nat \<Rightarrow> nat option" where
  "non_null_row_count ix col = map_option (\<lambda>inner. sum_list (map (card \<circ> snd) inner)) (by_col ix col)"

definition has_range :: "sec_index \<Rightarrow> nat \<Rightarrow> bool" where
  "has_range ix col = (range_by_col ix col \<noteq> None)"

definition union_where :: "('k \<Rightarrow> bool) \<Rightarrow> ('k \<times> nat set) list \<Rightarrow> nat set" where
  "union_where P inner = fold (\<lambda>e out. out \<union> snd e) (filter (\<lambda>e. P (fst e)) inner) {}"

definition rows_in_range ::
  "sec_index \<Rightarrow> nat \<Rightarrow> range_key option \<Rightarrow> range_key option \<Rightarrow> nat set option" where
  "rows_in_range ix col lo hi =
     (case range_by_col ix col of
        None \<Rightarrow> None
      | Some inner \<Rightarrow>
          (case (lo, hi) of
             (Some l, Some h) \<Rightarrow>
               if l > h then Some {} else Some (union_where (\<lambda>k. l \<le> k \<and> k \<le> h) inner)
           | (Some l, None) \<Rightarrow> Some (union_where (\<lambda>k. l \<le> k) inner)
           | (None, Some h) \<Rightarrow> Some (union_where (\<lambda>k. k \<le> h) inner)
           | (None, None) \<Rightarrow> Some (union_where (\<lambda>k. True) inner)))"

definition rows_greater_than :: "sec_index \<Rightarrow> nat \<Rightarrow> range_key \<Rightarrow> nat set option" where
  "rows_greater_than ix col lo = map_option (union_where (\<lambda>k. lo < k)) (range_by_col ix col)"

definition rows_less_than :: "sec_index \<Rightarrow> nat \<Rightarrow> range_key \<Rightarrow> nat set option" where
  "rows_less_than ix col hi = map_option (union_where (\<lambda>k. k < hi)) (range_by_col ix col)"
section \<open>The order of float keys\<close>

lemma f64_sign_bit: "f AND push_bit 63 (1 :: u64) = 0 \<longleftrightarrow> \<not> f64_neg f"
proof -
  have "f AND push_bit 63 (1 :: u64) = 0 \<longleftrightarrow> \<not> bit f 63"
    by (simp only: push_bit_eq_mult mult_1 and_exp_eq_0_iff_not_bit)
  also have "bit f 63 = odd (unat f div 2 ^ 63)"
    using bit_unsigned_iff [of f 63, where 'a = nat] by (simp only: bit_iff_odd possible_bit_nat simp_thms)
  also have "\<dots> \<longleftrightarrow> 2 ^ 63 \<le> unat f"
  proof -
    have "unat f < 2 ^ 64" using unsigned_less [of f, where 'a = nat] by simp
    then have "unat f div 2 ^ 63 = (if 2 ^ 63 \<le> unat f then 1 else 0)"
      by (auto simp: not_le div_nat_eqI)
    then show ?thesis by simp
  qed
  finally show ?thesis by (simp add: f64_neg_def)
qed

lemma unat_ordered_bits: "int (unat (f64_to_ordered_bits f)) = f64_total_key f + 2 ^ 63"
proof (cases "f64_neg f")
  case False
  then have "f AND push_bit 63 (1 :: u64) = 0" by (simp only: f64_sign_bit not_False_eq_True)
  then have "f64_to_ordered_bits f = f + push_bit 63 1"
    by (simp only: f64_to_ordered_bits_def disjunctive_add_eq_xor if_True simp_thms)
  moreover have "unat f < 2 ^ 63" using False by (simp add: f64_neg_def)
  ultimately have "unat (f64_to_ordered_bits f) = unat f + 2 ^ 63"
    by (simp add: unat_word_ariths push_bit_eq_mult)
  then show ?thesis using False f64_key_split [of f] by (simp add: f64_total_key_def)
next
  case True
  then have "f AND push_bit 63 (1 :: u64) \<noteq> 0" by (simp only: f64_sign_bit not_True_eq_False not_False_eq_True)
  then have "f64_to_ordered_bits f = NOT f" by (simp only: f64_to_ordered_bits_def if_False)
  also have "\<dots> = (- 1) - f" by (simp add: not_eq_complement)
  finally have "unat (f64_to_ordered_bits f) = unat (- 1 :: u64) - unat f" by (simp add: unat_sub)
  moreover have "unat f < 2 ^ 64" using unsigned_less [of f, where 'a = nat] by simp
  moreover have "unat (- 1 :: u64) = 2 ^ 64 - 1" by (simp add: unsigned_minus_1_eq_mask mask_eq_exp_minus_1)
  ultimately have "int (unat (f64_to_ordered_bits f)) = 2 ^ 64 - 1 - int (unat f)" by simp
  then show ?thesis
    using True f64_key_split [of f] by (simp add: f64_total_key_def)
qed

lemma ordered_bits_less_iff:
  "f64_to_ordered_bits a < f64_to_ordered_bits b \<longleftrightarrow> f64_total_key a < f64_total_key b"
  using unat_ordered_bits [of a] unat_ordered_bits [of b] unfolding word_less_nat_alt by linarith

lemma ordered_bits_inj: "f64_to_ordered_bits a = f64_to_ordered_bits b \<longleftrightarrow> a = b"
  using unat_ordered_bits [of a] unat_ordered_bits [of b] f64_total_key_inj [of a b] by auto

lemma f64_lt_total: "f64_lt a b \<Longrightarrow> f64_total_key a < f64_total_key b"
  using f64_mag_less [of a] f64_mag_less [of b]
  by (auto simp: f64_lt_def f64_key_def f64_total_key_def split: if_splits)

lemma f64_total_lt:
  "\<not> f64_is_nan a \<Longrightarrow> \<not> f64_is_nan b \<Longrightarrow> f64_total_key a < f64_total_key b \<Longrightarrow>
   f64_lt a b \<or> (f64_neg a \<and> \<not> f64_neg b \<and> f64_mag a = 0 \<and> f64_mag b = 0)"
  by (auto simp: f64_lt_def f64_key_def f64_total_key_def split: if_splits)

section \<open>Bitmap maps\<close>

locale bitmap_map =
  fixes put :: "'k \<Rightarrow> nat set \<Rightarrow> 'm \<Rightarrow> 'm" and del :: "'k \<Rightarrow> 'm \<Rightarrow> 'm"
    and get :: "'m \<Rightarrow> 'k \<Rightarrow> nat set option" and ok :: "'m \<Rightarrow> bool"
  assumes get_put: "get (put k b m) = (get m)(k \<mapsto> b)"
    and get_del: "ok m \<Longrightarrow> get (del k m) = (get m)(k := None)"
    and ok_put: "ok m \<Longrightarrow> ok (put k b m)"
    and ok_del: "ok m \<Longrightarrow> ok (del k m)"
begin

lemma rows_add: "bitmap_rows get (bitmap_add put get k row m) j = (if j = k then insert row (bitmap_rows get m k) else bitmap_rows get m j)"
  by (simp add: bitmap_rows_def bitmap_add_def get_put)

lemma rows_remove:
  "ok m \<Longrightarrow> bitmap_rows get (bitmap_remove put del get k row m) j =
     (if j = k then bitmap_rows get m k - {row} else bitmap_rows get m j)"
  by (auto simp: bitmap_rows_def bitmap_remove_def get_put get_del split: option.splits)

lemma add_ok: "ok m \<Longrightarrow> ok (bitmap_add put get k row m)"
  by (simp add: bitmap_add_def ok_put)

lemma remove_ok: "ok m \<Longrightarrow> ok (bitmap_remove put del get k row m)"
  by (simp add: bitmap_remove_def ok_put ok_del split: option.splits)

lemma add_nonempty: "\<forall>j b. get m j = Some b \<longrightarrow> b \<noteq> {} \<Longrightarrow> get (bitmap_add put get k row m) j = Some b \<Longrightarrow> b \<noteq> {}"
  by (auto simp: bitmap_add_def get_put split: if_splits)

lemma remove_nonempty:
  "ok m \<Longrightarrow> \<forall>j b. get m j = Some b \<longrightarrow> b \<noteq> {} \<Longrightarrow> get (bitmap_remove put del get k row m) j = Some b \<Longrightarrow> b \<noteq> {}"
  by (auto simp: bitmap_remove_def get_put get_del split: if_splits option.splits)

end

interpretation hash_map: bitmap_map AList.update AList.delete map_of "\<lambda>m. distinct (map fst m)"
  by unfold_locales (auto simp: update_conv' delete_conv' distinct_update distinct_delete)

lemma sorted_delete: "sorted_wrt (<) (map fst m) \<Longrightarrow> sorted_wrt (<) (map fst (AList.delete k m))"
  unfolding AList.delete_eq by (induction m) auto

interpretation btree_map: bitmap_map btree_insert AList.delete map_of "\<lambda>m. sorted_wrt (<) (map fst m)"
  by unfold_locales (auto simp: delete_conv' sorted_btree_insert sorted_delete)

section \<open>Index and table in step\<close>

text \<open>
  \<open>T c r\<close> is the value of column \<open>c\<close> in row \<open>r\<close>, null where there is none. One inner map is in
  step with the values of its column when its keys are well-formed, no bitmap is empty, and
  every key's bitmap is the set of rows that hold it.
\<close>

definition inner_in_step ::
  "(cq_value \<Rightarrow> 'k option) \<Rightarrow> (('k \<times> nat set) list \<Rightarrow> bool) \<Rightarrow> ('k \<times> nat set) list \<Rightarrow> (nat \<Rightarrow> cq_value) \<Rightarrow> bool" where
  "inner_in_step key ok inner col \<longleftrightarrow>
     ok inner \<and> (\<forall>k b. map_of inner k = Some b \<longrightarrow> b \<noteq> {}) \<and>
     (\<forall>k. bitmap_rows map_of inner k = {r. key (col r) = Some k})"

definition side_in_step ::
  "(cq_value \<Rightarrow> 'k option) \<Rightarrow> (('k \<times> nat set) list \<Rightarrow> bool) \<Rightarrow> nat list \<Rightarrow>
   (nat \<rightharpoonup> ('k \<times> nat set) list) \<Rightarrow> (nat \<Rightarrow> nat \<Rightarrow> cq_value) \<Rightarrow> bool" where
  "side_in_step key ok cols m T \<longleftrightarrow>
     dom m = set cols \<and> (\<forall>c inner. m c = Some inner \<longrightarrow> inner_in_step key ok inner (T c))"

abbreviation keys_distinct :: "('k \<times> nat set) list \<Rightarrow> bool" where
  "keys_distinct m \<equiv> distinct (map fst m)"
abbreviation keys_sorted :: "('k::linorder \<times> nat set) list \<Rightarrow> bool" where
  "keys_sorted m \<equiv> sorted_wrt (<) (map fst m)"

definition index_in_step :: "externals \<Rightarrow> sec_index \<Rightarrow> (nat \<Rightarrow> nat \<Rightarrow> cq_value) \<Rightarrow> bool" where
  "index_in_step ext ix T \<longleftrightarrow>
     side_in_step (ix_key_from_value ext) keys_distinct (indexed_cols ix) (by_col ix) T \<and>
     side_in_step (range_key_from_value ext) keys_sorted (indexed_cols ix) (range_by_col ix) T"

lemma no_key_iff: "ix_key_from_value ext v = None \<longleftrightarrow> value_is_null v"
  "range_key_from_value ext v = None \<longleftrightarrow> value_is_null v"
  by (cases v; auto simp: f64_eq_def)+

lemma side_new:
  fixes key :: "cq_value \<Rightarrow> 'k option"
  assumes "ok []" "\<And>r c. key (T c r) = None"
  shows "side_in_step key ok cols (fold (\<lambda>c m. m(c \<mapsto> [])) cols Map.empty) T"
proof -
  have f: "(fold (\<lambda>c m. m(c \<mapsto> [])) cols m0) c = (if c \<in> set cols then Some [] else m0 c)" for c and m0 :: "nat \<rightharpoonup> ('k \<times> nat set) list"
    by (induction cols arbitrary: m0) auto
  show ?thesis
    using assms by (auto simp: side_in_step_def inner_in_step_def bitmap_rows_def dom_def f split: if_splits)
qed

lemma side_on_column:
  assumes "side_in_step key ok cols m T"
    and "\<And>inner. m c = Some inner \<Longrightarrow> inner_in_step key ok inner (T c) \<Longrightarrow> inner_in_step key ok (f inner) (T' c)"
    and "\<And>d. d \<noteq> c \<Longrightarrow> T' d = T d"
  shows "side_in_step key ok cols (on_column f c m) T'"
proof (cases "m c")
  case None
  then have "on_column f c m = m" by (simp add: on_column_def)
  moreover have "T' d = T d" if "m d \<noteq> None" for d using assms(3) [of d] that None by (cases "d = c") auto
  ultimately show ?thesis using assms(1) unfolding side_in_step_def by (metis option.distinct(1))
next
  case (Some inner)
  with assms show ?thesis by (auto simp: side_in_step_def on_column_def dom_def)
qed

lemma side_unchanged:
  "side_in_step key ok cols m T \<Longrightarrow> key v = key (T c row) \<Longrightarrow>
   side_in_step key ok cols m (T(c := (T c)(row := v)))"
  by (auto simp: side_in_step_def inner_in_step_def)

locale bitmap_list = bitmap_map put del map_of ok
  for put :: "'k \<Rightarrow> nat set \<Rightarrow> ('k \<times> nat set) list \<Rightarrow> ('k \<times> nat set) list" and del and ok
begin

lemma inner_add:
  "inner_in_step key ok inner col \<Longrightarrow> key (col row) = None \<Longrightarrow> key v = Some k \<Longrightarrow>
   inner_in_step key ok (bitmap_add put map_of k row inner) (col(row := v))"
  using add_nonempty [of inner k row] by (auto simp: inner_in_step_def rows_add add_ok)

lemma inner_remove:
  "inner_in_step key ok inner col \<Longrightarrow> key (col row) = Some k \<Longrightarrow> key v = None \<Longrightarrow>
   inner_in_step key ok (bitmap_remove put del map_of k row inner) (col(row := v))"
  using remove_nonempty [of inner k row] by (auto simp: inner_in_step_def rows_remove remove_ok)

lemma side_add:
  assumes "side_in_step key ok cols m T" "key (T c row) = None"
  shows "side_in_step key ok cols
     (case key v of Some k \<Rightarrow> on_column (bitmap_add put map_of k row) c m | None \<Rightarrow> m) (T(c := (T c)(row := v)))"
proof (cases "key v")
  case None
  then show ?thesis using side_unchanged [OF assms(1), of v c row] assms(2) by simp
next
  case (Some k)
  show ?thesis unfolding Some option.case
    by (rule side_on_column [OF assms(1)]) (simp_all add: inner_add assms(2) Some)
qed

lemma side_remove:
  assumes "side_in_step key ok cols m T" "key (T c row) = key old" "key v = None"
  shows "side_in_step key ok cols
     (case key old of Some k \<Rightarrow> on_column (bitmap_remove put del map_of k row) c m | None \<Rightarrow> m) (T(c := (T c)(row := v)))"
proof (cases "key old")
  case None
  then show ?thesis using side_unchanged [OF assms(1), of v c row] assms(2,3) by simp
next
  case (Some k)
  show ?thesis unfolding Some option.case
    by (rule side_on_column [OF assms(1)]) (simp_all add: inner_remove assms(2,3) Some)
qed

end

interpretation hash_side: bitmap_list AList.update AList.delete keys_distinct
  by unfold_locales

interpretation tree_side: bitmap_list btree_insert AList.delete keys_sorted
  by unfold_locales

lemma index_new_in_step: "index_in_step ext (sec_index_new cols) (\<lambda>_ _. VNull)"
  by (simp add: index_in_step_def sec_index_new_def side_new)

lemma index_add_in_step:
  assumes "index_in_step ext ix T" "value_is_null (T c row)"
  shows "index_in_step ext (index_add ext c v row ix) (T(c := (T c)(row := v)))"
proof -
  have "ix_key_from_value ext (T c row) = None" "range_key_from_value ext (T c row) = None"
    using assms(2) by (simp_all add: no_key_iff)
  then show ?thesis
    using assms(1) unfolding index_in_step_def index_add_def
    by (simp add: hash_side.side_add tree_side.side_add)
qed

lemma index_remove_in_step:
  assumes "index_in_step ext ix T"
    and "ix_key_from_value ext old = ix_key_from_value ext (T c row)"
    and "range_key_from_value ext old = range_key_from_value ext (T c row)" and "value_is_null v"
  shows "index_in_step ext (index_remove ext c old row ix) (T(c := (T c)(row := v)))"
proof -
  have "ix_key_from_value ext v = None" "range_key_from_value ext v = None"
    using assms(4) by (simp_all add: no_key_iff)
  then show ?thesis
    using assms(1-3) unfolding index_in_step_def index_remove_def
    by (simp add: hash_side.side_remove tree_side.side_remove)
qed

section \<open>Lookups are scans\<close>

lemma rows_for_scan:
  assumes "index_in_step ext ix T" "covers ix c" "ix_key_from_value ext v = Some k"
  shows "rows_for ext ix c v = (let rs = {r. ix_key_from_value ext (T c r) = Some k} in if rs = {} then None else Some rs)"
proof -
  obtain inner where inner: "by_col ix c = Some inner" "inner_in_step (ix_key_from_value ext) keys_distinct inner (T c)"
    using assms(1,2) unfolding index_in_step_def side_in_step_def covers_def by blast
  then have b: "bitmap_rows map_of inner k = {r. ix_key_from_value ext (T c r) = Some k}" "\<And>x. map_of inner k = Some x \<Longrightarrow> x \<noteq> {}"
    unfolding inner_in_step_def by blast+
  then show ?thesis using inner(1) assms(3)
    by (cases "map_of inner k") (auto simp: rows_for_def bitmap_rows_def Let_def)
qed

lemma fold_union: "fold (\<lambda>e out. out \<union> snd e) es S = S \<union> (\<Union>e \<in> set es. snd e)"
  by (induction es arbitrary: S) auto

lemma union_where_rows:
  assumes "inner_in_step key ok inner col" "distinct (map fst inner)"
  shows "union_where P inner = {r. \<exists>k. key (col r) = Some k \<and> P k}"
proof -
  have "union_where P inner = (\<Union>e \<in> set (filter (\<lambda>e. P (fst e)) inner). snd e)"
    by (simp add: union_where_def fold_union)
  also have "\<dots> = {r. \<exists>k. P k \<and> r \<in> bitmap_rows map_of inner k}"
  proof -
    have "r \<in> bitmap_rows map_of inner k \<longleftrightarrow> (\<exists>b. (k, b) \<in> set inner \<and> r \<in> b)" for r k
      using map_of_eq_Some_iff [OF assms(2), of k] map_of_SomeD [of inner k]
      by (cases "map_of inner k") (auto simp: bitmap_rows_def)
    then show ?thesis by fastforce
  qed
  finally show ?thesis using assms(1) by (auto simp: inner_in_step_def)
qed

lemma range_side_inner:
  assumes "index_in_step ext ix T" "covers ix c"
  obtains inner where "range_by_col ix c = Some inner"
    "\<And>P. union_where P inner = {r. \<exists>k. range_key_from_value ext (T c r) = Some k \<and> P k}"
proof -
  obtain inner where inner: "range_by_col ix c = Some inner" "inner_in_step (range_key_from_value ext) keys_sorted inner (T c)"
    using assms unfolding index_in_step_def side_in_step_def covers_def by blast
  then have "distinct (map fst inner)"
    by (auto simp: inner_in_step_def strict_sorted_iff)
  with inner that union_where_rows [OF inner(2)] show thesis by blast
qed

lemma rows_in_range_scan:
  assumes "index_in_step ext ix T" "covers ix c"
  shows "rows_in_range ix c lo hi =
     Some {r. \<exists>k. range_key_from_value ext (T c r) = Some k \<and> (\<forall>l. lo = Some l \<longrightarrow> l \<le> k) \<and> (\<forall>h. hi = Some h \<longrightarrow> k \<le> h)}"
  by (rule range_side_inner [OF assms])
    (cases lo; cases hi; auto simp: rows_in_range_def)

lemma rows_strict_scan:
  assumes "index_in_step ext ix T" "covers ix c"
  shows "rows_greater_than ix c lo = Some {r. \<exists>k. range_key_from_value ext (T c r) = Some k \<and> lo < k}"
    "rows_less_than ix c hi = Some {r. \<exists>k. range_key_from_value ext (T c r) = Some k \<and> k < hi}"
  by (rule range_side_inner [OF assms], simp add: rows_greater_than_def rows_less_than_def)+

lemma non_null_row_count_scan:
  assumes "index_in_step ext ix T" "covers ix c" "finite {r. \<not> value_is_null (T c r)}"
  shows "non_null_row_count ix c = Some (card {r. \<not> value_is_null (T c r)})"
proof -
  obtain inner where inner: "by_col ix c = Some inner" "inner_in_step (ix_key_from_value ext) keys_distinct inner (T c)"
    using assms(1,2) unfolding index_in_step_def side_in_step_def covers_def by blast
  then have d: "distinct (map fst inner)" and rows: "\<And>k. bitmap_rows map_of inner k = {r. ix_key_from_value ext (T c r) = Some k}"
    by (auto simp: inner_in_step_def)
  have e: "snd e = {r. ix_key_from_value ext (T c r) = Some (fst e)}" if "e \<in> set inner" for e
    using rows [of "fst e"] that d by (cases e) (simp add: bitmap_rows_def)
  have null: "\<not> value_is_null (T c r) \<longleftrightarrow> (\<exists>k. ix_key_from_value ext (T c r) = Some k)" for r
    using no_key_iff(1) [of ext "T c r"] by auto
  have "sum_list (map (card \<circ> snd) inner) = (\<Sum>e \<in> set inner. card (snd e))"
    using d by (simp add: sum_list_distinct_conv_sum_set distinct_map)
  also have "\<dots> = card (\<Union>e \<in> set inner. snd e)"
  proof (rule card_UN_disjoint [symmetric])
    show "\<forall>e \<in> set inner. finite (snd e)"
      using e assms(3) null by (auto elim!: rev_finite_subset)
    show "\<forall>i \<in> set inner. \<forall>j \<in> set inner. i \<noteq> j \<longrightarrow> snd i \<inter> snd j = {}"
    proof (intro ballI impI)
      fix i j assume ij: "i \<in> set inner" "j \<in> set inner" "i \<noteq> j"
      then have "fst i \<noteq> fst j" using e by (metis prod_eqI)
      then show "snd i \<inter> snd j = {}" unfolding e [OF ij(1)] e [OF ij(2)] by auto
    qed
  qed simp
  also have "(\<Union>e \<in> set inner. snd e) = {r. \<not> value_is_null (T c r)}"
  proof -
    have "\<exists>e \<in> set inner. r \<in> snd e" if "ix_key_from_value ext (T c r) = Some k" for r k
    proof -
      have "r \<in> bitmap_rows map_of inner k" using that rows by simp
      then show ?thesis by (force simp: bitmap_rows_def split: option.splits dest: map_of_SomeD)
    qed
    moreover have "\<not> value_is_null (T c r)" if "i \<in> set inner" "r \<in> snd i" for i r
      using e [OF that(1)] that(2) null by simp
    ultimately show ?thesis using null by (intro set_eqI iffI) auto
  qed
  finally show ?thesis using inner(1) by (simp add: non_null_row_count_def comp_def)
qed


section \<open>Properties\<close>

text \<open>
  The encoding of floats as ordered bits is injective and turns the numeric order into the
  unsigned order of the bits; it orders no two numbers the other way round, and the only
  distinction it makes that the numbers do not is to place negative zero before zero.
\<close>

theorem ordered_bits_monotone:
  assumes "\<not> f64_is_nan a" "\<not> f64_is_nan b"
  shows "(f64_lt a b \<longrightarrow> f64_to_ordered_bits a < f64_to_ordered_bits b) \<and>
     (f64_to_ordered_bits a < f64_to_ordered_bits b \<longrightarrow>
        f64_lt a b \<or> f64_neg a \<and> \<not> f64_neg b \<and> f64_mag a = 0 \<and> f64_mag b = 0) \<and>
     (f64_to_ordered_bits a = f64_to_ordered_bits b \<longleftrightarrow> a = b)"
  using f64_lt_total [of a b] f64_total_lt [OF assms] by (simp add: ordered_bits_less_iff ordered_bits_inj)

theorem ordered_bits_monotone_witness:
  "f64_to_ordered_bits 0xBFF0000000000000 < f64_to_ordered_bits 0x4000000000000000"
proof -
  have "\<not> f64_is_nan 0xBFF0000000000000" "\<not> f64_is_nan 0x4000000000000000"
    "f64_lt 0xBFF0000000000000 0x4000000000000000"
    by (simp_all add: f64_is_nan_def f64_mag_def f64_lt_def f64_key_def f64_neg_def)
  then show ?thesis using ordered_bits_monotone by blast
qed

text \<open>
  Both sides of the index stay in step with the table of cell values: a new index is in
  step with the empty table, adding a row's value where the cell was null keeps it in step,
  and so does removing the value the cell holds.
\<close>

theorem index_maintained:
  assumes "index_in_step ext ix T"
  shows "index_in_step ext (sec_index_new cols) (\<lambda>_ _. VNull) \<and>
     (value_is_null (T c row) \<longrightarrow> index_in_step ext (index_add ext c v row ix) (T(c := (T c)(row := v)))) \<and>
     index_in_step ext (index_remove ext c (T c row) row ix) (T(c := (T c)(row := VNull)))"
  using assms index_new_in_step index_add_in_step index_remove_in_step [OF assms refl refl] by simp

theorem index_maintained_witness:
  "index_in_step sample_externals (index_add sample_externals 2 (VLong 5) 7 (sec_index_new [2]))
     ((\<lambda>_ _. VNull)(2 := (\<lambda>_. VNull)(7 := VLong 5)))"
  using index_maintained [OF index_new_in_step [of sample_externals "[2]"], where c = 2 and row = 7 and v = "VLong 5"] by simp



text \<open>
  The index separates the two zeros: a row that holds negative zero is not found under
  zero, although the two floats are equal, so an indexed equality misses a row that a scan
  returns.
\<close>

theorem indexed_equality_misses_negative_zero:
  "value_eq (VDouble 0x8000000000000000) (VDouble 0) \<and>
   rows_for ext (index_add ext c (VDouble 0x8000000000000000) row (sec_index_new [c])) c (VDouble 0) = None"
proof -
  let ?T = "(\<lambda>_ _. VNull)(c := (\<lambda>_. VNull)(row := VDouble 0x8000000000000000)) :: nat \<Rightarrow> nat \<Rightarrow> cq_value"
  let ?ix = "index_add ext c (VDouble 0x8000000000000000) row (sec_index_new [c])"
  have z: "\<not> f64_is_nan 0" by (simp add: f64_is_nan_def f64_mag_def)
  have "index_in_step ext ?ix ?T" by (rule index_add_in_step [OF index_new_in_step]) simp
  moreover have "covers ?ix c" by (simp add: covers_def index_add_def sec_index_new_def)
  moreover have "ix_key_from_value ext (VDouble 0) = Some (IxDoubleBits 0)"
    using z by (simp add: f64_eq_def)
  ultimately show ?thesis
    using rows_for_scan [of ext ?ix ?T c "VDouble 0" "IxDoubleBits 0"]
    by (auto simp: f64_eq_def f64_key_def f64_neg_def f64_mag_def f64_is_nan_def)
qed

end
