(* ===== verification/CQ_Conflation.thy ===== *)
theory CQ_Conflation
  imports CQ_Prelude
begin

text \<open>
  Deltas (\<open>crates/cq-core/src/subscription.rs\<close>) and the conflator that coalesces them by row
  between two flushes (\<open>crates/cq-core/src/conflation.rs\<close>).

  Shown here: for a stream in which no row re-enters after it went out of focus, what the
  conflator emits, in whatever order the hash map is drained, leaves a consumer with the same
  rows as the whole stream would. Three streams are given for which it does not: a row that
  goes out of focus, re-enters and is removed; a key that moves to another slot; and two
  sparse updates of one row.
\<close>

section \<open>Deltas\<close>

datatype delta_type = DAdd | DUpdate | DRemove | DOof

record delta =
  subscription_id :: string
  delta_type :: delta_type
  d_row :: nat
  d_sequence :: nat
  row_data :: json_map

section \<open>The conflator\<close>

record conflator =
  pending :: "(nat \<times> delta) list"
  ready :: "delta list"

definition conflator_new :: conflator where
  "conflator_new = \<lparr>pending = [], ready = []\<rparr>"

definition merge :: "delta \<Rightarrow> delta \<Rightarrow> delta option" where
  "merge prev next =
     (case (delta_type prev, delta_type next) of
        (DAdd, DRemove) \<Rightarrow> None
      | (DAdd, DUpdate) \<Rightarrow> Some (next\<lparr>delta_type := DAdd\<rparr>)
      | (_, DOof) \<Rightarrow> Some next
      | _ \<Rightarrow> Some next)"

definition submit :: "delta \<Rightarrow> conflator \<Rightarrow> conflator" where
  "submit d c =
     (let rest = AList.delete (d_row d) (pending c) in
      case map_of (pending c) (d_row d) of
        None \<Rightarrow> c\<lparr>pending := AList.update (d_row d) d rest\<rparr>
      | Some prev \<Rightarrow>
          if delta_type prev = DRemove \<and> delta_type d = DAdd
          then c\<lparr>ready := ready c @ [prev], pending := AList.update (d_row d) d rest\<rparr>
          else (case merge prev d of
                  Some m \<Rightarrow> c\<lparr>pending := AList.update (d_row m) m rest\<rparr>
                | None \<Rightarrow> c\<lparr>pending := rest\<rparr>))"

text \<open>
  \<open>drain\<close> leaves the conflator empty and returns the ready deltas and then the pending ones
  in the iteration order of the hash map, which is any order: \<open>order\<close> arranges the entries.
\<close>

definition drain :: "((nat \<times> delta) list \<Rightarrow> (nat \<times> delta) list) \<Rightarrow> conflator \<Rightarrow> delta list \<times> conflator" where
  "drain order c = (ready c @ map snd (order (pending c)), conflator_new)"

definition iteration_order :: "((nat \<times> delta) list \<Rightarrow> (nat \<times> delta) list) \<Rightarrow> bool" where
  "iteration_order order \<longleftrightarrow> (\<forall>es. mset (order es) = mset es)"

definition conflator_len :: "conflator \<Rightarrow> nat" where
  "conflator_len c = length (pending c) + length (ready c)"

definition conflator_is_empty :: "conflator \<Rightarrow> bool" where
  "conflator_is_empty c = (pending c = [] \<and> ready c = [])"

section \<open>Consumers\<close>

text \<open>
  A consumer that keeps the rows it was sent, by slot: an add or update stores the row, a
  remove or out-of-focus drops it.
\<close>

type_synonym row_view = "nat \<Rightarrow> json_map option"

definition delta_effect :: "delta \<Rightarrow> json_map option" where
  "delta_effect d = (case delta_type d of DAdd \<Rightarrow> Some (row_data d) | DUpdate \<Rightarrow> Some (row_data d)
                                        | DRemove \<Rightarrow> None | DOof \<Rightarrow> None)"

definition apply_delta :: "delta \<Rightarrow> row_view \<Rightarrow> row_view" where
  "apply_delta d V = V(d_row d := delta_effect d)"

text \<open>
  Consumers that keep rows by record key, and those of sparse subscriptions, which merge the
  fields they are sent into their copy of the row.
\<close>

definition apply_by_key :: "(delta \<Rightarrow> string) \<Rightarrow> delta \<Rightarrow> (string \<Rightarrow> json_map option) \<Rightarrow> (string \<Rightarrow> json_map option)" where
  "apply_by_key key d V = V(key d := delta_effect d)"

definition apply_sparse :: "delta \<Rightarrow> json_map \<Rightarrow> json_map" where
  "apply_sparse d row = fold (\<lambda>(k, v). obj_insert k v) (row_data d) row"

text \<open>
  The streams of one subscription: a row is added only when the consumer does not have it.
  \<open>G\<close> collects the rows that went out of focus; they must not be added again.
\<close>

fun stream_ok :: "row_view \<Rightarrow> nat set \<Rightarrow> delta list \<Rightarrow> bool" where
  "stream_ok V G [] = True"
| "stream_ok V G (d # ds) =
     ((delta_type d = DAdd \<longrightarrow> V (d_row d) = None \<and> d_row d \<notin> G) \<and>
      stream_ok (apply_delta d V) (if delta_type d = DOof then insert (d_row d) G else G) ds)"

section \<open>Coalescing keeps the consumer's rows\<close>

definition pending_view :: "(nat \<times> delta) list \<Rightarrow> row_view \<Rightarrow> row_view" where
  "pending_view ps V = (\<lambda>r. case map_of ps r of Some d \<Rightarrow> delta_effect d | None \<Rightarrow> V r)"

definition conflator_ok :: "row_view \<Rightarrow> row_view \<Rightarrow> nat set \<Rightarrow> conflator \<Rightarrow> bool" where
  "conflator_ok V0 V G c \<longleftrightarrow>
     distinct (map fst (pending c)) \<and> (\<forall>(r, d) \<in> set (pending c). d_row d = r) \<and>
     (let B = fold apply_delta (ready c) V0 in
      V = pending_view (pending c) B \<and>
      (\<forall>r d. map_of (pending c) r = Some d \<longrightarrow>
         (delta_type d = DAdd \<longrightarrow> B r = None) \<and> (delta_type d = DOof \<longrightarrow> r \<in> G)))"

lemma apply_pending:
  assumes "distinct (map fst ps)" "\<forall>(r, d) \<in> set ps. d_row d = r"
  shows "fold apply_delta (map snd ps) V = pending_view ps V"
  using assms
proof (induction ps arbitrary: V)
  case Nil
  then show ?case by (simp add: pending_view_def)
next
  case (Cons p ps)
  obtain r d where p: "p = (r, d)" by (cases p)
  with Cons.prems have "map_of ps r = None" by (auto simp: map_of_eq_None_iff)
  with Cons p show ?case by (auto simp: pending_view_def apply_delta_def fun_eq_iff split: option.splits)
qed

lemma pending_view_order:
  "distinct (map fst ps) \<Longrightarrow> mset qs = mset ps \<Longrightarrow> pending_view qs V = pending_view ps V"
proof -
  assume d: "distinct (map fst ps)" and m: "mset qs = mset ps"
  then have "distinct (map fst qs)" by (metis mset_eq_imp_distinct_iff mset_map)
  with d m have "map_of qs = map_of ps" by (metis mset_eq_setD map_of_inject_set)
  then show ?thesis by (simp add: pending_view_def)
qed

lemma delete_keys: "distinct (map fst ps) \<Longrightarrow> distinct (map fst (AList.update k v (AList.delete k ps)))"
  by (simp add: distinct_update distinct_delete)

lemma set_update_delete: "set (AList.update k v (AList.delete k ps)) \<subseteq> insert (k, v) (set ps)"
proof -
  have "AList.update k v (AList.delete k ps) = AList.delete k ps @ [(k, v)]"
    by (induction ps) auto
  then show ?thesis by (auto simp: AList.delete_eq)
qed

lemma conflator_ok_put:
  assumes ok: "conflator_ok V0 V G c" and row: "d_row m = r" and eff: "delta_effect m = V' r"
    and frame: "\<And>s. s \<noteq> r \<Longrightarrow> V' s = V s" and G: "G \<subseteq> G'"
    and add: "delta_type m = DAdd \<Longrightarrow> fold apply_delta (ready c') V0 r = None"
    and oof: "delta_type m = DOof \<Longrightarrow> r \<in> G'"
    and pend: "pending c' = AList.update r m (AList.delete r (pending c))"
    and base: "\<And>s. s \<noteq> r \<Longrightarrow> fold apply_delta (ready c') V0 s = fold apply_delta (ready c) V0 s"
  shows "conflator_ok V0 V' G' c'"
proof -
  let ?B = "fold apply_delta (ready c) V0"
  have inv: "distinct (map fst (pending c))" "\<forall>(r, d) \<in> set (pending c). d_row d = r" "V = pending_view (pending c) ?B"
    "\<And>s d. map_of (pending c) s = Some d \<Longrightarrow> (delta_type d = DAdd \<longrightarrow> ?B s = None) \<and> (delta_type d = DOof \<longrightarrow> s \<in> G)"
    using ok unfolding conflator_ok_def Let_def by blast+
  have look: "map_of (pending c') = (map_of (pending c))(r \<mapsto> m)"
    using inv(1) by (simp add: pend update_conv' delete_conv')
  show ?thesis unfolding conflator_ok_def Let_def
  proof (intro conjI)
    show "distinct (map fst (pending c'))" unfolding pend by (rule delete_keys [OF inv(1)])
    show "\<forall>(r, d) \<in> set (pending c'). d_row d = r"
      using inv(2) set_update_delete [of r m "pending c"] row unfolding pend by auto
    show "V' = pending_view (pending c') (fold apply_delta (ready c') V0)"
    proof
      fix s show "V' s = pending_view (pending c') (fold apply_delta (ready c') V0) s"
        using inv(3) frame [of s] base [of s] eff by (cases "s = r") (simp_all add: pending_view_def look split: option.splits)
    qed
    show "\<forall>s d. map_of (pending c') s = Some d \<longrightarrow>
        (delta_type d = DAdd \<longrightarrow> fold apply_delta (ready c') V0 s = None) \<and> (delta_type d = DOof \<longrightarrow> s \<in> G')"
    proof (intro allI)
      fix s d show "map_of (pending c') s = Some d \<longrightarrow>
        (delta_type d = DAdd \<longrightarrow> fold apply_delta (ready c') V0 s = None) \<and> (delta_type d = DOof \<longrightarrow> s \<in> G')"
        using inv(4) [of s d] add oof base [of s] G by (cases "s = r") (auto simp: look)
    qed
  qed
qed

lemma submit_ok:
  assumes ok: "conflator_ok V0 V G c" and add: "delta_type d = DAdd \<Longrightarrow> V (d_row d) = None \<and> d_row d \<notin> G"
  shows "conflator_ok V0 (apply_delta d V) (if delta_type d = DOof then insert (d_row d) G else G) (submit d c)"
proof -
  let ?r = "d_row d" and ?B = "fold apply_delta (ready c) V0"
  have inv: "distinct (map fst (pending c))" "\<forall>(r, d) \<in> set (pending c). d_row d = r" "V = pending_view (pending c) ?B"
    "\<And>s d. map_of (pending c) s = Some d \<Longrightarrow> (delta_type d = DAdd \<longrightarrow> ?B s = None) \<and> (delta_type d = DOof \<longrightarrow> s \<in> G)"
    using ok unfolding conflator_ok_def Let_def by blast+
  note put = conflator_ok_put [OF ok]
  show ?thesis
  proof (cases "map_of (pending c) ?r")
    case None
    then have "V ?r = ?B ?r" using inv(3) by (simp add: pending_view_def)
    with None add show ?thesis
      by (intro put [of d ?r]) (auto simp: submit_def Let_def apply_delta_def)
  next
    case (Some prev)
    have row: "d_row prev = ?r" using Some inv(2) by (auto dest: map_of_SomeD)
    have V: "V ?r = delta_effect prev" using Some inv(3) by (simp add: pending_view_def)
    consider (readd) "delta_type prev = DRemove" "delta_type d = DAdd"
      | (cancel) "delta_type prev = DAdd" "delta_type d = DRemove"
      | (keep) m where "merge prev d = Some m" "\<not> (delta_type prev = DRemove \<and> delta_type d = DAdd)"
      by (cases "merge prev d") (auto simp: merge_def split: delta_type.splits)
    then show ?thesis
    proof cases
      case readd
      with Some row show ?thesis
        by (intro put [of d ?r]) (auto simp: submit_def Let_def apply_delta_def delta_effect_def)
    next
      case cancel
      then have "submit d c = c\<lparr>pending := AList.delete ?r (pending c)\<rparr>"
        using Some by (simp add: submit_def merge_def Let_def)
      moreover have "?B ?r = None" using inv(4) [OF Some] cancel by simp
      moreover have "map_of (AList.delete ?r (pending c)) = (map_of (pending c))(?r := None)"
        using inv(1) by (simp add: delete_conv')
      moreover have "set (AList.delete ?r (pending c)) \<subseteq> set (pending c)" by (auto simp: AList.delete_eq)
      then have "\<forall>(r, d) \<in> set (AList.delete ?r (pending c)). d_row d = r" using inv(2) by blast
      moreover have "distinct (map fst (AList.delete ?r (pending c)))" using inv(1) by (simp add: distinct_delete)
      ultimately show ?thesis
        using inv(3,4) cancel
        by (auto simp: conflator_ok_def Let_def pending_view_def apply_delta_def delta_effect_def fun_eq_iff split: if_splits)
    next
      case (keep m)
      have m: "d_row m = ?r" "delta_effect m = delta_effect d" "delta_type m = DOof \<Longrightarrow> delta_type d = DOof"
        "delta_type m = DAdd \<Longrightarrow> delta_type prev = DAdd \<or> delta_type d = DAdd"
        using keep(1) by (auto simp: merge_def delta_effect_def split: delta_type.splits)
      have "?B ?r = None" if "delta_type m = DAdd"
        using m(4) [OF that]
      proof
        assume "delta_type d = DAdd"
        then have "delta_effect prev = None" "?r \<notin> G" using add V by auto
        then have "delta_type prev = DOof" using keep(2) \<open>delta_type d = DAdd\<close>
          by (auto simp: delta_effect_def split: delta_type.splits)
        then show ?thesis using inv(4) [OF Some] \<open>?r \<notin> G\<close> by simp
      qed (use inv(4) [OF Some] in simp)
      with Some keep m show ?thesis
        by (intro put [of m ?r]) (auto simp: submit_def Let_def apply_delta_def)
    qed
  qed
qed

lemma submit_all_ok:
  "conflator_ok V0 V G c \<Longrightarrow> stream_ok V G ds \<Longrightarrow>
   \<exists>G'. conflator_ok V0 (fold apply_delta ds V) G' (fold submit ds c)"
proof (induction ds arbitrary: V G c)
  case Nil
  then show ?case by auto
next
  case (Cons d ds)
  have "conflator_ok V0 (apply_delta d V) (if delta_type d = DOof then insert (d_row d) G else G) (submit d c)"
    using Cons.prems by (intro submit_ok) auto
  from Cons.IH [OF this] Cons.prems show ?case by simp
qed

section \<open>Properties\<close>

text \<open>
  C21: For every stream in which a row is added only while the consumer lacks it and no row
  that went out of focus is added again, the deltas the conflator emits at the flush, in any
  iteration order of its hash map, leave the consumer with the rows the whole stream would
  have left it with.
\<close>

theorem conflation_preserves_view:
  assumes "stream_ok V {} ds" "iteration_order order" "drain order (fold submit ds conflator_new) = (out, c)"
  shows "fold apply_delta out V = fold apply_delta ds V \<and> c = conflator_new"
proof -
  let ?c = "fold submit ds conflator_new"
  have "conflator_ok V V {} conflator_new"
    by (simp add: conflator_ok_def conflator_new_def pending_view_def)
  from submit_all_ok [OF this assms(1)] obtain G where
    inv: "distinct (map fst (pending ?c))" "\<forall>(r, d) \<in> set (pending ?c). d_row d = r"
    "fold apply_delta ds V = pending_view (pending ?c) (fold apply_delta (ready ?c) V)"
    unfolding conflator_ok_def Let_def by blast
  let ?o = "order (pending ?c)"
  have m: "mset ?o = mset (pending ?c)" using assms(2) by (simp add: iteration_order_def)
  have "distinct (map fst ?o)" "\<forall>(r, d) \<in> set ?o. d_row d = r"
    using inv(1,2) m by (metis mset_eq_imp_distinct_iff mset_map, metis m mset_eq_setD)
  then have "fold apply_delta (map snd ?o) W = pending_view (pending ?c) W" for W
    using apply_pending pending_view_order [OF inv(1) m] by metis
  then show ?thesis using inv(3) assms(3) by (auto simp: drain_def)
qed

definition sample_delta :: "delta_type \<Rightarrow> nat \<Rightarrow> json_map \<Rightarrow> delta" where
  "sample_delta t r m = \<lparr>subscription_id = ''s'', delta_type = t, d_row = r, d_sequence = 0, row_data = m\<rparr>"

lemmas conflate_eval = submit_def merge_def drain_def conflator_new_def sample_delta_def Let_def
  apply_delta_def delta_effect_def

theorem conflation_preserves_view_witness:
  "fold apply_delta (fst (drain rev (fold submit [sample_delta DAdd 3 [], sample_delta DUpdate 3 [(''k'', JNull)]] conflator_new)))
     Map.empty 3 = Some [(''k'', JNull)]"
proof -
  let ?ds = "[sample_delta DAdd 3 [], sample_delta DUpdate 3 [(''k'', JNull)]]"
  have "stream_ok Map.empty {} ?ds" "iteration_order rev"
    by (simp_all add: conflate_eval iteration_order_def)
  then show ?thesis
    using conflation_preserves_view [of Map.empty ?ds rev] by (simp add: conflate_eval)
qed

text \<open>
  A row that goes out of focus, re-enters and is then removed between two flushes is
  forgotten by the conflator: the add replaces the pending out-of-focus and is then cancelled
  by the remove, nothing is emitted, and the consumer keeps the row.
\<close>

theorem conflation_loses_eviction:
  "fst (drain order (fold submit [sample_delta DOof r m, sample_delta DAdd r m', sample_delta DRemove r m''] conflator_new)) =
     map snd (order []) \<and>
   fold apply_delta [sample_delta DOof r m, sample_delta DAdd r m', sample_delta DRemove r m''] V r = None"
  by (simp add: conflate_eval)

text \<open>
  A consumer that keeps rows by key loses a key that moved to another slot: the removal
  from the old slot and the addition at the new one are pending together, and an iteration
  order that yields the addition first ends with the key absent, although it exists.
\<close>

theorem conflation_drain_order_loses_key:
  assumes "r \<noteq> s" "key rem = k" "key add = k" "d_row rem = r" "d_row add = s" "delta_type rem = DRemove" "delta_type add = DAdd"
  shows "\<exists>order. iteration_order order \<and>
     fold (apply_by_key key) (fst (drain order (fold submit [rem, add] conflator_new))) V k = None \<and>
     fold (apply_by_key key) [rem, add] V k = Some (row_data add)"
  using assms
  by (intro exI [of _ rev]) (simp add: iteration_order_def conflate_eval apply_by_key_def)

theorem conflation_drain_order_loses_key_witness:
  "\<exists>order. iteration_order order \<and>
     fold (apply_by_key (\<lambda>_. ''A'')) (fst (drain order (fold submit [sample_delta DRemove 1 [], sample_delta DAdd 2 []] conflator_new)))
       Map.empty ''A'' = None"
  using conflation_drain_order_loses_key [of 1 2 "\<lambda>_. ''A''" "sample_delta DRemove 1 []" "''A''" "sample_delta DAdd 2 []" Map.empty]
  by (auto simp: sample_delta_def)

text \<open>
  Conflating two sparse updates of a row keeps only the second: a field that changed in
  the first update alone never reaches the consumer, which merges sparse rows into its copy.
\<close>

theorem conflation_loses_sparse_fields:
  "fst (drain (\<lambda>es. es) (fold submit [sample_delta DUpdate r [(''px'', p)], sample_delta DUpdate r [(''qty'', q)]] conflator_new)) =
     [sample_delta DUpdate r [(''qty'', q)]] \<and>
   map_of (fold apply_sparse [sample_delta DUpdate r [(''px'', p)], sample_delta DUpdate r [(''qty'', q)]] row) ''px'' = Some p \<and>
   map_of (fold apply_sparse [sample_delta DUpdate r [(''qty'', q)]] row) ''px'' = map_of row ''px''"
  by (simp add: conflate_eval apply_sparse_def)

end
