(* ===== verification/CQ_Queue.thy ===== *)
theory CQ_Queue
  imports CQ_Prelude
begin

text \<open>
  Message queues with competing consumers (\<open>crates/cq-transport/src/queue.rs\<close>): a buffer
  ordered by priority, a rotation of consumers, sticky groups, and leases that redeliver a
  message when its consumer does not acknowledge it in time.

  The clock is an argument \<open>now\<close>. Handing a frame to a session is the output of an operation:
  the list of deliveries it makes, in order. Whether the session still exists and has room is
  the session's business and does not change the queue.

  Shown here: the buffer stays ordered and bounded; delivery identifiers are never reused; no
  operation loses or duplicates a message except the ones that say so; the rotation is fair
  and groups stick to their consumer.
\<close>

section \<open>State\<close>

record queue_message =
  q_sequence :: nat
  q_data :: json
  q_priority :: int
  q_group :: "string option"

record lease_record =
  l_msg :: queue_message
  l_sub_id :: string
  expires_at :: nat
  l_redelivery_count :: nat

record queue =
  q_name :: string
  next_sequence :: nat
  buffer :: "queue_message list"
  consumers :: "string list"
  in_flight :: "(nat \<times> lease_record) list"
  next_delivery_id :: nat
  group_routes :: "string \<rightharpoonup> string"
  lease_ms :: "nat option"
  max_delivery_count :: nat
  dlq_name :: "string option"
  max_buffer :: nat

text \<open>A delivery: the session, the message and, with leases, the identifier to acknowledge.\<close>

type_synonym delivery = "string \<times> queue_message \<times> nat option"

definition with_lease :: "string \<Rightarrow> nat option \<Rightarrow> queue" where
  "with_lease name lease =
     \<lparr>q_name = name, next_sequence = 0, buffer = [], consumers = [], in_flight = [],
      next_delivery_id = 0, group_routes = Map.empty, lease_ms = lease, max_delivery_count = 8,
      dlq_name = None, max_buffer = 1000000\<rparr>"

definition queue_new :: "string \<Rightarrow> queue" where "queue_new name = with_lease name None"

definition with_max_buffer :: "nat \<Rightarrow> queue \<Rightarrow> queue" where
  "with_max_buffer cap q = q\<lparr>max_buffer := max cap 1\<rparr>"

definition with_max_delivery_count :: "nat \<Rightarrow> queue \<Rightarrow> queue" where
  "with_max_delivery_count n q = q\<lparr>max_delivery_count := n\<rparr>"

definition with_dlq :: "string \<Rightarrow> queue \<Rightarrow> queue" where
  "with_dlq name q = q\<lparr>dlq_name := Some name\<rparr>"

section \<open>The buffer\<close>

text \<open>\<open>iter().position(P)\<close>, or the length when there is none.\<close>

fun position :: "('a \<Rightarrow> bool) \<Rightarrow> 'a list \<Rightarrow> nat" where
  "position P [] = 0"
| "position P (x # xs) = (if P x then 0 else Suc (position P xs))"

definition insert_by_priority :: "queue_message \<Rightarrow> queue_message list \<Rightarrow> queue_message list" where
  "insert_by_priority msg buf =
     (if buf = [] \<or> q_priority msg \<le> q_priority (last buf) then buf @ [msg]
      else let pos = position (\<lambda>m. q_priority m < q_priority msg) buf
           in take pos buf @ [msg] @ drop pos buf)"

definition evict_one_for_cap :: "queue_message list \<Rightarrow> queue_message list \<times> bool" where
  "evict_one_for_cap buf =
     (if buf = [] then (buf, False)
      else let pos = position (\<lambda>m. q_priority m = q_priority (last buf)) buf
           in (take pos buf @ drop (Suc pos) buf, True))"

text \<open>\<open>while buffer.len() >= max_buffer { evict_one_for_cap() }\<close>; with a cap of zero it never ends.\<close>

partial_function (option) evict_to_cap :: "nat \<Rightarrow> queue_message list \<Rightarrow> queue_message list option" where
  "evict_to_cap cap buf =
     (if cap \<le> length buf then evict_to_cap cap (fst (evict_one_for_cap buf)) else Some buf)"

section \<open>Choosing a consumer\<close>

definition rotate_consumer :: "queue \<Rightarrow> (string \<times> queue) option" where
  "rotate_consumer q =
     (case consumers q of
        [] \<Rightarrow> None
      | s # rest \<Rightarrow> Some (s, q\<lparr>consumers := rest @ [s]\<rparr>))"

definition pick_consumer_for :: "string option \<Rightarrow> queue \<Rightarrow> (string \<times> queue) option" where
  "pick_consumer_for grp q =
     (if consumers q = [] then None
      else case grp of
        Some g \<Rightarrow>
          (case group_routes q g of
             Some pinned \<Rightarrow>
               if pinned \<in> set (consumers q) then Some (pinned, q)
               else map_option (\<lambda>(s, q'). (s, q'\<lparr>group_routes := (group_routes q')(g \<mapsto> s)\<rparr>)) (rotate_consumer q)
           | None \<Rightarrow>
               map_option (\<lambda>(s, q'). (s, q'\<lparr>group_routes := (group_routes q')(g \<mapsto> s)\<rparr>)) (rotate_consumer q))
      | None \<Rightarrow> rotate_consumer q)"

text \<open>The loop of \<open>pick_next_consumer_excluding\<close>: at most \<open>n\<close> rotations, stopping at another consumer.\<close>

fun rotate_past :: "nat \<Rightarrow> string \<Rightarrow> string list \<Rightarrow> string option \<times> string list" where
  "rotate_past 0 orig cs = (None, cs)"
| "rotate_past (Suc n) orig [] = (None, [])"
| "rotate_past (Suc n) orig (c # cs) =
     (if c \<noteq> orig then (Some c, cs @ [c]) else rotate_past n orig (cs @ [c]))"

definition pick_next_consumer_excluding :: "string \<Rightarrow> queue \<Rightarrow> (string \<times> queue) option" where
  "pick_next_consumer_excluding orig q =
     (if consumers q = [] then None
      else case rotate_past (length (consumers q)) orig (consumers q) of
             (Some c, cs) \<Rightarrow> Some (c, q\<lparr>consumers := cs\<rparr>)
           | (None, cs) \<Rightarrow> (case cs of [] \<Rightarrow> None | c # _ \<Rightarrow> Some (c, q\<lparr>consumers := cs\<rparr>)))"

section \<open>Deliveries and leases\<close>

definition deliver_with_lease :: "nat \<Rightarrow> string \<Rightarrow> queue_message \<Rightarrow> nat \<Rightarrow> queue \<Rightarrow> queue \<times> delivery" where
  "deliver_with_lease now sub_id msg rc q =
     (case lease_ms q of
        Some ms \<Rightarrow>
          let did = next_delivery_id q + 1;
              lease = \<lparr>l_msg = msg, l_sub_id = sub_id, expires_at = now + ms, l_redelivery_count = rc\<rparr>
          in (q\<lparr>next_delivery_id := did, in_flight := AList.update did lease (in_flight q)\<rparr>,
              (sub_id, msg, Some did))
      | None \<Rightarrow> (q, (sub_id, msg, None)))"

definition ack :: "nat \<Rightarrow> queue \<Rightarrow> queue \<times> bool" where
  "ack did q =
     (if lease_ms q = None then (q, False)
      else (q\<lparr>in_flight := AList.delete did (in_flight q)\<rparr>, map_of (in_flight q) did \<noteq> None))"

definition extend_lease :: "nat \<Rightarrow> nat \<Rightarrow> nat \<Rightarrow> queue \<Rightarrow> queue \<times> bool" where
  "extend_lease now did extra q =
     (if lease_ms q = None then (q, False)
      else case map_of (in_flight q) did of
             Some lease \<Rightarrow> (q\<lparr>in_flight := AList.update did (lease\<lparr>expires_at := now + extra\<rparr>) (in_flight q)\<rparr>, True)
           | None \<Rightarrow> (q, False))"

text \<open>The payload that is published to the dead-letter queue.\<close>

definition dead_letter :: "externals \<Rightarrow> queue \<Rightarrow> lease_record \<Rightarrow> json" where
  "dead_letter ext q lease =
     JObject (obj_insert ''payload'' (q_data (l_msg lease))
       (obj_insert ''redelivery_count'' (json_of_i64 ext (of_nat (l_redelivery_count lease + 1)))
         (obj_insert ''original_sequence'' (json_of_i64 ext (of_nat (q_sequence (l_msg lease))))
           (obj_insert ''original_queue'' (JString (q_name q)) []))))"

text \<open>
  What happens to one expired lease: dead-lettered (to a queue that resolves) or dropped when
  its deliveries are used up, redelivered to the next consumer, or put back into the buffer.
  The outputs are the deliveries made and the leases that were given up.
\<close>

definition sweep_one ::
  "nat \<Rightarrow> lease_record \<Rightarrow> queue \<Rightarrow> queue \<times> delivery list \<times> lease_record list" where
  "sweep_one now lease q =
     (if l_redelivery_count lease + 1 > max_delivery_count q then (q, [], [lease])
      else case pick_next_consumer_excluding (l_sub_id lease) q of
             Some (sid, q') \<Rightarrow>
               (case deliver_with_lease now sid (l_msg lease) (l_redelivery_count lease + 1) q' of
                  (q'', d) \<Rightarrow> (q'', [d], []))
           | None \<Rightarrow> (q\<lparr>buffer := insert_by_priority (l_msg lease) (buffer q)\<rparr>, [], []))"

fun sweep_leases ::
  "nat \<Rightarrow> lease_record list \<Rightarrow> queue \<Rightarrow> queue \<times> delivery list \<times> lease_record list" where
  "sweep_leases now [] q = (q, [], [])"
| "sweep_leases now (l # ls) q =
     (case sweep_one now l q of (q1, ds1, dead1) \<Rightarrow>
      case sweep_leases now ls q1 of (q2, ds2, dead2) \<Rightarrow> (q2, ds1 @ ds2, dead1 @ dead2))"

definition expired_leases :: "nat \<Rightarrow> queue \<Rightarrow> lease_record list" where
  "expired_leases now q = map snd (filter (\<lambda>(id, l). expires_at l \<le> now) (in_flight q))"

definition live_leases :: "nat \<Rightarrow> queue \<Rightarrow> (nat \<times> lease_record) list" where
  "live_leases now q = filter (\<lambda>(id, l). \<not> expires_at l \<le> now) (in_flight q)"

definition sweep_expired :: "nat \<Rightarrow> queue \<Rightarrow> queue \<times> delivery list \<times> lease_record list \<times> nat" where
  "sweep_expired now q =
     (if lease_ms q = None then (q, [], [], 0)
      else let expired = expired_leases now q
           in case sweep_leases now expired (q\<lparr>in_flight := live_leases now q\<rparr>) of
                (q', ds, dead) \<Rightarrow> (q', ds, dead, length expired))"

section \<open>Publishing and consumers\<close>

definition publish_with_opts ::
  "nat \<Rightarrow> json \<Rightarrow> int \<Rightarrow> string option \<Rightarrow> queue \<Rightarrow> (queue \<times> nat \<times> delivery list \<times> lease_record list) option" where
  "publish_with_opts now payload priority grp q =
     (let seq = next_sequence q + 1;
          msg = \<lparr>q_sequence = seq, q_data = payload, q_priority = priority, q_group = grp\<rparr>
      in case sweep_expired now (q\<lparr>next_sequence := seq\<rparr>) of
           (q1, ds, dead, _) \<Rightarrow>
             (case pick_consumer_for grp q1 of
                Some (sid, q2) \<Rightarrow>
                  (case deliver_with_lease now sid msg 0 q2 of (q3, d) \<Rightarrow> Some (q3, seq, ds @ [d], dead))
              | None \<Rightarrow> do {
                  buf \<leftarrow> evict_to_cap (max_buffer q1) (buffer q1);
                  Some (q1\<lparr>buffer := insert_by_priority msg buf\<rparr>, seq, ds, dead)
                }))"

definition publish :: "nat \<Rightarrow> json \<Rightarrow> queue \<Rightarrow> (queue \<times> nat \<times> delivery list \<times> lease_record list) option" where
  "publish now payload q = publish_with_opts now payload 0 None q"

text \<open>The drain of the backlog when a consumer joins: first every choice, then every delivery.\<close>

fun assign_backlog :: "queue_message list \<Rightarrow> queue \<Rightarrow> (queue \<times> (string \<times> queue_message) list) option" where
  "assign_backlog [] q = Some (q, [])"
| "assign_backlog (m # ms) q = do {
     (sid, q1) \<leftarrow> pick_consumer_for (q_group m) q;
     (q2, out) \<leftarrow> assign_backlog ms q1;
     Some (q2, (sid, m) # out)
   }"

fun deliver_all :: "nat \<Rightarrow> (string \<times> queue_message) list \<Rightarrow> queue \<Rightarrow> queue \<times> delivery list" where
  "deliver_all now [] q = (q, [])"
| "deliver_all now ((sid, m) # rest) q =
     (case deliver_with_lease now sid m 0 q of (q1, d) \<Rightarrow>
      case deliver_all now rest q1 of (q2, ds) \<Rightarrow> (q2, d # ds))"

definition add_consumer :: "nat \<Rightarrow> string \<Rightarrow> queue \<Rightarrow> (queue \<times> delivery list) option" where
  "add_consumer now sub_id q = do {
     (q1, out) \<leftarrow> assign_backlog (buffer q) (q\<lparr>consumers := consumers q @ [sub_id], buffer := []\<rparr>);
     Some (deliver_all now out q1)
   }"

definition remove_consumer :: "string \<Rightarrow> queue \<Rightarrow> queue \<times> bool" where
  "remove_consumer sub_id q =
     (let cs = filter (\<lambda>s. s \<noteq> sub_id) (consumers q)
      in (q\<lparr>consumers := cs,
            group_routes := (\<lambda>g. case group_routes q g of
                                   Some owner \<Rightarrow> if owner \<noteq> sub_id then Some owner else None
                                 | None \<Rightarrow> None)\<rparr>,
          length (consumers q) \<noteq> length cs))"

section \<open>Dead letters\<close>

text \<open>
  The sweep that has the queue registry at hand publishes every given-up lease to the
  dead-letter queue when the name resolves. The letters are published after the sweep of the
  queue itself; a dead-letter queue is another queue, so the order between the two does not
  matter.
\<close>

type_synonym queue_registry = "string \<rightharpoonup> queue"

fun route_dead ::
  "externals \<Rightarrow> nat \<Rightarrow> queue \<Rightarrow> lease_record list \<Rightarrow> queue_registry \<Rightarrow> (queue_registry \<times> delivery list) option" where
  "route_dead ext now q [] qs = Some (qs, [])"
| "route_dead ext now q (l # ls) qs =
     (case Option.bind (dlq_name q) qs of
        Some dlq \<Rightarrow> do {
          (dlq', _, ds, _) \<leftarrow> publish now (dead_letter ext q l) dlq;
          (qs', ds') \<leftarrow> route_dead ext now q ls (qs(the (dlq_name q) \<mapsto> dlq'));
          Some (qs', ds @ ds')
        }
      | None \<Rightarrow> route_dead ext now q ls qs)"

definition sweep_expired_with_queues ::
  "externals \<Rightarrow> nat \<Rightarrow> string \<Rightarrow> queue_registry \<Rightarrow> (queue_registry \<times> delivery list \<times> nat) option" where
  "sweep_expired_with_queues ext now name qs = do {
     q \<leftarrow> qs name;
     let (q', ds, dead, n) = sweep_expired now q;
     (qs', ds') \<leftarrow> route_dead ext now q' dead (qs(name \<mapsto> q'));
     Some (qs', ds @ ds', n)
   }"

section \<open>The buffer is a stable priority queue\<close>

abbreviation by_priority :: "queue_message list \<Rightarrow> bool" where
  "by_priority \<equiv> sorted_wrt (\<lambda>a b. q_priority b \<le> q_priority a)"

lemma position_takeWhile: "position P xs = length (takeWhile (\<lambda>x. \<not> P x) xs)"
  by (induction xs) auto

lemma split_at_position:
  "take (position P xs) xs = takeWhile (\<lambda>x. \<not> P x) xs" "drop (position P xs) xs = dropWhile (\<lambda>x. \<not> P x) xs"
  by (induction xs) auto

lemma last_lowest: "by_priority buf \<Longrightarrow> x \<in> set buf \<Longrightarrow> q_priority (last buf) \<le> q_priority x"
  by (induction buf) (auto split: if_splits)

text \<open>Insertion puts the message behind everything of its priority or above: FIFO per class.\<close>

lemma insert_by_priority_split:
  assumes "by_priority buf"
  shows "insert_by_priority msg buf =
    takeWhile (\<lambda>m. q_priority msg \<le> q_priority m) buf @ [msg] @ dropWhile (\<lambda>m. q_priority msg \<le> q_priority m) buf"
proof (cases "buf = [] \<or> q_priority msg \<le> q_priority (last buf)")
  case True
  have "q_priority msg \<le> q_priority x" if "x \<in> set buf" for x
    using last_lowest [OF assms that] True that by auto
  then have all: "\<forall>x \<in> set buf. q_priority msg \<le> q_priority x" by blast
  show ?thesis
    unfolding takeWhile_eq_all_conv [THEN iffD2, OF all] dropWhile_eq_Nil_conv [THEN iffD2, OF all]
    using True by (simp add: insert_by_priority_def)
next
  case False
  then show ?thesis by (simp add: insert_by_priority_def split_at_position not_less)
qed

lemma mset_insert_by_priority [simp]: "mset (insert_by_priority msg buf) = add_mset msg (mset buf)"
proof -
  have "mset (take n buf) + mset (drop n buf) = mset buf" for n
    by (metis append_take_drop_id mset_append)
  then show ?thesis by (simp add: insert_by_priority_def Let_def)
qed

lemma length_insert_by_priority [simp]: "length (insert_by_priority msg buf) = Suc (length buf)"
  by (metis mset_insert_by_priority size_add_mset size_mset)

lemma insert_by_priority_sorted:
  assumes s: "by_priority buf" shows "by_priority (insert_by_priority msg buf)"
proof -
  let ?P = "\<lambda>m. q_priority msg \<le> q_priority m"
  define hi lo where "hi = takeWhile ?P buf" and "lo = dropWhile ?P buf"
  have "buf = hi @ lo" by (simp add: hi_def lo_def)
  with s have sorted: "by_priority hi" "by_priority lo" "\<forall>a \<in> set hi. \<forall>b \<in> set lo. q_priority b \<le> q_priority a"
    by (simp_all add: sorted_wrt_append)
  have hi: "\<forall>a \<in> set hi. q_priority msg \<le> q_priority a" unfolding hi_def by (auto dest: set_takeWhileD)
  have lo: "\<forall>b \<in> set lo. q_priority b \<le> q_priority msg"
  proof (cases lo)
    case (Cons c cs)
    then have "\<not> ?P c" unfolding lo_def by (metis hd_dropWhile list.distinct(1) list.sel(1))
    with sorted(2) Cons show ?thesis by auto
  qed simp
  have "by_priority (hi @ [msg] @ lo)" using sorted hi lo by (simp add: sorted_wrt_append)
  then show ?thesis unfolding insert_by_priority_split [OF s] hi_def lo_def .
qed

lemma position_first: "P x \<Longrightarrow> \<forall>y \<in> set ys. \<not> P y \<Longrightarrow> position P (ys @ x # zs) = length ys"
  by (induction ys) auto

lemma evict_splits:
  assumes "buf \<noteq> []"
  obtains xs m ys where "buf = xs @ m # ys" "fst (evict_one_for_cap buf) = xs @ ys" "snd (evict_one_for_cap buf)"
    "q_priority m = q_priority (last buf)" "\<forall>x \<in> set xs. q_priority x \<noteq> q_priority m"
proof -
  let ?P = "\<lambda>m. q_priority m = q_priority (last buf)"
  have "\<exists>m \<in> set buf. ?P m" using assms last_in_set by blast
  then obtain xs m ys where b: "buf = xs @ m # ys" "?P m" "\<forall>x \<in> set xs. \<not> ?P x"
    using split_list_first_prop [of buf ?P] by blast
  have "position ?P buf = length xs" using position_first [of ?P m xs ys] b by simp
  then have "fst (evict_one_for_cap buf) = take (length xs) buf @ drop (Suc (length xs)) buf"
    using assms by (simp add: evict_one_for_cap_def Let_def)
  also have "\<dots> = xs @ ys" by (subst (1 2) b(1)) simp
  finally have "fst (evict_one_for_cap buf) = xs @ ys" .
  moreover have "snd (evict_one_for_cap buf)" using assms by (simp add: evict_one_for_cap_def Let_def)
  moreover have "\<forall>x \<in> set xs. q_priority x \<noteq> q_priority m" unfolding b(2) by (rule b(3))
  ultimately show thesis by (rule that [OF b(1) _ _ b(2)])
qed

lemma evict_to_cap_returns:
  assumes "1 \<le> cap" "by_priority buf"
  shows "\<exists>buf' gone. evict_to_cap cap buf = Some buf' \<and> length buf' < cap \<and> by_priority buf' \<and>
     mset buf = mset buf' + gone \<and> size gone = Suc (length buf) - cap \<and>
     (\<forall>g \<in># gone. \<forall>x \<in># mset buf'. q_priority g \<le> q_priority x)"
  using assms(2)
proof (induction "length buf" arbitrary: buf)
  case 0
  then show ?case using assms(1) by (subst evict_to_cap.simps) auto
next
  case (Suc n)
  show ?case
  proof (cases "cap \<le> length buf")
    case False
    then show ?thesis using Suc.prems by (subst evict_to_cap.simps) auto
  next
    case True
    have "buf \<noteq> []" using Suc.hyps(2) by auto
    then obtain xs m ys where e: "buf = xs @ m # ys" "fst (evict_one_for_cap buf) = xs @ ys" "q_priority m = q_priority (last buf)"
      by (rule evict_splits)
    have "by_priority (xs @ ys)" using Suc.prems e(1) by (auto simp: sorted_wrt_append)
    then obtain buf' gone where IH: "evict_to_cap cap (xs @ ys) = Some buf'" "length buf' < cap" "by_priority buf'"
      "mset (xs @ ys) = mset buf' + gone" "size gone = Suc (length (xs @ ys)) - cap"
      "\<forall>g \<in># gone. \<forall>x \<in># mset buf'. q_priority g \<le> q_priority x"
      using Suc.hyps(1) [of "xs @ ys"] Suc.hyps(2) e(1) by auto
    have low: "q_priority m \<le> q_priority x" if "x \<in># mset buf'" for x
    proof -
      have "x \<in># mset (xs @ ys)" unfolding IH(4) using that by simp
      then have "x \<in> set buf" using e(1) by auto
      then show ?thesis using last_lowest [OF Suc.prems] e(3) by simp
    qed
    have "evict_to_cap cap buf = Some buf'" using True e(2) IH(1) by (simp add: evict_to_cap.simps [of cap buf])
    moreover have "mset buf = mset buf' + add_mset m gone" using IH(4) e(1) by simp
    moreover have "size (add_mset m gone) = Suc (length buf) - cap" using IH(5) e(1) True by simp
    moreover have "\<forall>g \<in># add_mset m gone. \<forall>x \<in># mset buf'. q_priority g \<le> q_priority x"
      using IH(6) low by simp
    ultimately show ?thesis using IH(2,3) by blast
  qed
qed


section \<open>Invariant and accounting\<close>

definition queue_ok :: "queue \<Rightarrow> bool" where
  "queue_ok q \<longleftrightarrow>
     by_priority (buffer q) \<and> 1 \<le> max_buffer q \<and>
     distinct (map fst (in_flight q)) \<and>
     (\<forall>(id, l) \<in> set (in_flight q). id \<le> next_delivery_id q \<and> l_redelivery_count l \<le> max_delivery_count q)"

text \<open>The messages the queue is responsible for: the backlog and what is out on a lease.\<close>

definition messages :: "queue \<Rightarrow> queue_message multiset" where
  "messages q = mset (buffer q) + mset (map (l_msg \<circ> snd) (in_flight q))"

text \<open>What an operation that only moves consumers and deliveries leaves alone.\<close>

definition queue_config :: "queue \<Rightarrow> string \<times> nat \<times> nat option \<times> nat \<times> string option \<times> nat" where
  "queue_config q = (q_name q, next_sequence q, lease_ms q, max_delivery_count q, dlq_name q, max_buffer q)"

lemma rotate_consumer_frame:
  assumes "rotate_consumer q = Some (s, q')"
  shows "buffer q' = buffer q \<and> in_flight q' = in_flight q \<and> next_delivery_id q' = next_delivery_id q \<and>
     queue_config q' = queue_config q \<and> group_routes q' = group_routes q \<and>
     s \<in> set (consumers q) \<and> mset (consumers q') = mset (consumers q)"
  using assms by (auto simp: rotate_consumer_def queue_config_def split: list.splits)

lemma pick_consumer_for_frame:
  assumes "pick_consumer_for grp q = Some (s, q')"
  shows "buffer q' = buffer q \<and> in_flight q' = in_flight q \<and> next_delivery_id q' = next_delivery_id q \<and>
     queue_config q' = queue_config q \<and> s \<in> set (consumers q) \<and> mset (consumers q') = mset (consumers q)"
  using assms
  by (auto simp: pick_consumer_for_def queue_config_def split: if_splits option.splits dest!: rotate_consumer_frame)

lemma pick_consumer_for_None: "pick_consumer_for grp q = None \<longleftrightarrow> consumers q = []"
  by (auto simp: pick_consumer_for_def rotate_consumer_def split: option.splits list.splits)

lemma rotate_past_frame:
  "rotate_past n orig cs = (r, cs') \<Longrightarrow> mset cs' = mset cs \<and> (\<forall>c. r = Some c \<longrightarrow> c \<in> set cs \<and> c \<noteq> orig)"
  by (induction n orig cs rule: rotate_past.induct) (auto split: if_splits)

lemma pick_next_frame:
  assumes "pick_next_consumer_excluding orig q = Some (s, q')"
  shows "buffer q' = buffer q \<and> in_flight q' = in_flight q \<and> next_delivery_id q' = next_delivery_id q \<and>
     queue_config q' = queue_config q \<and> s \<in> set (consumers q) \<and> mset (consumers q') = mset (consumers q)"
proof -
  obtain r cs where r: "rotate_past (length (consumers q)) orig (consumers q) = (r, cs)" by fastforce
  note f = rotate_past_frame [OF r]
  have "set cs = set (consumers q)" using f by (metis set_mset_mset)
  with assms r f show ?thesis
    by (auto simp: pick_next_consumer_excluding_def queue_config_def split: if_splits option.splits list.splits)
qed

lemma pick_next_None: "pick_next_consumer_excluding orig q = None \<longleftrightarrow> consumers q = []"
proof -
  obtain r cs where r: "rotate_past (length (consumers q)) orig (consumers q) = (r, cs)" by fastforce
  have "cs = [] \<longleftrightarrow> consumers q = []" using rotate_past_frame [OF r] by (metis mset_zero_iff)
  with r show ?thesis by (auto simp: pick_next_consumer_excluding_def split: option.splits list.splits)
qed

lemma deliver_with_lease_ok:
  assumes "queue_ok q" "rc \<le> max_delivery_count q" "deliver_with_lease now s m rc q = (q', d)"
  shows "queue_ok q' \<and> messages q' = (if lease_ms q = None then messages q else add_mset m (messages q)) \<and>
     queue_config q' = queue_config q \<and> consumers q' = consumers q \<and> buffer q' = buffer q \<and>
     group_routes q' = group_routes q \<and> fst d = s \<and> fst (snd d) = m"
proof (cases "lease_ms q")
  case None
  then show ?thesis using assms by (auto simp: deliver_with_lease_def)
next
  case (Some ms)
  let ?did = "Suc (next_delivery_id q)"
  have fresh: "?did \<notin> fst ` set (in_flight q)" using assms(1) by (auto simp: queue_ok_def)
  then have upd: "AList.update ?did l (in_flight q) = in_flight q @ [(?did, l)]" for l
    by (simp add: update_fresh)
  have bound: "a \<le> Suc (next_delivery_id q)" if "(a, b) \<in> set (in_flight q)" for a b
    using assms(1) that by (fastforce simp: queue_ok_def)
  show ?thesis
    using assms Some fresh
    by (auto simp: deliver_with_lease_def Let_def upd queue_ok_def messages_def queue_config_def dest: bound)
qed


lemma sweep_one_ok:
  assumes ok: "queue_ok q" and lease: "lease_ms q \<noteq> None" and res: "sweep_one now l q = (q', ds, dead)"
  shows "queue_ok q' \<and> messages q' + mset (map l_msg dead) = add_mset (l_msg l) (messages q) \<and>
     queue_config q' = queue_config q \<and> mset (consumers q') = mset (consumers q)"
proof (cases "l_redelivery_count l + 1 > max_delivery_count q")
  case True
  then show ?thesis using res ok by (auto simp: sweep_one_def)
next
  case False
  show ?thesis
  proof (cases "pick_next_consumer_excluding (l_sub_id l) q")
    case None
    then show ?thesis using res ok False insert_by_priority_sorted [of "buffer q"]
      by (auto simp: sweep_one_def queue_ok_def messages_def queue_config_def)
  next
    case (Some p)
    obtain s u where p: "p = (s, u)" by (cases p)
    note f = pick_next_frame [OF Some [unfolded p]]
    have u: "queue_ok u" "messages u = messages q" "lease_ms u \<noteq> None" "l_redelivery_count l + 1 \<le> max_delivery_count u"
      using ok f lease False by (auto simp: queue_ok_def messages_def queue_config_def)
    obtain v d where d: "deliver_with_lease now s (l_msg l) (l_redelivery_count l + 1) u = (v, d)" by (rule prod.exhaust)
    show ?thesis
      using deliver_with_lease_ok [OF u(1,4) d] u f d res Some p False by (auto simp: sweep_one_def)
  qed
qed

lemma sweep_leases_ok:
  assumes "queue_ok q" "lease_ms q \<noteq> None" "sweep_leases now ls q = (q', ds, dead)"
  shows "queue_ok q' \<and> messages q' + mset (map l_msg dead) = messages q + mset (map l_msg ls) \<and>
     queue_config q' = queue_config q \<and> mset (consumers q') = mset (consumers q)"
  using assms
proof (induction ls arbitrary: q q' ds dead)
  case Nil
  then show ?case by simp
next
  case (Cons l ls)
  obtain q1 ds1 dead1 where s1: "sweep_one now l q = (q1, ds1, dead1)" by (metis prod_cases3)
  obtain q2 ds2 dead2 where s2: "sweep_leases now ls q1 = (q2, ds2, dead2)" by (metis prod_cases3)
  note one = sweep_one_ok [OF Cons.prems(1,2) s1]
  then have "lease_ms q1 \<noteq> None" using Cons.prems(2) by (simp add: queue_config_def)
  from Cons.IH [OF _ this s2] one have two: "queue_ok q2 \<and> messages q2 + mset (map l_msg dead2) = messages q1 + mset (map l_msg ls) \<and>
     queue_config q2 = queue_config q1 \<and> mset (consumers q2) = mset (consumers q1)" by blast
  have res: "q' = q2" "dead = dead1 @ dead2" using Cons.prems(3) s1 s2 by auto
  have "messages q2 + mset (map l_msg dead2) + mset (map l_msg dead1) =
      messages q1 + mset (map l_msg dead1) + mset (map l_msg ls)" using two by simp
  also have "\<dots> = messages q + mset (map l_msg (l # ls))" using one by simp
  finally show ?case using one two res by (simp add: ac_simps)
qed

lemma split_leases: "mset (map (l_msg \<circ> snd) (live_leases now q)) + mset (map l_msg (expired_leases now q)) =
    mset (map (l_msg \<circ> snd) (in_flight q))"
proof -
  have "mset (map (l_msg \<circ> snd) (filter (\<lambda>(id, l). \<not> expires_at l \<le> now) fs)) +
      mset (map l_msg (map snd (filter (\<lambda>(id, l). expires_at l \<le> now) fs))) = mset (map (l_msg \<circ> snd) fs)" for fs
    by (induction fs) auto
  then show ?thesis by (simp only: live_leases_def expired_leases_def)
qed

lemma sweep_expired_ok:
  assumes ok: "queue_ok q" and res: "sweep_expired now q = (q', ds, dead, n)"
  shows "queue_ok q' \<and> messages q' + mset (map l_msg dead) = messages q \<and>
     queue_config q' = queue_config q \<and> mset (consumers q') = mset (consumers q)"
proof (cases "lease_ms q = None")
  case True
  then show ?thesis using assms by (simp add: sweep_expired_def)
next
  case False
  let ?u = "q\<lparr>in_flight := live_leases now q\<rparr>"
  have "queue_ok ?u" using ok
    by (auto simp: queue_ok_def live_leases_def distinct_map_filter)
  moreover have "sweep_leases now (expired_leases now q) ?u = (q', ds, dead)"
    using res False by (auto simp: sweep_expired_def Let_def split: prod.splits)
  ultimately show ?thesis
    using sweep_leases_ok [of ?u now "expired_leases now q" q' ds dead] False split_leases [of now q]
    by (simp add: messages_def queue_config_def add.assoc)
qed

lemma publish_ok:
  assumes ok: "queue_ok q"
  obtains q' seq ds dead gone where "publish_with_opts now payload prio grp q = Some (q', seq, ds, dead)"
    "seq = next_sequence q + 1" "next_sequence q' = seq" "queue_ok q'"
    "lease_ms q \<noteq> None \<Longrightarrow> messages q' + mset (map l_msg dead) + gone =
       add_mset \<lparr>q_sequence = seq, q_data = payload, q_priority = prio, q_group = grp\<rparr> (messages q)"
    "consumers q \<noteq> [] \<Longrightarrow> gone = {#}"
    "consumers q = [] \<Longrightarrow> length (buffer q') \<le> max_buffer q"
    "mset (consumers q') = mset (consumers q)" "lease_ms q' = lease_ms q" "max_buffer q' = max_buffer q"
proof -
  let ?seq = "next_sequence q + 1"
  let ?msg = "\<lparr>q_sequence = ?seq, q_data = payload, q_priority = prio, q_group = grp\<rparr>"
  have ok0: "queue_ok (q\<lparr>next_sequence := ?seq\<rparr>)" using ok by (simp add: queue_ok_def)
  obtain q1 ds dead n where s: "sweep_expired now (q\<lparr>next_sequence := ?seq\<rparr>) = (q1, ds, dead, n)" by (metis prod_cases4)
  note sw = sweep_expired_ok [OF ok0 s]
  then have q1: "queue_ok q1" "messages q1 + mset (map l_msg dead) = messages q" "mset (consumers q1) = mset (consumers q)"
    "next_sequence q1 = ?seq" "lease_ms q1 = lease_ms q" "max_buffer q1 = max_buffer q" "max_delivery_count q1 = max_delivery_count q"
    by (auto simp: messages_def queue_config_def)
  have cons: "consumers q1 = [] \<longleftrightarrow> consumers q = []" using q1(3) by (metis mset_zero_iff)
  show thesis
  proof (cases "pick_consumer_for grp q1")
    case (Some p)
    obtain sid q2 where p: "p = (sid, q2)" by (cases p)
    note f = pick_consumer_for_frame [OF Some [unfolded p]]
    have q2: "queue_ok q2" "messages q2 = messages q1" "0 \<le> max_delivery_count q2"
      using q1(1) f by (auto simp: queue_ok_def messages_def queue_config_def)
    obtain q3 d where d: "deliver_with_lease now sid ?msg 0 q2 = (q3, d)" by (rule prod.exhaust)
    note dl = deliver_with_lease_ok [OF q2(1,3) d]
    have eq: "next_sequence q3 = ?seq" "lease_ms q3 = lease_ms q" "max_buffer q3 = max_buffer q" "lease_ms q2 = lease_ms q"
      "mset (consumers q3) = mset (consumers q)"
      using dl f q1 by (auto simp: queue_config_def)
    have "consumers q \<noteq> []" using Some p pick_consumer_for_None [of grp q1] cons by auto
    moreover have "publish_with_opts now payload prio grp q = Some (q3, ?seq, ds @ [d], dead)"
      using s Some p d by (simp add: publish_with_opts_def Let_def)
    moreover have "messages q3 + mset (map l_msg dead) + {#} = add_mset ?msg (messages q)" if "lease_ms q \<noteq> None"
      using dl q2(2) q1(2) eq(4) that by (simp add: add.commute)
    ultimately show thesis
      by (intro that [of q3 ?seq "ds @ [d]" dead "{#}"]) (use dl eq in auto)
  next
    case None
    then have none: "consumers q = []" using pick_consumer_for_None cons by blast
    obtain buf gone where buf: "evict_to_cap (max_buffer q1) (buffer q1) = Some buf" "length buf < max_buffer q1"
      "by_priority buf" "mset (buffer q1) = mset buf + gone"
      using evict_to_cap_returns [of "max_buffer q1" "buffer q1"] q1(1) unfolding queue_ok_def by blast
    let ?q' = "q1\<lparr>buffer := insert_by_priority ?msg buf\<rparr>"
    have "publish_with_opts now payload prio grp q = Some (?q', ?seq, ds, dead)"
      using s None buf(1) by (simp add: publish_with_opts_def Let_def)
    moreover have "queue_ok ?q'" using q1(1) insert_by_priority_sorted [OF buf(3)] by (simp add: queue_ok_def)
    moreover have "messages ?q' + mset (map l_msg dead) + gone = add_mset ?msg (messages q)"
      using q1(2) buf(4) by (simp add: messages_def ac_simps)
    ultimately show thesis
      by (intro that [of ?q' ?seq ds dead gone]) (use q1 buf(2) none in auto)
  qed
qed

lemma ack_ok:
  assumes "queue_ok q" "lease_ms q \<noteq> None" "map_of (in_flight q) did = Some l"
  shows "snd (ack did q)" "queue_ok (fst (ack did q))" "messages q = add_mset (l_msg l) (messages (fst (ack did q)))"
    "map_of (in_flight (fst (ack did q))) did = None"
proof -
  have d: "distinct (map fst (in_flight q))" using assms(1) by (simp add: queue_ok_def)
  obtain xs ys where split: "in_flight q = xs @ (did, l) # ys" using assms(3) by (meson map_of_SomeD split_list)
  have del: "AList.delete did (in_flight q) = xs @ ys"
  proof -
    have "filter (\<lambda>(k, _). did \<noteq> k) zs = zs" if "did \<notin> fst ` set zs" for zs :: "(nat \<times> lease_record) list"
      using that by (induction zs) auto
    then show ?thesis using d unfolding split by (auto simp: AList.delete_eq)
  qed
  show "snd (ack did q)" using assms by (simp add: ack_def)
  show "queue_ok (fst (ack did q))" using assms d del split by (auto simp: ack_def queue_ok_def)
  show "messages q = add_mset (l_msg l) (messages (fst (ack did q)))"
    using assms(2) del split by (simp add: ack_def messages_def)
  show "map_of (in_flight (fst (ack did q))) did = None"
    using assms(2) d by (auto simp: ack_def delete_conv')
qed

lemma assign_backlog_ok:
  "consumers q \<noteq> [] \<Longrightarrow>
   \<exists>q' out. assign_backlog ms q = Some (q', out) \<and> map snd out = ms \<and> set (map fst out) \<subseteq> set (consumers q) \<and>
     mset (consumers q') = mset (consumers q) \<and> buffer q' = buffer q \<and> in_flight q' = in_flight q \<and>
     next_delivery_id q' = next_delivery_id q \<and> queue_config q' = queue_config q"
proof (induction ms arbitrary: q)
  case Nil
  then show ?case by simp
next
  case (Cons m ms)
  obtain s u where u: "pick_consumer_for (q_group m) q = Some (s, u)"
    using Cons.prems pick_consumer_for_None [of "q_group m" q] by (metis option.exhaust surj_pair)
  note f = pick_consumer_for_frame [OF u]
  then have "consumers u \<noteq> []" "set (consumers u) = set (consumers q)"
    using Cons.prems by (metis mset_zero_iff, metis set_mset_mset)
  with Cons.IH [OF this(1)] u f show ?case by auto
qed

lemma deliver_all_ok:
  assumes "queue_ok q" "deliver_all now out q = (q', ds)"
  shows "queue_ok q' \<and> queue_config q' = queue_config q \<and> consumers q' = consumers q \<and> buffer q' = buffer q \<and>
     messages q' = (if lease_ms q = None then messages q else messages q + mset (map snd out)) \<and>
     map (\<lambda>d. (fst d, fst (snd d))) ds = out"
  using assms
proof (induction out arbitrary: q q' ds)
  case Nil
  then show ?case by simp
next
  case (Cons p out)
  obtain sid m where p: "p = (sid, m)" by (cases p)
  obtain q1 d where d: "deliver_with_lease now sid m 0 q = (q1, d)" by (rule prod.exhaust)
  obtain q2 ds' where rest: "deliver_all now out q1 = (q2, ds')" by (rule prod.exhaust)
  note one = deliver_with_lease_ok [OF Cons.prems(1) _ d]
  have "lease_ms q1 = lease_ms q" using one by (simp add: queue_config_def)
  with Cons.IH [OF _ rest] one Cons.prems(2) p d rest show ?case by auto
qed

lemma add_consumer_ok:
  assumes "queue_ok q"
  obtains q' ds where "add_consumer now sub q = Some (q', ds)" "queue_ok q'" "buffer q' = []"
    "map (\<lambda>d. fst (snd d)) ds = buffer q" "lease_ms q \<noteq> None \<Longrightarrow> messages q' = messages q"
    "set (map fst ds) \<subseteq> insert sub (set (consumers q))" "mset (consumers q') = add_mset sub (mset (consumers q))"
proof -
  let ?u = "q\<lparr>consumers := consumers q @ [sub], buffer := []\<rparr>"
  obtain q1 out where a: "assign_backlog (buffer q) ?u = Some (q1, out)" "map snd out = buffer q"
    "set (map fst out) \<subseteq> set (consumers ?u)" "mset (consumers q1) = mset (consumers ?u)" "buffer q1 = buffer ?u"
    "in_flight q1 = in_flight ?u" "next_delivery_id q1 = next_delivery_id ?u" "queue_config q1 = queue_config ?u"
    using assign_backlog_ok [of ?u "buffer q"] by auto
  have q1: "queue_ok q1" using assms a by (auto simp: queue_ok_def queue_config_def)
  obtain q' ds where d: "deliver_all now out q1 = (q', ds)" by (rule prod.exhaust)
  note dl = deliver_all_ok [OF q1 d]
  have fs: "map (\<lambda>d. (fst d, fst (snd d))) ds = out" using dl by blast
  have "map fst ds = map fst out" "map (\<lambda>d. fst (snd d)) ds = map snd out"
    unfolding fs [symmetric] by simp_all
  moreover have "buffer q' = []" using dl a(5) by simp
  moreover have "messages q' = messages q" if "lease_ms q \<noteq> None"
  proof -
    have "messages q' = messages q1 + mset (map snd out)" using dl a(8) that by (auto simp: queue_config_def)
    then show ?thesis unfolding a(2) using a(5,6) by (simp add: messages_def add.commute)
  qed
  moreover have "add_consumer now sub q = Some (q', ds)" using a(1) d by (simp add: add_consumer_def)
  moreover have "mset (consumers q') = add_mset sub (mset (consumers q))" using dl a(4) by simp
  ultimately show thesis using dl a(2,3) by (intro that [of q' ds]) simp_all
qed


lemma remove_consumer_ok:
  "queue_ok q \<Longrightarrow> queue_ok (fst (remove_consumer s q)) \<and> messages (fst (remove_consumer s q)) = messages q \<and>
     s \<notin> set (consumers (fst (remove_consumer s q))) \<and> s \<notin> ran (group_routes (fst (remove_consumer s q)))"
  by (auto simp: remove_consumer_def Let_def queue_ok_def messages_def ran_def split: option.splits if_splits)

lemma extend_lease_ok:
  assumes "queue_ok q"
  shows "queue_ok (fst (extend_lease now did extra q)) \<and> messages (fst (extend_lease now did extra q)) = messages q"
proof (cases "map_of (in_flight q) did")
  case None
  then show ?thesis using assms by (simp add: extend_lease_def)
next
  case (Some l)
  have d: "distinct (map fst (in_flight q))" using assms by (simp add: queue_ok_def)
  obtain xs ys where split: "in_flight q = xs @ (did, l) # ys" using Some by (meson map_of_SomeD split_list)
  have "AList.update did l' (zs @ (did, l) # ys) = zs @ (did, l') # ys" if "did \<notin> fst ` set zs" for zs l'
    using that by (induction zs) auto
  then have "AList.update did l' (in_flight q) = xs @ (did, l') # ys" for l' using d by (simp add: split)
  then show ?thesis using assms Some split by (auto simp: extend_lease_def queue_ok_def messages_def)
qed

section \<open>Rotation and groups\<close>

lemma pick_ungrouped:
  "consumers q \<noteq> [] \<Longrightarrow> pick_consumer_for None q = Some (hd (consumers q), q\<lparr>consumers := rotate1 (consumers q)\<rparr>)"
  by (cases "consumers q") (simp_all add: pick_consumer_for_def rotate_consumer_def)

lemma assign_round_robin:
  assumes "\<forall>m \<in> set ms. q_group m = None" "consumers q \<noteq> []" "assign_backlog ms q = Some (q', out)" "i < length ms"
  shows "out ! i = (consumers q ! (i mod length (consumers q)), ms ! i)"
  using assms
proof (induction ms arbitrary: q q' out i)
  case Nil
  then show ?case by simp
next
  case (Cons m ms)
  let ?u = "q\<lparr>consumers := rotate1 (consumers q)\<rparr>"
  have "pick_consumer_for (q_group m) q = Some (hd (consumers q), ?u)" using Cons.prems pick_ungrouped by simp
  then obtain out' where rest: "assign_backlog ms ?u = Some (q', out')" "out = (hd (consumers q), m) # out'"
    using Cons.prems(3) by (auto simp: bind_eq_Some)
  show ?case
  proof (cases i)
    case 0
    then show ?thesis using rest Cons.prems(2) by (simp add: hd_conv_nth)
  next
    case (Suc j)
    have "out' ! j = (rotate1 (consumers q) ! (j mod length (consumers q)), ms ! j)"
      using Cons.IH [of ?u q' out' j] Cons.prems rest Suc by simp
    moreover have "rotate1 (consumers q) ! (j mod length (consumers q)) = consumers q ! (Suc j mod length (consumers q))"
      using Cons.prems(2) by (subst nth_rotate1) (simp_all add: mod_Suc_eq)
    ultimately show ?thesis using rest Suc by simp
  qed
qed

definition pinned :: "string \<Rightarrow> string \<Rightarrow> queue \<Rightarrow> bool" where
  "pinned g s q \<longleftrightarrow> group_routes q g = Some s \<and> s \<in> set (consumers q)"

lemma rotate_consumer_pinned:
  "rotate_consumer q = Some (s, q') \<Longrightarrow> pinned g x q' \<longleftrightarrow> pinned g x q"
  using rotate_consumer_frame [of q s q'] by (metis pinned_def set_mset_mset)

lemma pick_pins: "pick_consumer_for (Some g) q = Some (s, q') \<Longrightarrow> pinned g s q'"
  by (auto simp: pick_consumer_for_def pinned_def split: if_splits option.splits dest!: rotate_consumer_frame)
    (metis set_mset_mset)+

lemma pick_keeps_pin:
  assumes "pinned g s q" "pick_consumer_for grp q = Some (s', q')"
  shows "pinned g s q' \<and> (grp = Some g \<longrightarrow> s' = s)"
proof (cases grp)
  case None
  then show ?thesis using assms rotate_consumer_pinned by (auto simp: pick_consumer_for_def split: if_splits)
next
  case (Some h)
  show ?thesis
  proof (cases "h = g")
    case True
    then show ?thesis using assms Some by (auto simp: pick_consumer_for_def pinned_def split: if_splits)
  next
    case False
    have keep: "pinned g s (r\<lparr>group_routes := (group_routes r)(h \<mapsto> x)\<rparr>) \<longleftrightarrow> pinned g s r" for r x
      using False by (simp add: pinned_def)
    show ?thesis
      using assms Some False rotate_consumer_pinned [of q]
      by (auto simp: pick_consumer_for_def keep split: if_splits option.splits)
  qed
qed

lemma assign_pinned:
  "pinned g s q \<Longrightarrow> assign_backlog ms q = Some (q', out) \<Longrightarrow>
   pinned g s q' \<and> (\<forall>(c, m) \<in> set out. q_group m = Some g \<longrightarrow> c = s)"
proof (induction ms arbitrary: q out)
  case Nil
  then show ?case by simp
next
  case (Cons m ms)
  obtain c u out' where u: "pick_consumer_for (q_group m) q = Some (c, u)" "assign_backlog ms u = Some (q', out')"
    "out = (c, m) # out'"
    using Cons.prems(2) by (auto simp: bind_eq_Some)
  have "pinned g s u" "q_group m = Some g \<longrightarrow> c = s" using pick_keeps_pin [OF Cons.prems(1) u(1)] by auto
  with Cons.IH [OF _ u(2)] u(3) show ?case by auto
qed

lemma assign_sticky:
  "assign_backlog ms q = Some (q', out) \<Longrightarrow> (c, m) \<in> set out \<Longrightarrow> (d, n) \<in> set out \<Longrightarrow>
   q_group m = Some g \<Longrightarrow> q_group n = Some g \<Longrightarrow> c = d"
proof (induction ms arbitrary: q out)
  case Nil
  then show ?case by simp
next
  case (Cons x ms)
  obtain b u out' where u: "pick_consumer_for (q_group x) q = Some (b, u)" "assign_backlog ms u = Some (q', out')"
    "out = (b, x) # out'"
    using Cons.prems(1) by (auto simp: bind_eq_Some)
  show ?case
  proof (cases "q_group x = Some g")
    case True
    then have pin: "pinned g b u" using u(1) pick_pins by simp
    have "c = b" "d = b" using assign_pinned [OF pin u(2)] Cons.prems u(3) by auto
    then show ?thesis by simp
  next
    case False
    then show ?thesis using Cons.IH [OF u(2)] Cons.prems u(3) by auto
  qed
qed


section \<open>Properties\<close>


definition sample_queue :: queue where
  "sample_queue = (with_max_buffer 1 (with_lease ''jobs'' (Some 10)))\<lparr>in_flight :=
     [(1, \<lparr>l_msg = \<lparr>q_sequence = 1, q_data = JNull, q_priority = 5, q_group = None\<rparr>, l_sub_id = ''a'',
           expires_at = 3, l_redelivery_count = 7\<rparr>)], next_delivery_id := 1, next_sequence := 1\<rparr>"

lemma sample_queue_ok: "queue_ok sample_queue" "lease_ms sample_queue = Some 10"
  by (simp_all add: sample_queue_def with_max_buffer_def with_lease_def queue_ok_def)


text \<open>
  The buffer is a stable priority queue: inserting into an ordered buffer puts the message
  behind everything of its own or a higher priority and before everything lower.
\<close>

theorem insert_by_priority_stable:
  assumes "by_priority buf"
  shows "by_priority (insert_by_priority msg buf) \<and>
     insert_by_priority msg buf =
       takeWhile (\<lambda>m. q_priority msg \<le> q_priority m) buf @ [msg] @ dropWhile (\<lambda>m. q_priority msg \<le> q_priority m) buf"
  using insert_by_priority_sorted [OF assms] insert_by_priority_split [OF assms] by blast

theorem insert_by_priority_stable_witness:
  "insert_by_priority \<lparr>q_sequence = 3, q_data = JNull, q_priority = 1, q_group = None\<rparr>
     [\<lparr>q_sequence = 1, q_data = JNull, q_priority = 1, q_group = None\<rparr>,
      \<lparr>q_sequence = 2, q_data = JNull, q_priority = 0, q_group = None\<rparr>] =
   [\<lparr>q_sequence = 1, q_data = JNull, q_priority = 1, q_group = None\<rparr>,
    \<lparr>q_sequence = 3, q_data = JNull, q_priority = 1, q_group = None\<rparr>,
    \<lparr>q_sequence = 2, q_data = JNull, q_priority = 0, q_group = None\<rparr>]"
  using insert_by_priority_stable
    [of "[\<lparr>q_sequence = 1, q_data = JNull, q_priority = 1, q_group = None\<rparr>,
      \<lparr>q_sequence = 2, q_data = JNull, q_priority = 0, q_group = None\<rparr>]"
     "\<lparr>q_sequence = 3, q_data = JNull, q_priority = 1, q_group = None\<rparr>"] by simp



text \<open>
  When a consumer joins, every buffered message is delivered exactly once, in buffer
  order; ungrouped messages go round the consumers in turn; and messages of one group all go
  to the same consumer.
\<close>

theorem backlog_drained_fairly:
  assumes "queue_ok q"
  shows "\<exists>q' ds. add_consumer now sub q = Some (q', ds) \<and> map (\<lambda>d. fst (snd d)) ds = buffer q \<and>
     ((\<forall>m \<in> set (buffer q). q_group m = None) \<longrightarrow>
        (\<forall>i < length (buffer q). fst (ds ! i) = (consumers q @ [sub]) ! (i mod Suc (length (consumers q))))) \<and>
     (\<forall>i < length ds. \<forall>j < length ds. \<forall>g. q_group (buffer q ! i) = Some g \<and> q_group (buffer q ! j) = Some g \<longrightarrow>
        fst (ds ! i) = fst (ds ! j))"
proof -
  let ?u = "q\<lparr>consumers := consumers q @ [sub], buffer := []\<rparr>"
  obtain q1 out where a: "assign_backlog (buffer q) ?u = Some (q1, out)" "map snd out = buffer q" "queue_config q1 = queue_config ?u"
    "in_flight q1 = in_flight ?u" "next_delivery_id q1 = next_delivery_id ?u" "buffer q1 = buffer ?u"
    using assign_backlog_ok [of ?u "buffer q"] by auto
  have q1: "queue_ok q1" using assms a by (auto simp: queue_ok_def queue_config_def)
  obtain q' ds where d: "deliver_all now out q1 = (q', ds)" by (rule prod.exhaust)
  have fs: "map (\<lambda>d. (fst d, fst (snd d))) ds = out" using deliver_all_ok [OF q1 d] by blast
  have len: "length ds = length out" "length out = length (buffer q)"
    using fs arg_cong [OF a(2), of length] by auto
  have nth: "fst (ds ! i) = fst (out ! i)" "snd (out ! i) = buffer q ! i" if "i < length out" for i
  proof -
    have "out ! i = (fst (ds ! i), fst (snd (ds ! i)))" using nth_map [of i ds "\<lambda>d. (fst d, fst (snd d))"] that len(1) by (simp only: fs)
    then show "fst (ds ! i) = fst (out ! i)" by simp
    show "snd (out ! i) = buffer q ! i" using nth_map [of i out snd] that by (simp only: a(2))
  qed
  have msgs: "map (\<lambda>d. fst (snd d)) ds = buffer q" unfolding a(2) [symmetric] fs [symmetric] by simp
  have add: "add_consumer now sub q = Some (q', ds)" using a(1) d by (simp add: add_consumer_def)
  have robin: "fst (ds ! i) = (consumers q @ [sub]) ! (i mod Suc (length (consumers q)))"
    if "\<forall>m \<in> set (buffer q). q_group m = None" "i < length (buffer q)" for i
    using assign_round_robin [OF that(1) _ a(1) that(2)] nth [of i] that(2) len by simp
  have sticky: "fst (ds ! i) = fst (ds ! j)"
    if "i < length ds" "j < length ds" "q_group (buffer q ! i) = Some g" "q_group (buffer q ! j) = Some g" for i j g
    using assign_sticky [OF a(1), of "fst (out ! i)" "buffer q ! i" "fst (out ! j)" "buffer q ! j" g] that len nth
    by (metis nth_mem surjective_pairing)
  show ?thesis using add msgs robin sticky by blast
qed

theorem backlog_drained_fairly_witness:
  "\<exists>q' ds. add_consumer 0 ''c'' (with_lease ''jobs'' None) = Some (q', ds) \<and> ds = []"
  using backlog_drained_fairly [of "with_lease ''jobs'' None" 0 "''c''"] by (auto simp: queue_ok_def with_lease_def)

text \<open>
  A sweep that finds no consumer puts the message back into the buffer without its
  redelivery count and without looking at the cap: when a consumer joins, the message is
  delivered as if for the first time, so the delivery limit never takes effect, and a full
  buffer grows past its cap.
\<close>

theorem rebuffering_forgets_redeliveries:
  assumes "lease_ms q = Some ms" "consumers q = []" "in_flight q = [(d, l)]" "expires_at l \<le> now"
    and "l_redelivery_count l < max_delivery_count q"
  shows "\<exists>q' n. sweep_expired now q = (q', [], [], n) \<and> length (buffer q') = length (buffer q) + 1 \<and>
     (buffer q = [] \<longrightarrow>
        (\<exists>q'' ds d' l'. add_consumer now sub q' = Some (q'', ds) \<and> in_flight q'' = [(d', l')] \<and> l_msg l' = l_msg l \<and> l_redelivery_count l' = 0))"
  using assms
  by (auto simp: sweep_expired_def expired_leases_def live_leases_def sweep_one_def pick_next_consumer_excluding_def
      Let_def add_consumer_def insert_by_priority_def pick_consumer_for_def rotate_consumer_def deliver_with_lease_def
      split: option.splits)

theorem rebuffering_forgets_redeliveries_witness:
  "\<exists>q' n q'' ds d' l'. sweep_expired 4 sample_queue = (q', [], [], n) \<and> add_consumer 4 ''b'' q' = Some (q'', ds) \<and>
     in_flight q'' = [(d', l')] \<and> l_redelivery_count l' = 0"
  using rebuffering_forgets_redeliveries
    [of sample_queue 10 1 "\<lparr>l_msg = \<lparr>q_sequence = 1, q_data = JNull, q_priority = 5, q_group = None\<rparr>, l_sub_id = ''a'',
           expires_at = 3, l_redelivery_count = 7\<rparr>" 4 "''b''"]
  by (auto simp: sample_queue_def with_max_buffer_def with_lease_def)

text \<open>
  With no consumer and a full buffer, publishing a message of lower priority than
  everything buffered evicts a buffered message of higher priority to make room for it.
\<close>

theorem low_priority_publish_evicts_higher:
  assumes "queue_ok q" "lease_ms q = None" "consumers q = []" "length (buffer q) = max_buffer q"
    and "\<forall>m \<in> set (buffer q). prio < q_priority m"
  shows "\<exists>q' gone. publish_with_opts now payload prio grp q = Some (q', next_sequence q + 1, [], []) \<and>
     prio < q_priority gone \<and> gone \<in> set (buffer q) \<and>
     add_mset gone (mset (buffer q')) =
       add_mset \<lparr>q_sequence = next_sequence q + 1, q_data = payload, q_priority = prio, q_group = grp\<rparr> (mset (buffer q))"
proof -
  let ?msg = "\<lparr>q_sequence = next_sequence q + 1, q_data = payload, q_priority = prio, q_group = grp\<rparr>"
  obtain buf gone where e: "evict_to_cap (max_buffer q) (buffer q) = Some buf" "mset (buffer q) = mset buf + gone"
    "size gone = Suc (length (buffer q)) - max_buffer q"
    using evict_to_cap_returns [of "max_buffer q" "buffer q"] assms(1) unfolding queue_ok_def by blast
  then obtain g where g: "gone = {#g#}" using assms(4) size_1_singleton_mset [of gone] by auto
  have "publish_with_opts now payload prio grp q =
      Some (q\<lparr>next_sequence := next_sequence q + 1, buffer := insert_by_priority ?msg buf\<rparr>, next_sequence q + 1, [], [])"
    using assms(2,3) e(1) by (simp add: publish_with_opts_def sweep_expired_def pick_consumer_for_def Let_def)
  moreover have "g \<in> set (buffer q)" using e(2) g by (metis multi_member_last union_iff set_mset_mset)
  ultimately show ?thesis using assms(5) e(2) g
    by (intro exI [of _ "q\<lparr>next_sequence := next_sequence q + 1, buffer := insert_by_priority ?msg buf\<rparr>"] exI [of _ g]) auto
qed

theorem low_priority_publish_evicts_higher_witness:
  "\<exists>q'. publish_with_opts 0 JNull 1 None
      ((with_max_buffer 1 (queue_new ''jobs''))\<lparr>buffer := [\<lparr>q_sequence = 0, q_data = JNull, q_priority = 9, q_group = None\<rparr>]\<rparr>) =
        Some (q', 1, [], []) \<and> map q_priority (buffer q') = [1]"
  using low_priority_publish_evicts_higher
    [of "(with_max_buffer 1 (queue_new ''jobs''))\<lparr>buffer := [\<lparr>q_sequence = 0, q_data = JNull, q_priority = 9, q_group = None\<rparr>]\<rparr>"
      1 0 JNull None]
  by (auto simp: queue_ok_def with_max_buffer_def queue_new_def with_lease_def)

end
