(* ===== verification/CQ_Codec.thy ===== *)
theory CQ_Codec
  imports CQ_Row_Json
begin

text \<open>
  The wire layer (\<open>crates/cq-protocol/src\<close>): length-prefixed frames with optional compression
  (\<open>codec.rs\<close>, \<open>compression.rs\<close>), the negotiation of protocol version and compression at logon
  (\<open>version.rs\<close>, \<open>compression.rs\<close>) and the nesting guard that scans a document before it is
  parsed (\<open>depth_guard.rs\<close>). The \<open>zstd\<close> functions are an argument.

  Shown here: a stream of frames is decoded to the payloads that were encoded, also when it
  arrives in pieces; what happens to frames over the size limit; negotiation picks the best
  common choice; the scan computes the nesting depth of the document, whatever its strings
  contain.
\<close>

section \<open>Compression and version negotiation\<close>

datatype compression = CompNone | CompZstd

definition compression_as_str :: "compression \<Rightarrow> string" where
  "compression_as_str c = (case c of CompNone \<Rightarrow> ''none'' | CompZstd \<Rightarrow> ''zstd'')"

definition compression_from_str :: "string \<Rightarrow> compression option" where
  "compression_from_str s =
     (if s = ''none'' then Some CompNone else if s = ''zstd'' then Some CompZstd else None)"

datatype 'a negotiation = Negotiated 'a | NoOverlap

fun first_common :: "compression list \<Rightarrow> compression list \<Rightarrow> compression negotiation" where
  "first_common [] server = NoOverlap"
| "first_common (c # cs) server = (if c \<in> set server then Negotiated c else first_common cs server)"

definition negotiate_compression :: "compression list \<Rightarrow> compression list \<Rightarrow> compression negotiation" where
  "negotiate_compression client server =
     (if client = [] then (if CompNone \<in> set server then Negotiated CompNone else NoOverlap)
      else first_common client server)"

definition better_version :: "u32 list \<Rightarrow> u32 \<Rightarrow> u32 option \<Rightarrow> u32 option" where
  "better_version server v best =
     (if v \<in> set server
      then Some (case best of Some prev \<Rightarrow> if prev \<ge> v then prev else v | None \<Rightarrow> v)
      else best)"

definition negotiate_version :: "u32 list \<Rightarrow> u32 list \<Rightarrow> u32 negotiation" where
  "negotiate_version client server =
     (if client = [] then (if 1 \<in> set server then Negotiated 1 else NoOverlap)
      else case fold (better_version server) client None of
             Some v \<Rightarrow> Negotiated v
           | None \<Rightarrow> NoOverlap)"

section \<open>Frames\<close>

type_synonym bytes = "8 word list"

record zstd =
  zstd_encode :: "bytes \<Rightarrow> bytes option"
  zstd_decode :: "bytes \<Rightarrow> bytes option"

unbundle bit_operations_syntax

definition put_u32 :: "u32 \<Rightarrow> bytes" where
  "put_u32 w = [ucast (drop_bit 24 w), ucast (drop_bit 16 w), ucast (drop_bit 8 w), ucast w]"

definition u32_from_be_bytes :: "8 word \<Rightarrow> 8 word \<Rightarrow> 8 word \<Rightarrow> 8 word \<Rightarrow> u32" where
  "u32_from_be_bytes a b c d =
     push_bit 24 (ucast a) OR push_bit 16 (ucast b) OR push_bit 8 (ucast c) OR ucast d"

definition compressed_flag :: u32 where "compressed_flag = push_bit 31 1"
definition max_frame_size :: nat where "max_frame_size = 16 * 1024 * 1024"

definition frame_body :: "zstd \<Rightarrow> compression \<Rightarrow> bytes \<Rightarrow> bytes \<times> bool" where
  "frame_body z cmp payload =
     (if cmp = CompZstd \<and> 256 \<le> length payload
      then case zstd_encode z payload of
             Some out \<Rightarrow> if length out < length payload then (out, True) else (payload, False)
           | None \<Rightarrow> (payload, False)
      else (payload, False))"

definition encode_frame_with :: "zstd \<Rightarrow> compression \<Rightarrow> bytes \<Rightarrow> bytes \<Rightarrow> bytes" where
  "encode_frame_with z cmp payload dst =
     (case frame_body z cmp payload of
        (body, compressed) \<Rightarrow>
          let len_word = (of_nat (length body) :: u32)
          in dst @ put_u32 (if compressed then len_word OR compressed_flag else len_word) @ body)"

definition encode_frame :: "zstd \<Rightarrow> bytes \<Rightarrow> bytes \<Rightarrow> bytes" where
  "encode_frame z payload dst = encode_frame_with z CompNone payload dst"

datatype decoded =
    NeedMore
  | Frame bytes bytes
  | TooLarge nat
  | ZstdFailed bytes

fun decode_frame :: "zstd \<Rightarrow> bytes \<Rightarrow> decoded" where
  "decode_frame z (a # b # c # d # rest) =
     (let raw = u32_from_be_bytes a b c d;
          compressed = (raw AND compressed_flag \<noteq> 0);
          len = unat (raw AND NOT compressed_flag)
      in if max_frame_size < len then TooLarge len
         else if length rest < len then NeedMore
         else if compressed
           then (case zstd_decode z (take len rest) of
                   Some out \<Rightarrow> Frame out (drop len rest)
                 | None \<Rightarrow> ZstdFailed (drop len rest))
           else Frame (take len rest) (drop len rest))"
| "decode_frame z _ = NeedMore"

text \<open>The read loop: frames are decoded until more bytes are needed.\<close>

fun decode_stream :: "(bytes \<Rightarrow> decoded) \<Rightarrow> nat \<Rightarrow> bytes \<Rightarrow> bytes list \<times> bytes" where
  "decode_stream dec 0 src = ([], src)"
| "decode_stream dec (Suc n) src =
     (case dec src of
        Frame p rest \<Rightarrow> (case decode_stream dec n rest of (ps, left) \<Rightarrow> (p # ps, left))
      | _ \<Rightarrow> ([], src))"

section \<open>Nesting guard\<close>

fun depth_scan :: "nat \<Rightarrow> nat \<Rightarrow> nat \<Rightarrow> bool \<Rightarrow> bool \<Rightarrow> string \<Rightarrow> bool" where
  "depth_scan limit depth max_depth in_string escape [] = (max_depth > limit)"
| "depth_scan limit depth max_depth in_string escape (b # bs) =
     (if in_string then
        (if escape then depth_scan limit depth max_depth True False bs
         else if b = CHR 0x5C then depth_scan limit depth max_depth True True bs
         else if b = CHR 0x22 then depth_scan limit depth max_depth False False bs
         else depth_scan limit depth max_depth True False bs)
      else if b = CHR 0x22 then depth_scan limit depth max_depth True escape bs
      else if b = CHR 0x7B \<or> b = CHR 0x5B then
        (if depth + 1 > max_depth
         then (if depth + 1 > limit then True else depth_scan limit (depth + 1) (depth + 1) False escape bs)
         else depth_scan limit (depth + 1) max_depth False escape bs)
      else if b = CHR 0x7D \<or> b = CHR 0x5D then depth_scan limit (depth - 1) max_depth False escape bs
      else depth_scan limit depth max_depth False escape bs)"

definition json_depth_exceeds :: "string \<Rightarrow> nat \<Rightarrow> bool" where
  "json_depth_exceeds bytes limit = depth_scan limit 0 0 False False bytes"

definition json_depth_exceeds_default :: "string \<Rightarrow> bool" where
  "json_depth_exceeds_default bytes = json_depth_exceeds bytes 128"

section \<open>Negotiation picks the best common choice\<close>

definition is_best :: "u32 set \<Rightarrow> u32 option \<Rightarrow> bool" where
  "is_best S r \<longleftrightarrow> (case r of None \<Rightarrow> S = {} | Some m \<Rightarrow> m \<in> S \<and> (\<forall>x \<in> S. x \<le> m))"

lemma fold_better_version:
  "is_best S best \<Longrightarrow> is_best (S \<union> (set client \<inter> set server)) (fold (better_version server) client best)"
proof (induction client arbitrary: S best)
  case Nil
  then show ?case by simp
next
  case (Cons v client)
  have "is_best (S \<union> ({v} \<inter> set server)) (better_version server v best)"
    using Cons.prems by (auto simp: is_best_def better_version_def split: option.splits)
  from Cons.IH [OF this] show ?case by (simp add: Un_assoc Int_insert_left insert_commute split: if_splits)
qed

lemma first_common_correct:
  "first_common client server =
     (case find (\<lambda>c. c \<in> set server) client of Some c \<Rightarrow> Negotiated c | None \<Rightarrow> NoOverlap)"
  by (induction client) auto

section \<open>Length prefixes\<close>

lemma be_bytes_round_trip:
  "u32_from_be_bytes (ucast (drop_bit 24 w)) (ucast (drop_bit 16 w)) (ucast (drop_bit 8 w)) (ucast w) = w"
proof (rule bit_word_eqI)
  fix n assume n: "n < LENGTH(32)"
  then consider "n < 8" | "8 \<le> n \<and> n < 16" | "16 \<le> n \<and> n < 24" | "24 \<le> n \<and> n < 32" by fastforce
  then show "bit (u32_from_be_bytes (ucast (drop_bit 24 w)) (ucast (drop_bit 16 w)) (ucast (drop_bit 8 w)) (ucast w)) n = bit w n"
    by cases (auto simp: u32_from_be_bytes_def bit_simps)
qed

lemma flag_bits:
  assumes "n < 2 ^ 31"
  shows "(of_nat n :: u32) AND compressed_flag = 0" "(of_nat n OR compressed_flag) AND compressed_flag \<noteq> (0 :: u32)"
    "unat ((of_nat n :: u32) AND NOT compressed_flag) = n" "unat ((of_nat n OR compressed_flag) AND NOT compressed_flag :: u32) = n"
proof -
  have flag: "bit compressed_flag m \<longleftrightarrow> m = 31" for m
    unfolding compressed_flag_def bit_push_bit_iff by (auto simp: bit_1_iff)
  have top: "\<not> bit (of_nat n :: u32) 31"
  proof -
    have "\<not> bit n 31" using assms unfolding bit_iff_odd by simp
    then show ?thesis by (simp add: bit_of_nat_iff)
  qed
  have a: "(of_nat n :: u32) AND NOT compressed_flag = of_nat n" "(of_nat n OR compressed_flag) AND NOT compressed_flag = (of_nat n :: u32)"
    using top by (auto intro!: bit_word_eqI simp: bit_and_iff bit_or_iff bit_not_iff flag)
  moreover have "unat (of_nat n :: u32) = n" using assms by (simp add: unat_of_nat)
  ultimately show "unat ((of_nat n :: u32) AND NOT compressed_flag) = n" "unat ((of_nat n OR compressed_flag) AND NOT compressed_flag :: u32) = n"
    by simp_all
  show "(of_nat n :: u32) AND compressed_flag = 0"
    using top by (auto intro!: bit_word_eqI simp: bit_and_iff flag)
  have "bit ((of_nat n OR compressed_flag) AND compressed_flag :: u32) 31" by (simp add: bit_and_iff bit_or_iff flag)
  then show "(of_nat n OR compressed_flag) AND compressed_flag \<noteq> (0 :: u32)" by auto
qed

section \<open>Framing\<close>

locale framing =
  fixes enc :: "bytes \<Rightarrow> bytes" and dec :: "bytes \<Rightarrow> decoded" and ok :: "bytes \<Rightarrow> bool"
  assumes dec_enc: "ok p \<Longrightarrow> dec (enc p @ rest) = Frame p rest"
    and dec_prefix: "ok p \<Longrightarrow> enc p = pre @ suf \<Longrightarrow> suf \<noteq> [] \<Longrightarrow> dec pre = NeedMore"
    and dec_nil: "dec [] = NeedMore"
begin

lemma stream_whole: "\<forall>p \<in> set ps. ok p \<Longrightarrow> decode_stream dec (length ps) (concat (map enc ps) @ rest) = (ps, rest)"
proof (induction ps)
  case Nil
  then show ?case by simp
next
  case (Cons p ps)
  then have "dec (enc p @ concat (map enc ps) @ rest) = Frame p (concat (map enc ps) @ rest)" by (simp add: dec_enc)
  with Cons show ?case by simp
qed

text \<open>A stream cut anywhere: the complete frames come out, the rest waits for more bytes.\<close>

lemma stream_prefix:
  "\<forall>p \<in> set ps. ok p \<Longrightarrow> concat (map enc ps) = pre @ suf \<Longrightarrow>
   \<exists>k \<le> length ps. \<exists>left. decode_stream dec (Suc (length ps)) pre = (take k ps, left) \<and>
     left @ suf = concat (map enc (drop k ps))"
proof (induction ps arbitrary: pre)
  case Nil
  then show ?case by (simp add: dec_nil)
next
  case (Cons p ps)
  show ?case
  proof (cases "length (enc p) \<le> length pre")
    case True
    then obtain mid where mid: "pre = enc p @ mid" "concat (map enc ps) = mid @ suf"
      using Cons.prems(2) by (auto simp: append_eq_append_conv2)
    then obtain k left where k: "k \<le> length ps" "decode_stream dec (Suc (length ps)) mid = (take k ps, left)"
      "left @ suf = concat (map enc (drop k ps))" using Cons by fastforce
    then show ?thesis using dec_enc [of p mid] Cons.prems(1) mid(1)
      by (intro exI [of _ "Suc k"] conjI exI [of _ left]) simp_all
  next
    case False
    then obtain rest where "enc p = pre @ rest" "rest \<noteq> []"
      using Cons.prems(2) by (auto simp: append_eq_append_conv2)
    then have "dec pre = NeedMore" using Cons.prems(1) dec_prefix [of p pre rest] by simp
    then show ?thesis using Cons.prems(2) by (intro exI [of _ 0]) simp
  qed
qed

end

text \<open>A payload the frame codec carries: within the size limit, and one \<open>zstd\<close> restores.\<close>

definition frame_ok :: "zstd \<Rightarrow> bytes \<Rightarrow> bool" where
  "frame_ok z p \<longleftrightarrow> length p \<le> max_frame_size \<and> (\<forall>c. zstd_encode z p = Some c \<longrightarrow> zstd_decode z c = Some p)"

lemma encode_frame_shape:
  assumes "length p \<le> max_frame_size"
  obtains body w where "encode_frame_with z cmp p [] = put_u32 w @ body" "length body \<le> max_frame_size"
    "unat (w AND NOT compressed_flag) = length body"
    "w AND compressed_flag = 0 \<and> body = p \<or> w AND compressed_flag \<noteq> 0 \<and> zstd_encode z p = Some body"
proof -
  obtain body compressed where b: "frame_body z cmp p = (body, compressed)" by (rule prod.exhaust)
  then have body: "length body \<le> length p" "if compressed then zstd_encode z p = Some body else body = p"
    by (auto simp: frame_body_def split: if_splits option.splits)
  then have "length body < 2 ^ 31" using assms by (simp add: max_frame_size_def)
  note flag = flag_bits [OF this]
  show thesis
    using that [of "if compressed then of_nat (length body) OR compressed_flag else of_nat (length body)" body] b body assms flag
    by (auto simp: encode_frame_with_def Let_def split: if_splits)
qed

lemma decode_after_prefix:
  "decode_frame z (put_u32 w @ rest) =
     (let compressed = (w AND compressed_flag \<noteq> 0); len = unat (w AND NOT compressed_flag)
      in if max_frame_size < len then TooLarge len
         else if length rest < len then NeedMore
         else if compressed
           then (case zstd_decode z (take len rest) of
                   Some out \<Rightarrow> Frame out (drop len rest)
                 | None \<Rightarrow> ZstdFailed (drop len rest))
           else Frame (take len rest) (drop len rest))"
  by (simp add: put_u32_def be_bytes_round_trip)

lemma length_put_u32 [simp]: "length (put_u32 w) = 4"
  by (simp add: put_u32_def)

lemma decode_short: "length src < 4 \<Longrightarrow> decode_frame z src = NeedMore"
  by (induction z src rule: decode_frame.induct) auto

interpretation frames: framing "\<lambda>p. encode_frame_with z cmp p []" "decode_frame z" "frame_ok z" for z cmp
proof
  fix p rest pre suf
  assume ok: "frame_ok z p"
  then obtain body w where e: "encode_frame_with z cmp p [] = put_u32 w @ body" "length body \<le> max_frame_size"
    "unat (w AND NOT compressed_flag) = length body"
    "w AND compressed_flag = 0 \<and> body = p \<or> w AND compressed_flag \<noteq> 0 \<and> zstd_encode z p = Some body"
    using encode_frame_shape [of p z cmp] unfolding frame_ok_def by blast
  show "decode_frame z (encode_frame_with z cmp p [] @ rest) = Frame p rest"
    using e ok by (auto simp: decode_after_prefix Let_def frame_ok_def)
  show "decode_frame z pre = NeedMore" if "encode_frame_with z cmp p [] = pre @ suf" "suf \<noteq> []"
  proof (cases "length pre < 4")
    case False
    have eq: "put_u32 w @ body = pre @ suf" using that(1) e(1) by simp
    then have "take 4 (put_u32 w @ body) = take 4 (pre @ suf)" "drop 4 (put_u32 w @ body) = drop 4 (pre @ suf)" by simp_all
    then have "pre = put_u32 w @ drop 4 pre" "body = drop 4 pre @ suf"
      using False append_take_drop_id [of 4 pre] by simp_all
    then obtain mid where "pre = put_u32 w @ mid" "body = mid @ suf" by blast
    then show ?thesis using e that(2) by (auto simp: decode_after_prefix Let_def)
  qed (rule decode_short)
qed simp

section \<open>The scan computes the nesting depth\<close>

text \<open>The depth the scan would record without stopping early.\<close>

fun scan_depth :: "nat \<Rightarrow> nat \<Rightarrow> bool \<Rightarrow> bool \<Rightarrow> string \<Rightarrow> nat" where
  "scan_depth depth m in_string escape [] = m"
| "scan_depth depth m in_string escape (b # bs) =
     (if in_string then
        (if escape then scan_depth depth m True False bs
         else if b = CHR 0x5C then scan_depth depth m True True bs
         else if b = CHR 0x22 then scan_depth depth m False False bs
         else scan_depth depth m True False bs)
      else if b = CHR 0x22 then scan_depth depth m True escape bs
      else if b = CHR 0x7B \<or> b = CHR 0x5B then scan_depth (depth + 1) (max m (depth + 1)) False escape bs
      else if b = CHR 0x7D \<or> b = CHR 0x5D then scan_depth (depth - 1) m False escape bs
      else scan_depth depth m False escape bs)"

lemma scan_depth_ge: "m \<le> scan_depth depth m in_string escape bs"
  by (induction depth m in_string escape bs rule: scan_depth.induct) auto

lemma depth_scan_eq: "m \<le> limit \<Longrightarrow> depth_scan limit depth m in_string escape bs = (limit < scan_depth depth m in_string escape bs)"
proof (induction bs arbitrary: depth m in_string escape)
  case Nil
  then show ?case by simp
next
  case (Cons b bs)
  consider "Suc depth \<le> m" | "m < Suc depth" "Suc depth \<le> limit" | "m < Suc depth" "limit < Suc depth" by linarith
  then show ?case
  proof cases
    case 3
    have "limit < scan_depth (Suc depth) (Suc depth) False e bs" for e
      using 3 scan_depth_ge [of "Suc depth" "Suc depth" False e bs] by linarith
    with 3 Cons show ?thesis by (simp add: max_def)
  qed (use Cons in \<open>simp_all add: max_def\<close>)
qed

text \<open>
  A document as text, and its nesting. Numbers are written with digits, signs, points and
  exponents, so their text has no quote, brace or bracket.
\<close>

definition plain_text :: "string \<Rightarrow> bool" where
  "plain_text s \<longleftrightarrow> (\<forall>c \<in> set s. c \<notin> {CHR 0x22, CHR 0x7B, CHR 0x5B, CHR 0x7D, CHR 0x5D})"

fun json_render :: "json \<Rightarrow> string" and render_items :: "json list \<Rightarrow> string"
  and render_fields :: "(string \<times> json) list \<Rightarrow> string" where
  "json_render JNull = ''null''"
| "json_render (JBool b) = (if b then ''true'' else ''false'')"
| "json_render (JNumber n) = num_text n"
| "json_render (JString s) = [CHR 0x22] @ escaped s @ [CHR 0x22]"
| "json_render (JArray xs) = [CHR 0x5B] @ render_items xs @ [CHR 0x5D]"
| "json_render (JObject fs) = [CHR 0x7B] @ render_fields fs @ [CHR 0x7D]"
| "render_items [] = []"
| "render_items (x # xs) = json_render x @ (if xs = [] then [] else [CHR '','']) @ render_items xs"
| "render_fields [] = []"
| "render_fields ((k, v) # fs) =
     [CHR 0x22] @ escaped k @ [CHR 0x22, CHR '':''] @ json_render v @ (if fs = [] then [] else [CHR '','']) @ render_fields fs"

fun nesting :: "json \<Rightarrow> nat" and nesting_items :: "json list \<Rightarrow> nat" and nesting_fields :: "(string \<times> json) list \<Rightarrow> nat" where
  "nesting (JArray xs) = Suc (nesting_items xs)"
| "nesting (JObject fs) = Suc (nesting_fields fs)"
| "nesting _ = 0"
| "nesting_items [] = 0"
| "nesting_items (x # xs) = max (nesting x) (nesting_items xs)"
| "nesting_fields [] = 0"
| "nesting_fields ((k, v) # fs) = max (nesting v) (nesting_fields fs)"

fun numbers_plain :: "json \<Rightarrow> bool" and items_plain :: "json list \<Rightarrow> bool" and fields_plain :: "(string \<times> json) list \<Rightarrow> bool" where
  "numbers_plain (JNumber n) = plain_text (num_text n)"
| "numbers_plain (JArray xs) = items_plain xs"
| "numbers_plain (JObject fs) = fields_plain fs"
| "numbers_plain _ = True"
| "items_plain [] = True"
| "items_plain (x # xs) = (numbers_plain x \<and> items_plain xs)"
| "fields_plain [] = True"
| "fields_plain ((k, v) # fs) = (numbers_plain v \<and> fields_plain fs)"

lemma scan_plain: "plain_text s \<Longrightarrow> scan_depth d m False False (s @ rest) = scan_depth d m False False rest"
  by (induction s) (auto simp: plain_text_def)

lemma scan_escape_one: "scan_depth d m True False (escape_one b @ rest) = scan_depth d m True False rest"
proof -
  have lit: "hex_digit n \<noteq> CHR 0x5C \<and> hex_digit n \<noteq> CHR 0x22" if "n < 16" for n
  proof -
    have "hex_value (hex_digit n) \<noteq> None" using hex_value_hex_digit [OF that] by simp
    then show ?thesis by (auto simp: hex_value_def Let_def)
  qed
  show ?thesis
  proof (cases "byte_escape b")
    case None
    then have "b \<noteq> CHR 0x5C" "b \<noteq> CHR 0x22" by (auto simp: byte_escape_def Let_def)
    then show ?thesis using None by (simp add: escape_one_def)
  next
    case (Some e)
    let ?n = "of_char b :: nat"
    have n: "?n div 16 < 16" "?n mod 16 < 16" by (rule less_mult_imp_div_less) simp_all
    show ?thesis using Some lit [OF n(1)] lit [OF n(2)]
      by (auto simp: escape_one_def byte_escape_def Let_def split: if_splits)
  qed
qed

lemma scan_escaped: "scan_depth d m True False (escaped s @ rest) = scan_depth d m True False rest"
  by (induction s) (simp_all add: escaped_def scan_escape_one)

lemma scan_quoted: "scan_depth d m False False ([CHR 0x22] @ escaped s @ [CHR 0x22] @ rest) = scan_depth d m False False rest"
  using scan_escaped [of d m s "[CHR 0x22] @ rest"] by simp


lemma scan_render:
  "numbers_plain j \<Longrightarrow> d \<le> m \<Longrightarrow>
     scan_depth d m False False (json_render j @ rest) = scan_depth d (max m (d + nesting j)) False False rest"
  "items_plain xs \<Longrightarrow> d \<le> m \<Longrightarrow>
     scan_depth d m False False (render_items xs @ rest) = scan_depth d (max m (d + nesting_items xs)) False False rest"
  "fields_plain fs \<Longrightarrow> d \<le> m \<Longrightarrow>
     scan_depth d m False False (render_fields fs @ rest) = scan_depth d (max m (d + nesting_fields fs)) False False rest"
proof (induction j and xs and fs arbitrary: d m rest and d m rest and d m rest
    rule: json_render_render_items_render_fields.induct)
  case (4 s)
  then show ?case using scan_quoted [of d m s rest] by simp
next
  case (5 xs)
  then show ?case by (simp add: max.assoc max.absorb2)
next
  case (6 fs)
  then show ?case by (simp add: max.assoc max.absorb2)
next
  case (10 k v fs)
  show ?case
    using 10 scan_quoted [of d m k "CHR '':'' # json_render v @ (if fs = [] then [] else [CHR '','']) @ render_fields fs @ rest"]
    by (auto simp: max.assoc nat_add_max_right)
qed (auto simp: scan_plain max.assoc nat_add_max_right)


section \<open>Properties\<close>

text \<open>
  C24: A stream of encoded frames, with or without compression and however it is cut into
  pieces, is decoded to the payloads in order: the whole stream gives all of them and leaves
  what follows untouched, and a stream cut short gives the complete frames and keeps the bytes
  of the incomplete one for later.
\<close>

theorem frame_stream_round_trip:
  assumes "\<forall>p \<in> set ps. frame_ok z p"
  shows "decode_stream (decode_frame z) (length ps) (concat (map (\<lambda>p. encode_frame_with z cmp p []) ps) @ rest) = (ps, rest) \<and>
     (\<forall>pre suf. concat (map (\<lambda>p. encode_frame_with z cmp p []) ps) = pre @ suf \<longrightarrow>
        (\<exists>k \<le> length ps. \<exists>left. decode_stream (decode_frame z) (Suc (length ps)) pre = (take k ps, left) \<and>
           left @ suf = concat (map (\<lambda>p. encode_frame_with z cmp p []) (drop k ps))))"
  using frames.stream_whole [OF assms] frames.stream_prefix [OF assms] by blast

theorem frame_stream_round_trip_witness:
  "decode_stream (decode_frame \<lparr>zstd_encode = Some, zstd_decode = Some\<rparr>) 2
     (encode_frame_with \<lparr>zstd_encode = Some, zstd_decode = Some\<rparr> CompZstd [1, 2] [] @
      encode_frame_with \<lparr>zstd_encode = Some, zstd_decode = Some\<rparr> CompZstd [] []) = ([[1, 2], []], [])"
  using frame_stream_round_trip [of "[[1, 2], []]" "\<lparr>zstd_encode = Some, zstd_decode = Some\<rparr>" CompZstd "[]"]
  by (simp add: frame_ok_def max_frame_size_def numeral_2_eq_2)

text \<open>
  The size limit is one-sided. A payload over the limit is encoded without complaint into
  a frame that the decoder rejects; and a compressed frame within the limit is accepted
  whatever the size of its decompressed payload.
\<close>

theorem frame_limit_is_one_sided:
  assumes "max_frame_size < length p" "length p < 2 ^ 31"
    and "length c \<le> max_frame_size" "zstd_decode z c = Some out"
  shows "decode_frame z (encode_frame z p []) = TooLarge (length p) \<and>
     decode_frame z (put_u32 (of_nat (length c) OR compressed_flag) @ c) = Frame out []"
proof -
  have c: "length c < 2 ^ 31" using assms(3) by (simp add: max_frame_size_def)
  show ?thesis
    using assms flag_bits [OF assms(2)] flag_bits [OF c]
    by (simp add: encode_frame_def encode_frame_with_def frame_body_def decode_after_prefix Let_def)
qed

theorem frame_limit_is_one_sided_witness:
  "\<exists>p out. decode_frame \<lparr>zstd_encode = Some, zstd_decode = \<lambda>_. Some out\<rparr> (encode_frame \<lparr>zstd_encode = Some, zstd_decode = \<lambda>_. Some out\<rparr> p []) =
       TooLarge (length p) \<and> max_frame_size < length out \<and>
     decode_frame \<lparr>zstd_encode = Some, zstd_decode = \<lambda>_. Some out\<rparr> (put_u32 (of_nat 0 OR compressed_flag)) = Frame out []"
proof -
  let ?p = "replicate (Suc max_frame_size) (0 :: 8 word)"
  let ?z = "\<lparr>zstd_encode = Some, zstd_decode = \<lambda>_. Some ?p\<rparr>"
  have "max_frame_size < length ?p" by simp
  moreover have "length ?p < 2 ^ 31" by (simp add: max_frame_size_def)
  ultimately show ?thesis
    using frame_limit_is_one_sided [of ?p "[]" ?z ?p] by (intro exI [of _ ?p]) simp
qed

text \<open>
  Logon negotiates the best common choice: the highest protocol version both sides list,
  the first compression in the client's order that the server lists, the legacy value when the
  client lists nothing, and a refusal exactly when there is no common choice.
\<close>

theorem negotiation_best:
  "(client \<noteq> [] \<longrightarrow>
      (case negotiate_version client server of
         Negotiated v \<Rightarrow> v \<in> set client \<inter> set server \<and> (\<forall>w \<in> set client \<inter> set server. w \<le> v)
       | NoOverlap \<Rightarrow> set client \<inter> set server = {})) \<and>
   (comps \<noteq> [] \<longrightarrow>
      negotiate_compression comps scomps =
        (case find (\<lambda>c. c \<in> set scomps) comps of Some c \<Rightarrow> Negotiated c | None \<Rightarrow> NoOverlap)) \<and>
   negotiate_version [] server = (if 1 \<in> set server then Negotiated 1 else NoOverlap) \<and>
   negotiate_compression [] scomps = (if CompNone \<in> set scomps then Negotiated CompNone else NoOverlap)"
  using fold_better_version [of "{}" None client server]
  by (auto simp: negotiate_version_def negotiate_compression_def first_common_correct is_best_def split: option.splits)

theorem negotiation_best_witness:
  "negotiate_version [1, 2, 3] [1, 2] = Negotiated 2 \<and> negotiate_compression [CompZstd, CompNone] [CompNone] = Negotiated CompNone"
  using negotiation_best [of "[1, 2, 3]" "[1, 2]" "[CompZstd, CompNone]" "[CompNone]"]
  by (auto simp: word_le_nat_alt split: negotiation.splits)

text \<open>
  The nesting guard computes the nesting of the document: on the text of any document it
  reports an excess exactly when the objects and arrays are nested deeper than the limit,
  whatever braces, quotes and backslashes the strings contain.
\<close>

theorem depth_guard_exact:
  assumes "numbers_plain j"
  shows "json_depth_exceeds (json_render j) limit \<longleftrightarrow> limit < nesting j"
  using scan_render(1) [OF assms, of 0 0 "[]"] by (simp add: json_depth_exceeds_def depth_scan_eq)

theorem depth_guard_exact_witness:
  "\<not> json_depth_exceeds (json_render (JArray [JString [CHR 0x7B, CHR 0x22, CHR 0x5B]])) 1"
  using depth_guard_exact [of "JArray [JString [CHR 0x7B, CHR 0x22, CHR 0x5B]]" 1] by simp

end
