(* ===== verification/CQ_Float.thy ===== *)
theory CQ_Float
  imports CQ_Prelude
begin

text \<open>
  The arithmetic of \<open>f64\<close> that filter expressions use: addition, subtraction, multiplication,
  division, negation, absolute value and the three roundings, as exact arithmetic on sign and
  magnitude followed by one rounding to the nearest representable number, ties to even. A NaN
  result is the canonical NaN; its payload is never observed by the code.

  Shown here: NaN is absorbing for all of them, and the sign operations act on the key that
  comparisons use.
\<close>

definition f64_signed :: "bool \<Rightarrow> nat \<Rightarrow> f64" where
  "f64_signed neg mag = word_of_nat (if neg then mag + 0x8000000000000000 else mag)"

abbreviation f64_inf_mag :: nat where "f64_inf_mag \<equiv> 0x7FF0000000000000"

text \<open>A finite number is \<open>f64_mantissa * 2 ^ f64_exponent\<close> with its sign.\<close>

definition f64_mantissa :: "f64 \<Rightarrow> nat" where
  "f64_mantissa b = (let m = f64_mag b in if m < 2 ^ 52 then m else m mod 2 ^ 52 + 2 ^ 52)"

definition f64_exponent :: "f64 \<Rightarrow> int" where
  "f64_exponent b = (let e = f64_mag b div 2 ^ 52 in if e = 0 then - 1074 else int e - 1075)"

definition half_even :: "nat \<Rightarrow> nat \<Rightarrow> nat" where
  "half_even n d =
     (let q = n div d; r = n mod d
      in if 2 * r < d \<or> 2 * r = d \<and> even q then q else q + 1)"

text \<open>The magnitude nearest to the ratio \<open>n / d\<close>, with gradual underflow and overflow to infinity.\<close>

definition f64_nearest :: "nat \<Rightarrow> nat \<Rightarrow> nat" where
  "f64_nearest n d =
     (if n = 0 then 0
      else let e0 = int (ilog2 n) - int (ilog2 d);
               below = (if 0 \<le> e0 then n < d * 2 ^ nat e0 else n * 2 ^ nat (- e0) < d);
               q = max ((if below then e0 - 1 else e0) - 52) (- 1074);
               m = (if 0 \<le> q then half_even n (d * 2 ^ nat q) else half_even (n * 2 ^ nat (- q)) d)
           in min f64_inf_mag (nat (q + 1074) * 2 ^ 52 + m))"

text \<open>The number \<open>n * 2 ^ e\<close> as a ratio of naturals, rounded.\<close>

definition f64_scaled :: "bool \<Rightarrow> nat \<Rightarrow> int \<Rightarrow> f64" where
  "f64_scaled neg n e =
     f64_signed neg (if 0 \<le> e then f64_nearest (n * 2 ^ nat e) 1 else f64_nearest n (2 ^ nat (- e)))"

definition f64_to_scale :: "f64 \<Rightarrow> int \<Rightarrow> int" where
  "f64_to_scale b e =
     (let n = int (f64_mantissa b) * 2 ^ nat (f64_exponent b - e) in if f64_neg b then - n else n)"

definition f64_minus :: "f64 \<Rightarrow> f64" where
  "f64_minus b = f64_signed (\<not> f64_neg b) (f64_mag b)"

definition f64_abs :: "f64 \<Rightarrow> f64" where
  "f64_abs b = f64_signed False (f64_mag b)"

definition f64_add :: "f64 \<Rightarrow> f64 \<Rightarrow> f64" where
  "f64_add a b =
     (if f64_is_nan a \<or> f64_is_nan b then f64_nan
      else if f64_is_infinite a then (if f64_is_infinite b \<and> f64_neg a \<noteq> f64_neg b then f64_nan else a)
      else if f64_is_infinite b then b
      else let e = min (f64_exponent a) (f64_exponent b);
               n = f64_to_scale a e + f64_to_scale b e
           in if n = 0 then f64_signed (f64_neg a \<and> f64_neg b) 0
              else f64_scaled (n < 0) (nat \<bar>n\<bar>) e)"

definition f64_sub :: "f64 \<Rightarrow> f64 \<Rightarrow> f64" where
  "f64_sub a b = (if f64_is_nan b then f64_nan else f64_add a (f64_minus b))"

definition f64_mul :: "f64 \<Rightarrow> f64 \<Rightarrow> f64" where
  "f64_mul a b =
     (let neg = (f64_neg a \<noteq> f64_neg b)
      in if f64_is_nan a \<or> f64_is_nan b then f64_nan
         else if f64_is_infinite a \<or> f64_is_infinite b
           then (if f64_mag a = 0 \<or> f64_mag b = 0 then f64_nan else f64_signed neg f64_inf_mag)
         else f64_scaled neg (f64_mantissa a * f64_mantissa b) (f64_exponent a + f64_exponent b))"

definition f64_div :: "f64 \<Rightarrow> f64 \<Rightarrow> f64" where
  "f64_div a b =
     (let neg = (f64_neg a \<noteq> f64_neg b); e = f64_exponent a - f64_exponent b
      in if f64_is_nan a \<or> f64_is_nan b then f64_nan
         else if f64_is_infinite a then (if f64_is_infinite b then f64_nan else f64_signed neg f64_inf_mag)
         else if f64_is_infinite b then f64_signed neg 0
         else if f64_mag b = 0 then (if f64_mag a = 0 then f64_nan else f64_signed neg f64_inf_mag)
         else f64_signed neg
           (if 0 \<le> e then f64_nearest (f64_mantissa a * 2 ^ nat e) (f64_mantissa b)
            else f64_nearest (f64_mantissa a) (f64_mantissa b * 2 ^ nat (- e))))"

text \<open>
  \<open>round\<close>, \<open>floor\<close> and \<open>ceil\<close> keep the sign and round the magnitude to an integer: a number
  with a fraction has a negative exponent.
\<close>

definition f64_integral :: "(bool \<Rightarrow> nat \<Rightarrow> nat \<Rightarrow> nat) \<Rightarrow> f64 \<Rightarrow> f64" where
  "f64_integral up b =
     (if f64_is_nan b then f64_nan
      else if f64_is_infinite b \<or> 0 \<le> f64_exponent b then b
      else let d = 2 ^ nat (- f64_exponent b); n = f64_mantissa b
           in f64_signed (f64_neg b) (f64_of_nat (n div d + up (f64_neg b) (n mod d) d)))"

definition f64_floor :: "f64 \<Rightarrow> f64" where
  "f64_floor = f64_integral (\<lambda>neg r d. if neg \<and> 0 < r then 1 else 0)"

definition f64_ceil :: "f64 \<Rightarrow> f64" where
  "f64_ceil = f64_integral (\<lambda>neg r d. if \<not> neg \<and> 0 < r then 1 else 0)"

definition f64_round :: "f64 \<Rightarrow> f64" where
  "f64_round = f64_integral (\<lambda>neg r d. if d \<le> 2 * r then 1 else 0)"

section \<open>NaN and signs\<close>

lemma f64_signed_mag: "m < 0x8000000000000000 \<Longrightarrow> f64_mag (f64_signed neg m) = m"
  and f64_signed_neg: "m < 0x8000000000000000 \<Longrightarrow> f64_neg (f64_signed neg m) = neg"
  by (auto simp: f64_signed_def f64_mag_def f64_neg_def unsigned_of_nat take_bit_nat_def)

lemma f64_minus_nan [simp]: "f64_is_nan (f64_minus b) = f64_is_nan b"
  by (simp add: f64_is_nan_def f64_minus_def f64_signed_mag f64_mag_less)

lemma f64_abs_nan [simp]: "f64_is_nan (f64_abs b) = f64_is_nan b"
  by (simp add: f64_is_nan_def f64_abs_def f64_signed_mag f64_mag_less)

lemma f64_minus_key [simp]: "f64_key (f64_minus b) = - f64_key b"
  by (simp add: f64_key_def f64_minus_def f64_signed_mag f64_signed_neg f64_mag_less)

lemma f64_abs_key [simp]: "f64_key (f64_abs b) = \<bar>f64_key b\<bar>"
  by (simp add: f64_key_def f64_abs_def f64_signed_mag f64_signed_neg f64_mag_less)

lemma f64_arith_nan:
  assumes "f64_is_nan a \<or> f64_is_nan b"
  shows "f64_is_nan (f64_add a b)" "f64_is_nan (f64_sub a b)" "f64_is_nan (f64_mul a b)" "f64_is_nan (f64_div a b)"
  using assms by (auto simp: f64_add_def f64_sub_def f64_mul_def f64_div_def Let_def)

lemma f64_integral_nan: "f64_is_nan b \<Longrightarrow> f64_is_nan (f64_integral up b)"
  by (simp add: f64_integral_def)

lemmas f64_nan_simps = f64_arith_nan f64_integral_nan

end
