(* ===== verification/CQ_Predicate.thy ===== *)
theory CQ_Predicate
  imports CQ_Row_Json CQ_Float
begin

text \<open>
  Compiled filter predicates (\<open>crates/cq-core/src/predicate.rs\<close>, lines 9-1066): the predicate
  tree, string and number expressions, their evaluation on a row of a column store in
  three-valued logic, the columns a predicate refers to, LIKE patterns, and the evaluation on a
  JSON document. The Unicode case tables and the regular-expression engine are an argument.

  Evaluation returns \<open>None\<close> where the code panics: a typed accessor indexes the array of its own
  type with the position of the column in the array of the column's type.

  The theory holds the definitions; \<open>CQ_Predicate_Meaning\<close> states and proves what they mean.
\<close>

section \<open>Text\<close>

record text_ops =
  char_to_upper :: "string \<Rightarrow> string list"
  char_to_lower :: "string \<Rightarrow> string list"
  str_to_upper :: "string \<Rightarrow> string"
  str_to_lower :: "string \<Rightarrow> string"
  regex_valid :: "string \<Rightarrow> bool"
  regex_fits :: "string \<Rightarrow> bool"
  is_match :: "string \<Rightarrow> string \<Rightarrow> bool"

text \<open>\<open>str::chars\<close>: a character is its lead byte and the continuation bytes that follow.\<close>

definition continuation :: "char \<Rightarrow> bool" where
  "continuation c \<longleftrightarrow> (of_char c :: nat) div 64 = 2"

lemma length_dropWhile_less [termination_simp]: "length (dropWhile P xs) < Suc (length xs)"
  by (simp add: length_dropWhile_le less_Suc_eq_le)

fun utf8_chars :: "string \<Rightarrow> string list" where
  "utf8_chars [] = []"
| "utf8_chars (b # bs) = (b # takeWhile continuation bs) # utf8_chars (dropWhile continuation bs)"

section \<open>Expressions\<close>

datatype string_fn = FnUpper | FnLower

datatype string_expr =
    SCol nat
  | SLit string
  | SUpper string_expr
  | SLower string_expr
  | SSubstr string_expr i64 "i64 option"
  | SConcat "string_expr list"

datatype num_cmp_op = CmpEq | CmpNeq | CmpLt | CmpLe | CmpGt | CmpGe

datatype num_expr =
    NCol nat
  | NLit f64
  | NAdd num_expr num_expr
  | NSub num_expr num_expr
  | NMul num_expr num_expr
  | NDiv num_expr num_expr
  | NNeg num_expr
  | NAbs num_expr
  | NRound num_expr
  | NFloor num_expr
  | NCeil num_expr
  | NCoalesce "num_expr list"
  | NNullIf num_expr num_expr
  | NNowMicros i64

fun string_expr_columns :: "string_expr \<Rightarrow> nat list" where
  "string_expr_columns (SCol c) = [c]"
| "string_expr_columns (SLit _) = []"
| "string_expr_columns (SUpper e) = string_expr_columns e"
| "string_expr_columns (SLower e) = string_expr_columns e"
| "string_expr_columns (SSubstr e _ _) = string_expr_columns e"
| "string_expr_columns (SConcat es) = concat (map string_expr_columns es)"

fun num_expr_columns :: "num_expr \<Rightarrow> nat list" where
  "num_expr_columns (NCol c) = [c]"
| "num_expr_columns (NLit _) = []"
| "num_expr_columns (NAdd a b) = num_expr_columns a @ num_expr_columns b"
| "num_expr_columns (NSub a b) = num_expr_columns a @ num_expr_columns b"
| "num_expr_columns (NMul a b) = num_expr_columns a @ num_expr_columns b"
| "num_expr_columns (NDiv a b) = num_expr_columns a @ num_expr_columns b"
| "num_expr_columns (NNeg a) = num_expr_columns a"
| "num_expr_columns (NAbs a) = num_expr_columns a"
| "num_expr_columns (NRound a) = num_expr_columns a"
| "num_expr_columns (NFloor a) = num_expr_columns a"
| "num_expr_columns (NCeil a) = num_expr_columns a"
| "num_expr_columns (NCoalesce es) = concat (map num_expr_columns es)"
| "num_expr_columns (NNullIf a b) = num_expr_columns a @ num_expr_columns b"
| "num_expr_columns (NNowMicros _) = []"

text \<open>\<open>SUBSTR(s, start, len)\<close> counts characters from one and clamps.\<close>

definition substr :: "string \<Rightarrow> i64 \<Rightarrow> i64 option \<Rightarrow> string" where
  "substr s start len =
     (let chars = utf8_chars s; n = length chars;
          start_idx = (if sint start \<le> 0 then 0 else min (nat (sint start) - 1) n);
          end_idx = (case len of
                       Some l \<Rightarrow> if sint l \<le> 0 then start_idx else min (start_idx + nat (sint l)) n
                     | None \<Rightarrow> n)
      in concat (take (end_idx - start_idx) (drop start_idx chars)))"

fun eval_string :: "text_ops \<Rightarrow> column_store \<Rightarrow> nat \<Rightarrow> string_expr \<Rightarrow> string option option"
  and eval_concat :: "text_ops \<Rightarrow> column_store \<Rightarrow> nat \<Rightarrow> string_expr list \<Rightarrow> string \<Rightarrow> string option" where
  "eval_string tx s r (SCol c) = get_string s c r"
| "eval_string tx s r (SLit t) = Some (Some t)"
| "eval_string tx s r (SUpper e) = map_option (map_option (str_to_upper tx)) (eval_string tx s r e)"
| "eval_string tx s r (SLower e) = map_option (map_option (str_to_lower tx)) (eval_string tx s r e)"
| "eval_string tx s r (SSubstr e start len) =
     map_option (map_option (\<lambda>t. substr t start len)) (eval_string tx s r e)"
| "eval_string tx s r (SConcat es) = map_option Some (eval_concat tx s r es [])"
| "eval_concat tx s r [] out = Some out"
| "eval_concat tx s r (e # es) out =
     do {
       v \<leftarrow> eval_string tx s r e;
       eval_concat tx s r es (case v of Some t \<Rightarrow> out @ t | None \<Rightarrow> out)
     }"

fun cmp_apply :: "num_cmp_op \<Rightarrow> i64 \<Rightarrow> i64 \<Rightarrow> bool" where
  "cmp_apply CmpEq a b = (a = b)"
| "cmp_apply CmpNeq a b = (a \<noteq> b)"
| "cmp_apply CmpLt a b = (sint a < sint b)"
| "cmp_apply CmpLe a b = (sint a \<le> sint b)"
| "cmp_apply CmpGt a b = (sint a > sint b)"
| "cmp_apply CmpGe a b = (sint a \<ge> sint b)"

definition cmp_apply_f64 :: "num_cmp_op \<Rightarrow> f64 \<Rightarrow> f64 \<Rightarrow> bool" where
  "cmp_apply_f64 op a b =
     (if f64_is_nan a \<or> f64_is_nan b then False
      else case op of
             CmpEq \<Rightarrow> f64_eq a b
           | CmpNeq \<Rightarrow> \<not> f64_eq a b
           | CmpLt \<Rightarrow> f64_lt a b
           | CmpLe \<Rightarrow> f64_le a b
           | CmpGt \<Rightarrow> f64_lt b a
           | CmpGe \<Rightarrow> f64_le b a)"

fun eval_num :: "column_store \<Rightarrow> nat \<Rightarrow> num_expr \<Rightarrow> f64 option"
  and eval_coalesce :: "column_store \<Rightarrow> nat \<Rightarrow> num_expr list \<Rightarrow> f64 option" where
  "eval_num s r (NCol c) =
     map_option (\<lambda>v. case as_f64 v of Some x \<Rightarrow> x | None \<Rightarrow> f64_nan) (get_value s c r)"
| "eval_num s r (NLit v) = Some v"
| "eval_num s r (NAdd a b) = do { x \<leftarrow> eval_num s r a; y \<leftarrow> eval_num s r b; Some (f64_add x y) }"
| "eval_num s r (NSub a b) = do { x \<leftarrow> eval_num s r a; y \<leftarrow> eval_num s r b; Some (f64_sub x y) }"
| "eval_num s r (NMul a b) = do { x \<leftarrow> eval_num s r a; y \<leftarrow> eval_num s r b; Some (f64_mul x y) }"
| "eval_num s r (NDiv a b) =
     do {
       rhs \<leftarrow> eval_num s r b;
       if f64_eq rhs 0 then Some f64_nan
       else do { x \<leftarrow> eval_num s r a; Some (f64_div x rhs) }
     }"
| "eval_num s r (NNeg a) = map_option f64_minus (eval_num s r a)"
| "eval_num s r (NAbs a) = map_option f64_abs (eval_num s r a)"
| "eval_num s r (NRound a) = map_option f64_round (eval_num s r a)"
| "eval_num s r (NFloor a) = map_option f64_floor (eval_num s r a)"
| "eval_num s r (NCeil a) = map_option f64_ceil (eval_num s r a)"
| "eval_num s r (NCoalesce es) = eval_coalesce s r es"
| "eval_num s r (NNullIf a b) =
     do {
       av \<leftarrow> eval_num s r a;
       bv \<leftarrow> eval_num s r b;
       Some (if \<not> f64_is_nan av \<and> \<not> f64_is_nan bv \<and> f64_eq av bv then f64_nan else av)
     }"
| "eval_num s r (NNowMicros t) = Some (f64_of_int (sint t))"
| "eval_coalesce s r [] = Some f64_nan"
| "eval_coalesce s r (e # es) =
     do { v \<leftarrow> eval_num s r e; if \<not> f64_is_nan v then Some v else eval_coalesce s r es }"

section \<open>Predicates\<close>

datatype (plugins only: code size) compiled_predicate =
    EqDouble nat f64 | NeqDouble nat f64 | LtDouble nat f64 | LeDouble nat f64
  | GtDouble nat f64 | GeDouble nat f64 | BetweenDouble nat f64 f64
  | EqLong nat i64 | NeqLong nat i64 | LtLong nat i64 | LeLong nat i64
  | GtLong nat i64 | GeLong nat i64 | BetweenLong nat i64 i64
  | EqString nat string | NeqString nat string | InString nat "string set"
  | InLong nat "i64 set" | InDouble nat "u64 set" | InBool nat "bool set"
  | EqBool nat bool | NeqBool nat bool
  | EqTimestamp nat i64 | NeqTimestamp nat i64 | LtTimestamp nat i64 | LeTimestamp nat i64
  | GtTimestamp nat i64 | GeTimestamp nat i64 | BetweenTimestamp nat i64 i64
  | InTimestamp nat "i64 set"
  | PLike nat string | PRegex nat string
  | EqStringFn nat string_fn string | NeqStringFn nat string_fn string
  | LikeStringFn nat string_fn string
  | LengthCmp nat num_cmp_op i64
  | EqStringExpr string_expr string | NeqStringExpr string_expr string
  | LikeStringExpr string_expr string
  | IsNull nat | IsNotNull nat | IsBool nat bool bool
  | CompareNum num_expr num_cmp_op f64 | BetweenNum num_expr f64 f64
  | PAnd compiled_predicate compiled_predicate
  | POr compiled_predicate compiled_predicate
  | PNot compiled_predicate
  | PTrue

text \<open>The column of a leaf that reads one column.\<close>

fun leaf_column :: "compiled_predicate \<Rightarrow> nat option" where
  "leaf_column (EqDouble c _) = Some c"
| "leaf_column (NeqDouble c _) = Some c"
| "leaf_column (LtDouble c _) = Some c"
| "leaf_column (LeDouble c _) = Some c"
| "leaf_column (GtDouble c _) = Some c"
| "leaf_column (GeDouble c _) = Some c"
| "leaf_column (BetweenDouble c _ _) = Some c"
| "leaf_column (EqLong c _) = Some c"
| "leaf_column (NeqLong c _) = Some c"
| "leaf_column (LtLong c _) = Some c"
| "leaf_column (LeLong c _) = Some c"
| "leaf_column (GtLong c _) = Some c"
| "leaf_column (GeLong c _) = Some c"
| "leaf_column (BetweenLong c _ _) = Some c"
| "leaf_column (EqString c _) = Some c"
| "leaf_column (NeqString c _) = Some c"
| "leaf_column (InString c _) = Some c"
| "leaf_column (InLong c _) = Some c"
| "leaf_column (InDouble c _) = Some c"
| "leaf_column (InBool c _) = Some c"
| "leaf_column (EqBool c _) = Some c"
| "leaf_column (NeqBool c _) = Some c"
| "leaf_column (EqTimestamp c _) = Some c"
| "leaf_column (NeqTimestamp c _) = Some c"
| "leaf_column (LtTimestamp c _) = Some c"
| "leaf_column (LeTimestamp c _) = Some c"
| "leaf_column (GtTimestamp c _) = Some c"
| "leaf_column (GeTimestamp c _) = Some c"
| "leaf_column (BetweenTimestamp c _ _) = Some c"
| "leaf_column (InTimestamp c _) = Some c"
| "leaf_column (PLike c _) = Some c"
| "leaf_column (PRegex c _) = Some c"
| "leaf_column (EqStringFn c _ _) = Some c"
| "leaf_column (NeqStringFn c _ _) = Some c"
| "leaf_column (LikeStringFn c _ _) = Some c"
| "leaf_column (LengthCmp c _ _) = Some c"
| "leaf_column (IsNull c) = Some c"
| "leaf_column (IsNotNull c) = Some c"
| "leaf_column (IsBool c _ _) = Some c"
| "leaf_column _ = None"

fun collect_referenced :: "compiled_predicate \<Rightarrow> nat list" where
  "collect_referenced (EqStringExpr e _) = string_expr_columns e"
| "collect_referenced (NeqStringExpr e _) = string_expr_columns e"
| "collect_referenced (LikeStringExpr e _) = string_expr_columns e"
| "collect_referenced (CompareNum e _ _) = num_expr_columns e"
| "collect_referenced (BetweenNum e _ _) = num_expr_columns e"
| "collect_referenced (PAnd a b) = collect_referenced a @ collect_referenced b"
| "collect_referenced (POr a b) = collect_referenced a @ collect_referenced b"
| "collect_referenced (PNot p) = collect_referenced p"
| "collect_referenced PTrue = []"
| "collect_referenced p = (case leaf_column p of Some c \<Rightarrow> [c] | None \<Rightarrow> [])"

definition referenced_columns :: "compiled_predicate \<Rightarrow> nat list" where
  "referenced_columns p = remdups_adj (sort (collect_referenced p))"

section \<open>Evaluation in three-valued logic\<close>

datatype tri = TriFalse | TriUnknown | TriTrue

definition tri :: "bool \<Rightarrow> tri" where
  "tri b = (if b then TriTrue else TriFalse)"

definition column_is_null :: "column_store \<Rightarrow> nat \<Rightarrow> nat \<Rightarrow> bool option" where
  "column_is_null s c r =
     (case column_type_at (cs_schema s) c of
        None \<Rightarrow> None
      | Some TDouble \<Rightarrow> map_option f64_is_nan (get_double s c r)
      | Some TLong \<Rightarrow> map_option (\<lambda>v. v = NULL_LONG) (get_long s c r)
      | Some TInt \<Rightarrow> map_option (\<lambda>v. v = NULL_INT) (get_int s c r)
      | Some TString \<Rightarrow> map_option (\<lambda>v. v = None) (get_string s c r)
      | Some TBool \<Rightarrow> map_option (\<lambda>v. v = None) (get_bool s c r)
      | Some TTimestamp \<Rightarrow> map_option (\<lambda>v. v = NULL_TIMESTAMP) (get_timestamp s c r)
      | Some TBytes \<Rightarrow> map_option value_is_null (get_value s c r))"

fun string_fn_apply :: "text_ops \<Rightarrow> string_fn \<Rightarrow> string \<Rightarrow> string" where
  "string_fn_apply tx FnUpper s = str_to_upper tx s"
| "string_fn_apply tx FnLower s = str_to_lower tx s"

fun char_fn :: "text_ops \<Rightarrow> string_fn \<Rightarrow> string \<Rightarrow> string list" where
  "char_fn tx FnUpper c = char_to_upper tx c"
| "char_fn tx FnLower c = char_to_lower tx c"

definition string_fn_eq :: "text_ops \<Rightarrow> string_fn \<Rightarrow> string \<Rightarrow> string \<Rightarrow> bool" where
  "string_fn_eq tx f s lit =
     (if length s \<noteq> length lit then string_fn_apply tx f s = lit
      else list_all (\<lambda>(a, b). case char_fn tx f a of u # _ \<Rightarrow> u = b | [] \<Rightarrow> False)
             (zip (utf8_chars s) (utf8_chars lit)))"

text \<open>
  The test of a leaf whose operand is not null. The combinators are dispatched before this
  function is reached and have no test here.
\<close>

primrec leaf_bool :: "text_ops \<Rightarrow> column_store \<Rightarrow> nat \<Rightarrow> compiled_predicate \<Rightarrow> bool option" where
  "leaf_bool tx s r (EqDouble c x) = map_option (\<lambda>v. \<not> f64_is_nan v \<and> f64_eq v x) (get_double s c r)"
| "leaf_bool tx s r (NeqDouble c x) = map_option (\<lambda>v. f64_is_nan v \<or> \<not> f64_eq v x) (get_double s c r)"
| "leaf_bool tx s r (LtDouble c x) = map_option (\<lambda>v. \<not> f64_is_nan v \<and> f64_lt v x) (get_double s c r)"
| "leaf_bool tx s r (LeDouble c x) = map_option (\<lambda>v. \<not> f64_is_nan v \<and> f64_le v x) (get_double s c r)"
| "leaf_bool tx s r (GtDouble c x) = map_option (\<lambda>v. \<not> f64_is_nan v \<and> f64_lt x v) (get_double s c r)"
| "leaf_bool tx s r (GeDouble c x) = map_option (\<lambda>v. \<not> f64_is_nan v \<and> f64_le x v) (get_double s c r)"
| "leaf_bool tx s r (BetweenDouble c lo hi) =
     map_option (\<lambda>v. \<not> f64_is_nan v \<and> f64_le lo v \<and> f64_le v hi) (get_double s c r)"
| "leaf_bool tx s r (EqLong c x) = map_option (\<lambda>v. v \<noteq> NULL_LONG \<and> v = x) (get_long s c r)"
| "leaf_bool tx s r (NeqLong c x) = map_option (\<lambda>v. v = NULL_LONG \<or> v \<noteq> x) (get_long s c r)"
| "leaf_bool tx s r (LtLong c x) = map_option (\<lambda>v. v \<noteq> NULL_LONG \<and> sint v < sint x) (get_long s c r)"
| "leaf_bool tx s r (LeLong c x) = map_option (\<lambda>v. v \<noteq> NULL_LONG \<and> sint v \<le> sint x) (get_long s c r)"
| "leaf_bool tx s r (GtLong c x) = map_option (\<lambda>v. v \<noteq> NULL_LONG \<and> sint v > sint x) (get_long s c r)"
| "leaf_bool tx s r (GeLong c x) = map_option (\<lambda>v. v \<noteq> NULL_LONG \<and> sint v \<ge> sint x) (get_long s c r)"
| "leaf_bool tx s r (BetweenLong c lo hi) =
     map_option (\<lambda>v. v \<noteq> NULL_LONG \<and> sint lo \<le> sint v \<and> sint v \<le> sint hi) (get_long s c r)"
| "leaf_bool tx s r (EqString c x) = map_option (\<lambda>v. case v of Some t \<Rightarrow> t = x | None \<Rightarrow> False) (get_string s c r)"
| "leaf_bool tx s r (NeqString c x) = map_option (\<lambda>v. case v of Some t \<Rightarrow> t \<noteq> x | None \<Rightarrow> True) (get_string s c r)"
| "leaf_bool tx s r (InString c xs) = map_option (\<lambda>v. case v of Some t \<Rightarrow> t \<in> xs | None \<Rightarrow> False) (get_string s c r)"
| "leaf_bool tx s r (InLong c xs) = map_option (\<lambda>v. if v = NULL_LONG then False else v \<in> xs) (get_long s c r)"
| "leaf_bool tx s r (InDouble c xs) = map_option (\<lambda>v. if f64_is_nan v then False else v \<in> xs) (get_double s c r)"
| "leaf_bool tx s r (InBool c xs) = map_option (\<lambda>v. case v of Some b \<Rightarrow> b \<in> xs | None \<Rightarrow> False) (get_bool s c r)"
| "leaf_bool tx s r (EqBool c x) = map_option (\<lambda>v. case v of Some b \<Rightarrow> b = x | None \<Rightarrow> False) (get_bool s c r)"
| "leaf_bool tx s r (NeqBool c x) = map_option (\<lambda>v. case v of Some b \<Rightarrow> b \<noteq> x | None \<Rightarrow> False) (get_bool s c r)"
| "leaf_bool tx s r (EqTimestamp c x) = map_option (\<lambda>v. v \<noteq> NULL_TIMESTAMP \<and> v = x) (get_timestamp s c r)"
| "leaf_bool tx s r (NeqTimestamp c x) = map_option (\<lambda>v. v \<noteq> NULL_TIMESTAMP \<and> v \<noteq> x) (get_timestamp s c r)"
| "leaf_bool tx s r (LtTimestamp c x) = map_option (\<lambda>v. v \<noteq> NULL_TIMESTAMP \<and> sint v < sint x) (get_timestamp s c r)"
| "leaf_bool tx s r (LeTimestamp c x) = map_option (\<lambda>v. v \<noteq> NULL_TIMESTAMP \<and> sint v \<le> sint x) (get_timestamp s c r)"
| "leaf_bool tx s r (GtTimestamp c x) = map_option (\<lambda>v. v \<noteq> NULL_TIMESTAMP \<and> sint v > sint x) (get_timestamp s c r)"
| "leaf_bool tx s r (GeTimestamp c x) = map_option (\<lambda>v. v \<noteq> NULL_TIMESTAMP \<and> sint v \<ge> sint x) (get_timestamp s c r)"
| "leaf_bool tx s r (BetweenTimestamp c lo hi) =
     map_option (\<lambda>v. v \<noteq> NULL_TIMESTAMP \<and> sint lo \<le> sint v \<and> sint v \<le> sint hi) (get_timestamp s c r)"
| "leaf_bool tx s r (InTimestamp c xs) =
     map_option (\<lambda>v. if v = NULL_TIMESTAMP then False else v \<in> xs) (get_timestamp s c r)"
| "leaf_bool tx s r (PLike c re) =
     map_option (\<lambda>v. case v of Some t \<Rightarrow> is_match tx re t | None \<Rightarrow> False) (get_string s c r)"
| "leaf_bool tx s r (PRegex c re) =
     map_option (\<lambda>v. case v of Some t \<Rightarrow> is_match tx re t | None \<Rightarrow> False) (get_string s c r)"
| "leaf_bool tx s r (EqStringFn c f x) =
     map_option (\<lambda>v. case v of Some t \<Rightarrow> string_fn_eq tx f t x | None \<Rightarrow> False) (get_string s c r)"
| "leaf_bool tx s r (NeqStringFn c f x) =
     map_option (\<lambda>v. case v of Some t \<Rightarrow> \<not> string_fn_eq tx f t x | None \<Rightarrow> True) (get_string s c r)"
| "leaf_bool tx s r (LikeStringFn c f re) =
     map_option (\<lambda>v. case v of Some t \<Rightarrow> is_match tx re (string_fn_apply tx f t) | None \<Rightarrow> False) (get_string s c r)"
| "leaf_bool tx s r (LengthCmp c op x) =
     map_option (\<lambda>v. case v of Some t \<Rightarrow> cmp_apply op (word_of_nat (length (utf8_chars t))) x | None \<Rightarrow> False)
       (get_string s c r)"
| "leaf_bool tx s r (EqStringExpr e x) =
     map_option (\<lambda>v. case v of Some t \<Rightarrow> t = x | None \<Rightarrow> False) (eval_string tx s r e)"
| "leaf_bool tx s r (NeqStringExpr e x) =
     map_option (\<lambda>v. case v of Some t \<Rightarrow> t \<noteq> x | None \<Rightarrow> True) (eval_string tx s r e)"
| "leaf_bool tx s r (LikeStringExpr e re) =
     map_option (\<lambda>v. case v of Some t \<Rightarrow> is_match tx re t | None \<Rightarrow> False) (eval_string tx s r e)"
| "leaf_bool tx s r (IsNull c) = column_is_null s c r"
| "leaf_bool tx s r (IsNotNull c) = map_option Not (column_is_null s c r)"
| "leaf_bool tx s r (IsBool c want negated) =
     map_option (\<lambda>v. let target = (case v of Some b \<Rightarrow> b = want | None \<Rightarrow> False)
                     in if negated then \<not> target else target) (get_bool s c r)"
| "leaf_bool tx s r (CompareNum e op x) = map_option (\<lambda>v. cmp_apply_f64 op v x) (eval_num s r e)"
| "leaf_bool tx s r (BetweenNum e lo hi) =
     map_option (\<lambda>v. \<not> f64_is_nan v \<and> f64_le lo v \<and> f64_le v hi) (eval_num s r e)"
| "leaf_bool tx s r (PAnd a b) = None"
| "leaf_bool tx s r (POr a b) = None"
| "leaf_bool tx s r (PNot p) = None"
| "leaf_bool tx s r PTrue = Some True"

definition operand_is_null :: "text_ops \<Rightarrow> column_store \<Rightarrow> nat \<Rightarrow> compiled_predicate \<Rightarrow> bool option" where
  "operand_is_null tx s r p =
     (case p of
        EqStringExpr e _ \<Rightarrow> map_option (\<lambda>v. v = None) (eval_string tx s r e)
      | NeqStringExpr e _ \<Rightarrow> map_option (\<lambda>v. v = None) (eval_string tx s r e)
      | LikeStringExpr e _ \<Rightarrow> map_option (\<lambda>v. v = None) (eval_string tx s r e)
      | CompareNum e _ _ \<Rightarrow> map_option f64_is_nan (eval_num s r e)
      | BetweenNum e _ _ \<Rightarrow> map_option f64_is_nan (eval_num s r e)
      | IsNull _ \<Rightarrow> Some False
      | IsNotNull _ \<Rightarrow> Some False
      | IsBool _ _ _ \<Rightarrow> Some False
      | _ \<Rightarrow> (case leaf_column p of Some c \<Rightarrow> column_is_null s c r | None \<Rightarrow> Some False))"

definition leaf_3vl :: "text_ops \<Rightarrow> column_store \<Rightarrow> nat \<Rightarrow> compiled_predicate \<Rightarrow> tri option" where
  "leaf_3vl tx s r p =
     do {
       null \<leftarrow> operand_is_null tx s r p;
       if null then Some TriUnknown else map_option tri (leaf_bool tx s r p)
     }"

fun tri_and :: "tri \<Rightarrow> tri \<Rightarrow> tri" where
  "tri_and TriFalse _ = TriFalse"
| "tri_and _ TriFalse = TriFalse"
| "tri_and TriTrue TriTrue = TriTrue"
| "tri_and _ _ = TriUnknown"

fun tri_or :: "tri \<Rightarrow> tri \<Rightarrow> tri" where
  "tri_or TriTrue _ = TriTrue"
| "tri_or _ TriTrue = TriTrue"
| "tri_or TriFalse TriFalse = TriFalse"
| "tri_or _ _ = TriUnknown"

fun tri_not :: "tri \<Rightarrow> tri" where
  "tri_not TriTrue = TriFalse"
| "tri_not TriFalse = TriTrue"
| "tri_not TriUnknown = TriUnknown"

fun matches_3vl :: "text_ops \<Rightarrow> column_store \<Rightarrow> nat \<Rightarrow> compiled_predicate \<Rightarrow> tri option" where
  "matches_3vl tx s r (PAnd a b) =
     do { x \<leftarrow> matches_3vl tx s r a; y \<leftarrow> matches_3vl tx s r b; Some (tri_and x y) }"
| "matches_3vl tx s r (POr a b) =
     do { x \<leftarrow> matches_3vl tx s r a; y \<leftarrow> matches_3vl tx s r b; Some (tri_or x y) }"
| "matches_3vl tx s r (PNot p) = map_option tri_not (matches_3vl tx s r p)"
| "matches_3vl tx s r PTrue = Some TriTrue"
| "matches_3vl tx s r leaf = leaf_3vl tx s r leaf"

definition matches :: "text_ops \<Rightarrow> column_store \<Rightarrow> nat \<Rightarrow> compiled_predicate \<Rightarrow> bool option" where
  "matches tx s r p = map_option (\<lambda>t. t = TriTrue) (matches_3vl tx s r p)"

definition row_values :: "externals \<Rightarrow> schema \<Rightarrow> json_map \<Rightarrow> cq_value list" where
  "row_values ext sch m =
     map (\<lambda>col. case map_of m (col_name col) of Some v \<Rightarrow> from_json ext v (col_type col) | None \<Rightarrow> VNull) (columns sch)"

definition predicate_matches_json ::
  "externals \<Rightarrow> text_ops \<Rightarrow> compiled_predicate \<Rightarrow> schema \<Rightarrow> json_map \<Rightarrow> bool option" where
  "predicate_matches_json ext tx p sch m =
     do {
       (tmp, _) \<leftarrow> append_row ext (column_store_new sch 1) (row_values ext sch m);
       matches tx tmp 0 p
     }"

section \<open>LIKE patterns\<close>

definition regex_needs_escape :: "string \<Rightarrow> bool" where
  "regex_needs_escape c \<longleftrightarrow>
     c \<in> {''.'', ''+'', ''*'', ''?'', ''('', '')'', ''['', '']'', ''{'', ''}'', [CHR 0x5C], ''^'', ''$'', ''|''}"

definition regex_literal :: "string \<Rightarrow> string" where
  "regex_literal c = (if regex_needs_escape c then CHR 0x5C # c else c)"

fun like_body :: "string list \<Rightarrow> string" where
  "like_body [] = []"
| "like_body (c # cs) =
     (if c = [CHR 0x5C] then (case cs of next # rest \<Rightarrow> regex_literal next @ like_body rest | [] \<Rightarrow> [])
      else if c = ''%'' then ''.*'' @ like_body cs
      else if c = ''_'' then ''.'' @ like_body cs
      else regex_literal c @ like_body cs)"

definition like_to_regex :: "string \<Rightarrow> string" where
  "like_to_regex pattern = ''(?s)^'' @ like_body (utf8_chars pattern) @ ''$''"

end
