(* ===== verification/CQ_Predicate_Meaning.thy ===== *)
theory CQ_Predicate_Meaning
  imports CQ_Predicate
begin

text \<open>
  What the compiled predicates of \<open>crates/cq-core/src/predicate.rs\<close> mean: a reference semantics
  over the values of a row, the typing of predicates against the column types, and the proofs
  that evaluation on the store is that semantics, that it reads the referenced columns only, that
  null operands and LIKE behave as in SQL, and that filtering the JSON form of a row agrees with
  filtering the row.
\<close>

section \<open>The meaning of a predicate\<close>

text \<open>
  The reference semantics is over the values of a row. The three truth values are ordered
  false, unknown, true: conjunction is the minimum and disjunction the maximum. A leaf is
  unknown on a null value and otherwise compares the value with its literal in the order of
  the type.
\<close>

instantiation tri :: linorder
begin

fun tri_rank :: "tri \<Rightarrow> nat" where
  "tri_rank TriFalse = 0"
| "tri_rank TriUnknown = 1"
| "tri_rank TriTrue = 2"

definition less_eq_tri :: "tri \<Rightarrow> tri \<Rightarrow> bool" where "less_eq_tri a b \<longleftrightarrow> tri_rank a \<le> tri_rank b"
definition less_tri :: "tri \<Rightarrow> tri \<Rightarrow> bool" where "less_tri a b \<longleftrightarrow> tri_rank a < tri_rank b"

instance
proof
  fix x y z :: tri
  show "x < y \<longleftrightarrow> x \<le> y \<and> \<not> y \<le> x" by (auto simp: less_eq_tri_def less_tri_def)
  show "x \<le> x" by (simp add: less_eq_tri_def)
  show "x \<le> y \<Longrightarrow> y \<le> z \<Longrightarrow> x \<le> z" by (simp add: less_eq_tri_def)
  show "x \<le> y \<Longrightarrow> y \<le> x \<Longrightarrow> x = y" by (cases x; cases y) (simp_all add: less_eq_tri_def)
  show "x \<le> y \<or> y \<le> x" by (auto simp: less_eq_tri_def)
qed

end

lemma tri_and_min: "tri_and a b = min a b"
  by (cases a; cases b) (simp_all add: min_def less_eq_tri_def)

lemma tri_or_max: "tri_or a b = max a b"
  by (cases a; cases b) (simp_all add: max_def less_eq_tri_def)

fun value_lt :: "cq_value \<Rightarrow> cq_value \<Rightarrow> bool" where
  "value_lt (VDouble a) (VDouble b) = f64_lt a b"
| "value_lt (VLong a) (VLong b) = (sint a < sint b)"
| "value_lt (VTimestamp a) (VTimestamp b) = (sint a < sint b)"
| "value_lt _ _ = False"

fun value_cmp :: "num_cmp_op \<Rightarrow> cq_value \<Rightarrow> cq_value \<Rightarrow> bool" where
  "value_cmp CmpEq v w = value_eq v w"
| "value_cmp CmpNeq v w = (\<not> value_eq v w)"
| "value_cmp CmpLt v w = value_lt v w"
| "value_cmp CmpLe v w = (value_lt v w \<or> value_eq v w)"
| "value_cmp CmpGt v w = value_lt w v"
| "value_cmp CmpGe v w = (value_lt w v \<or> value_eq w v)"

definition value_between :: "cq_value \<Rightarrow> cq_value \<Rightarrow> cq_value \<Rightarrow> bool" where
  "value_between v lo hi \<longleftrightarrow> value_cmp CmpLe lo v \<and> value_cmp CmpLe v hi"

definition text_holds :: "(string \<Rightarrow> bool) \<Rightarrow> string option \<Rightarrow> bool" where
  "text_holds P t \<longleftrightarrow> (case t of Some x \<Rightarrow> P x | None \<Rightarrow> False)"

primrec leaf_holds :: "text_ops \<Rightarrow> cq_value \<Rightarrow> compiled_predicate \<Rightarrow> bool" where
  "leaf_holds tx v (EqDouble c x) = value_cmp CmpEq v (VDouble x)"
| "leaf_holds tx v (NeqDouble c x) = value_cmp CmpNeq v (VDouble x)"
| "leaf_holds tx v (LtDouble c x) = value_cmp CmpLt v (VDouble x)"
| "leaf_holds tx v (LeDouble c x) = value_cmp CmpLe v (VDouble x)"
| "leaf_holds tx v (GtDouble c x) = value_cmp CmpGt v (VDouble x)"
| "leaf_holds tx v (GeDouble c x) = value_cmp CmpGe v (VDouble x)"
| "leaf_holds tx v (BetweenDouble c lo hi) = value_between v (VDouble lo) (VDouble hi)"
| "leaf_holds tx v (EqLong c x) = value_cmp CmpEq v (VLong x)"
| "leaf_holds tx v (NeqLong c x) = value_cmp CmpNeq v (VLong x)"
| "leaf_holds tx v (LtLong c x) = value_cmp CmpLt v (VLong x)"
| "leaf_holds tx v (LeLong c x) = value_cmp CmpLe v (VLong x)"
| "leaf_holds tx v (GtLong c x) = value_cmp CmpGt v (VLong x)"
| "leaf_holds tx v (GeLong c x) = value_cmp CmpGe v (VLong x)"
| "leaf_holds tx v (BetweenLong c lo hi) = value_between v (VLong lo) (VLong hi)"
| "leaf_holds tx v (EqString c x) = value_cmp CmpEq v (VString (Some x))"
| "leaf_holds tx v (NeqString c x) = value_cmp CmpNeq v (VString (Some x))"
| "leaf_holds tx v (InString c xs) = (v \<in> (\<lambda>x. VString (Some x)) ` xs)"
| "leaf_holds tx v (InLong c xs) = (v \<in> VLong ` xs)"
| "leaf_holds tx v (InDouble c xs) = (v \<in> VDouble ` xs)"
| "leaf_holds tx v (InBool c xs) = (v \<in> (\<lambda>x. VBool (Some x)) ` xs)"
| "leaf_holds tx v (EqBool c x) = value_cmp CmpEq v (VBool (Some x))"
| "leaf_holds tx v (NeqBool c x) = value_cmp CmpNeq v (VBool (Some x))"
| "leaf_holds tx v (EqTimestamp c x) = value_cmp CmpEq v (VTimestamp x)"
| "leaf_holds tx v (NeqTimestamp c x) = value_cmp CmpNeq v (VTimestamp x)"
| "leaf_holds tx v (LtTimestamp c x) = value_cmp CmpLt v (VTimestamp x)"
| "leaf_holds tx v (LeTimestamp c x) = value_cmp CmpLe v (VTimestamp x)"
| "leaf_holds tx v (GtTimestamp c x) = value_cmp CmpGt v (VTimestamp x)"
| "leaf_holds tx v (GeTimestamp c x) = value_cmp CmpGe v (VTimestamp x)"
| "leaf_holds tx v (BetweenTimestamp c lo hi) = value_between v (VTimestamp lo) (VTimestamp hi)"
| "leaf_holds tx v (InTimestamp c xs) = (v \<in> VTimestamp ` xs)"
| "leaf_holds tx v (PLike c re) = text_holds (is_match tx re) (as_str v)"
| "leaf_holds tx v (PRegex c re) = text_holds (is_match tx re) (as_str v)"
| "leaf_holds tx v (EqStringFn c f x) = text_holds (\<lambda>t. string_fn_eq tx f t x) (as_str v)"
| "leaf_holds tx v (NeqStringFn c f x) = text_holds (\<lambda>t. \<not> string_fn_eq tx f t x) (as_str v)"
| "leaf_holds tx v (LikeStringFn c f re) = text_holds (\<lambda>t. is_match tx re (string_fn_apply tx f t)) (as_str v)"
| "leaf_holds tx v (LengthCmp c op x) =
     text_holds (\<lambda>t. cmp_apply op (word_of_nat (length (utf8_chars t))) x) (as_str v)"
| "leaf_holds tx v (EqStringExpr e x) = False"
| "leaf_holds tx v (NeqStringExpr e x) = False"
| "leaf_holds tx v (LikeStringExpr e re) = False"
| "leaf_holds tx v (IsNull c) = False"
| "leaf_holds tx v (IsNotNull c) = False"
| "leaf_holds tx v (IsBool c want negated) = False"
| "leaf_holds tx v (CompareNum e op x) = False"
| "leaf_holds tx v (BetweenNum e lo hi) = False"
| "leaf_holds tx v (PAnd a b) = False"
| "leaf_holds tx v (POr a b) = False"
| "leaf_holds tx v (PNot p) = False"
| "leaf_holds tx v PTrue = False"

fun string_meaning :: "text_ops \<Rightarrow> cq_value list \<Rightarrow> string_expr \<Rightarrow> string option" where
  "string_meaning tx vs (SCol c) = as_str (vs ! c)"
| "string_meaning tx vs (SLit t) = Some t"
| "string_meaning tx vs (SUpper e) = map_option (str_to_upper tx) (string_meaning tx vs e)"
| "string_meaning tx vs (SLower e) = map_option (str_to_lower tx) (string_meaning tx vs e)"
| "string_meaning tx vs (SSubstr e start len) = map_option (\<lambda>t. substr t start len) (string_meaning tx vs e)"
| "string_meaning tx vs (SConcat es) =
     Some (concat (map (\<lambda>e. case string_meaning tx vs e of Some t \<Rightarrow> t | None \<Rightarrow> []) es))"

fun num_meaning :: "cq_value list \<Rightarrow> num_expr \<Rightarrow> f64" where
  "num_meaning vs (NCol c) = (case as_f64 (vs ! c) of Some x \<Rightarrow> x | None \<Rightarrow> f64_nan)"
| "num_meaning vs (NLit v) = v"
| "num_meaning vs (NAdd a b) = f64_add (num_meaning vs a) (num_meaning vs b)"
| "num_meaning vs (NSub a b) = f64_sub (num_meaning vs a) (num_meaning vs b)"
| "num_meaning vs (NMul a b) = f64_mul (num_meaning vs a) (num_meaning vs b)"
| "num_meaning vs (NDiv a b) =
     (if f64_eq (num_meaning vs b) 0 then f64_nan else f64_div (num_meaning vs a) (num_meaning vs b))"
| "num_meaning vs (NNeg a) = f64_minus (num_meaning vs a)"
| "num_meaning vs (NAbs a) = f64_abs (num_meaning vs a)"
| "num_meaning vs (NRound a) = f64_round (num_meaning vs a)"
| "num_meaning vs (NFloor a) = f64_floor (num_meaning vs a)"
| "num_meaning vs (NCeil a) = f64_ceil (num_meaning vs a)"
| "num_meaning vs (NCoalesce es) =
     (case filter (\<lambda>x. \<not> f64_is_nan x) (map (num_meaning vs) es) of x # _ \<Rightarrow> x | [] \<Rightarrow> f64_nan)"
| "num_meaning vs (NNullIf a b) =
     (if f64_eq (num_meaning vs a) (num_meaning vs b) then f64_nan else num_meaning vs a)"
| "num_meaning vs (NNowMicros t) = f64_of_int (sint t)"

definition unless_null :: "bool \<Rightarrow> bool \<Rightarrow> tri" where
  "unless_null null b = (if null then TriUnknown else tri b)"

fun row_3vl :: "text_ops \<Rightarrow> cq_value list \<Rightarrow> compiled_predicate \<Rightarrow> tri" where
  "row_3vl tx vs (PAnd a b) = min (row_3vl tx vs a) (row_3vl tx vs b)"
| "row_3vl tx vs (POr a b) = max (row_3vl tx vs a) (row_3vl tx vs b)"
| "row_3vl tx vs (PNot p) = tri_not (row_3vl tx vs p)"
| "row_3vl tx vs PTrue = TriTrue"
| "row_3vl tx vs (IsNull c) = tri (value_is_null (vs ! c))"
| "row_3vl tx vs (IsNotNull c) = tri (\<not> value_is_null (vs ! c))"
| "row_3vl tx vs (IsBool c want negated) = tri (if negated then as_bool (vs ! c) \<noteq> Some want else as_bool (vs ! c) = Some want)"
| "row_3vl tx vs (EqStringExpr e x) =
     unless_null (string_meaning tx vs e = None) (text_holds (\<lambda>t. t = x) (string_meaning tx vs e))"
| "row_3vl tx vs (NeqStringExpr e x) =
     unless_null (string_meaning tx vs e = None) (text_holds (\<lambda>t. t \<noteq> x) (string_meaning tx vs e))"
| "row_3vl tx vs (LikeStringExpr e re) =
     unless_null (string_meaning tx vs e = None) (text_holds (is_match tx re) (string_meaning tx vs e))"
| "row_3vl tx vs (CompareNum e op x) =
     unless_null (f64_is_nan (num_meaning vs e)) (cmp_apply_f64 op (num_meaning vs e) x)"
| "row_3vl tx vs (BetweenNum e lo hi) =
     unless_null (f64_is_nan (num_meaning vs e)) (f64_le lo (num_meaning vs e) \<and> f64_le (num_meaning vs e) hi)"
| "row_3vl tx vs p =
     (case leaf_column p of
        Some c \<Rightarrow> unless_null (value_is_null (vs ! c)) (leaf_holds tx (vs ! c) p)
      | None \<Rightarrow> TriUnknown)"

section \<open>Types of predicates\<close>

text \<open>The type whose array a leaf reads; the null tests go by the column's own type.\<close>

definition leaf_kind :: "compiled_predicate \<Rightarrow> column_type option" where
  "leaf_kind p =
     (case p of
        EqDouble _ _ \<Rightarrow> Some TDouble | NeqDouble _ _ \<Rightarrow> Some TDouble | LtDouble _ _ \<Rightarrow> Some TDouble
      | LeDouble _ _ \<Rightarrow> Some TDouble | GtDouble _ _ \<Rightarrow> Some TDouble | GeDouble _ _ \<Rightarrow> Some TDouble
      | BetweenDouble _ _ _ \<Rightarrow> Some TDouble | InDouble _ _ \<Rightarrow> Some TDouble
      | EqLong _ _ \<Rightarrow> Some TLong | NeqLong _ _ \<Rightarrow> Some TLong | LtLong _ _ \<Rightarrow> Some TLong
      | LeLong _ _ \<Rightarrow> Some TLong | GtLong _ _ \<Rightarrow> Some TLong | GeLong _ _ \<Rightarrow> Some TLong
      | BetweenLong _ _ _ \<Rightarrow> Some TLong | InLong _ _ \<Rightarrow> Some TLong
      | EqBool _ _ \<Rightarrow> Some TBool | NeqBool _ _ \<Rightarrow> Some TBool | InBool _ _ \<Rightarrow> Some TBool | IsBool _ _ _ \<Rightarrow> Some TBool
      | EqTimestamp _ _ \<Rightarrow> Some TTimestamp | NeqTimestamp _ _ \<Rightarrow> Some TTimestamp | LtTimestamp _ _ \<Rightarrow> Some TTimestamp
      | LeTimestamp _ _ \<Rightarrow> Some TTimestamp | GtTimestamp _ _ \<Rightarrow> Some TTimestamp | GeTimestamp _ _ \<Rightarrow> Some TTimestamp
      | BetweenTimestamp _ _ _ \<Rightarrow> Some TTimestamp | InTimestamp _ _ \<Rightarrow> Some TTimestamp
      | IsNull _ \<Rightarrow> None | IsNotNull _ \<Rightarrow> None
      | _ \<Rightarrow> Some TString)"

definition columns_typed :: "column_type list \<Rightarrow> string_expr \<Rightarrow> bool" where
  "columns_typed ks e \<longleftrightarrow> (\<forall>c \<in> set (string_expr_columns e). c < length ks \<and> ks ! c = TString)"

fun pred_typed :: "column_type list \<Rightarrow> compiled_predicate \<Rightarrow> bool" where
  "pred_typed ks (PAnd a b) = (pred_typed ks a \<and> pred_typed ks b)"
| "pred_typed ks (POr a b) = (pred_typed ks a \<and> pred_typed ks b)"
| "pred_typed ks (PNot p) = pred_typed ks p"
| "pred_typed ks PTrue = True"
| "pred_typed ks (EqStringExpr e _) = columns_typed ks e"
| "pred_typed ks (NeqStringExpr e _) = columns_typed ks e"
| "pred_typed ks (LikeStringExpr e _) = columns_typed ks e"
| "pred_typed ks (CompareNum e _ _) = (\<forall>c \<in> set (num_expr_columns e). c < length ks)"
| "pred_typed ks (BetweenNum e _ _) = (\<forall>c \<in> set (num_expr_columns e). c < length ks)"
| "pred_typed ks p =
     (case leaf_column p of
        Some c \<Rightarrow> c < length ks \<and> (case leaf_kind p of Some k \<Rightarrow> ks ! c = k | None \<Rightarrow> True)
      | None \<Rightarrow> False)"

section \<open>Evaluation is the meaning\<close>

lemma typed_read:
  assumes "store_ok s" "c < length (mappings s)" "r < capacity s"
  shows "row_kinds s ! c = TDouble \<Longrightarrow> \<exists>x. get_double s c r = Some x \<and> row_of s r ! c = VDouble x"
    and "row_kinds s ! c = TLong \<Longrightarrow> \<exists>x. get_long s c r = Some x \<and> row_of s r ! c = VLong x"
    and "row_kinds s ! c = TInt \<Longrightarrow> \<exists>x. get_int s c r = Some x \<and> row_of s r ! c = VInt x"
    and "row_kinds s ! c = TString \<Longrightarrow> \<exists>x. get_string s c r = Some x \<and> row_of s r ! c = VString x"
    and "row_kinds s ! c = TBool \<Longrightarrow> \<exists>x. get_bool s c r = Some x \<and> row_of s r ! c = VBool x"
    and "row_kinds s ! c = TTimestamp \<Longrightarrow> \<exists>x. get_timestamp s c r = Some x \<and> row_of s r ! c = VTimestamp x"
  using store_ok_cell [OF assms] get_typed_get_value [OF assms(2), of r] assms(2)
  by (auto simp: row_kinds_nth)

lemma schema_kind:
  "store_ok s \<Longrightarrow> c < length (mappings s) \<Longrightarrow> column_type_at (cs_schema s) c = Some (row_kinds s ! c)"
  using store_ok_shape(1) [of s]
  by (auto simp: store_layout_def column_type_at_def column_at_def row_kinds_def compute_mappings_nth)

lemma column_is_null_row:
  assumes "store_ok s" "c < length (mappings s)" "r < capacity s"
  shows "column_is_null s c r = Some (value_is_null (row_of s r ! c))"
proof (cases "row_kinds s ! c")
  case TBytes
  then show ?thesis using assms by (simp add: column_is_null_def schema_kind store_ok_cell)
qed (use typed_read [OF assms] in \<open>auto simp: column_is_null_def schema_kind [OF assms(1,2)]\<close>)

lemma eval_concat_row:
  assumes "\<And>e. e \<in> set es \<Longrightarrow> eval_string tx s r e = Some (M e)"
  shows "eval_concat tx s r es out = Some (out @ concat (map (\<lambda>e. case M e of Some t \<Rightarrow> t | None \<Rightarrow> []) es))"
  using assms by (induction es arbitrary: out) (auto split: option.splits)

lemma eval_string_row:
  assumes "store_ok s" "r < capacity s" "columns_typed (row_kinds s) e"
  shows "eval_string tx s r e = Some (string_meaning tx (row_of s r) e)"
  using assms(3)
proof (induction e)
  case (SCol c)
  then have c: "c < length (mappings s)" "row_kinds s ! c = TString" by (auto simp: columns_typed_def)
  with typed_read(4) [OF assms(1) c(1) assms(2) c(2)] show ?case by auto
next
  case (SConcat es)
  then have "eval_string tx s r e = Some (string_meaning tx (row_of s r) e)" if "e \<in> set es" for e
    using that by (auto simp: columns_typed_def)
  from eval_concat_row [OF this] show ?case by simp
qed (auto simp: columns_typed_def)

lemma eval_coalesce_row:
  assumes "\<And>e. e \<in> set es \<Longrightarrow> eval_num s r e = Some (M e)"
  shows "eval_coalesce s r es =
    Some (case filter (\<lambda>x. \<not> f64_is_nan x) (map M es) of x # _ \<Rightarrow> x | [] \<Rightarrow> f64_nan)"
  using assms by (induction es) auto

lemma eval_num_row:
  assumes "store_ok s" "r < capacity s" "\<forall>c \<in> set (num_expr_columns e). c < length (mappings s)"
  shows "eval_num s r e = Some (num_meaning (row_of s r) e)"
  using assms(3)
proof (induction e)
  case (NCol c)
  then show ?case using assms by (simp add: store_ok_cell)
next
  case (NCoalesce es)
  then have "eval_num s r e = Some (num_meaning (row_of s r) e)" if "e \<in> set es" for e
    using that by auto
  from eval_coalesce_row [OF this] show ?case by simp
qed (auto simp: f64_eq_def)

lemma value_cmp_keys:
  "value_cmp CmpLe (VDouble a) (VDouble b) = f64_le a b" "value_cmp CmpGe (VDouble a) (VDouble b) = f64_le b a"
  "value_cmp CmpLe (VLong i) (VLong j) = (sint i \<le> sint j)" "value_cmp CmpGe (VLong i) (VLong j) = (sint j \<le> sint i)"
  "value_cmp CmpLe (VTimestamp i) (VTimestamp j) = (sint i \<le> sint j)" "value_cmp CmpGe (VTimestamp i) (VTimestamp j) = (sint j \<le> sint i)"
  by (auto simp: f64_lt_def f64_le_def f64_eq_def order_le_less intro: signed_word_eqI)

lemma leaf_3vl_row:
  assumes "store_ok s" "r < capacity s" "leaf_column p = Some c" "pred_typed (row_kinds s) p"
  shows "leaf_3vl tx s r p = Some (row_3vl tx (row_of s r) p)"
proof -
  have c: "c < length (mappings s)" and k: "leaf_kind p = None \<or> leaf_kind p = Some (row_kinds s ! c)"
    using assms(3,4) by (cases p; simp add: leaf_kind_def)+
  note null = column_is_null_row [OF assms(1) c assms(2)]
  note defs = leaf_3vl_def operand_is_null_def unless_null_def value_between_def value_cmp_keys text_holds_def null
  consider "leaf_kind p = None" | "leaf_kind p = Some TDouble" "row_kinds s ! c = TDouble" | "leaf_kind p = Some TLong" "row_kinds s ! c = TLong"
    | "leaf_kind p = Some TString" "row_kinds s ! c = TString" | "leaf_kind p = Some TBool" "row_kinds s ! c = TBool"
    | "leaf_kind p = Some TTimestamp" "row_kinds s ! c = TTimestamp"
    using k by (cases p) (simp_all add: leaf_kind_def)
  then show ?thesis
  proof cases
    case 1
    then show ?thesis using assms(3) by (cases p) (simp_all add: defs leaf_kind_def)
  next
    case 2
    obtain x where "get_double s c r = Some x" "row_of s r ! c = VDouble x"
      using typed_read(1) [OF assms(1) c assms(2) 2(2)] by blast
    then show ?thesis using assms(3) 2(1) by (cases p) (simp_all add: defs leaf_kind_def image_iff del: value_cmp.simps(4,6))
  next
    case 3
    obtain x where "get_long s c r = Some x" "row_of s r ! c = VLong x"
      using typed_read(2) [OF assms(1) c assms(2) 3(2)] by blast
    then show ?thesis using assms(3) 3(1) by (cases p) (simp_all add: defs leaf_kind_def image_iff del: value_cmp.simps(4,6))
  next
    case 4
    obtain x where "get_string s c r = Some x" "row_of s r ! c = VString x"
      using typed_read(4) [OF assms(1) c assms(2) 4(2)] by blast
    then show ?thesis using assms(3) 4(1) by (cases x; cases p) (simp_all add: defs leaf_kind_def image_iff del: value_cmp.simps(4,6))
  next
    case 5
    obtain x where "get_bool s c r = Some x" "row_of s r ! c = VBool x"
      using typed_read(5) [OF assms(1) c assms(2) 5(2)] by blast
    then show ?thesis using assms(3) 5(1) by (cases x; cases p) (simp_all add: defs leaf_kind_def image_iff del: value_cmp.simps(4,6))
  next
    case 6
    obtain x where "get_timestamp s c r = Some x" "row_of s r ! c = VTimestamp x"
      using typed_read(6) [OF assms(1) c assms(2) 6(2)] by blast
    then show ?thesis using assms(3) 6(1) by (cases p) (simp_all add: defs leaf_kind_def image_iff del: value_cmp.simps(4,6))
  qed
qed

lemma matches_3vl_row:
  assumes "store_ok s" "r < capacity s" "pred_typed (row_kinds s) p"
  shows "matches_3vl tx s r p = Some (row_3vl tx (row_of s r) p)"
  using assms(3)
proof (induction p)
  case (EqStringExpr e x)
  then show ?case using eval_string_row [OF assms(1,2), of e tx]
    by (auto simp: leaf_3vl_def operand_is_null_def unless_null_def text_holds_def split: option.splits)
next
  case (NeqStringExpr e x)
  then show ?case using eval_string_row [OF assms(1,2), of e tx]
    by (auto simp: leaf_3vl_def operand_is_null_def unless_null_def text_holds_def split: option.splits)
next
  case (LikeStringExpr e x)
  then show ?case using eval_string_row [OF assms(1,2), of e tx]
    by (auto simp: leaf_3vl_def operand_is_null_def unless_null_def text_holds_def split: option.splits)
next
  case (CompareNum e op x)
  then show ?case using eval_num_row [OF assms(1,2), of e]
    by (simp add: leaf_3vl_def operand_is_null_def unless_null_def)
next
  case (BetweenNum e lo hi)
  then show ?case using eval_num_row [OF assms(1,2), of e]
    by (simp add: leaf_3vl_def operand_is_null_def unless_null_def)
qed (simp_all add: leaf_3vl_row [OF assms(1,2)] tri_and_min tri_or_max)

section \<open>Only the referenced columns matter\<close>

text \<open>
  Two values are the same to a predicate when they are equal or both a NaN: the payload of a
  NaN is never observed.
\<close>

definition same_value :: "cq_value \<Rightarrow> cq_value \<Rightarrow> bool" where
  "same_value v w \<longleftrightarrow> v = w \<or> (\<exists>x y. v = VDouble x \<and> w = VDouble y \<and> f64_is_nan x \<and> f64_is_nan y)"

definition agree :: "nat set \<Rightarrow> cq_value list \<Rightarrow> cq_value list \<Rightarrow> bool" where
  "agree C vs ws \<longleftrightarrow> (\<forall>c \<in> C. same_value (vs ! c) (ws ! c))"

lemma same_value_observed:
  assumes "same_value v w"
  shows "as_str v = as_str w" "as_f64 v = as_f64 w" "as_bool v = as_bool w" "value_is_null v = value_is_null w"
    and "\<not> value_is_null v \<Longrightarrow> v = w"
  using assms by (auto simp: same_value_def)

lemma string_meaning_agree:
  "agree (set (string_expr_columns e)) vs ws \<Longrightarrow> string_meaning tx vs e = string_meaning tx ws e"
proof (induction e)
  case (SConcat es)
  then have "string_meaning tx vs e = string_meaning tx ws e" if "e \<in> set es" for e
    using that by (auto simp: agree_def)
  then show ?case by (auto intro!: arg_cong [where f = concat] cong: option.case_cong)
qed (auto simp: agree_def dest: same_value_observed)

lemma num_meaning_agree:
  "agree (set (num_expr_columns e)) vs ws \<Longrightarrow> num_meaning vs e = num_meaning ws e"
proof (induction e)
  case (NCoalesce es)
  then have "map (num_meaning vs) es = map (num_meaning ws) es" by (auto simp: agree_def)
  then show ?case by (simp only: num_meaning.simps)
qed (auto simp: agree_def dest: same_value_observed)

lemma row_3vl_agree:
  "agree (set (collect_referenced p)) vs ws \<Longrightarrow> row_3vl tx vs p = row_3vl tx ws p"
proof (induction p)
  case (EqStringExpr e x)
  then show ?case using string_meaning_agree [of e vs ws tx] by simp
next
  case (NeqStringExpr e x)
  then show ?case using string_meaning_agree [of e vs ws tx] by simp
next
  case (LikeStringExpr e x)
  then show ?case using string_meaning_agree [of e vs ws tx] by simp
next
  case (CompareNum e op x)
  then show ?case using num_meaning_agree [of e vs ws] by simp
next
  case (BetweenNum e lo hi)
  then show ?case using num_meaning_agree [of e vs ws] by simp
next
  case (IsBool c want negated)
  then show ?case using same_value_observed(3) [of "vs ! c" "ws ! c"] by (simp add: agree_def)
qed (simp_all add: agree_def same_value_observed(4) unless_null_def, (metis same_value_observed(4,5))+)

lemma set_referenced_columns [simp]: "set (referenced_columns p) = set (collect_referenced p)"
  by (simp add: referenced_columns_def)

section \<open>Rows read back from JSON\<close>

lemma append_first_row:
  assumes "0 < cap"
  shows "\<exists>t. append_row ext (column_store_new sch cap) vs = Some (t, 0) \<and> store_ok t \<and>
     row_kinds t = map col_type (columns sch) \<and> row_count t = 1 \<and> cs_schema t = sch \<and>
     row_of t 0 = fresh_values ext (map col_type (columns sch)) vs"
proof -
  note new = column_store_new_ok [OF assms, of sch]
  have sch: "cs_schema (column_store_new sch cap) = sch" by (simp add: column_store_new_def Let_def)
  obtain t where t: "append_row ext (column_store_new sch cap) vs = Some (t, 0)" "store_ok t"
      "row_kinds t = map col_type (columns sch)" "cs_schema t = sch"
      "store_rows t = [fresh_values ext (map col_type (columns sch)) vs]"
    using append_row_ok [OF new(1), of ext vs] new(2,3) sch
    by (metis append_Nil length_0_conv length_store_rows)
  have n: "row_count t = 1" using t(5) length_store_rows [of t] by simp
  have "row_of t 0 = fresh_values ext (map col_type (columns sch)) vs"
    using t(5) store_rows_nth [of 0 t] n by simp
  then show ?thesis using t n by blast
qed

lemma row_values_stored:
  assumes "0 < cap"
  shows "\<exists>t. append_row ext (column_store_new sch cap) (row_values ext sch m) = Some (t, 0) \<and> store_ok t \<and>
     row_kinds t = map col_type (columns sch) \<and> row_count t = 1 \<and> cs_schema t = sch \<and>
     row_of t 0 = map (\<lambda>col. case map_of m (col_name col) of Some v \<Rightarrow> from_json ext v (col_type col)
                                | None \<Rightarrow> null_value (col_type col)) (columns sch)"
proof -
  have "fresh_values ext (map col_type (columns sch)) (row_values ext sch m) =
      map (\<lambda>col. case map_of m (col_name col) of Some v \<Rightarrow> from_json ext v (col_type col)
                                | None \<Rightarrow> null_value (col_type col)) (columns sch)"
    by (rule nth_equalityI)
      (auto simp: fresh_values_def overlay_def row_values_def cell_after_def stored_as_own_kind typed_from_json split: option.splits)
  then show ?thesis using append_first_row [OF assms, of ext sch "row_values ext sch m"] by simp
qed

lemma predicate_matches_json_row:
  assumes "pred_typed (map col_type (columns sch)) p"
  shows "predicate_matches_json ext tx p sch m =
     Some (row_3vl tx (map (\<lambda>col. case map_of m (col_name col) of Some v \<Rightarrow> from_json ext v (col_type col)
                                | None \<Rightarrow> null_value (col_type col)) (columns sch)) p = TriTrue)"
proof -
  obtain t where t: "append_row ext (column_store_new sch 1) (row_values ext sch m) = Some (t, 0)" "store_ok t"
      "row_kinds t = map col_type (columns sch)" "row_count t = 1"
      "row_of t 0 = map (\<lambda>col. case map_of m (col_name col) of Some v \<Rightarrow> from_json ext v (col_type col)
                                | None \<Rightarrow> null_value (col_type col)) (columns sch)"
    using row_values_stored [of 1 ext sch m] by auto
  then have "0 < capacity t" using store_ok_shape(3) [OF t(2)] by simp
  then show ?thesis
    using matches_3vl_row [OF t(2), of 0 p tx] assms t by (simp add: predicate_matches_json_def matches_def)
qed

lemma typed_columns: "pred_typed ks p \<Longrightarrow> \<forall>c \<in> set (collect_referenced p). c < length ks"
  by (induction p) (auto simp: columns_typed_def)

lemma get_row_map_total:
  assumes "store_ok s" "r < capacity s" "\<forall>i < length (columns (cs_schema s)). col_index (columns (cs_schema s) ! i) = i"
  shows "\<exists>m. get_row_map ext s r = Some m"
proof -
  have "map col_index (columns (cs_schema s)) = [0..<length (columns (cs_schema s))]"
    by (rule nth_equalityI) (use assms(3) in simp_all)
  then show ?thesis unfolding get_row_map_def using insert_fields_map [OF assms(1,2)] by simp
qed

lemma typed_null_same: "typed k v \<Longrightarrow> value_is_null v \<Longrightarrow> same_value v (null_value k)"
  by (cases k; cases v) (auto simp: same_value_def)

section \<open>Null operands of arithmetic\<close>

fun arithmetic :: "num_expr \<Rightarrow> bool" where
  "arithmetic (NAdd a b) = (arithmetic a \<and> arithmetic b)"
| "arithmetic (NSub a b) = (arithmetic a \<and> arithmetic b)"
| "arithmetic (NMul a b) = (arithmetic a \<and> arithmetic b)"
| "arithmetic (NDiv a b) = (arithmetic a \<and> arithmetic b)"
| "arithmetic (NNeg a) = arithmetic a"
| "arithmetic (NAbs a) = arithmetic a"
| "arithmetic (NRound a) = arithmetic a"
| "arithmetic (NFloor a) = arithmetic a"
| "arithmetic (NCeil a) = arithmetic a"
| "arithmetic (NCoalesce es) = False"
| "arithmetic (NNullIf a b) = False"
| "arithmetic e = True"

lemma null_operand_nan:
  "arithmetic e \<Longrightarrow> c \<in> set (num_expr_columns e) \<Longrightarrow> as_f64 (vs ! c) = None \<Longrightarrow> f64_is_nan (num_meaning vs e)"
  by (induction e) (auto simp: f64_nan_simps f64_round_def f64_floor_def f64_ceil_def)

section \<open>LIKE as a pattern over characters\<close>

datatype like_token = LAny | LSeq | LChar string

fun like_tokens :: "string list \<Rightarrow> like_token list" where
  "like_tokens [] = []"
| "like_tokens (c # cs) =
     (if c = [CHR 0x5C] then (case cs of next # rest \<Rightarrow> LChar next # like_tokens rest | [] \<Rightarrow> [])
      else (if c = ''%'' then LSeq else if c = ''_'' then LAny else LChar c) # like_tokens cs)"

fun like_match :: "like_token list \<Rightarrow> string list \<Rightarrow> bool" where
  "like_match [] cs = (cs = [])"
| "like_match (LChar c # ts) cs = (case cs of d # ds \<Rightarrow> c = d \<and> like_match ts ds | [] \<Rightarrow> False)"
| "like_match (LAny # ts) cs = (case cs of d # ds \<Rightarrow> like_match ts ds | [] \<Rightarrow> False)"
| "like_match (LSeq # ts) cs = (like_match ts cs \<or> (case cs of d # ds \<Rightarrow> like_match (LSeq # ts) ds | [] \<Rightarrow> False))"

text \<open>
  The documented reading of the regular expressions that LIKE is compiled to: anchored at both
  ends, with \<open>.\<close> for any character, \<open>.*\<close> for any sequence, an escaped metacharacter and every
  other character for itself; a bare metacharacter is outside the fragment.
\<close>

fun regex_tokens :: "string list \<Rightarrow> like_token list option" where
  "regex_tokens [] = Some []"
| "regex_tokens (c # cs) =
     (if c = [CHR 0x5C] then
        (case cs of next # rest \<Rightarrow> if regex_needs_escape next then map_option ((#) (LChar next)) (regex_tokens rest) else None
         | [] \<Rightarrow> None)
      else if c = ''.'' then
        (case cs of next # rest \<Rightarrow> if next = ''*'' then map_option ((#) LSeq) (regex_tokens rest)
                                  else map_option ((#) LAny) (regex_tokens cs)
         | [] \<Rightarrow> Some [LAny])
      else if regex_needs_escape c then None
      else map_option ((#) (LChar c)) (regex_tokens cs))"

definition regex_law :: "text_ops \<Rightarrow> bool" where
  "regex_law tx \<longleftrightarrow>
     (\<forall>body ts t. regex_tokens (utf8_chars body) = Some ts \<longrightarrow>
        is_match tx (''(?s)^'' @ body @ ''$'') t = like_match ts (utf8_chars t))"

definition is_char :: "string \<Rightarrow> bool" where
  "is_char c \<longleftrightarrow> c \<noteq> [] \<and> \<not> continuation (hd c) \<and> list_all continuation (tl c)"

definition starts_char :: "string \<Rightarrow> bool" where
  "starts_char s \<longleftrightarrow> s = [] \<or> \<not> continuation (hd s)"

lemma utf8_chars_is_char: "starts_char s \<Longrightarrow> list_all is_char (utf8_chars s)"
proof (induction s rule: utf8_chars.induct)
  case (2 b bs)
  have "starts_char (dropWhile continuation bs)"
    using hd_dropWhile [of continuation bs] by (auto simp: starts_char_def)
  then show ?case using 2 by (auto simp: starts_char_def is_char_def list_all_iff dest: set_takeWhileD)
qed simp

lemma utf8_chars_cons: "is_char c \<Longrightarrow> starts_char s \<Longrightarrow> utf8_chars (c @ s) = c # utf8_chars s"
proof -
  assume c: "is_char c" and s: "starts_char s"
  obtain b bs where bs: "c = b # bs" "\<forall>x \<in> set bs. continuation x" using c by (cases c) (auto simp: is_char_def list_all_iff)
  have "takeWhile continuation s = []" "dropWhile continuation s = s" using s by (cases s; auto simp: starts_char_def)+
  then show ?thesis using bs by (simp add: takeWhile_append dropWhile_append)
qed

lemma starts_char_concat: "list_all is_char cs \<Longrightarrow> starts_char (concat cs)"
  by (cases cs) (auto simp: starts_char_def is_char_def)

lemma utf8_chars_concat: "list_all is_char cs \<Longrightarrow> utf8_chars (concat cs) = cs"
  by (induction cs) (simp_all add: utf8_chars_cons starts_char_concat)

fun like_pieces :: "string list \<Rightarrow> string list" where
  "like_pieces [] = []"
| "like_pieces (c # cs) =
     (if c = [CHR 0x5C] then
        (case cs of next # rest \<Rightarrow> (if regex_needs_escape next then [[CHR 0x5C], next] else [next]) @ like_pieces rest | [] \<Rightarrow> [])
      else (if c = ''%'' then [''.'', ''*''] else if c = ''_'' then [''.'']
            else if regex_needs_escape c then [[CHR 0x5C], c] else [c]) @ like_pieces cs)"

lemma ascii_is_char: "(of_char c :: nat) < 128 \<Longrightarrow> is_char [c]"
  by (simp add: is_char_def continuation_def)

lemma like_body_pieces: "like_body cs = concat (like_pieces cs)"
  by (induction cs rule: like_body.induct) (auto simp: regex_literal_def split: list.splits)

lemma like_pieces_chars: "list_all is_char cs \<Longrightarrow> list_all is_char (like_pieces cs)"
  by (induction cs rule: like_pieces.induct) (auto simp: ascii_is_char split: list.splits)

lemma regex_tokens_star: "hd (like_pieces cs) = ''*'' \<Longrightarrow> like_pieces cs = []"
  by (induction cs rule: like_pieces.induct) (auto simp: regex_needs_escape_def split: list.splits if_splits)

lemma regex_tokens_literal:
  "regex_needs_escape c \<Longrightarrow> regex_tokens ([CHR 0x5C] # c # cs) = map_option ((#) (LChar c)) (regex_tokens cs)"
  "\<not> regex_needs_escape c \<Longrightarrow> regex_tokens (c # cs) = map_option ((#) (LChar c)) (regex_tokens cs)"
  by (simp, auto simp: regex_needs_escape_def)

lemma regex_tokens_any:
  "hd cs \<noteq> ''*'' \<or> cs = [] \<Longrightarrow> regex_tokens (''.'' # cs) = map_option ((#) LAny) (regex_tokens cs)"
  by (cases cs) auto

lemma regex_tokens_pieces: "regex_tokens (like_pieces cs) = Some (like_tokens cs)"
proof (induction cs rule: like_pieces.induct)
  case (2 c cs)
  show ?case
  proof (cases "c = [CHR 0x5C]")
    case True
    show ?thesis
    proof (cases cs)
      case (Cons d ds)
      then show ?thesis
        using 2(1) [OF True Cons] True regex_tokens_literal [of d "like_pieces ds"]
        by (cases "regex_needs_escape d") (simp_all del: regex_tokens.simps)
    qed (use True in simp)
  next
    case False
    then have IH: "regex_tokens (like_pieces cs) = Some (like_tokens cs)" by (rule 2(2))
    consider "c = ''%''" | "c = ''_''" | "c \<noteq> ''%''" "c \<noteq> ''_''" by blast
    then show ?thesis
    proof cases
      case 1
      then show ?thesis using IH by simp
    next
      case 2
      then show ?thesis using IH regex_tokens_any [of "like_pieces cs"] regex_tokens_star [of cs]
        by (simp del: regex_tokens.simps)
    next
      case 3
      then show ?thesis using IH False regex_tokens_literal [of c "like_pieces cs"]
        by (cases "regex_needs_escape c") (simp_all del: regex_tokens.simps)
    qed
  qed
qed simp

lemma like_to_regex_matches:
  assumes "regex_law tx" "starts_char pattern"
  shows "is_match tx (like_to_regex pattern) t = like_match (like_tokens (utf8_chars pattern)) (utf8_chars t)"
proof -
  have "utf8_chars (like_body (utf8_chars pattern)) = like_pieces (utf8_chars pattern)"
    using assms(2) by (simp add: like_body_pieces utf8_chars_concat like_pieces_chars utf8_chars_is_char)
  then show ?thesis
    using assms(1) regex_tokens_pieces unfolding regex_law_def like_to_regex_def by metis
qed

section \<open>Properties\<close>

text \<open>
  A concrete text engine for evaluation: ASCII case mapping, and the LIKE fragment of regular
  expressions.
\<close>

definition sample_text :: text_ops where
  "sample_text =
     \<lparr>char_to_upper = (\<lambda>c. [ascii_upper c]), char_to_lower = (\<lambda>c. [ascii_lower c]),
      str_to_upper = ascii_upper, str_to_lower = ascii_lower, regex_valid = (\<lambda>_. True), regex_fits = (\<lambda>_. True),
      is_match = (\<lambda>re t. case regex_tokens (utf8_chars (take (length re - 6) (drop 5 re))) of
                            Some ts \<Rightarrow> like_match ts (utf8_chars t) | None \<Rightarrow> False)\<rparr>"

lemma sample_regex_law: "regex_law sample_text"
  by (simp add: regex_law_def sample_text_def)

definition sample_row :: json_map where
  "sample_row = [(''id'', JNumber (JNum False (Some 7) None ''7'')), (''name'', JString ''ab%'')]"

definition store_with :: "json_map \<Rightarrow> column_store" where
  "store_with m =
     fst (the (append_row sample_externals (column_store_new sample_schema 1) (row_values sample_externals sample_schema m)))"

definition sample_store :: column_store where
  "sample_store = store_with sample_row"

lemma sample_columns:
  "columns sample_schema = [\<lparr>col_name = ''id'', col_type = TLong, col_index = 0\<rparr>, \<lparr>col_name = ''px'', col_type = TDouble, col_index = 1\<rparr>,
     \<lparr>col_name = ''name'', col_type = TString, col_index = 2\<rparr>]"
  by (simp add: sample_schema_def schema_new_def Let_def)

lemma store_with_ok:
  "store_ok (store_with m)" "row_kinds (store_with m) = [TLong, TDouble, TString]" "row_count (store_with m) = 1"
  "cs_schema (store_with m) = sample_schema"
  "row_of (store_with m) 0 = map (\<lambda>col. case map_of m (col_name col) of Some v \<Rightarrow> from_json sample_externals v (col_type col)
                                | None \<Rightarrow> null_value (col_type col)) (columns sample_schema)"
  using row_values_stored [of 1 sample_externals sample_schema m] by (auto simp: store_with_def sample_columns)

lemma sample_store_ok:
  "store_ok sample_store" "row_kinds sample_store = [TLong, TDouble, TString]" "row_count sample_store = 1"
  "row_of sample_store 0 = [VLong 7, VDouble NULL_DOUBLE, VString (Some ''ab%'')]" "cs_schema sample_store = sample_schema"
  by (simp_all add: sample_store_def store_with_ok sample_columns sample_row_def)

text \<open>
  C8: Evaluating a filter whose leaves have the type of their columns never panics and gives
  the SQL meaning of the filter on the row's values: Kleene's three-valued logic over
  comparisons that are unknown on null, and a row is kept only when the filter is true.
\<close>

theorem filter_evaluation_correct:
  assumes "store_ok s" "r < row_count s" "pred_typed (row_kinds s) p"
  shows "matches_3vl tx s r p = Some (row_3vl tx (row_of s r) p) \<and>
     matches tx s r p = Some (row_3vl tx (row_of s r) p = TriTrue)"
  using matches_3vl_row [OF assms(1) _ assms(3), of r tx] assms(2) store_ok_shape(3) [OF assms(1)]
  by (simp add: matches_def)

theorem filter_evaluation_correct_witness:
  "matches_3vl sample_text sample_store 0 (PNot (GtDouble 1 0)) = Some TriUnknown \<and>
   matches sample_text sample_store 0 (POr (GtDouble 1 0) (PAnd (BetweenLong 0 1 9) (NeqString 2 ''x''))) = Some True"
proof -
  let ?p = "PNot (GtDouble 1 0)" and ?q = "POr (GtDouble 1 0) (PAnd (BetweenLong 0 1 9) (NeqString 2 ''x''))"
  have "pred_typed (row_kinds sample_store) ?p" "pred_typed (row_kinds sample_store) ?q"
    by (simp_all add: sample_store_ok leaf_kind_def)
  moreover have "row_3vl sample_text (row_of sample_store 0) ?p = TriUnknown" "row_3vl sample_text (row_of sample_store 0) ?q = TriTrue"
    by (simp_all add: sample_store_ok unless_null_def value_between_def tri_def max_def min_def less_eq_tri_def i64_min_def)
  ultimately show ?thesis
    using filter_evaluation_correct [OF sample_store_ok(1), of 0 ?p sample_text]
      filter_evaluation_correct [OF sample_store_ok(1), of 0 ?q sample_text] sample_store_ok(3) by simp
qed

text \<open>
  The result of a filter depends on its referenced columns only: on two rows, of one store
  or of two stores with the same column types, that agree on the columns the code collects, the
  filter evaluates to the same truth value.
\<close>

theorem filter_depends_on_referenced_columns:
  assumes "store_ok s" "r < row_count s" "store_ok t" "q < row_count t" "row_kinds t = row_kinds s"
    and "pred_typed (row_kinds s) p" "\<forall>c \<in> set (referenced_columns p). row_of s r ! c = row_of t q ! c"
  shows "matches_3vl tx s r p = matches_3vl tx t q p"
proof -
  have "agree (set (collect_referenced p)) (row_of s r) (row_of t q)"
    using assms(7) by (simp add: agree_def same_value_def)
  then show ?thesis
    using matches_3vl_row [OF assms(1) _ assms(6), of r tx] matches_3vl_row [OF assms(3), of q p tx] assms
      store_ok_shape(3) [OF assms(1)] store_ok_shape(3) [OF assms(3)] row_3vl_agree [of p]
    by simp
qed

theorem filter_depends_on_referenced_columns_witness:
  "matches_3vl sample_text sample_store 0 (EqLong 0 7) =
   matches_3vl sample_text (store_with [(''id'', JNumber (JNum False (Some 7) None ''7'')), (''name'', JString ''other'')]) 0 (EqLong 0 7)"
  by (rule filter_depends_on_referenced_columns)
    (simp_all add: sample_store_ok store_with_ok leaf_kind_def sample_columns sample_row_def)

text \<open>
  A null operand makes arithmetic unknown: if an expression of plus, minus, times, divide,
  sign and rounding operations reads a column that is null, a comparison with it is unknown, and
  so is the negation of that comparison.
\<close>

theorem null_operand_unknown:
  assumes "store_ok s" "r < row_count s" "\<forall>c \<in> set (num_expr_columns e). c < length (row_kinds s)"
    and "arithmetic e" "c \<in> set (num_expr_columns e)" "value_is_null (row_of s r ! c)"
  shows "matches_3vl tx s r (CompareNum e op x) = Some TriUnknown \<and>
     matches_3vl tx s r (PNot (CompareNum e op x)) = Some TriUnknown"
proof -
  have "as_f64 (row_of s r ! c) = None" using assms(6) by (cases "row_of s r ! c") auto
  then have "f64_is_nan (num_meaning (row_of s r) e)" by (rule null_operand_nan [OF assms(4,5)])
  then show ?thesis
    using matches_3vl_row [OF assms(1), of r "CompareNum e op x" tx] assms(2,3) store_ok_shape(3) [OF assms(1)]
    by (simp add: unless_null_def)
qed

theorem null_operand_unknown_witness:
  "matches_3vl sample_text sample_store 0 (CompareNum (NAdd (NCol 0) (NAbs (NCol 1))) CmpNeq 0) = Some TriUnknown"
  using null_operand_unknown [of sample_store 0 "NAdd (NCol 0) (NAbs (NCol 1))" 1 sample_text CmpNeq 0]
  by (simp add: sample_store_ok)

text \<open>
  A LIKE filter means the SQL pattern: on a string column the compiled regular expression
  accepts exactly the strings that the pattern describes character by character, with % for any
  sequence, _ for any character, a backslash taking the next character literally and every other
  character, regular-expression metacharacters included, standing for itself.
\<close>

theorem like_means_pattern:
  assumes "regex_law tx" "starts_char pattern" "store_ok s" "r < row_count s" "c < length (row_kinds s)"
    and "row_kinds s ! c = TString" "row_of s r ! c = VString (Some t)"
  shows "matches tx s r (PLike c (like_to_regex pattern)) =
     Some (like_match (like_tokens (utf8_chars pattern)) (utf8_chars t))"
proof -
  have "pred_typed (row_kinds s) (PLike c (like_to_regex pattern))" using assms(5,6) by (simp add: leaf_kind_def)
  from matches_3vl_row [OF assms(3) _ this, of r tx] show ?thesis
    using assms(4,7) store_ok_shape(3) [OF assms(3)] like_to_regex_matches [OF assms(1,2), of t]
    by (simp add: matches_def unless_null_def text_holds_def tri_def)
qed

theorem like_means_pattern_witness:
  "matches sample_text sample_store 0 (PLike 2 (like_to_regex [CHR ''_'', CHR ''b'', CHR 0x5C, CHR ''%''])) = Some True"
  using like_means_pattern [OF sample_regex_law _ sample_store_ok(1), of "[CHR ''_'', CHR ''b'', CHR 0x5C, CHR ''%'']" 0 2 "''ab%''"]
  by (simp add: sample_store_ok starts_char_def continuation_def)

text \<open>
  Bookmark replay filters history as the live path filters rows: evaluating a filter on the
  JSON form of a stored row gives what it gives on the row itself, as long as the row holds no
  infinite float and no instant outside the years 1 to 9999.
\<close>

theorem replay_filter_agrees:
  assumes "json_laws ext" "store_ok s" "r < row_count s" "pred_typed (row_kinds s) p"
    and "distinct (map col_name (columns (cs_schema s)))"
    and "\<forall>i < length (columns (cs_schema s)). col_index (columns (cs_schema s) ! i) = i"
    and "\<forall>c < length (row_kinds s). value_is_null (row_of s r ! c) \<or> json_safe (row_of s r ! c)"
  shows "\<exists>m. get_row_map ext s r = Some m \<and> predicate_matches_json ext tx p (cs_schema s) m = matches tx s r p"
proof -
  have r: "r < capacity s" using assms(2,3) store_ok_shape(3) [of s] by simp
  have ks: "row_kinds s = map col_type (columns (cs_schema s))"
    using store_ok_shape(1) [OF assms(2)]
    by (intro nth_equalityI) (simp_all add: row_kinds_def store_layout_def compute_mappings_nth)
  have n: "length (mappings s) = length (columns (cs_schema s))" using arg_cong [OF ks, of length] by simp
  obtain m where m: "get_row_map ext s r = Some m"
    using get_row_map_total [OF assms(2) r, of ext] assms(6) by blast
  have val: "map_of m (col_name (columns (cs_schema s) ! c)) =
       (if value_is_null (row_of s r ! c) then None else Some (to_json ext (row_of s r ! c)))"
    if "c < length (columns (cs_schema s))" for c
    using get_row_map_lookup [OF assms(2) r that assms(5,6), of ext] m by simp
  let ?ws = "map (\<lambda>col. case map_of m (col_name col) of Some v \<Rightarrow> from_json ext v (col_type col)
                                | None \<Rightarrow> null_value (col_type col)) (columns (cs_schema s))"
  have "same_value (row_of s r ! c) (?ws ! c)" if "c < length (row_kinds s)" for c
  proof -
    have c: "c < length (columns (cs_schema s))" "typed (col_type (columns (cs_schema s) ! c)) (row_of s r ! c)"
      using that row_of_typed [OF assms(2) _ r, of c] n ks by simp_all
    show ?thesis
      using val [OF c(1)] c typed_null_same [OF c(2)] json_round_trip [OF assms(1) c(2)] assms(7) that
      by (auto simp: same_value_def)
  qed
  moreover have "\<forall>c \<in> set (collect_referenced p). c < length (row_kinds s)" by (rule typed_columns [OF assms(4)])
  ultimately have "row_3vl tx (row_of s r) p = row_3vl tx ?ws p"
    by (intro row_3vl_agree) (simp add: agree_def)
  then show ?thesis
    using m predicate_matches_json_row [of "cs_schema s" p ext tx m] assms(4) ks matches_3vl_row [OF assms(2) r assms(4), of tx]
    by (auto simp: matches_def)
qed

theorem replay_filter_agrees_witness:
  "\<exists>m. get_row_map sample_externals sample_store 0 = Some m \<and>
     predicate_matches_json sample_externals sample_text (EqLong 0 7) sample_schema m = matches sample_text sample_store 0 (EqLong 0 7)"
  using replay_filter_agrees [OF sample_json_laws sample_store_ok(1), of 0 "EqLong 0 7" sample_text]
  by (simp add: sample_store_ok sample_columns leaf_kind_def All_less_Suc2 numeral_eq_Suc i64_min_def)

end
