(* ===== verification/CQ_Predicate_Compile.thy ===== *)
theory CQ_Predicate_Compile
  imports CQ_Predicate_Meaning
begin

text \<open>
  The filter compiler (\<open>crates/cq-core/src/predicate.rs\<close>, lines 1068-2150): from the syntax tree
  of a WHERE clause to a compiled predicate. The syntax tree is that of the \<open>sqlparser\<close> crate,
  with the constructors the compiler distinguishes; every other form is one constructor. The
  error constructors carry no messages.

  Shown here: a filter that compares no \<open>Int\<close> column and applies LIKE, MATCHES_REGEX and IS
  TRUE to columns of their type is compiled to a predicate whose leaves have the type of their
  columns, so its evaluation never panics; without these conditions the evaluation panics or
  reads another column.
\<close>

section \<open>Syntax trees\<close>

datatype sql_value = SqlNumber string | SqlSingle string | SqlDouble string | SqlBoolean bool | SqlOther

datatype binary_op = OpAnd | OpOr | OpCmp num_cmp_op | OpPlus | OpMinus | OpMultiply | OpDivide | OpOther

datatype unary_op = UNot | UMinus | UPlus | UOther

datatype (plugins only: code size) sql_expr =
    EIdent string
  | ECompound "string list"
  | EValue sql_value
  | EBinary sql_expr binary_op sql_expr
  | EUnary unary_op sql_expr
  | ENested sql_expr
  | EIsNull sql_expr
  | EIsNotNull sql_expr
  | EIsTrue sql_expr
  | EIsNotTrue sql_expr
  | EIsFalse sql_expr
  | EIsNotFalse sql_expr
  | ELike bool sql_expr sql_expr
  | EInList sql_expr "sql_expr list" bool
  | EBetween sql_expr bool sql_expr sql_expr
  | EFunction string "sql_arg list"
  | EFunctionNoList string
  | ESubstring sql_expr "sql_expr option" "sql_expr option"
  | EFloor sql_expr
  | ECeil sql_expr
  | EOther
and sql_arg = ArgExpr sql_expr | ArgOther

datatype predicate_error =
    UnknownColumn string
  | UnsupportedOperator
  | UnsupportedExpression
  | TypeMismatch
  | InvalidLiteral
  | InvalidPattern
  | ParseError

section \<open>Literals\<close>

fun extract_string_value :: "sql_expr \<Rightarrow> predicate_error + string" where
  "extract_string_value (EValue (SqlSingle s)) = Inr s"
| "extract_string_value (EValue (SqlDouble s)) = Inr s"
| "extract_string_value (EValue (SqlNumber s)) = Inr s"
| "extract_string_value (EUnary UMinus e) = res_bind (extract_string_value e) (\<lambda>s. Inr (CHR ''-'' # s))"
| "extract_string_value (EUnary UPlus e) = extract_string_value e"
| "extract_string_value _ = Inl InvalidLiteral"

definition extract_f64 :: "externals \<Rightarrow> sql_expr \<Rightarrow> predicate_error + f64" where
  "extract_f64 ext e = res_bind (extract_string_value e) (\<lambda>s. ok_or (f64_parse ext s) InvalidLiteral)"

definition extract_i64 :: "sql_expr \<Rightarrow> predicate_error + i64" where
  "extract_i64 e = res_bind (extract_string_value e) (\<lambda>s. ok_or (map_option word_of_int (parse_i64 s)) InvalidLiteral)"

definition extract_timestamp :: "externals \<Rightarrow> sql_expr \<Rightarrow> predicate_error + i64" where
  "extract_timestamp ext e =
     res_bind (extract_string_value e)
       (\<lambda>s. let v = parse_timestamp_json ext (JString s)
            in if v \<noteq> NULL_TIMESTAMP then Inr v
               else case parse_i64 s of
                      Some n \<Rightarrow>
                        let parsed = parse_timestamp_json ext (json_of_i64 ext (word_of_int n))
                        in if parsed \<noteq> NULL_TIMESTAMP then Inr parsed else Inl InvalidLiteral
                    | None \<Rightarrow> Inl InvalidLiteral)"

definition extract_bool :: "sql_expr \<Rightarrow> predicate_error + bool" where
  "extract_bool e =
     (case e of
        EValue (SqlBoolean b) \<Rightarrow> Inr b
      | _ \<Rightarrow> res_bind (extract_string_value e) (\<lambda>s. ok_or (bool_of_text s) InvalidLiteral))"

section \<open>Columns\<close>

fun join_dots :: "string list \<Rightarrow> string" where
  "join_dots [] = []"
| "join_dots [p] = p"
| "join_dots (p # ps) = p @ ''.'' @ join_dots ps"

definition lookup_column :: "schema \<Rightarrow> string \<Rightarrow> predicate_error + nat" where
  "lookup_column sch n = ok_or (index_of sch n) (UnknownColumn n)"

definition resolve_column :: "schema \<Rightarrow> sql_expr \<Rightarrow> predicate_error + nat" where
  "resolve_column sch e =
     (case e of
        EIdent n \<Rightarrow> lookup_column sch n
      | ECompound parts \<Rightarrow> lookup_column sch (join_dots parts)
      | _ \<Rightarrow> Inl UnsupportedExpression)"

text \<open>The type of a resolved column; an index from \<open>index_of\<close> is always in range.\<close>

definition kind_at :: "schema \<Rightarrow> nat \<Rightarrow> column_type" where
  "kind_at sch c = col_type (columns sch ! c)"

definition is_bare_column :: "sql_expr \<Rightarrow> bool" where
  "is_bare_column e = (case e of EIdent _ \<Rightarrow> True | ECompound _ \<Rightarrow> True | _ \<Rightarrow> False)"

section \<open>Number expressions\<close>

fun try_compile_num_expr :: "externals \<Rightarrow> i64 \<Rightarrow> schema \<Rightarrow> sql_expr \<Rightarrow> num_expr option" where
  "try_compile_num_expr ext now sch (ENested e) = try_compile_num_expr ext now sch e"
| "try_compile_num_expr ext now sch (EIdent n) =
     do {
       c \<leftarrow> index_of sch n;
       if kind_at sch c \<in> {TLong, TInt, TDouble, TTimestamp} then Some (NCol c) else None
     }"
| "try_compile_num_expr ext now sch (ECompound parts) =
     (case parts of
        [n] \<Rightarrow> do { c \<leftarrow> index_of sch n; if kind_at sch c \<in> {TLong, TInt, TDouble} then Some (NCol c) else None }
      | _ \<Rightarrow> None)"
| "try_compile_num_expr ext now sch (EValue v) =
     (case v of SqlNumber s \<Rightarrow> map_option NLit (f64_parse ext s) | _ \<Rightarrow> None)"
| "try_compile_num_expr ext now sch (EUnary op e) =
     (case op of
        UMinus \<Rightarrow> map_option NNeg (try_compile_num_expr ext now sch e)
      | UPlus \<Rightarrow> try_compile_num_expr ext now sch e
      | _ \<Rightarrow> None)"
| "try_compile_num_expr ext now sch (EBinary a op b) =
     do {
       ctor \<leftarrow> (case op of OpPlus \<Rightarrow> Some NAdd | OpMinus \<Rightarrow> Some NSub | OpMultiply \<Rightarrow> Some NMul
                 | OpDivide \<Rightarrow> Some NDiv | _ \<Rightarrow> None);
       l \<leftarrow> try_compile_num_expr ext now sch a;
       r \<leftarrow> try_compile_num_expr ext now sch b;
       Some (ctor l r)
     }"
| "try_compile_num_expr ext now sch (EFunction f args) =
     (let name = ascii_upper f;
          compiled = those (map (\<lambda>a. case a of ArgExpr e \<Rightarrow> try_compile_num_expr ext now sch e | ArgOther \<Rightarrow> None) args)
      in if name = ''NOW'' \<and> args = [] then Some (NNowMicros now)
         else if name = ''COALESCE'' then
           (case compiled of Some es \<Rightarrow> if es = [] then None else Some (NCoalesce es) | None \<Rightarrow> None)
         else if name = ''NULLIF'' then (case compiled of Some [a, b] \<Rightarrow> Some (NNullIf a b) | _ \<Rightarrow> None)
         else (case compiled of
                 Some [a] \<Rightarrow> if name = ''ABS'' then Some (NAbs a) else if name = ''ROUND'' then Some (NRound a) else None
               | _ \<Rightarrow> None))"
| "try_compile_num_expr ext now sch (EFloor e) = map_option NFloor (try_compile_num_expr ext now sch e)"
| "try_compile_num_expr ext now sch (ECeil e) = map_option NCeil (try_compile_num_expr ext now sch e)"
| "try_compile_num_expr ext now sch _ = None"

section \<open>String expressions\<close>

definition is_string_expr_function :: "sql_expr \<Rightarrow> bool" where
  "is_string_expr_function e =
     (case e of
        EFunction f _ \<Rightarrow> ascii_upper f \<in> {''UPPER'', ''LOWER'', ''SUBSTR'', ''SUBSTRING'', ''CONCAT''}
      | EFunctionNoList f \<Rightarrow> ascii_upper f \<in> {''UPPER'', ''LOWER'', ''SUBSTR'', ''SUBSTRING'', ''CONCAT''}
      | ESubstring _ _ _ \<Rightarrow> True
      | _ \<Rightarrow> False)"

definition string_fn_named :: "string \<Rightarrow> string_fn option" where
  "string_fn_named name = (if name = ''UPPER'' then Some FnUpper else if name = ''LOWER'' then Some FnLower else None)"

definition extract_string_fn_target :: "schema \<Rightarrow> sql_expr \<Rightarrow> predicate_error + (string_fn \<times> nat) option" where
  "extract_string_fn_target sch e =
     (case e of
        EFunction f args \<Rightarrow>
          (case string_fn_named (ascii_upper f) of
             None \<Rightarrow> Inr None
           | Some func \<Rightarrow>
               (case args of
                  [ArgExpr inner] \<Rightarrow>
                    (case resolve_column sch inner of Inr c \<Rightarrow> Inr (Some (func, c)) | Inl _ \<Rightarrow> Inr None)
                | _ \<Rightarrow> Inl UnsupportedExpression))
      | EFunctionNoList f \<Rightarrow>
          (case string_fn_named (ascii_upper f) of None \<Rightarrow> Inr None | Some _ \<Rightarrow> Inl UnsupportedExpression)
      | _ \<Rightarrow> Inr None)"

definition extract_length_target :: "schema \<Rightarrow> sql_expr \<Rightarrow> predicate_error + nat option" where
  "extract_length_target sch e =
     (case e of
        EFunction f args \<Rightarrow>
          if ascii_upper f \<noteq> ''LENGTH'' \<and> ascii_upper f \<noteq> ''CHAR_LENGTH'' then Inr None
          else (case args of
                  [ArgExpr inner] \<Rightarrow> res_bind (resolve_column sch inner) (\<lambda>c. Inr (Some c))
                | _ \<Rightarrow> Inl UnsupportedExpression)
      | EFunctionNoList f \<Rightarrow>
          if ascii_upper f \<noteq> ''LENGTH'' \<and> ascii_upper f \<noteq> ''CHAR_LENGTH'' then Inr None else Inl UnsupportedExpression
      | _ \<Rightarrow> Inr None)"

fun compile_string_expr :: "schema \<Rightarrow> sql_expr \<Rightarrow> predicate_error + string_expr" where
  "compile_string_expr sch (ESubstring inner from for) =
     res_bind (compile_string_expr sch inner)
       (\<lambda>i. res_bind (case from of Some e \<Rightarrow> extract_i64 e | None \<Rightarrow> Inr 1)
         (\<lambda>start. res_bind (case for of Some e \<Rightarrow> res_bind (extract_i64 e) (\<lambda>l. Inr (Some l)) | None \<Rightarrow> Inr None)
           (\<lambda>len. Inr (SSubstr i start len))))"
| "compile_string_expr sch (EFunction f args) =
     (let name = ascii_upper f;
          compiled = map (\<lambda>a. case a of ArgExpr e \<Rightarrow> compile_string_expr sch e | ArgOther \<Rightarrow> Inl UnsupportedExpression) args
      in if ArgOther \<in> set args then Inl UnsupportedExpression
         else if name = ''UPPER'' then
           (case compiled of [r] \<Rightarrow> res_bind r (\<lambda>e. Inr (SUpper e)) | _ \<Rightarrow> Inl UnsupportedExpression)
         else if name = ''LOWER'' then
           (case compiled of [r] \<Rightarrow> res_bind r (\<lambda>e. Inr (SLower e)) | _ \<Rightarrow> Inl UnsupportedExpression)
         else if name = ''SUBSTR'' \<or> name = ''SUBSTRING'' then
           (case args of
              [_, ArgExpr from] \<Rightarrow>
                res_bind (hd compiled) (\<lambda>i. res_bind (extract_i64 from) (\<lambda>start. Inr (SSubstr i start None)))
            | [_, ArgExpr from, ArgExpr for] \<Rightarrow>
                res_bind (hd compiled) (\<lambda>i. res_bind (extract_i64 from)
                  (\<lambda>start. res_bind (extract_i64 for) (\<lambda>len. Inr (SSubstr i start (Some len)))))
            | _ \<Rightarrow> Inl UnsupportedExpression)
         else if name = ''CONCAT'' then
           (if args = [] then Inl UnsupportedExpression
            else res_bind (collect_results compiled) (\<lambda>es. Inr (SConcat es)))
         else Inl UnsupportedExpression)"
| "compile_string_expr sch (EValue v) =
     (case v of SqlSingle s \<Rightarrow> Inr (SLit s) | SqlDouble s \<Rightarrow> Inr (SLit s) | _ \<Rightarrow> Inl InvalidLiteral)"
| "compile_string_expr sch e =
     (if is_bare_column e
      then res_bind (resolve_column sch e)
             (\<lambda>c. if kind_at sch c \<noteq> TString then Inl TypeMismatch else Inr (SCol c))
      else Inl UnsupportedExpression)"

section \<open>Comparisons\<close>

fun double_leaf :: "num_cmp_op \<Rightarrow> nat \<Rightarrow> f64 \<Rightarrow> compiled_predicate" where
  "double_leaf CmpEq = EqDouble" | "double_leaf CmpNeq = NeqDouble" | "double_leaf CmpLt = LtDouble"
| "double_leaf CmpLe = LeDouble" | "double_leaf CmpGt = GtDouble" | "double_leaf CmpGe = GeDouble"

fun long_leaf :: "num_cmp_op \<Rightarrow> nat \<Rightarrow> i64 \<Rightarrow> compiled_predicate" where
  "long_leaf CmpEq = EqLong" | "long_leaf CmpNeq = NeqLong" | "long_leaf CmpLt = LtLong"
| "long_leaf CmpLe = LeLong" | "long_leaf CmpGt = GtLong" | "long_leaf CmpGe = GeLong"

fun timestamp_leaf :: "num_cmp_op \<Rightarrow> nat \<Rightarrow> i64 \<Rightarrow> compiled_predicate" where
  "timestamp_leaf CmpEq = EqTimestamp" | "timestamp_leaf CmpNeq = NeqTimestamp" | "timestamp_leaf CmpLt = LtTimestamp"
| "timestamp_leaf CmpLe = LeTimestamp" | "timestamp_leaf CmpGt = GtTimestamp" | "timestamp_leaf CmpGe = GeTimestamp"

text \<open>The typed comparison of a bare column with a literal, at the end of \<open>compile_comparison\<close>.\<close>

definition compile_typed :: "externals \<Rightarrow> schema \<Rightarrow> nat \<Rightarrow> num_cmp_op \<Rightarrow> sql_expr \<Rightarrow> predicate_error + compiled_predicate" where
  "compile_typed ext sch c op right =
     (case kind_at sch c of
        TDouble \<Rightarrow> res_bind (extract_f64 ext right) (\<lambda>v. Inr (double_leaf op c v))
      | TLong \<Rightarrow> res_bind (extract_i64 right) (\<lambda>v. Inr (long_leaf op c v))
      | TInt \<Rightarrow> res_bind (extract_i64 right) (\<lambda>v. Inr (long_leaf op c v))
      | TString \<Rightarrow>
          res_bind (extract_string_value right)
            (\<lambda>v. case op of CmpEq \<Rightarrow> Inr (EqString c v) | CmpNeq \<Rightarrow> Inr (NeqString c v) | _ \<Rightarrow> Inl TypeMismatch)
      | TBool \<Rightarrow>
          res_bind (extract_bool right)
            (\<lambda>v. case op of CmpEq \<Rightarrow> Inr (EqBool c v) | CmpNeq \<Rightarrow> Inr (NeqBool c v) | _ \<Rightarrow> Inl TypeMismatch)
      | TTimestamp \<Rightarrow> res_bind (extract_timestamp ext right) (\<lambda>v. Inr (timestamp_leaf op c v))
      | TBytes \<Rightarrow> Inl TypeMismatch)"

text \<open>
  The number-expression paths: a structured left side against a literal or another expression,
  and a bare column against a structured right side. \<open>None\<close> means that neither applies.
\<close>

definition num_comparison :: "externals \<Rightarrow> i64 \<Rightarrow> schema \<Rightarrow> sql_expr \<Rightarrow> num_cmp_op \<Rightarrow> sql_expr \<Rightarrow> compiled_predicate option" where
  "num_comparison ext now sch left op right =
     (case left of
        EIdent _ \<Rightarrow>
          (case right of
             EValue _ \<Rightarrow> None
           | EUnary UMinus _ \<Rightarrow> None
           | _ \<Rightarrow> do { l \<leftarrow> try_compile_num_expr ext now sch left; r \<leftarrow> try_compile_num_expr ext now sch right;
                     Some (CompareNum (NSub l r) op 0) })
      | _ \<Rightarrow>
          do {
            l \<leftarrow> try_compile_num_expr ext now sch left;
            case extract_f64 ext right of
              Inr v \<Rightarrow> Some (CompareNum l op v)
            | Inl _ \<Rightarrow> map_option (\<lambda>r. CompareNum (NSub l r) op 0) (try_compile_num_expr ext now sch right)
          })"

definition compile_comparison ::
  "externals \<Rightarrow> text_ops \<Rightarrow> i64 \<Rightarrow> schema \<Rightarrow> sql_expr \<Rightarrow> num_cmp_op \<Rightarrow> sql_expr \<Rightarrow> predicate_error + compiled_predicate" where
  "compile_comparison ext tx now sch left op right =
     res_bind (extract_string_fn_target sch left)
       (\<lambda>target. case target of
          Some (func, c) \<Rightarrow>
            if kind_at sch c \<noteq> TString then Inl TypeMismatch
            else res_bind (extract_string_value right)
                   (\<lambda>raw. let v = string_fn_apply tx func raw
                          in case op of CmpEq \<Rightarrow> Inr (EqStringFn c func v) | CmpNeq \<Rightarrow> Inr (NeqStringFn c func v)
                             | _ \<Rightarrow> Inl UnsupportedOperator)
        | None \<Rightarrow>
            if is_string_expr_function left
            then res_bind (compile_string_expr sch left)
                   (\<lambda>se. res_bind (extract_string_value right)
                     (\<lambda>v. case op of CmpEq \<Rightarrow> Inr (EqStringExpr se v) | CmpNeq \<Rightarrow> Inr (NeqStringExpr se v)
                          | _ \<Rightarrow> Inl UnsupportedOperator))
            else res_bind (extract_length_target sch left)
                   (\<lambda>len. case len of
                      Some c \<Rightarrow>
                        if kind_at sch c \<noteq> TString then Inl TypeMismatch
                        else res_bind (extract_i64 right) (\<lambda>n. Inr (LengthCmp c op n))
                    | None \<Rightarrow>
                        (case num_comparison ext now sch left op right of
                           Some p \<Rightarrow> Inr p
                         | None \<Rightarrow> res_bind (resolve_column sch left) (\<lambda>c. compile_typed ext sch c op right))))"

section \<open>Filters\<close>

definition negate_if :: "bool \<Rightarrow> compiled_predicate \<Rightarrow> compiled_predicate" where
  "negate_if negated p = (if negated then PNot p else p)"

definition compile_like :: "text_ops \<Rightarrow> schema \<Rightarrow> sql_expr \<Rightarrow> sql_expr \<Rightarrow> predicate_error + compiled_predicate" where
  "compile_like tx sch e pat =
     res_bind (extract_string_value pat)
       (\<lambda>raw. res_bind (extract_string_fn_target sch e)
         (\<lambda>target.
            let checked = (\<lambda>re mk. if regex_valid tx re then Inr (mk re) else Inl InvalidPattern)
            in case target of
                 Some (func, c) \<Rightarrow> checked (like_to_regex (string_fn_apply tx func raw)) (LikeStringFn c func)
               | None \<Rightarrow>
                   if is_string_expr_function e
                   then res_bind (compile_string_expr sch e) (\<lambda>se. checked (like_to_regex raw) (LikeStringExpr se))
                   else res_bind (resolve_column sch e) (\<lambda>c. checked (like_to_regex raw) (PLike c))))"

definition compile_in_list :: "externals \<Rightarrow> schema \<Rightarrow> sql_expr \<Rightarrow> sql_expr list \<Rightarrow> predicate_error + compiled_predicate" where
  "compile_in_list ext sch e xs =
     res_bind (resolve_column sch e)
       (\<lambda>c. case kind_at sch c of
          TString \<Rightarrow> res_bind (collect_results (map extract_string_value xs)) (\<lambda>vs. Inr (InString c (set vs)))
        | TLong \<Rightarrow> res_bind (collect_results (map extract_i64 xs)) (\<lambda>vs. Inr (InLong c (set vs)))
        | TInt \<Rightarrow> res_bind (collect_results (map extract_i64 xs)) (\<lambda>vs. Inr (InLong c (set vs)))
        | TDouble \<Rightarrow> res_bind (collect_results (map (extract_f64 ext) xs)) (\<lambda>vs. Inr (InDouble c (set vs)))
        | TBool \<Rightarrow> res_bind (collect_results (map extract_bool xs)) (\<lambda>vs. Inr (InBool c (set vs)))
        | TTimestamp \<Rightarrow> res_bind (collect_results (map (extract_timestamp ext) xs)) (\<lambda>vs. Inr (InTimestamp c (set vs)))
        | TBytes \<Rightarrow> Inl TypeMismatch)"

definition compile_between ::
  "externals \<Rightarrow> i64 \<Rightarrow> schema \<Rightarrow> sql_expr \<Rightarrow> sql_expr \<Rightarrow> sql_expr \<Rightarrow> predicate_error + compiled_predicate" where
  "compile_between ext now sch e low high =
     (case (if is_bare_column e then None else try_compile_num_expr ext now sch e) of
        Some n \<Rightarrow>
          res_bind (extract_f64 ext low) (\<lambda>lo. res_bind (extract_f64 ext high) (\<lambda>hi. Inr (BetweenNum n lo hi)))
      | None \<Rightarrow>
          res_bind (resolve_column sch e)
            (\<lambda>c. case kind_at sch c of
               TDouble \<Rightarrow> res_bind (extract_f64 ext low) (\<lambda>lo. res_bind (extract_f64 ext high) (\<lambda>hi. Inr (BetweenDouble c lo hi)))
             | TLong \<Rightarrow> res_bind (extract_i64 low) (\<lambda>lo. res_bind (extract_i64 high) (\<lambda>hi. Inr (BetweenLong c lo hi)))
             | TInt \<Rightarrow> res_bind (extract_i64 low) (\<lambda>lo. res_bind (extract_i64 high) (\<lambda>hi. Inr (BetweenLong c lo hi)))
             | TTimestamp \<Rightarrow>
                 res_bind (extract_timestamp ext low) (\<lambda>lo. res_bind (extract_timestamp ext high) (\<lambda>hi. Inr (BetweenTimestamp c lo hi)))
             | _ \<Rightarrow> Inl TypeMismatch))"

definition compile_matches_regex :: "text_ops \<Rightarrow> schema \<Rightarrow> string \<Rightarrow> sql_arg list \<Rightarrow> predicate_error + compiled_predicate" where
  "compile_matches_regex tx sch f args =
     (if ascii_upper f \<noteq> ''MATCHES_REGEX'' then Inl UnsupportedExpression
      else case args of
             [ArgExpr e, ArgExpr pat] \<Rightarrow>
               res_bind (resolve_column sch e)
                 (\<lambda>c. res_bind (extract_string_value pat)
                   (\<lambda>s. if regex_fits tx s then Inr (PRegex c s) else Inl InvalidPattern))
           | _ \<Rightarrow> Inl UnsupportedExpression)"

fun compile_expr :: "externals \<Rightarrow> text_ops \<Rightarrow> i64 \<Rightarrow> schema \<Rightarrow> sql_expr \<Rightarrow> predicate_error + compiled_predicate" where
  "compile_expr ext tx now sch (EBinary left op right) =
     (case op of
        OpAnd \<Rightarrow> res_bind (compile_expr ext tx now sch left)
                  (\<lambda>l. res_bind (compile_expr ext tx now sch right) (\<lambda>r. Inr (PAnd l r)))
      | OpOr \<Rightarrow> res_bind (compile_expr ext tx now sch left)
                  (\<lambda>l. res_bind (compile_expr ext tx now sch right) (\<lambda>r. Inr (POr l r)))
      | OpCmp cmp \<Rightarrow> compile_comparison ext tx now sch left cmp right
      | _ \<Rightarrow> Inl UnsupportedOperator)"
| "compile_expr ext tx now sch (EUnary op e) =
     (case op of
        UNot \<Rightarrow> res_bind (compile_expr ext tx now sch e) (\<lambda>p. Inr (PNot p))
      | _ \<Rightarrow> Inl UnsupportedExpression)"
| "compile_expr ext tx now sch (EIsNull e) = res_bind (resolve_column sch e) (\<lambda>c. Inr (IsNull c))"
| "compile_expr ext tx now sch (EIsNotNull e) = res_bind (resolve_column sch e) (\<lambda>c. Inr (IsNotNull c))"
| "compile_expr ext tx now sch (EIsTrue e) = res_bind (resolve_column sch e) (\<lambda>c. Inr (IsBool c True False))"
| "compile_expr ext tx now sch (EIsNotTrue e) = res_bind (resolve_column sch e) (\<lambda>c. Inr (IsBool c True True))"
| "compile_expr ext tx now sch (EIsFalse e) = res_bind (resolve_column sch e) (\<lambda>c. Inr (IsBool c False False))"
| "compile_expr ext tx now sch (EIsNotFalse e) = res_bind (resolve_column sch e) (\<lambda>c. Inr (IsBool c False True))"
| "compile_expr ext tx now sch (ELike negated e pat) =
     res_bind (compile_like tx sch e pat) (\<lambda>p. Inr (negate_if negated p))"
| "compile_expr ext tx now sch (EInList e xs negated) =
     res_bind (compile_in_list ext sch e xs) (\<lambda>p. Inr (negate_if negated p))"
| "compile_expr ext tx now sch (EBetween e negated low high) =
     res_bind (compile_between ext now sch e low high) (\<lambda>p. Inr (negate_if negated p))"
| "compile_expr ext tx now sch (ENested e) = compile_expr ext tx now sch e"
| "compile_expr ext tx now sch (EFunction f args) = compile_matches_regex tx sch f args"
| "compile_expr ext tx now sch _ = Inl UnsupportedExpression"

section \<open>Compiled filters are typed\<close>

definition indexed :: "schema \<Rightarrow> bool" where
  "indexed sch \<longleftrightarrow>
     name_to_index sch = index_columns (columns sch) \<and> (\<forall>i < length (columns sch). col_index (columns sch ! i) = i)"

definition column_test :: "(column_type \<Rightarrow> bool) \<Rightarrow> schema \<Rightarrow> sql_expr \<Rightarrow> bool" where
  "column_test P sch e = (case resolve_column sch e of Inr c \<Rightarrow> P (kind_at sch c) | Inl _ \<Rightarrow> True)"

text \<open>
  The conditions under which the compiler chooses leaves of the columns' types: no bare
  \<open>Int\<close> column is compared, listed or bounded, and LIKE, MATCHES_REGEX and IS TRUE name
  columns of their type.
\<close>

fun filter_typed :: "schema \<Rightarrow> sql_expr \<Rightarrow> bool" where
  "filter_typed sch (EBinary l op r) =
     (case op of
        OpCmp _ \<Rightarrow> column_test (\<lambda>k. k \<noteq> TInt) sch l
      | _ \<Rightarrow> filter_typed sch l \<and> filter_typed sch r)"
| "filter_typed sch (EUnary op e) = filter_typed sch e"
| "filter_typed sch (ENested e) = filter_typed sch e"
| "filter_typed sch (EIsTrue e) = column_test (\<lambda>k. k = TBool) sch e"
| "filter_typed sch (EIsNotTrue e) = column_test (\<lambda>k. k = TBool) sch e"
| "filter_typed sch (EIsFalse e) = column_test (\<lambda>k. k = TBool) sch e"
| "filter_typed sch (EIsNotFalse e) = column_test (\<lambda>k. k = TBool) sch e"
| "filter_typed sch (ELike _ e _) =
     (column_test (\<lambda>k. k = TString) sch e \<and>
      (case extract_string_fn_target sch e of Inr (Some (_, c)) \<Rightarrow> kind_at sch c = TString | _ \<Rightarrow> True))"
| "filter_typed sch (EInList e _ _) = column_test (\<lambda>k. k \<noteq> TInt) sch e"
| "filter_typed sch (EBetween e _ _ _) = column_test (\<lambda>k. k \<noteq> TInt) sch e"
| "filter_typed sch (EFunction _ (ArgExpr e # _)) = column_test (\<lambda>k. k = TString) sch e"
| "filter_typed sch _ = True"

lemma index_of_range:
  assumes "indexed sch" "index_of sch n = Some c" shows "c < length (columns sch)"
  using assms by (auto simp: indexed_def index_of_def index_columns_Some)

lemma resolve_range:
  assumes "indexed sch" "resolve_column sch e = Inr c" shows "c < length (columns sch)"
  using assms(2) index_of_range [OF assms(1)]
  by (auto simp: resolve_column_def lookup_column_def split: sql_expr.splits)

lemma kind_at_nth: "c < length (columns sch) \<Longrightarrow> map col_type (columns sch) ! c = kind_at sch c"
  by (simp add: kind_at_def)

lemma those_map_Some: "those (map f xs) = Some ys \<Longrightarrow> y \<in> set ys \<Longrightarrow> \<exists>x \<in> set xs. f x = Some y"
  by (induction xs arbitrary: ys) (auto split: option.splits)

lemma num_expr_range:
  assumes "indexed sch" "try_compile_num_expr ext now sch e = Some n"
  shows "\<forall>c \<in> set (num_expr_columns n). c < length (columns sch)"
  using assms
proof (induction ext now sch e arbitrary: n rule: try_compile_num_expr.induct)
  case (7 ext now sch f args)
  let ?arg = "\<lambda>a. case a of ArgExpr e \<Rightarrow> try_compile_num_expr ext now sch e | ArgOther \<Rightarrow> None"
  have sub: "\<forall>c \<in> set (num_expr_columns m). c < length (columns sch)" if es: "those (map ?arg args) = Some es" "m \<in> set es" for m es
  proof -
    obtain a where a: "a \<in> set args" "?arg a = Some m" using those_map_Some [OF es] by blast
    then obtain e where "a = ArgExpr e" by (cases a rule: sql_arg.exhaust) auto
    with a show ?thesis using 7(1) [OF refl a(1) _ 7(2)] by simp
  qed
  then have "\<forall>m \<in> set es. \<forall>c \<in> set (num_expr_columns m). c < length (columns sch)" if "those (map ?arg args) = Some es" for es
    using that by blast
  then show ?case using 7(3) by (auto simp: Let_def split: if_splits option.splits list.splits)
qed (auto simp: bind_eq_Some dest: index_of_range split: if_splits list.splits sql_value.splits unary_op.splits binary_op.splits)

lemma columns_typed_at:
  "columns_typed (map col_type (columns sch)) e \<longleftrightarrow>
     (\<forall>c \<in> set (string_expr_columns e). c < length (columns sch) \<and> kind_at sch c = TString)"
  by (auto simp: columns_typed_def kind_at_def)

lemma string_expr_typed:
  assumes "indexed sch" "compile_string_expr sch e = Inr se"
  shows "columns_typed (map col_type (columns sch)) se"
  using assms
proof (induction sch e arbitrary: se rule: compile_string_expr.induct)
  case (2 sch f args)
  let ?arg = "\<lambda>a. case a of ArgExpr e \<Rightarrow> compile_string_expr sch e | ArgOther \<Rightarrow> Inl UnsupportedExpression"
  have sub: "columns_typed (map col_type (columns sch)) m" if am: "a \<in> set args" "?arg a = Inr m" for a m
  proof -
    obtain e where "a = ArgExpr e" using am(2) by (cases a rule: sql_arg.exhaust) auto
    with am show ?thesis using 2(1) [OF refl am(1) _ 2(2)] by simp
  qed
  have all: "columns_typed (map col_type (columns sch)) m" if es: "collect_results (map ?arg args) = Inr es" "m \<in> set es" for m es
  proof -
    have "map ?arg args = map Inr es" by (rule collect_results_Inr [OF es(1)])
    then have "Inr m \<in> ?arg ` set args" using es(2) by (metis (no_types, lifting) image_eqI list.set_map)
    then show ?thesis using sub by auto
  qed
  have concat: "columns_typed (map col_type (columns sch)) (SConcat es)" if es: "collect_results (map ?arg args) = Inr es" for es
    using all [OF es] by (auto simp: columns_typed_at)
  have same: "columns_typed ks (SUpper e) = columns_typed ks e" "columns_typed ks (SLower e) = columns_typed ks e"
      "columns_typed ks (SSubstr e i l) = columns_typed ks e" for ks e i l
    by (simp_all add: columns_typed_def)
  have "\<forall>e. ArgExpr e \<in> set args \<longrightarrow> (\<forall>m. compile_string_expr sch e = Inr m \<longrightarrow> columns_typed (map col_type (columns sch)) m)"
    using sub by force
  then show ?case
    using 2(3) concat by (auto simp: Let_def res_bind_Inr same split: if_splits list.splits sql_arg.splits)
qed (auto simp: res_bind_Inr columns_typed_at is_bare_column_def dest: resolve_range split: if_splits sql_value.splits)

lemma typed_leaves:
  assumes "c < length ks"
  shows "ks ! c = TDouble \<Longrightarrow> pred_typed ks (double_leaf op c x)"
    and "ks ! c = TLong \<Longrightarrow> pred_typed ks (long_leaf op c y)"
    and "ks ! c = TTimestamp \<Longrightarrow> pred_typed ks (timestamp_leaf op c y)"
  using assms by (cases op; simp add: leaf_kind_def)+

lemma compile_typed_typed:
  assumes "indexed sch" "resolve_column sch e = Inr c" "kind_at sch c \<noteq> TInt" "compile_typed ext sch c op right = Inr p"
  shows "pred_typed (map col_type (columns sch)) p"
proof -
  have c: "c < length (columns sch)" by (rule resolve_range [OF assms(1,2)])
  then show ?thesis
    using assms(3,4) typed_leaves [of c "map col_type (columns sch)" op] kind_at_nth [OF c]
    by (cases op) (auto simp: compile_typed_def res_bind_Inr leaf_kind_def split: column_type.splits)
qed

lemma num_comparison_typed:
  assumes "indexed sch" "num_comparison ext now sch l op r = Some p"
  shows "pred_typed (map col_type (columns sch)) p"
  using assms(2) num_expr_range [OF assms(1)]
  by (cases "extract_f64 ext r")
    (auto simp: num_comparison_def bind_eq_Some simp del: try_compile_num_expr.simps split: sql_expr.splits unary_op.splits)

lemma string_fn_target_range:
  assumes "indexed sch" "extract_string_fn_target sch e = Inr (Some (f, c))" shows "c < length (columns sch)"
  using assms(2) resolve_range [OF assms(1)]
  by (auto simp: extract_string_fn_target_def split: sql_expr.splits option.splits list.splits sql_arg.splits sum.splits)

lemma length_target_range:
  assumes "indexed sch" "extract_length_target sch e = Inr (Some c)" shows "c < length (columns sch)"
  using assms(2) resolve_range [OF assms(1)]
  by (auto simp: extract_length_target_def res_bind_Inr split: sql_expr.splits if_splits list.splits sql_arg.splits)

lemma compile_comparison_typed:
  assumes "indexed sch" "column_test (\<lambda>k. k \<noteq> TInt) sch l" "compile_comparison ext tx now sch l op r = Inr p"
  shows "pred_typed (map col_type (columns sch)) p"
proof -
  obtain target where t: "extract_string_fn_target sch l = Inr target"
    using assms(3) by (auto simp: compile_comparison_def res_bind_Inr)
  show ?thesis
  proof (cases target)
    case (Some fc)
    obtain f c where fc: "fc = (f, c)" by (cases fc)
    have "c < length (columns sch)" using string_fn_target_range [OF assms(1)] t Some fc by simp
    then show ?thesis
      using assms(3) t Some fc
      by (cases op) (auto simp: compile_comparison_def res_bind_Inr leaf_kind_def kind_at_def Let_def split: if_splits)
  next
    case None
    show ?thesis
    proof (cases "is_string_expr_function l")
      case True
      then show ?thesis
        using assms(3) t None string_expr_typed [OF assms(1)]
        by (cases op) (auto simp: compile_comparison_def res_bind_Inr)
    next
      case False
      then obtain len where len: "extract_length_target sch l = Inr len"
        using assms(3) t None by (auto simp: compile_comparison_def res_bind_Inr)
      show ?thesis
      proof (cases len)
        case (Some c)
        then show ?thesis
          using assms(3) t None False len length_target_range [OF assms(1)]
          by (auto simp: compile_comparison_def res_bind_Inr leaf_kind_def kind_at_def split: if_splits)
      next
        case None': None
        show ?thesis
        proof (cases "num_comparison ext now sch l op r")
          case None
          then obtain c where "resolve_column sch l = Inr c" "compile_typed ext sch c op r = Inr p"
            using assms(3) t \<open>target = None\<close> False len None' by (auto simp: compile_comparison_def res_bind_Inr)
          then show ?thesis using compile_typed_typed [OF assms(1)] assms(2) by (auto simp: column_test_def)
        next
          case (Some q)
          then show ?thesis
            using assms(3) t \<open>target = None\<close> False len None' num_comparison_typed [OF assms(1) Some]
            by (simp add: compile_comparison_def)
        qed
      qed
    qed
  qed
qed

lemma compile_like_typed:
  assumes "indexed sch" "filter_typed sch (ELike neg e pat)" "compile_like tx sch e pat = Inr p"
  shows "pred_typed (map col_type (columns sch)) p"
proof -
  obtain target where t: "extract_string_fn_target sch e = Inr target"
    using assms(3) by (auto simp: compile_like_def res_bind_Inr)
  show ?thesis
  proof (cases target)
    case (Some fc)
    then show ?thesis
      using assms t string_fn_target_range [OF assms(1), of e "fst fc" "snd fc"]
      by (cases fc) (auto simp: compile_like_def res_bind_Inr leaf_kind_def kind_at_def Let_def split: if_splits)
  next
    case None
    then show ?thesis
      using assms t string_expr_typed [OF assms(1)] resolve_range [OF assms(1)]
      by (auto simp: compile_like_def res_bind_Inr leaf_kind_def kind_at_def Let_def column_test_def split: if_splits)
  qed
qed

lemma compile_in_list_typed:
  assumes "indexed sch" "column_test (\<lambda>k. k \<noteq> TInt) sch e" "compile_in_list ext sch e xs = Inr p"
  shows "pred_typed (map col_type (columns sch)) p"
proof -
  obtain c where c: "resolve_column sch e = Inr c" using assms(3) by (auto simp: compile_in_list_def res_bind_Inr)
  then show ?thesis
    using assms(2,3) resolve_range [OF assms(1) c]
    by (auto simp: compile_in_list_def res_bind_Inr leaf_kind_def column_test_def kind_at_def split: column_type.splits)
qed

lemma compile_between_typed:
  assumes "indexed sch" "column_test (\<lambda>k. k \<noteq> TInt) sch e" "compile_between ext now sch e lo hi = Inr p"
  shows "pred_typed (map col_type (columns sch)) p"
proof (cases "if is_bare_column e then None else try_compile_num_expr ext now sch e")
  case (Some n)
  then show ?thesis
    using assms(3) num_expr_range [OF assms(1)] by (auto simp: compile_between_def res_bind_Inr split: if_splits)
next
  case None
  then obtain c where c: "resolve_column sch e = Inr c" using assms(3) by (auto simp: compile_between_def res_bind_Inr)
  then show ?thesis
    using None assms(2,3) resolve_range [OF assms(1) c]
    by (auto simp: compile_between_def res_bind_Inr leaf_kind_def column_test_def kind_at_def split: column_type.splits)
qed

lemma compile_matches_regex_typed:
  assumes "indexed sch" "filter_typed sch (EFunction f args)" "compile_matches_regex tx sch f args = Inr p"
  shows "pred_typed (map col_type (columns sch)) p"
  using assms(2,3) resolve_range [OF assms(1)]
  by (auto simp: compile_matches_regex_def res_bind_Inr leaf_kind_def column_test_def kind_at_def
      split: if_splits list.splits sql_arg.splits)

lemma compile_expr_typed:
  assumes "indexed sch" "filter_typed sch e" "compile_expr ext tx now sch e = Inr p"
  shows "pred_typed (map col_type (columns sch)) p"
  using assms
proof (induction ext tx now sch e arbitrary: p rule: compile_expr.induct)
  case (1 ext tx now sch l op r)
  then show ?case by (cases op) (auto simp: res_bind_Inr intro: compile_comparison_typed)
next
  case (2 ext tx now sch op e)
  then show ?case by (cases op) (auto simp: res_bind_Inr)
next
  case (9 ext tx now sch negated e pat)
  then show ?case using compile_like_typed [OF 9(1,2)] by (auto simp: res_bind_Inr negate_if_def)
next
  case (10 ext tx now sch e xs negated)
  then show ?case by (auto simp: res_bind_Inr negate_if_def intro: compile_in_list_typed)
next
  case (11 ext tx now sch e negated low high)
  then show ?case by (auto simp: res_bind_Inr negate_if_def intro: compile_between_typed)
next
  case (13 ext tx now sch f args)
  then show ?case using compile_matches_regex_typed [OF 13(1,2)] by simp
qed (auto simp: res_bind_Inr leaf_kind_def column_test_def kind_at_def dest: resolve_range)

section \<open>Properties\<close>

lemma f64_sub_self:
  assumes "\<not> f64_is_nan x" "\<not> f64_is_infinite x" shows "f64_sub x x = 0"
proof -
  have mag: "f64_mag (f64_minus x) = f64_mag x" and neg: "f64_neg (f64_minus x) = (\<not> f64_neg x)"
    by (simp_all add: f64_minus_def f64_signed_mag f64_signed_neg f64_mag_less)
  have "f64_mantissa (f64_minus x) = f64_mantissa x" "f64_exponent (f64_minus x) = f64_exponent x"
    by (simp_all add: f64_mantissa_def f64_exponent_def mag)
  then show ?thesis
    using assms mag neg by (simp add: f64_sub_def f64_add_def f64_is_infinite_def f64_to_scale_def Let_def f64_signed_def)
qed


lemma sample_indexed: "indexed sample_schema"
  by (simp add: indexed_def sample_schema_def schema_new_def Let_def All_less_Suc2 numeral_eq_Suc)

definition sample_filter :: sql_expr where
  "sample_filter = EBinary (EBinary (EIdent ''id'') (OpCmp CmpGe) (EUnary UMinus (EValue (SqlNumber ''3'')))) OpAnd
     (ELike False (EFunction ''lower'' [ArgExpr (EIdent ''name'')]) (EValue (SqlSingle ''A%'')))"


definition int_schema :: schema where
  "int_schema = the (schema_new [''a'', ''b''] [TLong, TInt])"

definition only_int_schema :: schema where
  "only_int_schema = the (schema_new [''b''] [TInt])"

definition one_row :: "schema \<Rightarrow> cq_value list \<Rightarrow> column_store" where
  "one_row sch vs = fst (the (append_row sample_externals (column_store_new sch 1) vs))"

definition int_filter :: sql_expr where
  "int_filter = EBinary (EIdent ''b'') (OpCmp CmpEq) (EValue (SqlNumber ''5''))"

text \<open>
  Comparisons on \<open>Int\<close> columns are compiled to leaves that read the array of \<open>Long\<close> columns.
  With the columns a (Long) and b (Int), the filter b = 5 reads column a: it accepts the row
  a = 5, b = 1. Without a \<open>Long\<close> column the evaluation panics on every row where b is not null.
\<close>

theorem int_column_filter_misreads:
  "compile_expr sample_externals sample_text 0 int_schema int_filter = Inr (EqLong 1 5) \<and>
   matches sample_text (one_row int_schema [VLong 5, VInt 1]) 0 (EqLong 1 5) = Some True \<and>
   compile_expr sample_externals sample_text 0 only_int_schema int_filter = Inr (EqLong 0 5) \<and>
   matches sample_text (one_row only_int_schema [VInt 5]) 0 (EqLong 0 5) = None"
proof (intro conjI)
  show "compile_expr sample_externals sample_text 0 int_schema int_filter = Inr (EqLong 1 5)" by code_simp
  show "matches sample_text (one_row int_schema [VLong 5, VInt 1]) 0 (EqLong 1 5) = Some True" by code_simp
  show "compile_expr sample_externals sample_text 0 only_int_schema int_filter = Inr (EqLong 0 5)" by code_simp
  show "matches sample_text (one_row only_int_schema [VInt 5]) 0 (EqLong 0 5) = None" by code_simp
qed

definition long_schema :: schema where
  "long_schema = the (schema_new [''a'', ''b''] [TLong, TLong])"

lemma one_row_ok:
  "store_ok (one_row sch vs)" "row_count (one_row sch vs) = 1" "cs_schema (one_row sch vs) = sch"
  "row_of (one_row sch vs) 0 = fresh_values sample_externals (map col_type (columns sch)) vs"
  using append_first_row [of 1 sample_externals sch vs] by (auto simp: one_row_def)

text \<open>
  A comparison of two \<open>Long\<close> columns is compiled to the sign of their difference as floats,
  so it equates numbers that differ: the filter a = b accepts a row whose two numbers have the
  same nearest \<open>f64\<close>, for instance 2^53 and 2^53 + 1.
\<close>

theorem column_equality_lossy:
  assumes "indexed (cs_schema s)" "index_of (cs_schema s) n = Some a" "index_of (cs_schema s) m = Some b"
    and "kind_at (cs_schema s) a = TLong" "kind_at (cs_schema s) b = TLong" "store_ok s" "r < row_count s"
    and "row_of s r ! a = VLong x" "row_of s r ! b = VLong y" "x \<noteq> NULL_LONG" "y \<noteq> NULL_LONG"
    and "f64_of_int (sint x) = f64_of_int (sint y)" "\<not> f64_is_nan (f64_of_int (sint x))" "\<not> f64_is_infinite (f64_of_int (sint x))"
  shows "\<exists>p. compile_expr ext tx now (cs_schema s) (EBinary (EIdent n) (OpCmp CmpEq) (EIdent m)) = Inr p \<and>
     matches tx s r p = Some True"
proof -
  let ?p = "CompareNum (NSub (NCol a) (NCol b)) CmpEq 0"
  have "compile_expr ext tx now (cs_schema s) (EBinary (EIdent n) (OpCmp CmpEq) (EIdent m)) = Inr ?p"
    using assms(2-5)
    by (simp add: compile_comparison_def extract_string_fn_target_def is_string_expr_function_def extract_length_target_def num_comparison_def)
  moreover have ab: "a < length (mappings s)" "b < length (mappings s)"
    using index_of_range [OF assms(1)] assms(2,3) store_ok_shape(1) [OF assms(6)] by (simp_all add: store_layout_def)
  have "matches tx s r ?p = Some True"
    using matches_3vl_row [OF assms(6), of r ?p tx] ab assms(7-14) store_ok_shape(3) [OF assms(6)] f64_sub_self [of "f64_of_int (sint x)"]
    by (simp add: matches_def unless_null_def cmp_apply_f64_def f64_eq_def tri_def f64_is_nan_def f64_mag_def)
  ultimately show ?thesis by blast
qed

theorem column_equality_lossy_witness:
  "\<exists>p. compile_expr sample_externals sample_text 0 long_schema (EBinary (EIdent ''a'') (OpCmp CmpEq) (EIdent ''b'')) = Inr p \<and>
     matches sample_text (one_row long_schema [VLong 9007199254740992, VLong 9007199254740993]) 0 p = Some True"
proof -
  let ?s = "one_row long_schema [VLong 9007199254740992, VLong 9007199254740993]"
  have sch: "columns long_schema = [\<lparr>col_name = ''a'', col_type = TLong, col_index = 0\<rparr>, \<lparr>col_name = ''b'', col_type = TLong, col_index = 1\<rparr>]"
    "indexed long_schema" "index_of long_schema ''a'' = Some 0" "index_of long_schema ''b'' = Some 1"
    by (simp_all add: long_schema_def schema_new_def Let_def indexed_def index_of_def index_columns_def All_less_Suc2 numeral_eq_Suc)
  have row: "row_of ?s 0 = [VLong 9007199254740992, VLong 9007199254740993]"
    by (simp add: one_row_ok sch fresh_values_def overlay_def cell_after_def upt_rec)
  have f: "f64_of_int 9007199254740992 = 0x4340000000000000" "f64_of_int 9007199254740993 = 0x4340000000000000"
    by (simp_all add: f64_of_int_def f64_of_nat_def ilog2.simps)
  show ?thesis
    using column_equality_lossy [of ?s "''a''" 0 "''b''" 1 0 9007199254740992 9007199254740993 sample_externals sample_text 0]
    by (simp add: one_row_ok(1-3) sch row f kind_at_def i64_min_def f64_is_nan_def f64_is_infinite_def f64_mag_def)
qed

end
