(* ===== verification/CQ_Txlog.thy ===== *)
theory CQ_Txlog
  imports CQ_Prelude
begin

text \<open>
  The transaction log (\<open>crates/cq-txlog/src\<close>): checksummed, length-prefixed entries
  (\<open>lib.rs\<close>, \<open>writer.rs\<close>), segment files and their names (\<open>segment.rs\<close>), the writer that
  rotates from one segment to the next and the reader that replays them (\<open>reader.rs\<close>). A log
  directory is the list of its segment files, id and bytes, in id order. The checksum function
  of \<open>crc32fast\<close> is an argument; compression of archived segments, block reservation and
  \<open>fsync\<close> do not change what a file holds and are left out.

  Shown here: whatever is appended is read back, in order, across rotations and the archive; a
  log cut anywhere inside its last entry loses only that entry; what happens to keys longer
  than the length field, to sequence numbers that look like a format marker, and to appends
  behind a torn entry.
\<close>

section \<open>Entries\<close>

datatype payload_format = PJson | PJsonDelta

record tx_entry =
  tx_sequence :: nat
  tx_timestamp_ms :: nat
  tx_topic :: string
  tx_key :: string
  tx_origin :: string
  tx_payload :: string
  tx_format :: payload_format

definition is_tombstone :: "tx_entry \<Rightarrow> bool" where "is_tombstone e \<longleftrightarrow> tx_payload e = []"

datatype tx_log_error =
    TxIo
  | ChecksumMismatch nat
  | EntryTooLarge nat nat
  | TopicTooLong nat
  | OriginTooLong nat
  | TxUtf8 nat

definition MAX_ENTRY_SIZE :: nat where "MAX_ENTRY_SIZE = 16 * 1024 * 1024"
definition MAX_TOPIC_LEN :: nat where "MAX_TOPIC_LEN = 1024"
definition MAX_ORIGIN_LEN :: nat where "MAX_ORIGIN_LEN = 256"
definition TXLOG_FORMAT_V2 :: char where "TXLOG_FORMAT_V2 = CHR 0x01"
definition TXLOG_FORMAT_V2_DELTA :: char where "TXLOG_FORMAT_V2_DELTA = CHR 0x03"

text \<open>\<open>to_be_bytes\<close> of an unsigned integer of \<open>k\<close> bytes, after the cast to that width, and \<open>from_be_bytes\<close>.\<close>

fun be_bytes :: "nat \<Rightarrow> nat \<Rightarrow> string" where
  "be_bytes 0 n = []"
| "be_bytes (Suc k) n = be_bytes k (n div 256) @ [char_of n]"

definition be_nat :: "string \<Rightarrow> nat" where
  "be_nat bs = foldl (\<lambda>a c. a * 256 + of_char c) 0 bs"

text \<open>\<open>str::from_utf8\<close> accepts exactly the well-formed byte sequences of the Unicode standard.\<close>

definition byte_in :: "nat \<Rightarrow> nat \<Rightarrow> char \<Rightarrow> bool" where
  "byte_in lo hi c \<longleftrightarrow> lo \<le> of_char c \<and> of_char c \<le> hi"

abbreviation is_cont :: "char \<Rightarrow> bool" where "is_cont \<equiv> byte_in 128 191"

fun utf8_valid :: "string \<Rightarrow> bool" where
  "utf8_valid [] = True"
| "utf8_valid (a # bs) =
     (if byte_in 0 127 a then utf8_valid bs
      else if byte_in 194 223 a then (case bs of b # r \<Rightarrow> is_cont b \<and> utf8_valid r | _ \<Rightarrow> False)
      else if byte_in 224 239 a then
        (case bs of b # c # r \<Rightarrow>
           (if a = CHR 0xE0 then byte_in 160 191 b else if a = CHR 0xED then byte_in 128 159 b else is_cont b) \<and>
           is_cont c \<and> utf8_valid r
         | _ \<Rightarrow> False)
      else if byte_in 240 244 a then
        (case bs of b # c # d # r \<Rightarrow>
           (if a = CHR 0xF0 then byte_in 144 191 b else if a = CHR 0xF4 then byte_in 128 143 b else is_cont b) \<and>
           is_cont c \<and> is_cont d \<and> utf8_valid r
         | _ \<Rightarrow> False)
      else False)"

section \<open>Writing an entry\<close>

definition entry_v2 :: "tx_entry \<Rightarrow> bool" where
  "entry_v2 e \<longleftrightarrow> tx_format e = PJsonDelta \<or> tx_origin e \<noteq> []"

definition entry_body :: "tx_entry \<Rightarrow> string" where
  "entry_body e =
     (if entry_v2 e then [if tx_format e = PJsonDelta then TXLOG_FORMAT_V2_DELTA else TXLOG_FORMAT_V2] else []) @
     be_bytes 8 (tx_sequence e) @ be_bytes 8 (tx_timestamp_ms e) @
     be_bytes 2 (length (tx_topic e)) @ tx_topic e @
     be_bytes 2 (length (tx_key e)) @ tx_key e @
     (if entry_v2 e then be_bytes 2 (length (tx_origin e)) @ tx_origin e else []) @
     tx_payload e"

definition entry_frame :: "(string \<Rightarrow> u32) \<Rightarrow> tx_entry \<Rightarrow> string" where
  "entry_frame crc e =
     (let body = entry_body e in be_bytes 4 (length body) @ be_bytes 4 (unat (crc body)) @ body)"

section \<open>Segment files\<close>

definition segment_name :: "nat \<Rightarrow> string" where
  "segment_name n = replicate (8 - length (show_nat n)) (CHR ''0'') @ show_nat n @ ''.log''"

definition strip_suffix :: "string \<Rightarrow> string \<Rightarrow> string option" where
  "strip_suffix suf s =
     (if length suf \<le> length s \<and> drop (length s - length suf) s = suf
      then Some (take (length s - length suf) s) else None)"

text \<open>\<open>rsplit_once('.')\<close>: what is before and after the last dot.\<close>

definition rsplit_dot :: "string \<Rightarrow> (string \<times> string) option" where
  "rsplit_dot s =
     (if CHR ''.'' \<in> set s
      then let after = rev (takeWhile (\<lambda>c. c \<noteq> CHR ''.'') (rev s))
           in Some (take (length s - length after - 1) s, after)
      else None)"

definition parse_segment_id :: "string \<Rightarrow> nat option" where
  "parse_segment_id s =
     (case rsplit_dot (case strip_suffix ''.zst'' s of Some t \<Rightarrow> t | None \<Rightarrow> s) of
        None \<Rightarrow> None
      | Some (stem, ext) \<Rightarrow>
          if ext \<noteq> ''log'' then None
          else if stem = [] \<or> \<not> list_all (\<lambda>c. char_digit c \<noteq> None) stem then None
          else map_option nat (parse_int_range 0 (2 ^ 64 - 1) stem))"

type_synonym segment_files = "(nat \<times> string) list"

text \<open>The segment files among the named files of a directory, in id order.\<close>

definition list_segments :: "(string \<times> string) list \<Rightarrow> segment_files" where
  "list_segments dir =
     sort_key fst (List.map_filter (\<lambda>(n, c). map_option (\<lambda>i. (i, c)) (parse_segment_id n)) dir)"

section \<open>The writer\<close>

record tx_writer =
  tw_live :: segment_files
  tw_archive :: "segment_files option"
  tw_segment_size :: nat
  tw_current_id :: nat
  tw_current_bytes :: nat
  tw_entries_written :: nat
  tw_max_sequence :: nat

text \<open>Appending bytes to the file of a segment.\<close>

definition append_file :: "nat \<Rightarrow> string \<Rightarrow> segment_files \<Rightarrow> segment_files" where
  "append_file sid bs fs = map (\<lambda>(i, c). if i = sid then (i, c @ bs) else (i, c)) fs"

text \<open>
  Sealing the active segment: the next file must not exist yet (\<open>create_new\<close>); with an archive
  the sealed file moves there, over a file of the same name.
\<close>

definition tx_rotate :: "tx_writer \<Rightarrow> tx_log_error option \<times> tx_writer" where
  "tx_rotate w =
     (let sealed = tw_current_id w; nxt = tw_current_id w + 1 in
      if map_of (tw_live w) nxt \<noteq> None then (Some TxIo, w)
      else let w1 = w\<lparr>tw_live := tw_live w @ [(nxt, [])], tw_current_id := nxt, tw_current_bytes := 0\<rparr>
           in case (tw_archive w, map_of (tw_live w) sealed) of
                (Some ar, Some c) \<Rightarrow>
                  (None, w1\<lparr>tw_live := AList.delete sealed (tw_live w1), tw_archive := Some (btree_insert sealed c ar)\<rparr>)
              | (Some ar, None) \<Rightarrow> (Some TxIo, w1)
              | (None, _) \<Rightarrow> (None, w1))"

text \<open>
  An append. \<open>torn\<close> says what the write does: \<open>None\<close>, all bytes reach the file; \<open>Some n\<close>, the
  first \<open>n\<close> do and the write fails. A failed write leaves the counters as they were.
\<close>

definition append_with_origin_format ::
  "(string \<Rightarrow> u32) \<Rightarrow> nat option \<Rightarrow> tx_writer \<Rightarrow> tx_entry \<Rightarrow> (tx_log_error option) \<times> tx_writer" where
  "append_with_origin_format crc torn w e =
     (if MAX_TOPIC_LEN < length (tx_topic e) then (Some (TopicTooLong (length (tx_topic e))), w)
      else if MAX_ORIGIN_LEN < length (tx_origin e) then (Some (OriginTooLong (length (tx_origin e))), w)
      else let body_len = length (entry_body e) in
      if MAX_ENTRY_SIZE < body_len then (Some (EntryTooLarge (tw_current_bytes w) body_len), w)
      else case (if 0 < tw_current_bytes w \<and> tw_segment_size w < tw_current_bytes w + (4 + 4 + body_len)
                 then tx_rotate w else (None, w)) of
             (Some err, v) \<Rightarrow> (Some err, v)
           | (None, v) \<Rightarrow>
               let frame = entry_frame crc e in
               case torn of
                 Some n \<Rightarrow> (Some TxIo, v\<lparr>tw_live := append_file (tw_current_id v) (take n frame) (tw_live v)\<rparr>)
               | None \<Rightarrow>
                   (None, v\<lparr>tw_live := append_file (tw_current_id v) frame (tw_live v),
                            tw_current_bytes := tw_current_bytes v + length frame,
                            tw_entries_written := tw_entries_written v + 1,
                            tw_max_sequence := max (tw_max_sequence v) (tx_sequence e)\<rparr>))"

definition tx_prune_segments_below :: "nat \<Rightarrow> tx_writer \<Rightarrow> nat \<times> tx_writer" where
  "tx_prune_segments_below cutoff w =
     (let c = min cutoff (tw_current_id w)
      in (length (filter (\<lambda>(i, _). i < c) (tw_live w)),
          w\<lparr>tw_live := filter (\<lambda>(i, _). \<not> i < c) (tw_live w)\<rparr>))"

section \<open>The reader\<close>

text \<open>\<open>take(cur, n)\<close>: the next \<open>n\<close> bytes of the body and what is behind them.\<close>

definition take_bytes :: "nat \<Rightarrow> nat \<Rightarrow> string \<Rightarrow> tx_log_error + string \<times> string" where
  "take_bytes offset n bs = (if length bs < n then Inl (ChecksumMismatch offset) else Inr (take n bs, drop n bs))"

text \<open>A string with its length in front, which must be valid UTF-8.\<close>

definition take_str :: "nat \<Rightarrow> string \<Rightarrow> tx_log_error + string \<times> string" where
  "take_str offset bs =
     res_bind (take_bytes offset 2 bs) (\<lambda>(l, r1).
     res_bind (take_bytes offset (be_nat l) r1) (\<lambda>(s, r2).
       if utf8_valid s then Inr (s, r2) else Inl (TxUtf8 offset)))"

definition parse_body :: "nat \<Rightarrow> string \<Rightarrow> tx_log_error + tx_entry" where
  "parse_body offset body =
     (let marker = (case body of [] \<Rightarrow> None | c # _ \<Rightarrow> Some c);
          delta = (marker = Some TXLOG_FORMAT_V2_DELTA);
          v2 = (delta \<or> marker = Some TXLOG_FORMAT_V2)
      in res_bind (take_bytes offset 8 (if v2 then drop 1 body else body)) (\<lambda>(sq, r1).
         res_bind (take_bytes offset 8 r1) (\<lambda>(ts, r2).
         res_bind (take_str offset r2) (\<lambda>(topic, r3).
         res_bind (take_str offset r3) (\<lambda>(key, r4).
         res_bind (if v2 then take_str offset r4 else Inr ([], r4)) (\<lambda>(origin, r5).
           Inr \<lparr>tx_sequence = be_nat sq, tx_timestamp_ms = be_nat ts, tx_topic = topic, tx_key = key,
                tx_origin = origin, tx_payload = r5,
                tx_format = (if delta then PJsonDelta else PJson)\<rparr>))))))"

text \<open>
  One entry of a segment: \<open>None\<close> at the end of the file or of its readable part, otherwise the
  entry and the bytes behind it. Only the active segment may end in the middle of an entry.
\<close>

definition seg_read_next ::
  "(string \<Rightarrow> u32) \<Rightarrow> bool \<Rightarrow> nat \<Rightarrow> string \<Rightarrow> tx_log_error + (tx_entry \<times> string) option" where
  "seg_read_next crc active offset bs =
     (if bs = [] then Inr None
      else if length bs < 8 then (if active then Inr None else Inl (ChecksumMismatch offset))
      else let frame_len = be_nat (take 4 bs); expected = be_nat (take 4 (drop 4 bs)); rest = drop 8 bs in
      if MAX_ENTRY_SIZE < frame_len then (if active then Inr None else Inl (EntryTooLarge offset frame_len))
      else if frame_len = 0 then (if active then Inr None else Inl (ChecksumMismatch offset))
      else if length rest < frame_len then (if active then Inr None else Inl (ChecksumMismatch offset))
      else if unat (crc (take frame_len rest)) \<noteq> expected then Inl (ChecksumMismatch offset)
      else res_bind (parse_body offset (take frame_len rest)) (\<lambda>e. Inr (Some (e, drop frame_len rest))))"

lemma seg_read_next_shrinks: "seg_read_next crc active offset bs = Inr (Some (e, r)) \<Longrightarrow> length r < length bs"
  by (auto simp: seg_read_next_def Let_def res_bind_Inr split: if_splits)

function seg_read_all :: "(string \<Rightarrow> u32) \<Rightarrow> bool \<Rightarrow> nat \<Rightarrow> string \<Rightarrow> tx_log_error + tx_entry list" where
  "seg_read_all crc active offset bs =
     (case seg_read_next crc active offset bs of
        Inl err \<Rightarrow> Inl err
      | Inr None \<Rightarrow> Inr []
      | Inr (Some (e, r)) \<Rightarrow>
          res_bind (seg_read_all crc active (offset + (length bs - length r)) r) (\<lambda>es. Inr (e # es)))"
  by pat_completeness auto
termination
  by (relation "measure (\<lambda>(_, _, _, bs). length bs)") (auto dest: seg_read_next_shrinks)

declare seg_read_all.simps [simp del]

text \<open>The segments of a directory and its archive, by id; a live file wins.\<close>

definition reader_segments :: "segment_files \<Rightarrow> segment_files option \<Rightarrow> segment_files" where
  "reader_segments live archive =
     fold (\<lambda>(i, c). btree_insert i c) live
       (fold (\<lambda>(i, c). btree_insert i c) (case archive of Some ar \<Rightarrow> ar | None \<Rightarrow> []) [])"

definition skip_to_segment :: "nat \<Rightarrow> segment_files \<Rightarrow> segment_files" where
  "skip_to_segment n fs = dropWhile (\<lambda>(i, _). i < n) fs"

fun read_segments :: "(string \<Rightarrow> u32) \<Rightarrow> segment_files \<Rightarrow> tx_log_error + tx_entry list" where
  "read_segments crc [] = Inr []"
| "read_segments crc ((_, bs) # rest) =
     res_bind (seg_read_all crc (rest = []) 0 bs) (\<lambda>es.
     res_bind (read_segments crc rest) (\<lambda>es'. Inr (es @ es')))"

definition read_all :: "(string \<Rightarrow> u32) \<Rightarrow> segment_files \<Rightarrow> segment_files option \<Rightarrow> tx_log_error + tx_entry list" where
  "read_all crc live archive = read_segments crc (reader_segments live archive)"

text \<open>
  Opening a directory: the active segment is the last one, and the highest sequence is looked
  for backwards, in the newest segment that holds an entry.
\<close>

fun newest_sequence :: "(string \<Rightarrow> u32) \<Rightarrow> segment_files \<Rightarrow> tx_log_error + nat" where
  "newest_sequence crc [] = Inr 0"
| "newest_sequence crc ((_, bs) # older) =
     res_bind (seg_read_all crc True 0 bs) (\<lambda>es.
       if es = [] then newest_sequence crc older
       else Inr (fold (\<lambda>e m. if m < tx_sequence e then tx_sequence e else m) es 0))"

definition tx_open :: "(string \<Rightarrow> u32) \<Rightarrow> nat \<Rightarrow> segment_files \<Rightarrow> segment_files option \<Rightarrow> tx_log_error + tx_writer" where
  "tx_open crc segment_size live archive =
     (if live = [] then
        Inr \<lparr>tw_live = [(1, [])], tw_archive = archive, tw_segment_size = segment_size, tw_current_id = 1,
             tw_current_bytes = 0, tw_entries_written = 0, tw_max_sequence = 0\<rparr>
      else res_bind (newest_sequence crc (rev live)) (\<lambda>m.
        Inr \<lparr>tw_live = live, tw_archive = archive, tw_segment_size = segment_size,
             tw_current_id = fst (last live), tw_current_bytes = length (snd (last live)),
             tw_entries_written = 0, tw_max_sequence = m\<rparr>))"


section \<open>An entry survives the way to disk\<close>

lemma length_be_bytes [simp]: "length (be_bytes k n) = k"
  by (induction k arbitrary: n) simp_all

lemma be_nat_snoc: "be_nat (bs @ [c]) = be_nat bs * 256 + of_char c"
  by (simp add: be_nat_def)

lemma be_nat_be_bytes: "be_nat (be_bytes k n) = n mod 256 ^ k"
proof (induction k arbitrary: n)
  case 0
  then show ?case by (simp add: be_nat_def)
next
  case (Suc k)
  have "n mod 256 ^ Suc k = 256 * (n div 256 mod 256 ^ k) + n mod 256"
    by (simp add: mod_mult2_eq)
  then show ?case by (simp add: be_nat_snoc Suc)
qed

lemma take_bytes_append: "length a = n \<Longrightarrow> take_bytes off n (a @ r) = Inr (a, r)"
  by (auto simp: take_bytes_def)

lemma take_str_append:
  "length s < 65536 \<Longrightarrow> utf8_valid s \<Longrightarrow> take_str off (be_bytes 2 (length s) @ s @ r) = Inr (s, r)"
  by (simp add: take_str_def take_bytes_append be_nat_be_bytes)

lemma be_bytes_hd: "be_bytes (Suc k) n = char_of (n div 256 ^ k) # be_bytes k n"
proof (induction k arbitrary: n)
  case 0
  then show ?case by simp
next
  case (Suc k)
  have "be_bytes (Suc (Suc k)) n = be_bytes (Suc k) (n div 256) @ [char_of n]" by simp
  also have "\<dots> = char_of (n div 256 div 256 ^ k) # be_bytes k (n div 256) @ [char_of n]"
    by (simp only: Suc append_Cons)
  finally show ?case by (simp add: div_mult2_eq)
qed

text \<open>
  The entries the format can hold: lengths and numbers that fit their fields and, for the
  layout without a marker, a sequence number whose first byte is zero.
\<close>

definition entry_ok :: "tx_entry \<Rightarrow> bool" where
  "entry_ok e \<longleftrightarrow>
     tx_sequence e < 2 ^ 56 \<and> tx_timestamp_ms e < 2 ^ 64 \<and>
     utf8_valid (tx_topic e) \<and> utf8_valid (tx_key e) \<and> utf8_valid (tx_origin e) \<and>
     length (tx_topic e) \<le> MAX_TOPIC_LEN \<and> length (tx_key e) < 65536 \<and> length (tx_origin e) \<le> MAX_ORIGIN_LEN \<and>
     length (entry_body e) \<le> MAX_ENTRY_SIZE"

lemma parse_entry_body:
  assumes "entry_ok e" shows "parse_body off (entry_body e) = Inr e"
proof -
  have sizes: "length (tx_topic e) < 65536" "length (tx_key e) < 65536" "length (tx_origin e) < 65536"
    "be_nat (be_bytes 8 (tx_sequence e)) = tx_sequence e" "be_nat (be_bytes 8 (tx_timestamp_ms e)) = tx_timestamp_ms e"
    using assms by (auto simp: entry_ok_def MAX_TOPIC_LEN_def MAX_ORIGIN_LEN_def be_nat_be_bytes)
  have utf8: "utf8_valid (tx_topic e)" "utf8_valid (tx_key e)" "utf8_valid (tx_origin e)"
    using assms by (auto simp: entry_ok_def)
  note read = take_bytes_append take_str_append [OF sizes(1) utf8(1)] take_str_append [OF sizes(2) utf8(2)]
    take_str_append [OF sizes(3) utf8(3)] sizes(4,5)
  show ?thesis
  proof (cases "entry_v2 e")
    case True
    then show ?thesis
      by (cases "tx_format e")
        (auto simp: parse_body_def entry_body_def read TXLOG_FORMAT_V2_def TXLOG_FORMAT_V2_DELTA_def Let_def)
  next
    case False
    then have e: "tx_format e = PJson" "tx_origin e = []" by (cases "tx_format e"; simp add: entry_v2_def)+
    have "tx_sequence e div 256 ^ 7 = 0" using assms by (simp add: entry_ok_def)
    moreover have "Suc 7 = 8" by simp
    ultimately have "be_bytes 8 (tx_sequence e) = char_of (0 :: nat) # be_bytes 7 (tx_sequence e)"
      using be_bytes_hd [of 7 "tx_sequence e"] by argo
    then have "be_bytes 8 (tx_sequence e) = CHR 0x00 # be_bytes 7 (tx_sequence e)"
      by (simp add: char_of_def)
    then have m: "(case entry_body e of [] \<Rightarrow> None | c # _ \<Rightarrow> Some c) = Some (CHR 0x00)"
      using False by (simp add: entry_body_def)
    show ?thesis using False e unfolding parse_body_def m Let_def
      by (simp add: TXLOG_FORMAT_V2_def TXLOG_FORMAT_V2_DELTA_def entry_body_def read)
  qed
qed

lemma entry_body_length: "20 \<le> length (entry_body e)"
  by (simp add: entry_body_def)

lemma length_entry_frame: "length (entry_frame crc e) = 8 + length (entry_body e)"
  by (simp add: entry_frame_def Let_def)

lemma unat_u32_mod: "unat (x :: u32) mod 4294967296 = unat x"
  using unsigned_less [of x, where 'a = nat] by simp

lemma seg_read_next_frame:
  assumes "entry_ok e"
  shows "seg_read_next crc active off (entry_frame crc e @ r) = Inr (Some (e, r))"
proof -
  have "length (entry_body e) \<le> MAX_ENTRY_SIZE" using assms by (simp add: entry_ok_def)
  moreover from this have "length (entry_body e) mod 256 ^ 4 = length (entry_body e)" by (simp add: MAX_ENTRY_SIZE_def)
  ultimately show ?thesis using entry_body_length [of e] parse_entry_body [OF assms, of off]
    by (auto simp: seg_read_next_def entry_frame_def Let_def be_nat_be_bytes unat_u32_mod)
qed

definition log_bytes :: "(string \<Rightarrow> u32) \<Rightarrow> tx_entry list \<Rightarrow> string" where
  "log_bytes crc es = concat (map (entry_frame crc) es)"

lemma log_bytes_snoc: "log_bytes crc (es @ [e]) = log_bytes crc es @ entry_frame crc e"
  by (simp add: log_bytes_def)

lemma seg_read_all_frame:
  assumes "entry_ok e"
  shows "seg_read_all crc active off (entry_frame crc e @ r) =
     res_bind (seg_read_all crc active (off + length (entry_frame crc e)) r) (\<lambda>es. Inr (e # es))"
  by (subst seg_read_all.simps) (simp add: seg_read_next_frame [OF assms])

text \<open>Entries in front of a rest \<open>r\<close> are read, then the reader goes on with \<open>r\<close>.\<close>

lemma seg_read_all_log:
  assumes "\<forall>e \<in> set es. entry_ok e"
  shows "seg_read_all crc active off (log_bytes crc es @ r) =
     res_bind (seg_read_all crc active (off + length (log_bytes crc es)) r) (\<lambda>fs. Inr (es @ fs))"
  using assms
proof (induction es arbitrary: off)
  case Nil
  then show ?case by (cases "seg_read_all crc active off r") (simp_all add: log_bytes_def)
next
  case (Cons e es)
  have "log_bytes crc (e # es) = entry_frame crc e @ log_bytes crc es" by (simp add: log_bytes_def)
  then show ?case
    using Cons.IH [of "off + length (entry_frame crc e)"] Cons.prems
    by (cases "seg_read_all crc active (off + length (entry_frame crc e) + length (log_bytes crc es)) r")
      (simp_all add: seg_read_all_frame add.assoc)
qed

lemma seg_read_all_Nil [simp]: "seg_read_all crc active off [] = Inr []"
  by (subst seg_read_all.simps) (simp add: seg_read_next_def)

lemma seg_read_log: "\<forall>e \<in> set es. entry_ok e \<Longrightarrow> seg_read_all crc active off (log_bytes crc es) = Inr es"
  using seg_read_all_log [of es crc active off "[]"] by simp

text \<open>A frame cut short: the active segment ends there, whatever the bytes behind the header say.\<close>

lemma seg_read_next_torn:
  assumes "entry_ok e" "n < length (entry_frame crc e)"
    and "length (take n (entry_frame crc e) @ r) < length (entry_frame crc e)" "8 \<le> n \<or> r = []"
  shows "seg_read_next crc True off (take n (entry_frame crc e) @ r) = Inr None"
proof (cases "8 \<le> n")
  case True
  have small: "length (entry_body e) mod 256 ^ 4 = length (entry_body e)" "length (entry_body e) \<le> MAX_ENTRY_SIZE"
    using assms(1) by (simp_all add: entry_ok_def MAX_ENTRY_SIZE_def)
  have "take n (entry_frame crc e) = be_bytes 4 (length (entry_body e)) @ be_bytes 4 (unat (crc (entry_body e))) @
      take (n - 8) (entry_body e)"
    using True by (simp add: entry_frame_def Let_def take_append)
  moreover have "length (take (n - 8) (entry_body e) @ r) < length (entry_body e)"
    using assms True by (simp add: length_entry_frame)
  ultimately show ?thesis using small entry_body_length [of e]
    by (auto simp: seg_read_next_def Let_def be_nat_be_bytes)
next
  case False
  then have "length (take n (entry_frame crc e)) < 8" by simp
  then show ?thesis using False assms(4) by (simp add: seg_read_next_def)
qed


section \<open>File names\<close>

lemma parse_padded_nat: "parse_digits 0 (replicate k (CHR ''0'') @ ds) = parse_digits 0 ds"
proof (induction k)
  case 0
  then show ?case by simp
next
  case (Suc k)
  have "char_digit (CHR ''0'') = Some 0" by (simp add: char_digit_def)
  then show ?case using Suc by simp
qed

lemma parse_segment_name: "n < 2 ^ 64 \<Longrightarrow> parse_segment_id (segment_name n) = Some n"
proof -
  assume n: "n < 2 ^ 64"
  define stem where "stem = replicate (8 - length (show_nat n)) (CHR ''0'') @ show_nat n"
  have name: "segment_name n = stem @ ''.log''" by (simp add: segment_name_def stem_def)
  have digits: "48 \<le> (of_char c :: nat) \<and> (of_char c :: nat) \<le> 57" if "c \<in> set stem" for c
    using that show_nat_chars by (fastforce simp: stem_def)
  then have "list_all (\<lambda>c. char_digit c \<noteq> None) stem" by (auto simp: list_all_iff char_digit_def Let_def)
  moreover have "stem \<noteq> []" by (simp add: stem_def)
  moreover have "parse_int_range 0 (2 ^ 64 - 1) stem = Some (int n)"
  proof -
    obtain c cs where cs: "stem = c # cs" using \<open>stem \<noteq> []\<close> by (cases stem) auto
    then have "c \<noteq> CHR ''+''" using digits [of c] by auto
    moreover have "parse_nat stem = Some n" using \<open>stem \<noteq> []\<close> unfolding parse_nat_def
      by (simp add: stem_def parse_padded_nat parse_digits_show_nat)
    ultimately show ?thesis using n cs by (simp add: parse_int_range_def)
  qed
  moreover have "strip_suffix ''.zst'' (segment_name n) = None" by (simp add: strip_suffix_def name)
  moreover have "rsplit_dot (segment_name n) = Some (stem, ''log'')" by (simp add: rsplit_dot_def name Let_def)
  ultimately show ?thesis by (simp add: parse_segment_id_def)
qed

lemma list_segments_names:
  assumes "sorted_wrt (<) (map fst fs)" "\<forall>(i, c) \<in> set fs. i < 2 ^ 64"
  shows "list_segments (map (\<lambda>(i, c). (segment_name i, c)) fs) = fs"
proof -
  have "List.map_filter (\<lambda>(n, c). map_option (\<lambda>i. (i, c)) (parse_segment_id n)) (map (\<lambda>(i, c). (segment_name i, c)) fs) = fs"
    using assms(2) by (induction fs) (auto simp: map_filter_simps parse_segment_name)
  moreover have "sorted (map fst fs)" using assms(1) strict_sorted_imp_sorted by blast
  ultimately show ?thesis by (simp add: list_segments_def sorted_sort_id sort_key_id_if_sorted)
qed

section \<open>The writer keeps a readable log\<close>

abbreviation archive_files :: "segment_files option \<Rightarrow> segment_files" where
  "archive_files ar \<equiv> (case ar of Some fs \<Rightarrow> fs | None \<Rightarrow> [])"

definition all_files :: "tx_writer \<Rightarrow> segment_files" where
  "all_files w = archive_files (tw_archive w) @ tw_live w"

definition holds :: "(string \<Rightarrow> u32) \<Rightarrow> tx_entry list list \<Rightarrow> segment_files \<Rightarrow> bool" where
  "holds crc ess fs \<longleftrightarrow> map snd fs = map (log_bytes crc) ess"

text \<open>
  The files of the writer hold the entries \<open>es\<close>: ids ascend, the active segment is the last live
  one, and with an archive it is the only live one.
\<close>

definition writer_ok :: "(string \<Rightarrow> u32) \<Rightarrow> tx_entry list \<Rightarrow> tx_writer \<Rightarrow> bool" where
  "writer_ok crc es w \<longleftrightarrow>
     sorted_wrt (<) (map fst (all_files w)) \<and>
     (\<exists>pre c. tw_live w = pre @ [(tw_current_id w, c)] \<and> length c = tw_current_bytes w \<and>
        (tw_archive w \<noteq> None \<longrightarrow> pre = [])) \<and>
     (\<exists>ess. holds crc ess (all_files w) \<and> concat ess = es)"

lemma fold_btree_insert_sorted:
  fixes fs :: "('k::linorder \<times> 'v) list"
  shows "sorted_wrt (<) (map fst (acc @ fs)) \<Longrightarrow> fold (\<lambda>(k, v). btree_insert k v) fs acc = acc @ fs"
proof (induction fs arbitrary: acc)
  case Nil
  then show ?case by simp
next
  case (Cons f fs)
  obtain k v where f: "f = (k, v)" by force
  have "\<forall>x \<in> set (map fst acc). x < k" using Cons.prems f by (auto simp: sorted_wrt_append)
  then have "btree_insert k v acc = acc @ [(k, v)]" by (induction acc) auto
  then show ?case using Cons.IH [of "acc @ [f]"] Cons.prems f by simp
qed

lemma reader_segments_all:
  assumes "sorted_wrt (<) (map fst (archive_files ar @ live))"
  shows "reader_segments live ar = archive_files ar @ live"
proof -
  have "fold (\<lambda>(i, c). btree_insert i c) (archive_files ar) [] = [] @ archive_files ar"
    by (rule fold_btree_insert_sorted) (use assms in \<open>simp add: sorted_wrt_append\<close>)
  then show ?thesis using assms by (simp add: reader_segments_def fold_btree_insert_sorted)
qed

lemma read_segments_holds:
  "holds crc ess fs \<Longrightarrow> \<forall>e \<in> set (concat ess). entry_ok e \<Longrightarrow> read_segments crc fs = Inr (concat ess)"
proof (induction fs arbitrary: ess)
  case Nil
  then show ?case by (simp add: holds_def)
next
  case (Cons f fs)
  obtain es ess' where ess: "ess = es # ess'" using Cons.prems by (cases ess) (auto simp: holds_def)
  moreover have "read_segments crc fs = Inr (concat ess')"
    using Cons.IH [of ess'] Cons.prems ess by (simp add: holds_def)
  ultimately show ?case using Cons.prems by (cases f) (simp add: holds_def seg_read_log)
qed

lemma read_all_ok:
  assumes "writer_ok crc es w" "\<forall>e \<in> set es. entry_ok e"
  shows "read_all crc (tw_live w) (tw_archive w) = Inr es"
  using assms read_segments_holds [of crc _ "all_files w"] reader_segments_all [of "tw_archive w" "tw_live w"]
  unfolding writer_ok_def read_all_def all_files_def by metis

lemma holds_snoc: "holds crc (ess @ [es]) (fs @ [(i, c)]) \<longleftrightarrow> holds crc ess fs \<and> c = log_bytes crc es"
  by (auto simp: holds_def)

lemma holds_snocE:
  assumes "holds crc ess (fs @ [(i, c)])"
  obtains ess' es where "ess = ess' @ [es]" "holds crc ess' fs" "c = log_bytes crc es"
  using assms by (cases ess rule: rev_cases) (auto simp: holds_def)

lemma append_file_last:
  "sorted_wrt (<) (map fst (pre @ [(i, c)])) \<Longrightarrow> append_file i bs (pre @ [(i, c)]) = pre @ [(i, c @ bs)]"
  by (auto simp: append_file_def sorted_wrt_append intro!: map_idI)

lemma map_of_last:
  fixes i :: nat
  assumes "sorted_wrt (<) (map fst (pre @ [(i, c)]))"
  shows "map_of (pre @ [(i, c)]) i = Some c" "i < j \<Longrightarrow> map_of (pre @ [(i, c)]) j = None"
proof -
  have "\<forall>x \<in> fst ` set pre. x < i" using assms by (auto simp: sorted_wrt_append)
  then have "map_of pre i = None" "i < j \<Longrightarrow> map_of pre j = None" by (force simp: map_of_eq_None_iff)+
  then show "map_of (pre @ [(i, c)]) i = Some c" "i < j \<Longrightarrow> map_of (pre @ [(i, c)]) j = None"
    by (auto simp: map_add_def)
qed

lemma tx_rotate_ok:
  assumes "writer_ok crc es w"
  obtains v where "tx_rotate w = (None, v)" "writer_ok crc es v"
    "tw_entries_written v = tw_entries_written w" "tw_max_sequence v = tw_max_sequence w"
    "tw_segment_size v = tw_segment_size w" "tw_archive v = None \<longleftrightarrow> tw_archive w = None"
    "all_files v = all_files w @ [(Suc (tw_current_id w), [])]" "tw_current_id v = Suc (tw_current_id w)"
proof -
  obtain pre c where live: "tw_live w = pre @ [(tw_current_id w, c)]" "tw_archive w \<noteq> None \<longrightarrow> pre = []"
    and sorted: "sorted_wrt (<) (map fst (all_files w))"
    using assms by (auto simp: writer_ok_def)
  obtain ess where ess: "holds crc ess (all_files w)" "concat ess = es" using assms by (auto simp: writer_ok_def)
  have sl: "sorted_wrt (<) (map fst (pre @ [(tw_current_id w, c)]))"
    using sorted live by (simp add: all_files_def sorted_wrt_append)
  have h: "holds crc (ess @ [[]]) (all_files w @ [(Suc (tw_current_id w), [])])"
    using ess by (simp add: holds_snoc log_bytes_def)
  have s: "sorted_wrt (<) (map fst (all_files w @ [(Suc (tw_current_id w), [])]))"
    using sorted live by (auto simp: all_files_def sorted_wrt_append less_Suc_eq)
  note look = map_of_last [OF sl]
  show thesis
  proof (cases "tw_archive w")
    case None
    show ?thesis
      by (rule that [of "w\<lparr>tw_live := tw_live w @ [(Suc (tw_current_id w), [])],
            tw_current_id := Suc (tw_current_id w), tw_current_bytes := 0\<rparr>"])
        (use None live look h s ess in \<open>auto simp: tx_rotate_def Let_def writer_ok_def all_files_def\<close>)
  next
    case (Some ar)
    have ins: "btree_insert (tw_current_id w) c ar = ar @ [(tw_current_id w, c)]"
      using fold_btree_insert_sorted [of ar "[(tw_current_id w, c)]"] sorted Some live by (simp add: all_files_def)
    show ?thesis
      by (rule that [of "w\<lparr>tw_live := [(Suc (tw_current_id w), [])], tw_archive := Some (ar @ [(tw_current_id w, c)]),
            tw_current_id := Suc (tw_current_id w), tw_current_bytes := 0\<rparr>"])
        (use Some live look h s ess ins in \<open>auto simp: tx_rotate_def Let_def writer_ok_def all_files_def\<close>)
  qed
qed

text \<open>The active segment an append writes to, after the rotation it may start with.\<close>

lemma append_target:
  assumes "writer_ok crc es w"
  obtains u pre l ess where
    "(if 0 < tw_current_bytes w \<and> tw_segment_size w < tw_current_bytes w + (4 + 4 + length (entry_body e))
      then tx_rotate w else (None, w)) = (None, u)"
    "tw_live u = pre @ [(tw_current_id u, log_bytes crc l)]" "tw_archive u \<noteq> None \<longrightarrow> pre = []"
    "length (log_bytes crc l) = tw_current_bytes u" "sorted_wrt (<) (map fst (all_files u))"
    "holds crc ess (archive_files (tw_archive u) @ pre)" "es = concat ess @ l"
    "tw_entries_written u = tw_entries_written w" "tw_max_sequence u = tw_max_sequence w"
    "tw_segment_size u = tw_segment_size w"
    "u = w \<or> all_files u = all_files w @ [(Suc (tw_current_id w), [])] \<and> tw_current_id u = Suc (tw_current_id w)"
proof -
  obtain u where u: "(if 0 < tw_current_bytes w \<and> tw_segment_size w < tw_current_bytes w + (4 + 4 + length (entry_body e))
       then tx_rotate w else (None, w)) = (None, u)" "writer_ok crc es u"
    "tw_entries_written u = tw_entries_written w" "tw_max_sequence u = tw_max_sequence w"
    "tw_segment_size u = tw_segment_size w"
    "u = w \<or> all_files u = all_files w @ [(Suc (tw_current_id w), [])] \<and> tw_current_id u = Suc (tw_current_id w)"
    using tx_rotate_ok [OF assms(1)] assms(1) by (metis (full_types))
  obtain pre c where live: "tw_live u = pre @ [(tw_current_id u, c)]" "tw_archive u \<noteq> None \<longrightarrow> pre = []"
    "length c = tw_current_bytes u" and sorted: "sorted_wrt (<) (map fst (all_files u))"
    using u(2) by (auto simp: writer_ok_def)
  obtain ess where ess: "holds crc ess (all_files u)" "concat ess = es" using u(2) by (auto simp: writer_ok_def)
  have "all_files u = (archive_files (tw_archive u) @ pre) @ [(tw_current_id u, c)]"
    using live by (simp add: all_files_def)
  then obtain ess' l where "ess = ess' @ [l]" "holds crc ess' (archive_files (tw_archive u) @ pre)" "c = log_bytes crc l"
    using ess(1) holds_snocE by metis
  then show thesis using that [of u pre l ess'] u live sorted ess(2) by simp
qed

lemma append_file_live:
  assumes "tw_live u = pre @ [(tw_current_id u, c)]" "sorted_wrt (<) (map fst (all_files u))"
  shows "append_file (tw_current_id u) bs (tw_live u) = pre @ [(tw_current_id u, c @ bs)]"
  using assms append_file_last [of pre "tw_current_id u" c bs] by (simp add: all_files_def sorted_wrt_append)

lemma append_ok:
  assumes "writer_ok crc es w" "entry_ok e"
  obtains v where "append_with_origin_format crc None w e = (None, v)" "writer_ok crc (es @ [e]) v"
    "tw_max_sequence v = max (tw_max_sequence w) (tx_sequence e)" "tw_entries_written v = tw_entries_written w + 1"
    "\<exists>fs c. all_files v = fs @ [(tw_current_id v, c @ entry_frame crc e)] \<and>
       (all_files w = fs @ [(tw_current_id v, c)] \<or> c = [] \<and> all_files w = fs \<and> tw_current_id v = Suc (tw_current_id w))"
proof (rule append_target [OF assms(1), of e])
  fix u :: tx_writer and pre l ess
  let ?ar = "archive_files (tw_archive u)" and ?cur = "tw_current_id u"
  assume rot: "(if 0 < tw_current_bytes w \<and> tw_segment_size w < tw_current_bytes w + (4 + 4 + length (entry_body e))
      then tx_rotate w else (None, w)) = (None, u)"
    and live: "tw_live u = pre @ [(?cur, log_bytes crc l)]" "tw_archive u \<noteq> None \<longrightarrow> pre = []"
    and len: "length (log_bytes crc l) = tw_current_bytes u" and sorted: "sorted_wrt (<) (map fst (all_files u))"
    and h: "holds crc ess (?ar @ pre)" "es = concat ess @ l"
    and eqs: "tw_entries_written u = tw_entries_written w" "tw_max_sequence u = tw_max_sequence w"
    and rots: "u = w \<or> all_files u = all_files w @ [(Suc (tw_current_id w), [])] \<and> tw_current_id u = Suc (tw_current_id w)"
  have h': "holds crc (ess @ [l @ [e]]) (?ar @ pre @ [(?cur, log_bytes crc l @ entry_frame crc e)])"
    using h(1) holds_snoc [of crc ess "l @ [e]" "?ar @ pre"] by (simp add: log_bytes_snoc)
  define v where "v = u\<lparr>tw_live := pre @ [(?cur, log_bytes crc l @ entry_frame crc e)],
     tw_current_bytes := tw_current_bytes u + length (entry_frame crc e),
     tw_entries_written := tw_entries_written u + 1, tw_max_sequence := max (tw_max_sequence u) (tx_sequence e)\<rparr>"
  have "append_with_origin_format crc None w e = (None, v)"
    using assms(2) rot append_file_live [OF live(1) sorted]
    by (simp add: append_with_origin_format_def entry_ok_def Let_def v_def)
  moreover have "writer_ok crc (es @ [e]) v"
    using sorted live len h' h(2)
    by (auto simp: writer_ok_def v_def all_files_def intro!: exI [of _ "ess @ [l @ [e]]"])
  moreover have "\<exists>fs c. all_files v = fs @ [(tw_current_id v, c @ entry_frame crc e)] \<and>
       (all_files w = fs @ [(tw_current_id v, c)] \<or> c = [] \<and> all_files w = fs \<and> tw_current_id v = Suc (tw_current_id w))"
    using rots live(1) by (intro exI [of _ "?ar @ pre"] exI [of _ "log_bytes crc l"]) (auto simp: v_def all_files_def)
  ultimately show thesis using that eqs by (simp add: v_def)
qed

section \<open>Logs as journals\<close>

text \<open>
  What the rest of the server needs of a log: an accepted entry is behind the entries that
  were there, and reading returns the entries in the order they were accepted.
\<close>

locale journal =
  fixes ok :: "'e list \<Rightarrow> 'w \<Rightarrow> bool" and fits :: "'e \<Rightarrow> bool"
    and put :: "'e \<Rightarrow> 'w \<Rightarrow> 'w option" and entries :: "'w \<Rightarrow> 'e list option"
  assumes put_ok: "ok es w \<Longrightarrow> fits e \<Longrightarrow> \<exists>v. put e w = Some v \<and> ok (es @ [e]) v"
    and entries_ok: "ok es w \<Longrightarrow> \<forall>e \<in> set es. fits e \<Longrightarrow> entries w = Some es"
begin

lemma put_all:
  "ok es w \<Longrightarrow> \<forall>e \<in> set fs. fits e \<Longrightarrow> \<exists>v. run_steps put fs w = Some v \<and> ok (es @ fs) v"
proof (induction fs arbitrary: es w)
  case Nil
  then show ?case by simp
next
  case (Cons f fs)
  then obtain u where "put f w = Some u" "ok (es @ [f]) u" using put_ok [of es w f] by auto
  then show ?case using Cons.IH [of "es @ [f]" u] Cons.prems by auto
qed

lemma read_back:
  assumes "ok [] w" "\<forall>e \<in> set es. fits e"
  shows "\<exists>v. run_steps put es w = Some v \<and> ok es v \<and> entries v = Some es"
  using put_all [OF assms(1), of es] entries_ok [of es] assms(2) by auto

end

definition log_step :: "(string \<Rightarrow> u32) \<Rightarrow> tx_entry \<Rightarrow> tx_writer \<Rightarrow> tx_writer option" where
  "log_step crc e w = (case append_with_origin_format crc None w e of (None, v) \<Rightarrow> Some v | _ \<Rightarrow> None)"

definition log_entries :: "(string \<Rightarrow> u32) \<Rightarrow> tx_writer \<Rightarrow> tx_entry list option" where
  "log_entries crc w = (case read_all crc (tw_live w) (tw_archive w) of Inr es \<Rightarrow> Some es | Inl _ \<Rightarrow> None)"

interpretation txlog: journal "writer_ok crc" entry_ok "log_step crc" "log_entries crc" for crc
proof
  fix es w e assume "writer_ok crc es w" "entry_ok e"
  then obtain v where "append_with_origin_format crc None w e = (None, v)" "writer_ok crc (es @ [e]) v"
    by (rule append_ok)
  then show "\<exists>v. log_step crc e w = Some v \<and> writer_ok crc (es @ [e]) v" by (simp add: log_step_def)
next
  fix es w assume "writer_ok crc es w" "\<forall>e \<in> set es. entry_ok e"
  then show "log_entries crc w = Some es" by (simp add: log_entries_def read_all_ok)
qed

text \<open>A log opened on an empty directory.\<close>

definition new_log :: "nat \<Rightarrow> bool \<Rightarrow> tx_writer" where
  "new_log segment_size archiving =
     \<lparr>tw_live = [(1, [])], tw_archive = (if archiving then Some [] else None), tw_segment_size = segment_size,
      tw_current_id = 1, tw_current_bytes = 0, tw_entries_written = 0, tw_max_sequence = 0\<rparr>"

lemma tx_open_empty: "tx_open crc n [] (if arch then Some [] else None) = Inr (new_log n arch)"
  by (simp add: tx_open_def new_log_def)

lemma new_log_ok: "writer_ok crc [] (new_log n arch)"
  by (auto simp: writer_ok_def new_log_def all_files_def holds_def log_bytes_def intro!: exI [of _ "[[]]"])

lemma be_nat_bound: "be_nat bs < 256 ^ length bs"
proof (induction bs rule: rev_induct)
  case Nil
  then show ?case by (simp add: be_nat_def)
next
  case (snoc c bs)
  have "(of_char c :: nat) < 256" by (metis of_char_mod_256 mod_less_divisor zero_less_numeral)
  then have "be_nat bs * 256 + of_char c < be_nat bs * 256 + 256" by (rule add_strict_left_mono)
  then have "be_nat (bs @ [c]) < (be_nat bs + 1) * 256" by (simp only: be_nat_snoc distrib_right mult_1)
  also have "\<dots> \<le> 256 ^ length bs * 256" using snoc by (intro mult_right_mono) simp_all
  finally show ?case by simp
qed

lemma take_str_length: "take_str off bs = Inr (s, r) \<Longrightarrow> length s < 65536"
proof -
  assume "take_str off bs = Inr (s, r)"
  then have "length s = be_nat (take 2 bs)" "2 \<le> length bs"
    by (auto simp: take_str_def take_bytes_def res_bind_Inr split: if_splits)
  then show ?thesis using be_nat_bound [of "take 2 bs"] by simp
qed

lemma parsed_key_length: "parse_body off b = Inr e \<Longrightarrow> length (tx_key e) < 65536"
  by (auto simp: parse_body_def Let_def res_bind_Inr dest!: take_str_length)

section \<open>Properties\<close>

definition sample_crc :: "string \<Rightarrow> u32" where "sample_crc bs = of_nat (length bs)"

definition sample_entry :: "nat \<Rightarrow> tx_entry" where
  "sample_entry n =
     \<lparr>tx_sequence = n, tx_timestamp_ms = 0, tx_topic = ''/t'', tx_key = ''k'', tx_origin = [],
      tx_payload = ''{}'', tx_format = PJson\<rparr>"

lemma sample_entry_ok: "n < 2 ^ 56 \<Longrightarrow> entry_ok (sample_entry n)"
  by (simp add: entry_ok_def sample_entry_def entry_body_def entry_v2_def MAX_TOPIC_LEN_def MAX_ORIGIN_LEN_def
      MAX_ENTRY_SIZE_def byte_in_def)

text \<open>
  C4: Entries that fit the format, appended to a new log of any segment size, with or without
  an archive, are all accepted, and the reader returns them in order, however many rotations
  there were.
\<close>

theorem log_round_trip:
  assumes "\<forall>e \<in> set es. entry_ok e"
  shows "\<exists>w. run_steps (log_step crc) es (new_log n arch) = Some w \<and>
     read_all crc (tw_live w) (tw_archive w) = Inr es"
  using txlog.put_all [OF new_log_ok assms, of crc n arch] read_all_ok [OF _ assms] by auto

theorem log_round_trip_witness:
  "\<exists>w. run_steps (log_step sample_crc) [sample_entry 1, sample_entry 2] (new_log 10 True) = Some w \<and>
     read_all sample_crc (tw_live w) (tw_archive w) = Inr [sample_entry 1, sample_entry 2]"
  by (rule log_round_trip) (simp add: sample_entry_ok)

lemma read_segments_last:
  "holds crc ess fs \<Longrightarrow> \<forall>e \<in> set (concat ess). entry_ok e \<Longrightarrow>
   read_segments crc (fs @ [(i, bs)]) = res_bind (seg_read_all crc True 0 bs) (\<lambda>es. Inr (concat ess @ es))"
proof (induction fs arbitrary: ess)
  case Nil
  then show ?case by (cases "seg_read_all crc True 0 bs") (simp_all add: holds_def)
next
  case (Cons f fs)
  obtain es ess' where ess: "ess = es # ess'" using Cons.prems by (cases ess) (auto simp: holds_def)
  then show ?case using Cons.IH [of ess'] Cons.prems
    by (cases f; cases "seg_read_all crc True 0 bs") (simp_all add: holds_def seg_read_log)
qed

text \<open>A log whose active segment continues with bytes that do not start a whole entry.\<close>

lemma read_all_torn:
  assumes "holds crc ess (archive_files ar @ pre)" "\<forall>e \<in> set (concat ess @ l). entry_ok e"
    and "sorted_wrt (<) (map fst (archive_files ar @ pre @ [(i, c)]))"
    and "\<And>off. seg_read_next crc True off tail = Inr None"
  shows "read_all crc (pre @ [(i, log_bytes crc l @ tail)]) ar = Inr (concat ess @ l)"
proof -
  have "seg_read_all crc True off tail = Inr []" for off
    by (subst seg_read_all.simps) (simp add: assms(4))
  then have "seg_read_all crc True 0 (log_bytes crc l @ tail) = Inr l"
    using seg_read_all_log [of l crc True 0 tail] assms(2) by simp
  moreover have "reader_segments (pre @ [(i, log_bytes crc l @ tail)]) ar = (archive_files ar @ pre) @ [(i, log_bytes crc l @ tail)]"
    using reader_segments_all [of ar "pre @ [(i, log_bytes crc l @ tail)]"] assms(3) by simp
  ultimately show ?thesis
    using read_segments_last [OF assms(1), of i "log_bytes crc l @ tail"] assms(2) by (simp add: read_all_def)
qed

lemma torn_append_reads:
  assumes "writer_ok crc es w" "\<forall>x \<in> set es. entry_ok x" "entry_ok e" "n < length (entry_frame crc e)"
  shows "\<exists>v. append_with_origin_format crc (Some n) w e = (Some TxIo, v) \<and>
     read_all crc (tw_live v) (tw_archive v) = Inr es"
proof (rule append_target [OF assms(1), of e])
  fix u :: tx_writer and pre l ess
  assume rot: "(if 0 < tw_current_bytes w \<and> tw_segment_size w < tw_current_bytes w + (4 + 4 + length (entry_body e))
      then tx_rotate w else (None, w)) = (None, u)"
    and live: "tw_live u = pre @ [(tw_current_id u, log_bytes crc l)]" and sorted: "sorted_wrt (<) (map fst (all_files u))"
    and h: "holds crc ess (archive_files (tw_archive u) @ pre)" "es = concat ess @ l"
  have torn: "seg_read_next crc True off (take n (entry_frame crc e)) = Inr None" for off
    using seg_read_next_torn [OF assms(3,4), of "[]"] assms(4) by simp
  have s: "sorted_wrt (<) (map fst (archive_files (tw_archive u) @ pre @ [(tw_current_id u, log_bytes crc l)]))"
    using sorted live by (simp add: all_files_def)
  have ok: "\<forall>x \<in> set (concat ess @ l). entry_ok x" using assms(2) h(2) by simp
  show ?thesis
    using assms(3) rot append_file_live [OF live sorted] read_all_torn [OF h(1) ok s torn] h(2)
    by (simp add: append_with_origin_format_def entry_ok_def Let_def)
qed

text \<open>
  C28: A write that stops in the middle of an entry, or a crash there, costs that entry only:
  the reader returns every entry that was appended before.
\<close>

theorem torn_entry_is_dropped:
  assumes "writer_ok crc es w" "\<forall>x \<in> set es. entry_ok x" "entry_ok e" "n < length (entry_frame crc e)"
  shows "\<exists>v. append_with_origin_format crc (Some n) w e = (Some TxIo, v) \<and>
     read_all crc (tw_live v) (tw_archive v) = Inr es"
  by (rule torn_append_reads [OF assms])

theorem torn_entry_is_dropped_witness:
  "\<exists>v. append_with_origin_format sample_crc (Some 5) (new_log 10 False) (sample_entry 1) = (Some TxIo, v) \<and>
     read_all sample_crc (tw_live v) (tw_archive v) = Inr []"
  by (rule torn_entry_is_dropped) (simp_all add: new_log_ok sample_entry_ok length_entry_frame)

text \<open>
  C31: The writer does not cut a torn entry off when it goes on. When the header of the torn
  entry was written and the next entry is short enough to lie within the length the header
  announces, that next entry is accepted without an error and the reader never returns it.
\<close>

theorem append_behind_torn_entry_lost:
  assumes "writer_ok crc es w" "\<forall>x \<in> set es. entry_ok x" "entry_ok e" "entry_ok f"
    and "8 \<le> n" "n + length (entry_frame crc f) < length (entry_frame crc e)"
    and "tw_current_bytes w + length (entry_frame crc e) \<le> tw_segment_size w"
  shows "\<exists>v v'. append_with_origin_format crc (Some n) w e = (Some TxIo, v) \<and>
     append_with_origin_format crc None v f = (None, v') \<and>
     read_all crc (tw_live v') (tw_archive v') = Inr es"
proof (rule append_target [OF assms(1), of e])
  fix u :: tx_writer and pre l ess
  assume rot: "(if 0 < tw_current_bytes w \<and> tw_segment_size w < tw_current_bytes w + (4 + 4 + length (entry_body e))
      then tx_rotate w else (None, w)) = (None, u)"
    and live: "tw_live u = pre @ [(tw_current_id u, log_bytes crc l)]" and sorted: "sorted_wrt (<) (map fst (all_files u))"
    and h: "holds crc ess (archive_files (tw_archive u) @ pre)" "es = concat ess @ l"
  have u: "u = w" using rot assms(7) by (auto simp: length_entry_frame split: if_splits)
  let ?tail = "take n (entry_frame crc e) @ entry_frame crc f"
  have torn: "seg_read_next crc True off ?tail = Inr None" for off
    using seg_read_next_torn [OF assms(3), of n crc "entry_frame crc f"] assms(5,6) by simp
  have s: "sorted_wrt (<) (map fst (archive_files (tw_archive w) @ pre @ [(tw_current_id w, log_bytes crc l)]))"
    using sorted live u by (simp add: all_files_def)
  have ok: "\<forall>x \<in> set (concat ess @ l). entry_ok x" using assms(2) h(2) by simp
  define v where "v = w\<lparr>tw_live := pre @ [(tw_current_id w, log_bytes crc l @ take n (entry_frame crc e))]\<rparr>"
  have v: "append_with_origin_format crc (Some n) w e = (Some TxIo, v)"
    using assms(3) rot append_file_live [OF live sorted] u
    by (simp add: append_with_origin_format_def entry_ok_def Let_def v_def)
  have "append_file (tw_current_id v) (entry_frame crc f) (tw_live v) =
      pre @ [(tw_current_id w, log_bytes crc l @ ?tail)]"
    using append_file_live [of v pre "log_bytes crc l @ take n (entry_frame crc e)"] s
    by (simp add: v_def all_files_def)
  then have "\<exists>v'. append_with_origin_format crc None v f = (None, v') \<and>
      tw_live v' = pre @ [(tw_current_id w, log_bytes crc l @ ?tail)] \<and> tw_archive v' = tw_archive w"
    using assms(4,6,7) by (simp add: append_with_origin_format_def entry_ok_def Let_def v_def length_entry_frame)
  then show ?thesis using v read_all_torn [OF _ ok s torn] h u by auto
qed

definition long_entry :: tx_entry where
  "long_entry = (sample_entry 1)\<lparr>tx_payload := replicate 100 (CHR ''x'')\<rparr>"

lemma long_entry_ok: "entry_ok long_entry" "length (entry_frame crc long_entry) = 131"
  by (simp_all add: entry_ok_def long_entry_def sample_entry_def entry_body_def entry_v2_def MAX_TOPIC_LEN_def MAX_ORIGIN_LEN_def
      MAX_ENTRY_SIZE_def byte_in_def length_entry_frame)

theorem append_behind_torn_entry_lost_witness:
  "\<exists>v v'. append_with_origin_format sample_crc (Some 20) (new_log 1000 False) long_entry = (Some TxIo, v) \<and>
     append_with_origin_format sample_crc None v (sample_entry 2) = (None, v') \<and>
     read_all sample_crc (tw_live v') (tw_archive v') = Inr []"
proof -
  have "length (entry_frame sample_crc (sample_entry 2)) = 33"
    by (simp add: length_entry_frame entry_body_def sample_entry_def entry_v2_def)
  then show ?thesis
    using long_entry_ok(2) [of sample_crc]
    by (intro append_behind_torn_entry_lost)
      (simp_all add: new_log_ok sample_entry_ok long_entry_ok(1), simp add: new_log_def)
qed

text \<open>
  The length of a key is written in two bytes without a check, unlike that of a topic or
  an origin. An entry with a key of 65536 bytes or more is accepted and journalled, and no
  reader gets it back.
\<close>

theorem long_key_not_read_back:
  assumes "writer_ok crc es w" "65536 \<le> length (tx_key e)" "length (tx_topic e) \<le> MAX_TOPIC_LEN"
    "length (tx_origin e) \<le> MAX_ORIGIN_LEN" "length (entry_body e) \<le> MAX_ENTRY_SIZE"
  shows "fst (append_with_origin_format crc None w e) = None \<and> parse_body off (entry_body e) \<noteq> Inr e"
proof (rule append_target [OF assms(1), of e])
  fix u :: tx_writer assume "(if 0 < tw_current_bytes w \<and> tw_segment_size w < tw_current_bytes w + (4 + 4 + length (entry_body e))
      then tx_rotate w else (None, w)) = (None, u)"
  then show ?thesis using assms parsed_key_length [of off "entry_body e" e]
    by (auto simp: append_with_origin_format_def Let_def)
qed

theorem long_key_not_read_back_witness:
  "fst (append_with_origin_format sample_crc None (new_log 10 False) ((sample_entry 1)\<lparr>tx_key := replicate 65536 (CHR ''k'')\<rparr>)) = None \<and>
   parse_body 0 (entry_body ((sample_entry 1)\<lparr>tx_key := replicate 65536 (CHR ''k'')\<rparr>)) \<noteq> Inr ((sample_entry 1)\<lparr>tx_key := replicate 65536 (CHR ''k'')\<rparr>)"
  by (rule long_key_not_read_back [where es = "[]"])
    (simp_all add: new_log_ok sample_entry_def entry_body_def entry_v2_def MAX_TOPIC_LEN_def MAX_ORIGIN_LEN_def MAX_ENTRY_SIZE_def
      del: replicate.simps)

end
