(* ===== verification/CQ_Topic.thy ===== *)
theory CQ_Topic
  imports CQ_Row_Json CQ_Sec_Index CQ_Flatten CQ_Txlog
begin

text \<open>
  A topic (\<open>crates/cq-core/src/topic.rs\<close>): the store with its key map, secondary indexes and
  free slots; publishes, delta publishes, deletes, expiry and schema changes; the journal they
  write and the replay that reads it.

  Every operation is a function from the topic before to the result and the topic after;
  \<open>None\<close> is a panic. What the environment decides is an argument: the two clocks and which
  journal writes succeed (\<open>topic_env\<close>), the order in which a hash map is walked, and the JSON
  printer and parser (\<open>json_io\<close>). The locks make each operation one step, except where the code
  releases them in between (\<open>sweep_expired_rows\<close>), which is modelled as separate steps. Producer
  throttling only delays and has no counterpart here; events sent to the evaluator and to the
  view taps are collected in \<open>mutation_tx\<close>.
\<close>

section \<open>Configuration, events, errors\<close>

record topic_config =
  cfg_name :: string
  cfg_key_fields :: "string list"
  cfg_persist :: bool
  cfg_conflation_ms :: "nat option"
  cfg_index_columns :: "string list"
  cfg_expire_seconds :: "nat option"

datatype topic_error =
    TopicTxLog tx_log_error
  | TopicSerialize
  | MissingKeyFields string

datatype mutation_kind = MutUpsert | MutDelete

record mutation_event =
  ev_row :: nat
  ev_sequence :: nat
  ev_kind :: mutation_kind
  ev_changed_cols :: "nat list option"

definition is_placeholder_schema :: "schema \<Rightarrow> bool" where
  "is_placeholder_schema sch \<longleftrightarrow>
     column_count sch = 1 \<and> column_name_at sch 0 = Some ''_key'' \<and> column_type_at sch 0 = Some TString"

definition canonicalize_topic :: "string \<Rightarrow> string" where
  "canonicalize_topic name =
     (case name of [] \<Rightarrow> [] | c # _ \<Rightarrow> if c = CHR ''/'' then name else CHR ''/'' # name)"

section \<open>The store state\<close>

record store_state =
  st_schema :: schema
  st_store :: column_store
  key_to_row :: "(string \<times> nat) list"
  key_col_indices :: "nat list"
  secondary_index :: sec_index
  last_touched :: "nat list"
  free_slots :: "nat list"

definition state_build :: "schema \<Rightarrow> string list \<Rightarrow> string list \<Rightarrow> nat \<Rightarrow> store_state" where
  "state_build sch key_fields index_cols cap =
     \<lparr>st_schema = sch, st_store = column_store_new sch cap, key_to_row = [],
      key_col_indices = List.map_filter (index_of sch) key_fields,
      secondary_index = sec_index_new (List.map_filter (index_of sch) index_cols),
      last_touched = [], free_slots = []\<rparr>"

section \<open>Keys\<close>

fun join_bar :: "string list \<Rightarrow> string" where
  "join_bar [] = []"
| "join_bar [p] = p"
| "join_bar (p # q # ps) = p @ ''|'' @ join_bar (q # ps)"

fun value_key_part :: "externals \<Rightarrow> cq_value \<Rightarrow> string option" where
  "value_key_part ext (VString (Some s)) = Some s"
| "value_key_part ext (VLong n) = Some (show_int (sint n))"
| "value_key_part ext (VInt n) = Some (show_int (sint n))"
| "value_key_part ext (VDouble x) = Some (f64_text ext x)"
| "value_key_part ext _ = None"

definition compute_key_with :: "externals \<Rightarrow> cq_value list \<Rightarrow> nat list \<Rightarrow> string option" where
  "compute_key_with ext values idx =
     (if idx = [] then None
      else map_option join_bar
             (those (map (\<lambda>i. if i < length values then value_key_part ext (values ! i) else None) idx)))"

fun json_key_part :: "json \<Rightarrow> string option" where
  "json_key_part (JString s) = Some s"
| "json_key_part (JNumber n) = Some (num_text n)"
| "json_key_part _ = None"

definition compute_key_from_map :: "topic_config \<Rightarrow> json_map \<Rightarrow> string option" where
  "compute_key_from_map cfg m =
     (if cfg_key_fields cfg = [] then None
      else map_option join_bar
             (those (map (\<lambda>f. Option.bind (map_of m f) json_key_part) (cfg_key_fields cfg))))"

section \<open>Rows and indexes\<close>

text \<open>The loops over the indexed columns of a row: \<open>add\<close> its cells, \<open>remove\<close> them, or move them.\<close>

fun index_row :: "externals \<Rightarrow> column_store \<Rightarrow> nat \<Rightarrow> nat list \<Rightarrow> sec_index \<Rightarrow> sec_index option" where
  "index_row ext s row [] ix = Some ix"
| "index_row ext s row (c # cs) ix =
     do { v \<leftarrow> get_value s c row; index_row ext s row cs (index_add ext c v row ix) }"

fun unindex_row :: "externals \<Rightarrow> column_store \<Rightarrow> nat \<Rightarrow> nat list \<Rightarrow> sec_index \<Rightarrow> sec_index option" where
  "unindex_row ext s row [] ix = Some ix"
| "unindex_row ext s row (c # cs) ix =
     do { v \<leftarrow> get_value s c row; unindex_row ext s row cs (index_remove ext c v row ix) }"

fun reindex_cols ::
  "externals \<Rightarrow> column_store \<Rightarrow> nat \<Rightarrow> cq_value list \<Rightarrow> nat list \<Rightarrow> sec_index \<Rightarrow> sec_index option" where
  "reindex_cols ext s row values [] ix = Some ix"
| "reindex_cols ext s row values (c # cs) ix =
     do {
       old \<leftarrow> get_value s c row;
       let new = (if c < length values then (if values ! c = VNull then old else values ! c) else old);
       reindex_cols ext s row values cs (index_add ext c new row (index_remove ext c old row ix))
     }"

definition index_new_row_from_store :: "externals \<Rightarrow> store_state \<Rightarrow> nat \<Rightarrow> store_state option" where
  "index_new_row_from_store ext st row =
     (if index_is_empty (secondary_index st) then Some st
      else map_option (\<lambda>ix. st\<lparr>secondary_index := ix\<rparr>)
             (index_row ext (st_store st) row (indexed_cols (secondary_index st)) (secondary_index st)))"

definition reindex_row :: "externals \<Rightarrow> store_state \<Rightarrow> nat \<Rightarrow> cq_value list \<Rightarrow> store_state option" where
  "reindex_row ext st row values =
     (if index_is_empty (secondary_index st) then Some st
      else map_option (\<lambda>ix. st\<lparr>secondary_index := ix\<rparr>)
             (reindex_cols ext (st_store st) row values (indexed_cols (secondary_index st)) (secondary_index st)))"

definition push_last_touched :: "nat \<Rightarrow> nat \<Rightarrow> store_state \<Rightarrow> store_state" where
  "push_last_touched row now st =
     (let ts = (if length (last_touched st) < row + 1 then resize (row + 1) now (last_touched st) else last_touched st)
      in st\<lparr>last_touched := ts[row := now]\<rparr>)"

text \<open>\<open>if let Some(slot) = last_touched.get_mut(row) { *slot = now }\<close>\<close>

definition touch :: "nat \<Rightarrow> nat \<Rightarrow> store_state \<Rightarrow> store_state" where
  "touch row now st = st\<lparr>last_touched := (last_touched st)[row := now]\<rparr>"

definition update_existing :: "externals \<Rightarrow> nat \<Rightarrow> store_state \<Rightarrow> nat \<Rightarrow> cq_value list \<Rightarrow> (store_state \<times> nat) option" where
  "update_existing ext now st row values = do {
     st1 \<leftarrow> reindex_row ext st row values;
     s \<leftarrow> update_row ext (st_store st1) row values;
     Some (touch row now (st1\<lparr>st_store := s\<rparr>), row)
   }"

definition commit_values_locked ::
  "externals \<Rightarrow> nat \<Rightarrow> store_state \<Rightarrow> cq_value list \<Rightarrow> (store_state \<times> nat) option" where
  "commit_values_locked ext now st values =
     (case compute_key_with ext values (key_col_indices st) of
        Some key \<Rightarrow>
          (case map_of (key_to_row st) key of
             Some row \<Rightarrow> update_existing ext now st row values
           | None \<Rightarrow>
               if free_slots st \<noteq> [] then do {
                 let slot = last (free_slots st);
                 s \<leftarrow> write_row_at ext (st_store st) slot values;
                 st1 \<leftarrow> index_new_row_from_store ext
                          (st\<lparr>st_store := s, free_slots := butlast (free_slots st),
                             key_to_row := AList.update key slot (key_to_row st)\<rparr>) slot;
                 Some (if slot < length (last_touched st1) then touch slot now st1
                       else push_last_touched slot now st1, slot)
               } else do {
                 (s, row) \<leftarrow> append_row_owned ext (st_store st) values;
                 st1 \<leftarrow> index_new_row_from_store ext
                          (st\<lparr>st_store := s, key_to_row := AList.update key row (key_to_row st)\<rparr>) row;
                 Some (push_last_touched row now st1, row)
               })
      | None \<Rightarrow>
          if 0 < row_count (st_store st) then update_existing ext now st 0 values
          else do {
            (s, row) \<leftarrow> append_row_owned ext (st_store st) values;
            st1 \<leftarrow> index_new_row_from_store ext (st\<lparr>st_store := s\<rparr>) row;
            Some (push_last_touched row now st1, row)
          })"

text \<open>The shared body of the deletes: the row behind \<open>key\<close> is unindexed, nulled and freed.\<close>

definition free_row :: "externals \<Rightarrow> store_state \<Rightarrow> string \<Rightarrow> nat \<Rightarrow> store_state option" where
  "free_row ext st key row = do {
     ix \<leftarrow> (if index_is_empty (secondary_index st) then Some (secondary_index st)
            else unindex_row ext (st_store st) row (indexed_cols (secondary_index st)) (secondary_index st));
     s \<leftarrow> null_out_row (st_store st) row;
     Some (st\<lparr>key_to_row := AList.delete key (key_to_row st), secondary_index := ix, st_store := s,
              free_slots := free_slots st @ [row]\<rparr>)
   }"

section \<open>Topics\<close>

record topic =
  tp_config :: topic_config
  tp_state :: store_state
  active_subscriptions :: nat
  row_count_mirror :: nat
  mutation_tx :: "mutation_event list"
  txlog :: "tx_writer option"
  sparse_delta_txlog :: bool
  next_sequence :: nat
  last_applied_sequence :: nat
  origin_id :: string
  replicated_highwater :: "string \<rightharpoonup> nat"

definition topic_new :: "topic_config \<Rightarrow> schema \<Rightarrow> nat \<Rightarrow> topic" where
  "topic_new cfg sch cap =
     \<lparr>tp_config = cfg, tp_state = state_build sch (cfg_key_fields cfg) (cfg_index_columns cfg) cap,
      active_subscriptions = 0, row_count_mirror = 0, mutation_tx = [], txlog = None, sparse_delta_txlog = False,
      next_sequence = 0, last_applied_sequence = 0, origin_id = [], replicated_highwater = Map.empty\<rparr>"

definition attach_txlog :: "tx_writer \<Rightarrow> topic \<Rightarrow> topic" where
  "attach_txlog w t = t\<lparr>next_sequence := tw_max_sequence w, txlog := Some w\<rparr>"

definition shrink_store :: "topic \<Rightarrow> (nat \<times> nat) \<times> topic" where
  "shrink_store t =
     (case shrink_to_fit (st_store (tp_state t)) of
        (s, new) \<Rightarrow> ((capacity (st_store (tp_state t)), new), t\<lparr>tp_state := (tp_state t)\<lparr>st_store := s\<rparr>\<rparr>))"

text \<open>
  What an operation meets outside: the monotonic clock in nanoseconds, the wall clock that
  stamps journal entries, and for each sequence number whether its journal write goes through (\<open>None\<close>) or
  stops after some bytes.
\<close>

record topic_env =
  env_now :: nat
  env_ms :: nat
  env_torn :: "nat \<Rightarrow> nat option"
  env_crc :: "string \<Rightarrow> u32"

record json_io =
  to_vec :: "json \<Rightarrow> string option"
  from_slice :: "string \<Rightarrow> json option"

definition topic_append ::
  "topic_env \<Rightarrow> topic \<Rightarrow> nat \<Rightarrow> string \<Rightarrow> string \<Rightarrow> payload_format \<Rightarrow> topic_error option \<times> topic" where
  "topic_append env t seq key payload fmt =
     (case txlog t of
        None \<Rightarrow> (None, t)
      | Some w \<Rightarrow>
          (case append_with_origin_format (env_crc env) (env_torn env seq) w
                  \<lparr>tx_sequence = seq, tx_timestamp_ms = env_ms env, tx_topic = cfg_name (tp_config t), tx_key = key,
                   tx_origin = origin_id t, tx_payload = payload, tx_format = fmt\<rparr> of
             (err, v) \<Rightarrow> (map_option TopicTxLog err, t\<lparr>txlog := Some v\<rparr>)))"

definition emit_event :: "nat \<Rightarrow> nat \<Rightarrow> mutation_kind \<Rightarrow> nat list option \<Rightarrow> topic \<Rightarrow> topic" where
  "emit_event row seq k cols t =
     t\<lparr>mutation_tx := mutation_tx t @ [\<lparr>ev_row = row, ev_sequence = seq, ev_kind = k, ev_changed_cols = cols\<rparr>]\<rparr>"

definition write_store_with_changed ::
  "externals \<Rightarrow> topic_env \<Rightarrow> topic \<Rightarrow> cq_value list \<Rightarrow> (string \<times> string \<times> payload_format) option \<Rightarrow> bool \<Rightarrow>
   nat list option \<Rightarrow> ((topic_error + nat \<times> nat) \<times> topic) option" where
  "write_store_with_changed ext env t values log_args emit cols =
     (let seq = next_sequence t + 1; t1 = t\<lparr>next_sequence := seq\<rparr> in
      case (case log_args of None \<Rightarrow> (None, t1) | Some (key, payload, fmt) \<Rightarrow> topic_append env t1 seq key payload fmt) of
        (Some err, t2) \<Rightarrow> Some (Inl err, t2)
      | (None, t2) \<Rightarrow> do {
          (st, row) \<leftarrow> commit_values_locked ext (env_now env) (tp_state t2) values;
          let t3 = t2\<lparr>tp_state := st, row_count_mirror := row_count (st_store st)\<rparr>;
          Some (Inr (row, seq), if emit then emit_event row seq MutUpsert cols t3 else t3)
        })"

definition write_store_replay :: "externals \<Rightarrow> nat \<Rightarrow> topic \<Rightarrow> cq_value list \<Rightarrow> topic option" where
  "write_store_replay ext now t values = do {
     (st, row) \<leftarrow> commit_values_locked ext now (tp_state t) values;
     Some (t\<lparr>tp_state := st, row_count_mirror := row_count (st_store st)\<rparr>)
   }"

section \<open>Schema changes\<close>

definition maybe_discover_schema :: "topic \<Rightarrow> json_map \<Rightarrow> topic option" where
  "maybe_discover_schema t m =
     (let st = tp_state t in
      if \<not> is_placeholder_schema (st_schema st) \<or> 0 < row_count (st_store st) then Some t
      else if 0 < active_subscriptions t then Some t
      else if m = [] then Some t
      else do {
        sch \<leftarrow> schema_new (map fst m) (map (\<lambda>(_, v). type_from_json v) m);
        Some (t\<lparr>tp_state := state_build sch (cfg_key_fields (tp_config t)) (cfg_index_columns (tp_config t))
                              (capacity (st_store st))\<rparr>)
      })"

fun get_cells :: "column_store \<Rightarrow> nat \<Rightarrow> nat list \<Rightarrow> cq_value list option" where
  "get_cells s row [] = Some []"
| "get_cells s row (c # cs) = do { v \<leftarrow> get_value s c row; vs \<leftarrow> get_cells s row cs; Some (v # vs) }"

fun recommit_rows :: "externals \<Rightarrow> nat \<Rightarrow> column_store \<Rightarrow> nat \<Rightarrow> nat list \<Rightarrow> store_state \<Rightarrow> store_state option" where
  "recommit_rows ext now s ncols [] st = Some st"
| "recommit_rows ext now s ncols (r # rs) st = do {
     vs \<leftarrow> get_cells s r [0..<ncols];
     (st', _) \<leftarrow> commit_values_locked ext now st (vs @ [VNull]);
     recommit_rows ext now s ncols rs st'
   }"

text \<open>The answer is false when the column exists; then nothing changes.\<close>

definition add_column :: "externals \<Rightarrow> nat \<Rightarrow> topic \<Rightarrow> string \<Rightarrow> column_type \<Rightarrow> (bool \<times> topic) option" where
  "add_column ext now t name ty =
     (let st = tp_state t; cols = columns (st_schema st) in
      if index_of (st_schema st) name \<noteq> None then Some (False, t)
      else do {
        sch \<leftarrow> schema_new (map col_name cols @ [name]) (map col_type cols @ [ty]);
        new \<leftarrow> recommit_rows ext now (st_store st) (length cols) [0..<row_count (st_store st)]
                 (state_build sch (cfg_key_fields (tp_config t)) (cfg_index_columns (tp_config t))
                    (capacity (st_store st)));
        Some (True, t\<lparr>tp_state := new\<lparr>last_touched := map (\<lambda>_. now) (last_touched new)\<rparr>\<rparr>)
      })"

section \<open>Publishing\<close>

definition map_values :: "externals \<Rightarrow> schema \<Rightarrow> json_map \<Rightarrow> cq_value list" where
  "map_values ext sch m =
     map (\<lambda>col. case map_of m (col_name col) of Some v \<Rightarrow> from_json ext v (col_type col) | None \<Rightarrow> VNull) (columns sch)"

definition upsert :: "externals \<Rightarrow> topic_env \<Rightarrow> topic \<Rightarrow> cq_value list \<Rightarrow> ((topic_error + nat \<times> nat) \<times> topic) option" where
  "upsert ext env t values = write_store_with_changed ext env t values None True None"

definition unwrap_or_default :: "string option \<Rightarrow> string" where
  "unwrap_or_default k = (case k of Some s \<Rightarrow> s | None \<Rightarrow> [])"

definition upsert_map ::
  "externals \<Rightarrow> json_io \<Rightarrow> topic_env \<Rightarrow> topic \<Rightarrow> json_map \<Rightarrow> ((topic_error + nat) \<times> topic) option" where
  "upsert_map ext io env t m = do {
     let flat = flat_map m;
     t1 \<leftarrow> maybe_discover_schema t flat;
     let key = unwrap_or_default (compute_key_from_map (tp_config t1) flat);
     case (if txlog t1 = None then Some None else map_option Some (to_vec io (JObject flat))) of
       None \<Rightarrow> Some (Inl TopicSerialize, t1)
     | Some payload \<Rightarrow> do {
         let values = map_values ext (st_schema (tp_state t1)) flat;
         (r, t2) \<leftarrow> write_store_with_changed ext env t1 values (map_option (\<lambda>p. (key, p, PJson)) payload) True None;
         Some (res_bind r (\<lambda>(row, seq). Inr seq), t2)
       }
   }"

text \<open>Batch publish: conversion and serialization first, then one commit per row until the first failure.\<close>

fun serialize_prefix :: "json_io \<Rightarrow> topic_config \<Rightarrow> json_map list \<Rightarrow> (string \<times> string) list \<times> bool" where
  "serialize_prefix io cfg [] = ([], True)"
| "serialize_prefix io cfg (m # ms) =
     (case to_vec io (JObject m) of
        None \<Rightarrow> ([], False)
      | Some payload \<Rightarrow>
          (case serialize_prefix io cfg ms of
             (es, ok) \<Rightarrow> ((unwrap_or_default (compute_key_from_map cfg m), payload) # es, ok)))"

fun commit_batch ::
  "externals \<Rightarrow> topic_env \<Rightarrow> topic \<Rightarrow> (cq_value list \<times> (string \<times> string) option) list \<Rightarrow> nat list \<Rightarrow>
   ((topic_error + nat list) \<times> topic) option" where
  "commit_batch ext env t [] seqs = Some (Inr seqs, t)"
| "commit_batch ext env t ((values, entry) # rest) seqs = do {
     (r, t1) \<leftarrow> write_store_with_changed ext env t values (map_option (\<lambda>(k, p). (k, p, PJson)) entry) True None;
     case r of
       Inl err \<Rightarrow> Some (Inl err, t1)
     | Inr (row, seq) \<Rightarrow> commit_batch ext env t1 rest (seqs @ [seq])
   }"

definition upsert_map_batch ::
  "externals \<Rightarrow> json_io \<Rightarrow> topic_env \<Rightarrow> topic \<Rightarrow> json_map list \<Rightarrow> ((topic_error + nat list) \<times> topic) option" where
  "upsert_map_batch ext io env t maps =
     (if maps = [] then Some (Inr [], t)
      else do {
        let rows = map flat_map maps;
        t1 \<leftarrow> maybe_discover_schema t (hd rows);
        let value_rows = map (map_values ext (st_schema (tp_state t1))) rows;
        let (entries, serialized) = (if txlog t1 = None then (map (\<lambda>_. None) rows, True)
               else (case serialize_prefix io (tp_config t1) rows of (es, ok) \<Rightarrow> (map Some es, ok)));
        (r, t2) \<leftarrow> commit_batch ext env t1 (zip value_rows entries) [];
        Some (case r of Inl err \<Rightarrow> Inl err | Inr seqs \<Rightarrow> if serialized then Inr seqs else Inl TopicSerialize,
              t2\<lparr>row_count_mirror := row_count (st_store (tp_state t2))\<rparr>)
      })"

text \<open>The merged row of a delta: supplied columns, then the stored cells, then null.\<close>

fun delta_columns ::
  "externals \<Rightarrow> column_store \<Rightarrow> nat option \<Rightarrow> json_map \<Rightarrow> nat \<Rightarrow> column list \<Rightarrow>
   (cq_value list \<times> json_map \<times> nat list) option" where
  "delta_columns ext s existing flat i [] = Some ([], [], [])"
| "delta_columns ext s existing flat i (col # cols) = do {
     (v, changed) \<leftarrow> (case map_of flat (col_name col) of
         Some j \<Rightarrow> Some (from_json ext j (col_type col), [i])
       | None \<Rightarrow> (case existing of
             Some row \<Rightarrow> map_option (\<lambda>v. (v, [])) (get_value s i row)
           | None \<Rightarrow> Some (VNull, [])));
     (vs, payload, cs) \<leftarrow> delta_columns ext s existing flat (Suc i) cols;
     Some (v # vs, (col_name col, to_json ext v) # payload, changed @ cs)
   }"

definition delta_key :: "topic_config \<Rightarrow> json_map \<Rightarrow> string option" where
  "delta_key cfg flat =
     (case compute_key_from_map cfg flat of
        Some k \<Rightarrow> Some k
      | None \<Rightarrow> if cfg_key_fields cfg = [] then Some [] else None)"

definition delta_upsert_map ::
  "externals \<Rightarrow> json_io \<Rightarrow> topic_env \<Rightarrow> topic \<Rightarrow> json_map \<Rightarrow> ((topic_error + nat) \<times> topic) option" where
  "delta_upsert_map ext io env t m = do {
     let flat = flat_map m;
     t1 \<leftarrow> maybe_discover_schema t flat;
     case delta_key (tp_config t1) flat of
       None \<Rightarrow> Some (Inl (MissingKeyFields (cfg_name (tp_config t1))), t1)
     | Some key \<Rightarrow> do {
         let st = tp_state t1;
         (values, payload, changed) \<leftarrow>
           delta_columns ext (st_store st) (map_of (key_to_row st) key) flat 0 (columns (st_schema st));
         let merged = fold (\<lambda>(k, v) out. obj_insert k v out) payload [];
         let (body, fmt) = (if sparse_delta_txlog t1 then (JObject flat, PJsonDelta) else (JObject merged, PJson));
         case to_vec io body of
           None \<Rightarrow> Some (Inl TopicSerialize, t1)
         | Some bytes \<Rightarrow> do {
             (r, t2) \<leftarrow> write_store_with_changed ext env t1 values (Some (key, bytes, fmt)) True (Some changed);
             Some (res_bind r (\<lambda>(row, seq). Inr seq), t2)
           }
       }
   }"

section \<open>Deleting and expiring\<close>

text \<open>The part after the lookup: the store is changed first, the journal entry follows.\<close>

definition delete_row :: "externals \<Rightarrow> topic_env \<Rightarrow> topic \<Rightarrow> string \<Rightarrow> nat \<Rightarrow> ((topic_error + nat) \<times> topic) option" where
  "delete_row ext env t key row = do {
     st \<leftarrow> free_row ext (tp_state t) key row;
     let seq = next_sequence t + 1;
     case topic_append env (t\<lparr>tp_state := st, next_sequence := seq\<rparr>) seq key [] PJson of
       (Some err, t2) \<Rightarrow> Some (Inl err, t2)
     | (None, t2) \<Rightarrow> Some (Inr seq, emit_event row seq MutDelete None t2)
   }"

definition delete_key :: "externals \<Rightarrow> topic_env \<Rightarrow> topic \<Rightarrow> string \<Rightarrow> ((topic_error + nat option) \<times> topic) option" where
  "delete_key ext env t key =
     (case map_of (key_to_row (tp_state t)) key of
        None \<Rightarrow> Some (Inr None, t)
      | Some row \<Rightarrow> map_option (\<lambda>(r, t2). (res_bind r (\<lambda>seq. Inr (Some seq)), t2)) (delete_row ext env t key row))"

definition delete_if_still_expired ::
  "externals \<Rightarrow> topic_env \<Rightarrow> topic \<Rightarrow> string \<Rightarrow> nat \<Rightarrow> nat \<Rightarrow> ((topic_error + bool) \<times> topic) option" where
  "delete_if_still_expired ext env t key ttl observed =
     (case map_of (key_to_row (tp_state t)) key of
        None \<Rightarrow> Some (Inr False, t)
      | Some row \<Rightarrow>
          if length (last_touched (tp_state t)) \<le> row then Some (Inr False, t)
          else let ts = last_touched (tp_state t) ! row in
          if observed < ts then Some (Inr False, t)
          else if observed - ts < ttl then Some (Inr False, t)
          else map_option (\<lambda>(r, t2). (res_bind r (\<lambda>_. Inr True), t2)) (delete_row ext env t key row))"

text \<open>
  One sweep: the scan under the read lock, in the order \<open>walk\<close> the hash map is iterated, then
  one deletion per candidate; other operations may run between the two and between deletions.
\<close>

definition sweep_candidates :: "topic \<Rightarrow> ((string \<times> nat) list \<Rightarrow> (string \<times> nat) list) \<Rightarrow> nat \<Rightarrow> nat \<Rightarrow> string list" where
  "sweep_candidates t walk now ttl =
     List.map_filter (\<lambda>(k, row).
        if row < length (last_touched (tp_state t)) \<and> ttl \<le> now - last_touched (tp_state t) ! row then Some k else None)
       (walk (key_to_row (tp_state t)))"

fun sweep_delete ::
  "externals \<Rightarrow> topic_env \<Rightarrow> topic \<Rightarrow> nat \<Rightarrow> nat \<Rightarrow> string list \<Rightarrow> ((topic_error + string list) \<times> topic) option" where
  "sweep_delete ext env t ttl now [] = Some (Inr [], t)"
| "sweep_delete ext env t ttl now (k # ks) = do {
     (r, t1) \<leftarrow> delete_if_still_expired ext env t k ttl now;
     case r of
       Inl err \<Rightarrow> Some (Inl err, t1)
     | Inr gone \<Rightarrow> do {
         (r2, t2) \<leftarrow> sweep_delete ext env t1 ttl now ks;
         Some (res_bind r2 (\<lambda>gs. Inr (if gone then k # gs else gs)), t2)
       }
   }"

definition sweep_expired_rows ::
  "externals \<Rightarrow> topic_env \<Rightarrow> ((string \<times> nat) list \<Rightarrow> (string \<times> nat) list) \<Rightarrow> topic \<Rightarrow>
   ((topic_error + string list) \<times> topic) option" where
  "sweep_expired_rows ext env walk t =
     (case cfg_expire_seconds (tp_config t) of
        None \<Rightarrow> Some (Inr [], t)
      | Some ttl_s \<Rightarrow>
          let ttl = ttl_s * 1000000000
          in sweep_delete ext env t ttl (env_now env) (sweep_candidates t walk (env_now env) ttl))"

section \<open>Replay\<close>

definition own_origin :: "topic \<Rightarrow> string \<Rightarrow> bool" where
  "own_origin t origin \<longleftrightarrow> origin = [] \<or> origin = origin_id t"

definition replay_is_duplicate :: "topic \<Rightarrow> string \<Rightarrow> nat \<Rightarrow> bool" where
  "replay_is_duplicate t origin seq =
     (if own_origin t origin then seq \<le> last_applied_sequence t \<and> 0 < last_applied_sequence t
      else case replicated_highwater t origin of Some hw \<Rightarrow> seq \<le> hw | None \<Rightarrow> False)"

definition bump_sequence_to :: "nat \<Rightarrow> topic \<Rightarrow> topic" where
  "bump_sequence_to seq t =
     t\<lparr>next_sequence := max (next_sequence t) seq, last_applied_sequence := max (last_applied_sequence t) seq\<rparr>"

definition replay_note_applied :: "topic \<Rightarrow> string \<Rightarrow> nat \<Rightarrow> topic" where
  "replay_note_applied t origin seq =
     (if own_origin t origin then bump_sequence_to seq t
      else t\<lparr>replicated_highwater := (replicated_highwater t)(origin \<mapsto>
               max (case replicated_highwater t origin of Some hw \<Rightarrow> hw | None \<Rightarrow> 0) seq)\<rparr>)"

definition replay_upsert_map_origin :: "externals \<Rightarrow> nat \<Rightarrow> topic \<Rightarrow> string \<Rightarrow> nat \<Rightarrow> json_map \<Rightarrow> topic option" where
  "replay_upsert_map_origin ext now t origin seq m =
     (if replay_is_duplicate t origin seq then Some t
      else do {
        let flat = flat_map m;
        t1 \<leftarrow> maybe_discover_schema t flat;
        t2 \<leftarrow> write_store_replay ext now t1 (map_values ext (st_schema (tp_state t1)) flat);
        Some (replay_note_applied t2 origin seq)
      })"

definition replay_delta_map_origin :: "externals \<Rightarrow> nat \<Rightarrow> topic \<Rightarrow> string \<Rightarrow> nat \<Rightarrow> json_map \<Rightarrow> topic option" where
  "replay_delta_map_origin ext now t origin seq m =
     (if replay_is_duplicate t origin seq then Some t
      else do {
        let flat = flat_map m;
        t1 \<leftarrow> maybe_discover_schema t flat;
        case delta_key (tp_config t1) flat of
          None \<Rightarrow> Some t1
        | Some key \<Rightarrow> do {
            let st = tp_state t1;
            (values, _) \<leftarrow>
              delta_columns ext (st_store st) (map_of (key_to_row st) key) flat 0 (columns (st_schema st));
            t2 \<leftarrow> write_store_replay ext now t1 values;
            Some (replay_note_applied t2 origin seq)
          }
      })"

definition replay_delete_origin :: "externals \<Rightarrow> topic \<Rightarrow> string \<Rightarrow> nat \<Rightarrow> string \<Rightarrow> topic option" where
  "replay_delete_origin ext t origin seq key =
     (if replay_is_duplicate t origin seq then Some t
      else do {
        t1 \<leftarrow> (case map_of (key_to_row (tp_state t)) key of
                 None \<Rightarrow> Some t
               | Some row \<Rightarrow> map_option (\<lambda>st. t\<lparr>tp_state := st\<rparr>) (free_row ext (tp_state t) key row));
        Some (replay_note_applied t1 origin seq)
      })"

text \<open>Applying one journal entry, as recovery (\<open>main.rs\<close>) and the replication receiver do.\<close>

definition replay_entry :: "externals \<Rightarrow> json_io \<Rightarrow> nat \<Rightarrow> tx_entry \<Rightarrow> topic \<Rightarrow> topic option" where
  "replay_entry ext io now e t =
     (if is_tombstone e then replay_delete_origin ext t (tx_origin e) (tx_sequence e) (tx_key e)
      else case from_slice io (tx_payload e) of
             Some (JObject m) \<Rightarrow>
               if tx_format e = PJsonDelta
               then replay_delta_map_origin ext now t (tx_origin e) (tx_sequence e) m
               else replay_upsert_map_origin ext now t (tx_origin e) (tx_sequence e) m
           | _ \<Rightarrow> Some t)"

definition recover_topic :: "externals \<Rightarrow> json_io \<Rightarrow> nat \<Rightarrow> (string \<Rightarrow> u32) \<Rightarrow> topic \<Rightarrow> segment_files \<Rightarrow> segment_files option \<Rightarrow> nat \<Rightarrow> (tx_log_error + topic) option" where
  "recover_topic ext io now crc t live archive from =
     (case read_segments crc (if 0 < from then skip_to_segment from (reader_segments live archive)
                              else reader_segments live archive) of
        Inl err \<Rightarrow> Some (Inl err)
      | Inr es \<Rightarrow> map_option Inr (run_steps (replay_entry ext io now) es t))"

end
