(* ===== verification/CQ_Topic_Table.thy ===== *)
theory CQ_Topic_Table
  imports CQ_Topic
begin

text \<open>
  A topic with key columns is a table from keys to rows. The invariant ties the parts of the
  store state together: every row number is either the row of exactly one key or a free slot,
  free slots are nulled, each row carries its own key, and the secondary indexes hold exactly
  the cells of the store.

  Shown here: publishes and deletes keep the invariant and change the table as specified, slots
  are reused before the store grows, so the row count is the high-water mark of the live rows,
  index lookups find exactly the live rows, and batches are sequences of publishes.
\<close>

section \<open>Index and rows\<close>

definition cells :: "cq_value list list \<Rightarrow> nat \<Rightarrow> nat \<Rightarrow> cq_value" where
  "cells rows c r = (if r < length rows \<and> c < length (rows ! r) then rows ! r ! c else VNull)"

lemma indexed_cols_index [simp]:
  "indexed_cols (index_add ext c v r ix) = indexed_cols ix"
  "indexed_cols (index_remove ext c v r ix) = indexed_cols ix"
  by (simp_all add: index_add_def index_remove_def)

text \<open>An index says something about the indexed columns only, and only about the keys of their cells.\<close>

definition same_keys :: "externals \<Rightarrow> nat list \<Rightarrow> (nat \<Rightarrow> nat \<Rightarrow> cq_value) \<Rightarrow> (nat \<Rightarrow> nat \<Rightarrow> cq_value) \<Rightarrow> bool" where
  "same_keys ext cols T U \<longleftrightarrow> (\<forall>c \<in> set cols. \<forall>r. ix_key_from_value ext (T c r) = ix_key_from_value ext (U c r) \<and>
     range_key_from_value ext (T c r) = range_key_from_value ext (U c r))"

lemma side_in_step_cong:
  assumes "side_in_step key ok cols m T" "\<And>c r. c \<in> set cols \<Longrightarrow> key (T c r) = key (U c r)"
  shows "side_in_step key ok cols m U"
  using assms unfolding side_in_step_def inner_in_step_def by (metis (no_types, lifting) Collect_cong domI)

lemma index_in_step_cong:
  assumes "index_in_step ext ix T" "same_keys ext (indexed_cols ix) T U"
  shows "index_in_step ext ix U"
  using assms side_in_step_cong [of _ _ _ _ T U] unfolding index_in_step_def same_keys_def by metis

lemma index_row_ok:
  assumes "index_in_step ext ix T" "distinct cols" "\<forall>c \<in> set cols. value_is_null (T c row) \<and> get_value s c row = Some (V c)"
  shows "\<exists>ix'. index_row ext s row cols ix = Some ix' \<and> indexed_cols ix' = indexed_cols ix \<and>
     index_in_step ext ix' (\<lambda>c r. if r = row \<and> c \<in> set cols then V c else T c r)"
  using assms
proof (induction cols arbitrary: ix T)
  case Nil
  then show ?case by simp
next
  case (Cons c cs)
  let ?T = "T(c := (T c)(row := V c))"
  have step: "index_in_step ext (index_add ext c (V c) row ix) ?T"
    using Cons.prems by (intro index_add_in_step) simp_all
  have d: "distinct cs" using Cons.prems by simp
  have rest: "\<forall>d \<in> set cs. value_is_null (?T d row) \<and> get_value s d row = Some (V d)"
    using Cons.prems by auto
  obtain ix' where "index_row ext s row cs (index_add ext c (V c) row ix) = Some ix'"
    "indexed_cols ix' = indexed_cols ix" "index_in_step ext ix' (\<lambda>d r. if r = row \<and> d \<in> set cs then V d else ?T d r)"
    using Cons.IH [OF step d rest] unfolding indexed_cols_index by blast
  moreover have "(\<lambda>d r. if r = row \<and> d \<in> set cs then V d else ?T d r) = (\<lambda>d r. if r = row \<and> d \<in> set (c # cs) then V d else T d r)"
    by (auto simp: fun_eq_iff)
  ultimately show ?case using Cons.prems by simp
qed

lemma unindex_row_ok:
  assumes "index_in_step ext ix T" "distinct cols" "\<forall>c \<in> set cols. get_value s c row = Some (T c row)"
  shows "\<exists>ix'. unindex_row ext s row cols ix = Some ix' \<and> indexed_cols ix' = indexed_cols ix \<and>
     index_in_step ext ix' (\<lambda>c r. if r = row \<and> c \<in> set cols then VNull else T c r)"
  using assms
proof (induction cols arbitrary: ix T)
  case Nil
  then show ?case by simp
next
  case (Cons c cs)
  let ?T = "T(c := (T c)(row := VNull))"
  have step: "index_in_step ext (index_remove ext c (T c row) row ix) ?T"
    using Cons.prems by (intro index_remove_in_step) simp_all
  have d: "distinct cs" using Cons.prems by simp
  have rest: "\<forall>d \<in> set cs. get_value s d row = Some (?T d row)" using Cons.prems by auto
  obtain ix' where "unindex_row ext s row cs (index_remove ext c (T c row) row ix) = Some ix'"
    "indexed_cols ix' = indexed_cols ix" "index_in_step ext ix' (\<lambda>d r. if r = row \<and> d \<in> set cs then VNull else ?T d r)"
    using Cons.IH [OF step d rest] unfolding indexed_cols_index by blast
  moreover have "(\<lambda>d r. if r = row \<and> d \<in> set cs then VNull else ?T d r) = (\<lambda>d r. if r = row \<and> d \<in> set (c # cs) then VNull else T d r)"
    by (auto simp: fun_eq_iff)
  ultimately show ?case using Cons.prems by simp
qed

lemma reindex_cols_ok:
  assumes "index_in_step ext ix T" "distinct cols" "\<forall>c \<in> set cols. get_value s c row = Some (T c row) \<and> c < length vs"
  shows "\<exists>ix'. reindex_cols ext s row vs cols ix = Some ix' \<and> indexed_cols ix' = indexed_cols ix \<and>
     index_in_step ext ix' (\<lambda>c r. if r = row \<and> c \<in> set cols then (if vs ! c = VNull then T c row else vs ! c) else T c r)"
  using assms
proof (induction cols arbitrary: ix T)
  case Nil
  then show ?case by simp
next
  case (Cons c cs)
  let ?new = "if vs ! c = VNull then T c row else vs ! c"
  let ?T = "T(c := (T c)(row := VNull))" and ?U = "T(c := (T c)(row := ?new))"
  have rm: "index_in_step ext (index_remove ext c (T c row) row ix) ?T"
    using Cons.prems by (intro index_remove_in_step) simp_all
  have "index_in_step ext (index_add ext c ?new row (index_remove ext c (T c row) row ix)) (?T(c := (?T c)(row := ?new)))"
    using rm by (intro index_add_in_step) simp_all
  then have step: "index_in_step ext (index_add ext c ?new row (index_remove ext c (T c row) row ix)) ?U"
    by (simp only: fun_upd_upd fun_upd_same)
  have d: "distinct cs" using Cons.prems by simp
  have rest: "\<forall>d \<in> set cs. get_value s d row = Some (?U d row) \<and> d < length vs" using Cons.prems by auto
  obtain ix' where "reindex_cols ext s row vs cs (index_add ext c ?new row (index_remove ext c (T c row) row ix)) = Some ix'"
    "indexed_cols ix' = indexed_cols ix"
    "index_in_step ext ix' (\<lambda>d r. if r = row \<and> d \<in> set cs then (if vs ! d = VNull then ?U d row else vs ! d) else ?U d r)"
    using Cons.IH [OF step d rest] unfolding indexed_cols_index by blast
  moreover have "(\<lambda>d r. if r = row \<and> d \<in> set cs then (if vs ! d = VNull then ?U d row else vs ! d) else ?U d r) =
      (\<lambda>d r. if r = row \<and> d \<in> set (c # cs) then (if vs ! d = VNull then T d row else vs ! d) else T d r)"
    using Cons.prems(2) by (auto simp: fun_eq_iff)
  ultimately show ?case using Cons.prems by (simp add: Let_def)
qed

section \<open>Rows of typed values\<close>

definition row_typed :: "column_type list \<Rightarrow> cq_value list \<Rightarrow> bool" where
  "row_typed ks vs \<longleftrightarrow> length vs = length ks \<and> (\<forall>c < length ks. vs ! c = VNull \<or> typed (ks ! c) (vs ! c))"

definition merge_row :: "cq_value list \<Rightarrow> cq_value list \<Rightarrow> cq_value list" where
  "merge_row old vs = map2 (\<lambda>a v. if v = VNull then a else v) old vs"

abbreviation null_row :: "column_type list \<Rightarrow> cq_value list" where "null_row ks \<equiv> map null_value ks"

lemma merged_values_typed:
  "row_typed ks vs \<Longrightarrow> length old = length ks \<Longrightarrow> merged_values ext ks old vs = merge_row old vs"
  by (rule nth_equalityI)
    (auto simp: merged_values_def merge_row_def overlay_def row_typed_def cell_after_def stored_as_own_kind)

lemma fresh_values_typed: "row_typed ks vs \<Longrightarrow> fresh_values ext ks vs = merge_row (null_row ks) vs"
  by (rule nth_equalityI)
    (auto simp: fresh_values_def merge_row_def overlay_def row_typed_def cell_after_def stored_as_own_kind split: option.splits dest!: spec)

lemma full_values_typed: "row_typed ks vs \<Longrightarrow> full_values ext ks (null_row ks) vs = merge_row (null_row ks) vs"
  using fresh_values_typed by (simp add: fresh_values_def full_values_def)

lemma length_merge_row [simp]: "length (merge_row old vs) = min (length old) (length vs)"
  by (simp add: merge_row_def)

lemma merge_row_nth:
  "c < length old \<Longrightarrow> c < length vs \<Longrightarrow> merge_row old vs ! c = (if vs ! c = VNull then old ! c else vs ! c)"
  by (simp add: merge_row_def)

lemma compute_key_merge:
  assumes "compute_key_with ext vs idx = Some k" "length vs = length old"
  shows "compute_key_with ext (merge_row old vs) idx = Some k"
proof -
  have ne: "idx \<noteq> []" using assms(1) by (auto simp: compute_key_with_def split: if_splits)
  let ?part = "\<lambda>vs i. if i < length vs then value_key_part ext (vs ! i) else None"
  obtain ps where ps: "those (map (?part vs) idx) = Some ps" "k = join_bar ps"
    using assms(1) ne by (auto simp: compute_key_with_def)
  have "?part vs i \<noteq> None" if i: "i \<in> set idx" for i
  proof -
    obtain j where j: "j < length idx" "i = idx ! j" using i by (auto simp: in_set_conv_nth)
    then have "map (?part vs) idx ! j = Some (ps ! j)" using ps(1) unfolding those_eq_Some_conv by simp
    then show ?thesis using j by (simp split: if_splits)
  qed
  then have "i < length vs \<and> vs ! i \<noteq> VNull" if "i \<in> set idx" for i
    using that by (cases "vs ! i") (fastforce split: if_splits)+
  then have "map (?part vs) idx = map (?part (merge_row old vs)) idx"
    using assms(2) by (intro map_cong [OF refl]) (simp add: merge_row_nth)
  then have "those (map (?part (merge_row old vs)) idx) = Some ps" using ps(1) by (simp only:)
  then show ?thesis using ps(2) ne by (simp only: compute_key_with_def if_False option.map)
qed


section \<open>The invariant\<close>

definition state_ok :: "externals \<Rightarrow> store_state \<Rightarrow> bool" where
  "state_ok ext st \<longleftrightarrow>
     store_ok (st_store st) \<and> cs_schema (st_store st) = st_schema st \<and> key_col_indices st \<noteq> [] \<and>
     length (last_touched st) = row_count (st_store st) \<and>
     distinct (map fst (key_to_row st)) \<and> distinct (map snd (key_to_row st) @ free_slots st) \<and>
     set (map snd (key_to_row st) @ free_slots st) = {..<row_count (st_store st)} \<and>
     (\<forall>(k, r) \<in> set (key_to_row st). compute_key_with ext (row_of (st_store st) r) (key_col_indices st) = Some k) \<and>
     (\<forall>r \<in> set (free_slots st). row_of (st_store st) r = null_row (row_kinds (st_store st))) \<and>
     distinct (indexed_cols (secondary_index st)) \<and>
     (\<forall>c \<in> set (indexed_cols (secondary_index st)). c < length (row_kinds (st_store st))) \<and>
     index_in_step ext (secondary_index st) (cells (store_rows (st_store st)))"

text \<open>The table a topic presents: the row of each key.\<close>

definition topic_table :: "store_state \<Rightarrow> string \<rightharpoonup> cq_value list" where
  "topic_table st k = map_option (row_of (st_store st)) (map_of (key_to_row st) k)"

lemma state_okD:
  assumes "state_ok ext st"
  shows "store_ok (st_store st)" "cs_schema (st_store st) = st_schema st" "key_col_indices st \<noteq> []"
    "length (last_touched st) = row_count (st_store st)"
    "distinct (map fst (key_to_row st))" "distinct (map snd (key_to_row st) @ free_slots st)"
    "set (map snd (key_to_row st) @ free_slots st) = {..<row_count (st_store st)}"
    "\<And>k r. (k, r) \<in> set (key_to_row st) \<Longrightarrow> compute_key_with ext (row_of (st_store st) r) (key_col_indices st) = Some k"
    "\<And>r. r \<in> set (free_slots st) \<Longrightarrow> row_of (st_store st) r = null_row (row_kinds (st_store st))"
    "distinct (indexed_cols (secondary_index st))"
    "\<And>c. c \<in> set (indexed_cols (secondary_index st)) \<Longrightarrow> c < length (row_kinds (st_store st))"
    "index_in_step ext (secondary_index st) (cells (store_rows (st_store st)))"
  using assms unfolding state_ok_def by blast+

lemma key_row_bound: "state_ok ext st \<Longrightarrow> map_of (key_to_row st) k = Some r \<Longrightarrow> r < row_count (st_store st)"
  using state_okD(7) [of ext st] map_of_SomeD [of "key_to_row st" k r] by force

lemma key_rows_inj:
  "state_ok ext st \<Longrightarrow> map_of (key_to_row st) k = Some r \<Longrightarrow> map_of (key_to_row st) k' = Some r \<Longrightarrow> k = k'"
  using state_okD(8) [of ext st] map_of_SomeD by (metis option.inject)

text \<open>
  What the store operations do to the cells: column \<open>c\<close> of a row list after replacing row \<open>r\<close>
  or adding a row.
\<close>

lemma cells_update:
  "r < length rows \<Longrightarrow> cells (rows[r := new]) c r' = (if r' = r then (if c < length new then new ! c else VNull) else cells rows c r')"
  by (auto simp: cells_def)

lemma cells_snoc:
  "cells (rows @ [new]) c r' = (if r' = length rows then (if c < length new then new ! c else VNull) else cells rows c r')"
  by (auto simp: cells_def nth_append)

lemma cell_of_row:
  assumes "store_ok s" "r < row_count s" "c < length (row_kinds s)"
  shows "get_value s c r = Some (cells (store_rows s) c r)" "cells (store_rows s) c r = row_of s r ! c"
proof -
  have "r < capacity s" using assms store_ok_shape(3) [OF assms(1)] by simp
  then show "get_value s c r = Some (cells (store_rows s) c r)" "cells (store_rows s) c r = row_of s r ! c"
    using assms store_ok_cell [OF assms(1)] by (simp_all add: cells_def)
qed

section \<open>Writing and freeing rows\<close>

text \<open>The index loops on a state, with the table they leave behind.\<close>

lemma reindex_row_ok:
  assumes ok: "store_ok (st_store st)" and r: "r < row_count (st_store st)"
    and ix: "index_in_step ext (secondary_index st) (cells (store_rows (st_store st)))"
    and cols: "distinct (indexed_cols (secondary_index st))"
      "\<And>c. c \<in> set (indexed_cols (secondary_index st)) \<Longrightarrow> c < length (row_kinds (st_store st))"
    and len: "length vs = length (row_kinds (st_store st))"
  obtains ix' where "reindex_row ext st r vs = Some (st\<lparr>secondary_index := ix'\<rparr>)"
    "indexed_cols ix' = indexed_cols (secondary_index st)"
    "index_in_step ext ix' (cells ((store_rows (st_store st))[r := merge_row (row_of (st_store st) r) vs]))"
proof -
  let ?s = "st_store st" and ?ix = "secondary_index st"
  let ?T = "cells (store_rows ?s)" and ?U = "cells ((store_rows ?s)[r := merge_row (row_of ?s r) vs])"
  have "\<forall>c \<in> set (indexed_cols ?ix). get_value ?s c r = Some (?T c r) \<and> c < length vs"
    using cell_of_row [OF ok r] cols(2) len by simp
  from reindex_cols_ok [OF ix cols(1) this] obtain ix' where
    ix': "reindex_cols ext ?s r vs (indexed_cols ?ix) ?ix = Some ix'" "indexed_cols ix' = indexed_cols ?ix"
    "index_in_step ext ix' (\<lambda>c r'. if r' = r \<and> c \<in> set (indexed_cols ?ix) then (if vs ! c = VNull then ?T c r else vs ! c) else ?T c r')"
    by blast
  have "same_keys ext (indexed_cols ix') (\<lambda>c r'. if r' = r \<and> c \<in> set (indexed_cols ?ix) then (if vs ! c = VNull then ?T c r else vs ! c) else ?T c r') ?U"
    unfolding same_keys_def using ix'(2) cols(2) r len cell_of_row(2) [OF ok r]
    by (auto simp: cells_update merge_row_nth)
  from index_in_step_cong [OF ix'(3) this] have "index_in_step ext ix' ?U" .
  moreover have "reindex_row ext st r vs = Some (st\<lparr>secondary_index := ix'\<rparr>)"
    using ix'(1) by (auto simp: reindex_row_def index_is_empty_def)
  ultimately show thesis using that ix'(2) by blast
qed

lemma index_new_row_ok:
  assumes ok: "store_ok (st_store st)" and r: "r < row_count (st_store st)"
    and ix: "index_in_step ext (secondary_index st) T"
    and cols: "distinct (indexed_cols (secondary_index st))"
      "\<And>c. c \<in> set (indexed_cols (secondary_index st)) \<Longrightarrow> c < length (row_kinds (st_store st))"
    and T: "\<And>c. c \<in> set (indexed_cols (secondary_index st)) \<Longrightarrow> value_is_null (T c r)"
      "\<And>c r'. c \<in> set (indexed_cols (secondary_index st)) \<Longrightarrow> r' \<noteq> r \<Longrightarrow> T c r' = cells (store_rows (st_store st)) c r'"
  obtains ix' where "index_new_row_from_store ext st r = Some (st\<lparr>secondary_index := ix'\<rparr>)"
    "indexed_cols ix' = indexed_cols (secondary_index st)"
    "index_in_step ext ix' (cells (store_rows (st_store st)))"
proof -
  let ?s = "st_store st" and ?ix = "secondary_index st"
  let ?U = "cells (store_rows ?s)"
  have "\<forall>c \<in> set (indexed_cols ?ix). value_is_null (T c r) \<and> get_value ?s c r = Some (?U c r)"
    using cell_of_row [OF ok r] cols(2) T(1) by simp
  from index_row_ok [OF ix cols(1) this] obtain ix' where
    ix': "index_row ext ?s r (indexed_cols ?ix) ?ix = Some ix'" "indexed_cols ix' = indexed_cols ?ix"
    "index_in_step ext ix' (\<lambda>c r'. if r' = r \<and> c \<in> set (indexed_cols ?ix) then ?U c r else T c r')"
    by blast
  have "same_keys ext (indexed_cols ix') (\<lambda>c r'. if r' = r \<and> c \<in> set (indexed_cols ?ix) then ?U c r else T c r') ?U"
    unfolding same_keys_def using ix'(2) T(2) by auto
  from index_in_step_cong [OF ix'(3) this] have "index_in_step ext ix' ?U" .
  moreover have "index_new_row_from_store ext st r = Some (st\<lparr>secondary_index := ix'\<rparr>)"
    using ix'(1) by (auto simp: index_new_row_from_store_def index_is_empty_def)
  ultimately show thesis using that ix'(2) by blast
qed


lemma state_okI:
  assumes "store_ok (st_store st)" "cs_schema (st_store st) = st_schema st" "key_col_indices st \<noteq> []"
    "length (last_touched st) = row_count (st_store st)"
    "distinct (map fst (key_to_row st))" "distinct (map snd (key_to_row st) @ free_slots st)"
    "set (map snd (key_to_row st) @ free_slots st) = {..<row_count (st_store st)}"
    "\<And>k r. (k, r) \<in> set (key_to_row st) \<Longrightarrow> compute_key_with ext (row_of (st_store st) r) (key_col_indices st) = Some k"
    "\<And>r. r \<in> set (free_slots st) \<Longrightarrow> row_of (st_store st) r = null_row (row_kinds (st_store st))"
    "distinct (indexed_cols (secondary_index st))"
    "\<And>c. c \<in> set (indexed_cols (secondary_index st)) \<Longrightarrow> c < length (row_kinds (st_store st))"
    "index_in_step ext (secondary_index st) (cells (store_rows (st_store st)))"
  shows "state_ok ext st"
  unfolding state_ok_def by (intro conjI ballI; (rule assms)?) (use assms(8) in auto)

lemma rows_update:
  assumes "store_rows t = (store_rows s)[r := new]" "r < row_count s"
  shows "row_count t = row_count s" "row_of t r = new" "\<And>r'. r' < row_count s \<Longrightarrow> r' \<noteq> r \<Longrightarrow> row_of t r' = row_of s r'"
proof -
  show n: "row_count t = row_count s" using arg_cong [OF assms(1), of length] by simp
  have "row_of t r' = (store_rows s)[r := new] ! r'" if "r' < row_count s" for r'
    using that n assms(1) store_rows_nth [of r' t] by metis
  then show "row_of t r = new" "\<And>r'. r' < row_count s \<Longrightarrow> r' \<noteq> r \<Longrightarrow> row_of t r' = row_of s r'"
    using assms(2) by simp_all
qed

lemma rows_snoc:
  assumes "store_rows t = store_rows s @ [new]"
  shows "row_count t = row_count s + 1" "row_of t (row_count s) = new" "\<And>r'. r' < row_count s \<Longrightarrow> row_of t r' = row_of s r'"
proof -
  show n: "row_count t = row_count s + 1" using arg_cong [OF assms(1), of length] by simp
  have "row_of t r' = (store_rows s @ [new]) ! r'" if "r' < row_count s + 1" for r'
    using that n assms(1) store_rows_nth [of r' t] by metis
  then show "row_of t (row_count s) = new" "\<And>r'. r' < row_count s \<Longrightarrow> row_of t r' = row_of s r'"
    by (simp_all add: nth_append)
qed

lemmas state_simps = touch_def push_last_touched_def Let_def

text \<open>What stays the same when rows are written.\<close>

definition same_frame :: "store_state \<Rightarrow> store_state \<Rightarrow> bool" where
  "same_frame st st' \<longleftrightarrow>
     st_schema st' = st_schema st \<and> row_kinds (st_store st') = row_kinds (st_store st) \<and>
     key_col_indices st' = key_col_indices st \<and>
     indexed_cols (secondary_index st') = indexed_cols (secondary_index st)"

lemma update_existing_ok:
  assumes ok: "state_ok ext st" and vs: "row_typed (row_kinds (st_store st)) vs"
    and key: "compute_key_with ext vs (key_col_indices st) = Some k" "map_of (key_to_row st) k = Some r"
  obtains st' where "update_existing ext now st r vs = Some (st', r)" "state_ok ext st'" "same_frame st st'"
    "topic_table st' = (topic_table st)(k \<mapsto> merge_row (row_of (st_store st) r) vs)"
    "key_to_row st' = key_to_row st" "free_slots st' = free_slots st"
    "row_count (st_store st') = row_count (st_store st)" "last_touched st' = (last_touched st)[r := now]"
proof -
  note d = state_okD [OF ok]
  have r: "r < row_count (st_store st)" by (rule key_row_bound [OF ok key(2)])
  have len: "length vs = length (row_kinds (st_store st))" using vs by (simp add: row_typed_def)
  obtain ix' where ix': "reindex_row ext st r vs = Some (st\<lparr>secondary_index := ix'\<rparr>)"
    "indexed_cols ix' = indexed_cols (secondary_index st)"
    "index_in_step ext ix' (cells ((store_rows (st_store st))[r := merge_row (row_of (st_store st) r) vs]))"
    by (rule reindex_row_ok [OF d(1) r d(12) d(10) d(11) len])
  obtain s' where s': "update_row ext (st_store st) r vs = Some s'" "store_ok s'" "row_kinds s' = row_kinds (st_store st)"
    "cs_schema s' = cs_schema (st_store st)"
    "store_rows s' = (store_rows (st_store st))[r := merge_row (row_of (st_store st) r) vs]"
    using update_row_ok [OF d(1) r, of ext vs] merged_values_typed [OF vs] by (metis length_row_kinds length_row_of)
  note rows = rows_update [OF s'(5) r]
  define st' where "st' = touch r now (st\<lparr>secondary_index := ix', st_store := s'\<rparr>)"
  have f: "st_store st' = s'" "secondary_index st' = ix'" "key_to_row st' = key_to_row st" "free_slots st' = free_slots st"
    "st_schema st' = st_schema st" "key_col_indices st' = key_col_indices st" "last_touched st' = (last_touched st)[r := now]"
    by (simp_all add: st'_def touch_def)
  have mine: "(k, r) \<in> set (key_to_row st)" using key(2) by (rule map_of_SomeD)
  have bound: "r' < row_count (st_store st)" if "(k', r') \<in> set (key_to_row st)" for k' r'
    using d(7) that by force
  have "state_ok ext st'"
  proof (rule state_okI)
    fix k' r' assume kr: "(k', r') \<in> set (key_to_row st')"
    show "compute_key_with ext (row_of (st_store st') r') (key_col_indices st') = Some k'"
    proof (cases "r' = r")
      case True
      then have "k' = k" using d(8) [OF mine] d(8) [of k' r'] kr f by simp
      then show ?thesis using compute_key_merge [OF key(1)] len rows(2) True f by simp
    next
      case False
      then show ?thesis using rows(3) [of r'] bound [of k' r'] d(8) [of k' r'] kr f by simp
    qed
  next
    fix r' assume "r' \<in> set (free_slots st')"
    then have "r' \<noteq> r" "r' < row_count (st_store st)" using d(6,7) mine f by force+
    then show "row_of (st_store st') r' = null_row (row_kinds (st_store st'))"
      using rows(3) d(9) \<open>r' \<in> set (free_slots st')\<close> f s'(3) by simp
  qed (use d f s' ix' rows in simp_all)
  moreover have "topic_table st' = (topic_table st)(k \<mapsto> merge_row (row_of (st_store st) r) vs)"
  proof (rule ext)
    fix k' show "topic_table st' k' = ((topic_table st)(k \<mapsto> merge_row (row_of (st_store st) r) vs)) k'"
      using key(2) rows f key_row_bound [OF ok, of k'] key_rows_inj [OF ok key(2), of k']
      by (cases "map_of (key_to_row st) k'") (auto simp: topic_table_def)
  qed
  moreover have "update_existing ext now st r vs = Some (st', r)"
    using ix'(1) s'(1) by (simp add: update_existing_def st'_def)
  moreover have "same_frame st st'" using f ix'(2) s'(3) by (simp add: same_frame_def)
  ultimately show thesis using that [of st'] f rows by simp
qed


lemma map_of_snoc_fresh: "k \<notin> fst ` set m \<Longrightarrow> map_of (m @ [(k, v)]) = (map_of m)(k \<mapsto> v)"
  by (induction m) auto

text \<open>
  A new key gets row \<open>r\<close>: the store has changed from \<open>st\<close> to \<open>s'\<close> in that row only, which was
  null or did not exist, and \<open>r\<close> leaves the free slots if it was one.
\<close>

lemma occupy_row_ok:
  assumes ok: "state_ok ext st" and key: "compute_key_with ext new (key_col_indices st) = Some k" "map_of (key_to_row st) k = None"
    and s': "store_ok s'" "row_kinds s' = row_kinds (st_store st)" "cs_schema s' = cs_schema (st_store st)"
    and rows: "row_of s' r = new" "\<And>r'. r' < row_count (st_store st) \<Longrightarrow> r' \<noteq> r \<Longrightarrow> row_of s' r' = row_of (st_store st) r'"
      "{..<row_count s'} = insert r {..<row_count (st_store st)}"
    and slot: "r \<notin> snd ` set (key_to_row st)" "distinct free'" "set free' = set (free_slots st) - {r}"
    and old: "\<And>c. c < length (row_kinds s') \<Longrightarrow> value_is_null (cells (store_rows (st_store st)) c r)"
    and ts: "length ts = row_count s'" "r < length ts"
  obtains ix' where "index_new_row_from_store ext (st\<lparr>st_store := s', free_slots := free', key_to_row := AList.update k r (key_to_row st)\<rparr>) r =
      Some (st\<lparr>st_store := s', free_slots := free', key_to_row := key_to_row st @ [(k, r)], secondary_index := ix'\<rparr>)"
    "indexed_cols ix' = indexed_cols (secondary_index st)"
    "state_ok ext (st\<lparr>st_store := s', free_slots := free', key_to_row := key_to_row st @ [(k, r)], secondary_index := ix', last_touched := ts\<rparr>)"
    "topic_table (st\<lparr>st_store := s', free_slots := free', key_to_row := key_to_row st @ [(k, r)], secondary_index := ix', last_touched := ts\<rparr>) =
      (topic_table st)(k \<mapsto> new)"
proof -
  note d = state_okD [OF ok]
  have r: "r < row_count s'" using rows(3) by blast
  have upd: "AList.update k r (key_to_row st) = key_to_row st @ [(k, r)]"
    using key(2) by (intro update_fresh) (simp add: map_of_eq_None_iff)
  let ?st = "st\<lparr>st_store := s', free_slots := free', key_to_row := key_to_row st @ [(k, r)]\<rparr>"
  have other: "cells (store_rows (st_store st)) c r' = cells (store_rows s') c r'" if "r' \<noteq> r" "c < length (row_kinds s')" for c r'
  proof -
    have "r' < row_count s' \<longleftrightarrow> r' < row_count (st_store st)" using rows(3) that(1) by (auto simp: set_eq_iff)
    then show ?thesis using rows(2) [of r'] that s'(2) by (auto simp: cells_def)
  qed
  obtain ix' where ix': "index_new_row_from_store ext ?st r = Some (?st\<lparr>secondary_index := ix'\<rparr>)"
    "indexed_cols ix' = indexed_cols (secondary_index st)" "index_in_step ext ix' (cells (store_rows s'))"
    using index_new_row_ok [of ?st r ext "cells (store_rows (st_store st))"] s' r d(10,11,12) old other by auto
  let ?st' = "?st\<lparr>secondary_index := ix', last_touched := ts\<rparr>"
  have live: "r' < row_count (st_store st)" "r' \<noteq> r" if "(k', r') \<in> set (key_to_row st)" for k' r'
    using d(7) that slot(1) by force+
  have fresh: "k \<notin> fst ` set (key_to_row st)" using key(2) by (simp add: map_of_eq_None_iff)
  have "state_ok ext ?st'"
  proof (rule state_okI)
    fix k' r' assume "(k', r') \<in> set (key_to_row ?st')"
    then show "compute_key_with ext (row_of (st_store ?st') r') (key_col_indices ?st') = Some k'"
      using key(1) rows(1,2) live d(8) by auto
  next
    fix r' assume "r' \<in> set (free_slots ?st')"
    then have "r' \<in> set (free_slots st)" "r' \<noteq> r" using slot(3) by auto
    moreover from this have "r' < row_count (st_store st)" using d(7) by auto
    ultimately show "row_of (st_store ?st') r' = null_row (row_kinds (st_store ?st'))"
      using rows(2) d(9) s'(2) by simp
  next
    show "set (map snd (key_to_row ?st') @ free_slots ?st') = {..<row_count (st_store ?st')}"
      using d(7) rows(3) slot(3) by auto
    show "distinct (map snd (key_to_row ?st') @ free_slots ?st')"
      using d(6) slot by auto
  qed (use d s' ix' ts fresh in simp_all)
  moreover have "topic_table ?st' = (topic_table st)(k \<mapsto> new)"
  proof (rule HOL.ext)
    fix k' show "topic_table ?st' k' = ((topic_table st)(k \<mapsto> new)) k'"
      using map_of_snoc_fresh [OF fresh] rows(1,2) live [OF map_of_SomeD]
      by (cases "map_of (key_to_row st) k'") (auto simp: topic_table_def)
  qed
  ultimately show thesis using that [of ix'] ix' upd by simp
qed


text \<open>The row count after a publish: the store grows only when no free slot is left.\<close>

definition rows_after :: "store_state \<Rightarrow> string \<Rightarrow> nat" where
  "rows_after st k =
     (if topic_table st k = None \<and> free_slots st = [] then row_count (st_store st) + 1 else row_count (st_store st))"

definition free_after :: "store_state \<Rightarrow> string \<Rightarrow> nat list" where
  "free_after st k = (if topic_table st k = None then butlast (free_slots st) else free_slots st)"

lemma map_of_table: "map_of (key_to_row st) k = None \<longleftrightarrow> topic_table st k = None"
  by (simp add: topic_table_def)

lemma commit_new_ok:
  assumes ok: "state_ok ext st" and vs: "row_typed (row_kinds (st_store st)) vs"
    and key: "compute_key_with ext vs (key_col_indices st) = Some k" "map_of (key_to_row st) k = None"
  obtains st' r where "commit_values_locked ext now st vs = Some (st', r)" "state_ok ext st'" "same_frame st st'"
    "topic_table st' = (topic_table st)(k \<mapsto> merge_row (null_row (row_kinds (st_store st))) vs)"
    "free_slots st' = free_after st k" "row_count (st_store st') = rows_after st k"
    "map_of (key_to_row st') k = Some r" "last_touched st' ! r = now"
    "map_of (key_to_row st') = (map_of (key_to_row st))(k \<mapsto> r)"
proof -
  note d = state_okD [OF ok]
  let ?s = "st_store st" and ?new = "merge_row (null_row (row_kinds (st_store st))) vs"
  have len: "length vs = length (row_kinds ?s)" using vs by (simp add: row_typed_def)
  have k': "compute_key_with ext ?new (key_col_indices st) = Some k"
    by (rule compute_key_merge [OF key(1)]) (simp add: len)
  have tab: "topic_table st k = None" using key(2) by (simp add: map_of_table)
  have nokey: "k \<notin> fst ` set (key_to_row st)" using key(2) by (simp add: map_of_eq_None_iff)
  show thesis
  proof (cases "free_slots st = []")
    case False
    define r where "r = last (free_slots st)"
    have fs: "free_slots st = butlast (free_slots st) @ [r]" using False by (simp add: r_def)
    have sets: "set (free_slots st) = insert r (set (butlast (free_slots st)))" using arg_cong [OF fs, of set] by simp
    then have free: "r \<in> set (free_slots st)" by simp
    then have r: "r < row_count ?s" using d(7) by auto
    have "distinct (butlast (free_slots st) @ [r])" unfolding fs [symmetric] using d(6) by simp
    then have bl: "distinct (butlast (free_slots st))" "set (butlast (free_slots st)) = set (free_slots st) - {r}"
      using sets by auto
    obtain s' where s': "write_row_at ext ?s r vs = Some s'" "store_ok s'" "row_kinds s' = row_kinds ?s"
      "cs_schema s' = cs_schema ?s" "store_rows s' = (store_rows ?s)[r := ?new]"
      using write_row_at_ok [OF d(1) r, of ext vs] d(9) [OF free] full_values_typed [OF vs] by metis
    note rows = rows_update [OF s'(5) r]
    have notlive: "r \<notin> snd ` set (key_to_row st)" using d(6) free by auto
    have null: "value_is_null (cells (store_rows ?s) c r)" if "c < length (row_kinds s')" for c
      using that r d(9) [OF free] s'(3) by (simp add: cells_def)
    obtain ix' where ix': "index_new_row_from_store ext (st\<lparr>st_store := s', free_slots := butlast (free_slots st), key_to_row := AList.update k r (key_to_row st)\<rparr>) r =
        Some (st\<lparr>st_store := s', free_slots := butlast (free_slots st), key_to_row := key_to_row st @ [(k, r)], secondary_index := ix'\<rparr>)"
      "indexed_cols ix' = indexed_cols (secondary_index st)"
      "state_ok ext (st\<lparr>st_store := s', free_slots := butlast (free_slots st), key_to_row := key_to_row st @ [(k, r)], secondary_index := ix', last_touched := (last_touched st)[r := now]\<rparr>)"
      "topic_table (st\<lparr>st_store := s', free_slots := butlast (free_slots st), key_to_row := key_to_row st @ [(k, r)], secondary_index := ix', last_touched := (last_touched st)[r := now]\<rparr>) =
        (topic_table st)(k \<mapsto> ?new)"
      by (rule occupy_row_ok [OF ok k' key(2) s'(2-4), of r "butlast (free_slots st)" "(last_touched st)[r := now]"])
        (use rows r notlive bl null d(4) in auto)
    show ?thesis
      by (rule that [of "st\<lparr>st_store := s', free_slots := butlast (free_slots st), key_to_row := key_to_row st @ [(k, r)], secondary_index := ix', last_touched := (last_touched st)[r := now]\<rparr>" r])
        (use ix' s' key False tab rows r d(4) map_of_snoc_fresh [OF nokey] in
          \<open>simp_all add: commit_values_locked_def Let_def r_def [symmetric] touch_def same_frame_def free_after_def rows_after_def\<close>)
  next
    case True
    let ?r = "row_count ?s"
    obtain s' where s': "append_row_owned ext ?s vs = Some (s', ?r)" "store_ok s'" "row_kinds s' = row_kinds ?s"
      "cs_schema s' = cs_schema ?s" "store_rows s' = store_rows ?s @ [?new]"
      using append_row_ok [OF d(1), of ext vs] fresh_values_typed [OF vs] by (metis append_row_owned_eq)
    note rows = rows_snoc [OF s'(5)]
    let ?ts = "(resize (Suc ?r) now (last_touched st))[?r := now]"
    have notlive: "?r \<notin> snd ` set (key_to_row st)" using d(7) by auto
    obtain ix' where ix': "index_new_row_from_store ext (st\<lparr>st_store := s', free_slots := [], key_to_row := AList.update k ?r (key_to_row st)\<rparr>) ?r =
        Some (st\<lparr>st_store := s', free_slots := [], key_to_row := key_to_row st @ [(k, ?r)], secondary_index := ix'\<rparr>)"
      "indexed_cols ix' = indexed_cols (secondary_index st)"
      "state_ok ext (st\<lparr>st_store := s', free_slots := [], key_to_row := key_to_row st @ [(k, ?r)], secondary_index := ix', last_touched := ?ts\<rparr>)"
      "topic_table (st\<lparr>st_store := s', free_slots := [], key_to_row := key_to_row st @ [(k, ?r)], secondary_index := ix', last_touched := ?ts\<rparr>) =
        (topic_table st)(k \<mapsto> ?new)"
      by (rule occupy_row_ok [OF ok k' key(2) s'(2-4), of ?r "[]" ?ts])
        (use rows notlive True in \<open>auto simp: cells_def\<close>)
    have same: "st\<lparr>st_store := s', key_to_row := x\<rparr> = st\<lparr>st_store := s', free_slots := [], key_to_row := x\<rparr>" for x
      using True by simp
    show ?thesis
      by (rule that [of "st\<lparr>st_store := s', free_slots := [], key_to_row := key_to_row st @ [(k, ?r)], secondary_index := ix', last_touched := ?ts\<rparr>" ?r])
        (use ix' s' key True tab rows d(4) map_of_snoc_fresh [OF nokey] in
          \<open>simp_all add: commit_values_locked_def same push_last_touched_def Let_def same_frame_def free_after_def rows_after_def\<close>)
  qed
qed

lemma commit_ok:
  assumes ok: "state_ok ext st" and vs: "row_typed (row_kinds (st_store st)) vs"
    and key: "compute_key_with ext vs (key_col_indices st) = Some k"
  obtains st' r where "commit_values_locked ext now st vs = Some (st', r)" "state_ok ext st'" "same_frame st st'"
    "topic_table st' = (topic_table st)(k \<mapsto>
       merge_row (case topic_table st k of Some old \<Rightarrow> old | None \<Rightarrow> null_row (row_kinds (st_store st))) vs)"
    "free_slots st' = free_after st k" "row_count (st_store st') = rows_after st k"
    "map_of (key_to_row st') k = Some r" "last_touched st' ! r = now"
    "map_of (key_to_row st') = (map_of (key_to_row st))(k \<mapsto> r)"
proof (cases "map_of (key_to_row st) k")
  case None
  then have "topic_table st k = None" by (simp add: map_of_table)
  then show ?thesis using commit_new_ok [OF ok vs key None, of now] that by (metis option.case(1))
next
  case (Some r)
  have r: "r < length (last_touched st)" using key_row_bound [OF ok Some] state_okD(4) [OF ok] by simp
  obtain st' where "update_existing ext now st r vs = Some (st', r)" "state_ok ext st'" "same_frame st st'"
    "topic_table st' = (topic_table st)(k \<mapsto> merge_row (row_of (st_store st) r) vs)"
    "key_to_row st' = key_to_row st" "free_slots st' = free_slots st"
    "row_count (st_store st') = row_count (st_store st)" "last_touched st' = (last_touched st)[r := now]"
    by (rule update_existing_ok [OF ok vs key Some, of now])
  then show ?thesis using Some key r
    by (intro that [of st' r]) (simp_all add: commit_values_locked_def free_after_def rows_after_def topic_table_def map_upd_triv)
qed

lemma delete_rows:
  "distinct (map fst m) \<Longrightarrow> map_of m k = Some r \<Longrightarrow> mset (map snd m) = add_mset r (mset (map snd (AList.delete k m)))"
proof (induction m)
  case Nil
  then show ?case by simp
next
  case (Cons a m)
  show ?case
  proof (cases "fst a = k")
    case True
    then have "AList.delete k m = m" using Cons.prems by (intro delete_id) simp
    then show ?thesis using True Cons.prems by (cases a) (simp add: AList.delete_eq)
  next
    case False
    then show ?thesis using Cons by (cases a) (simp add: AList.delete_eq)
  qed
qed

lemma null_value_keys [simp]:
  "ix_key_from_value ext (null_value k) = None" "range_key_from_value ext (null_value k) = None"
  by (simp_all add: no_key_iff)

lemma free_row_ok:
  assumes ok: "state_ok ext st" and key: "map_of (key_to_row st) k = Some r"
  obtains st' where "free_row ext st k r = Some st'" "state_ok ext st'" "same_frame st st'"
    "topic_table st' = (topic_table st)(k := None)" "free_slots st' = free_slots st @ [r]"
    "row_count (st_store st') = row_count (st_store st)" "last_touched st' = last_touched st"
    "key_to_row st' = AList.delete k (key_to_row st)"
proof -
  note d = state_okD [OF ok]
  let ?s = "st_store st" and ?cols = "indexed_cols (secondary_index st)"
  have r: "r < row_count ?s" by (rule key_row_bound [OF ok key])
  have mine: "(k, r) \<in> set (key_to_row st)" using key by (rule map_of_SomeD)
  obtain s' where s': "null_out_row ?s r = Some s'" "store_ok s'" "row_kinds s' = row_kinds ?s"
    "cs_schema s' = cs_schema ?s" "store_rows s' = (store_rows ?s)[r := null_row (row_kinds ?s)]"
    using null_out_row_ok [OF d(1) r] by metis
  note rows = rows_update [OF s'(5) r]
  have "\<forall>c \<in> set ?cols. get_value ?s c r = Some (cells (store_rows ?s) c r)"
    using cell_of_row [OF d(1) r] d(11) by simp
  from unindex_row_ok [OF d(12) d(10) this] obtain ix' where
    ix': "unindex_row ext ?s r ?cols (secondary_index st) = Some ix'" "indexed_cols ix' = ?cols"
    "index_in_step ext ix' (\<lambda>c r'. if r' = r \<and> c \<in> set ?cols then VNull else cells (store_rows ?s) c r')"
    by blast
  have "same_keys ext (indexed_cols ix') (\<lambda>c r'. if r' = r \<and> c \<in> set ?cols then VNull else cells (store_rows ?s) c r')
      (cells (store_rows s'))"
    unfolding same_keys_def using ix'(2) d(11) r s'(5)
    by (auto simp: cells_update)
  from index_in_step_cong [OF ix'(3) this] have step: "index_in_step ext ix' (cells (store_rows s'))" .
  have ixo: "(if index_is_empty (secondary_index st) then Some (secondary_index st)
      else unindex_row ext ?s r ?cols (secondary_index st)) = Some ix'"
    using ix'(1) by (auto simp: index_is_empty_def)
  let ?st' = "st\<lparr>key_to_row := AList.delete k (key_to_row st), secondary_index := ix', st_store := s',
       free_slots := free_slots st @ [r]\<rparr>"
  have del: "(k', r') \<in> set (AList.delete k (key_to_row st)) \<longleftrightarrow> (k', r') \<in> set (key_to_row st) \<and> k' \<noteq> k" for k' r'
    by (auto simp: AList.delete_eq)
  have others: "r' \<noteq> r \<and> r' < row_count ?s" if "(k', r') \<in> set (key_to_row st)" "k' \<noteq> k" for k' r'
    using d(8) [OF that(1)] d(8) [OF mine] that d(7) by force
  have "state_ok ext ?st'"
  proof (rule state_okI)
    fix k' r' assume "(k', r') \<in> set (key_to_row ?st')"
    then show "compute_key_with ext (row_of (st_store ?st') r') (key_col_indices ?st') = Some k'"
      using others [of k' r'] rows(3) [of r'] d(8) [of k' r'] by (simp add: del)
  next
    fix r' assume "r' \<in> set (free_slots ?st')"
    moreover have "x < row_count ?s" if "x \<in> set (free_slots st)" for x using d(7) that by auto
    ultimately show "row_of (st_store ?st') r' = null_row (row_kinds (st_store ?st'))"
      using rows(2,3) d(9) s'(3) by (cases "r' = r") simp_all
  next
    have perm: "mset (map snd (key_to_row ?st') @ free_slots ?st') = mset (map snd (key_to_row st) @ free_slots st)"
      using delete_rows [OF d(5) key] by simp
    show "distinct (map snd (key_to_row ?st') @ free_slots ?st')"
      using mset_eq_imp_distinct_iff [OF perm] d(6) by blast
    show "set (map snd (key_to_row ?st') @ free_slots ?st') = {..<row_count (st_store ?st')}"
      using mset_eq_setD [OF perm] d(7) rows(1) by simp
    show "distinct (map fst (key_to_row ?st'))" using d(5) by (simp add: distinct_delete)
  qed (use d s' ix' step rows in simp_all)
  moreover have "topic_table ?st' = (topic_table st)(k := None)"
  proof (rule HOL.ext)
    fix k' show "topic_table ?st' k' = ((topic_table st)(k := None)) k'"
      using others [OF map_of_SomeD, of k'] rows(3)
      by (cases "map_of (key_to_row st) k'") (auto simp: topic_table_def delete_conv')
  qed
  ultimately show thesis
    using that [of ?st'] s' ix' ixo rows by (simp add: free_row_def same_frame_def)
qed

section \<open>A keyed table\<close>

definition schema_wf :: "schema \<Rightarrow> bool" where
  "schema_wf sch \<longleftrightarrow>
     (\<forall>i < length (columns sch). col_index (columns sch ! i) = i) \<and> name_to_index sch = index_columns (columns sch)"

lemma schema_new_schema_wf: "schema_new names types = Some sch \<Longrightarrow> schema_wf sch"
  using schema_new_wf by (simp add: schema_wf_def)

lemma index_of_bound: "schema_wf sch \<Longrightarrow> index_of sch n = Some i \<Longrightarrow> i < length (columns sch)"
  by (auto simp: schema_wf_def index_of_def index_columns_Some)

lemma row_kinds_schema: "store_ok s \<Longrightarrow> row_kinds s = map col_type (columns (cs_schema s))"
  using store_ok_shape(1) [of s] by (intro nth_equalityI) (simp_all add: row_kinds_def store_layout_def compute_mappings_nth)

lemma set_map_filter: "set (List.map_filter f xs) = {y. \<exists>x \<in> set xs. f x = Some y}"
  by (induction xs) (auto simp: map_filter_simps split: option.splits)

lemma state_build_ok:
  assumes "0 < cap" "schema_wf sch" "List.map_filter (index_of sch) keys \<noteq> []"
    and "distinct (List.map_filter (index_of sch) ixs)"
  shows "state_ok ext (state_build sch keys ixs cap)" "topic_table (state_build sch keys ixs cap) = Map.empty"
    "row_count (st_store (state_build sch keys ixs cap)) = 0"
proof -
  note new = column_store_new_ok [OF assms(1), of sch]
  have n: "row_count (column_store_new sch cap) = 0" "cs_schema (column_store_new sch cap) = sch"
    by (simp_all add: column_store_new_def Let_def)
  have "cells [] = (\<lambda>_ _. VNull)" by (simp add: cells_def fun_eq_iff)
  then show "state_ok ext (state_build sch keys ixs cap)"
    using assms new n index_new_in_step index_of_bound [OF assms(2)]
    by (auto simp: state_build_def sec_index_new_def set_map_filter arg_cong [OF new(3), of length] intro!: state_okI)
  show "topic_table (state_build sch keys ixs cap) = Map.empty" by (simp add: topic_table_def state_build_def fun_eq_iff)
  show "row_count (st_store (state_build sch keys ixs cap)) = 0" using n by (simp add: state_build_def)
qed

datatype table_op = PutRow "cq_value list" | RemoveKey string

fun table_step :: "externals \<Rightarrow> nat \<Rightarrow> table_op \<Rightarrow> store_state \<Rightarrow> store_state option" where
  "table_step ext now (PutRow vs) st = map_option fst (commit_values_locked ext now st vs)"
| "table_step ext now (RemoveKey k) st =
     (case map_of (key_to_row st) k of None \<Rightarrow> Some st | Some row \<Rightarrow> free_row ext st k row)"

type_synonym keyed_table = "column_type list \<times> nat list \<times> (string \<rightharpoonup> cq_value list)"

definition state_table :: "store_state \<Rightarrow> keyed_table" where
  "state_table st = (row_kinds (st_store st), key_col_indices st, topic_table st)"

text \<open>The specification: a publish merges its values over the row of its key, or over a null row.\<close>

fun table_spec :: "externals \<Rightarrow> table_op \<Rightarrow> keyed_table \<Rightarrow> keyed_table" where
  "table_spec ext (PutRow vs) (ks, idx, T) =
     (let k = the (compute_key_with ext vs idx)
      in (ks, idx, T(k \<mapsto> merge_row (case T k of Some old \<Rightarrow> old | None \<Rightarrow> null_row ks) vs)))"
| "table_spec ext (RemoveKey k) (ks, idx, T) = (ks, idx, T(k := None))"

fun table_pre :: "externals \<Rightarrow> table_op \<Rightarrow> keyed_table \<Rightarrow> bool" where
  "table_pre ext (PutRow vs) (ks, idx, T) = (row_typed ks vs \<and> compute_key_with ext vs idx \<noteq> None)"
| "table_pre ext (RemoveKey k) _ = True"

interpretation keyed: refinement "state_ok ext" state_table "table_step ext now" "table_spec ext" "table_pre ext" for ext now
proof
  fix st x assume ok: "state_ok ext st" and pre: "table_pre ext x (state_table st)"
  show "\<exists>t. table_step ext now x st = Some t \<and> state_ok ext t \<and> state_table t = table_spec ext x (state_table st)"
  proof (cases x)
    case (PutRow vs)
    then obtain k where vs: "row_typed (row_kinds (st_store st)) vs" "compute_key_with ext vs (key_col_indices st) = Some k"
      using pre by (auto simp: state_table_def)
    show ?thesis
      by (rule commit_ok [OF ok vs, of now]) (use vs(2) in \<open>simp add: PutRow state_table_def same_frame_def\<close>)
  next
    case (RemoveKey k)
    show ?thesis
    proof (cases "map_of (key_to_row st) k")
      case None
      then show ?thesis using RemoveKey ok by (auto simp: state_table_def topic_table_def fun_eq_iff)
    next
      case (Some r)
      then show ?thesis by (rule free_row_ok [OF ok]) (simp add: RemoveKey Some state_table_def same_frame_def)
    qed
  qed
qed

section \<open>Slots\<close>

lemma live_plus_free: "state_ok ext st \<Longrightarrow> length (key_to_row st) + length (free_slots st) = row_count (st_store st)"
  using state_okD(6,7) [of ext st] distinct_card [of "map snd (key_to_row st) @ free_slots st"] by simp

lemma table_step_rows:
  assumes ok: "state_ok ext st" and pre: "table_pre ext x (state_table st)" and step: "table_step ext now x st = Some st'"
  shows "row_count (st_store st') = max (row_count (st_store st)) (length (key_to_row st'))"
proof -
  have ok': "state_ok ext st'" using keyed.simulation [OF ok pre, of now] step by auto
  note n = live_plus_free [OF ok] live_plus_free [OF ok']
  show ?thesis
  proof (cases x)
    case (PutRow vs)
    then obtain k where vs: "row_typed (row_kinds (st_store st)) vs" "compute_key_with ext vs (key_col_indices st) = Some k"
      using pre by (auto simp: state_table_def)
    have "row_count (st_store st') = rows_after st k \<and> free_slots st' = free_after st k"
      by (rule commit_ok [OF ok vs, of now]) (use step PutRow in auto)
    then show ?thesis using n by (auto simp: rows_after_def free_after_def split: if_splits)
  next
    case (RemoveKey k)
    then show ?thesis
    proof (cases "map_of (key_to_row st) k")
      case None
      then show ?thesis using RemoveKey step n by simp
    next
      case (Some r)
      have "row_count (st_store st') = row_count (st_store st)"
        by (rule free_row_ok [OF ok Some]) (use step RemoveKey Some in auto)
      then show ?thesis using n by simp
    qed
  qed
qed

text \<open>The most rows that were live at once, starting from \<open>h\<close>.\<close>

fun high_water :: "externals \<Rightarrow> nat \<Rightarrow> table_op list \<Rightarrow> store_state \<Rightarrow> nat \<Rightarrow> nat" where
  "high_water ext now [] st h = h"
| "high_water ext now (x # xs) st h =
     (case table_step ext now x st of
        None \<Rightarrow> h
      | Some st' \<Rightarrow> high_water ext now xs st' (max h (length (key_to_row st'))))"

lemma run_high_water:
  assumes "state_ok ext st" "run_pre (table_pre ext) (table_spec ext) xs (state_table st)"
    "run_steps (table_step ext now) xs st = Some st'"
  shows "row_count (st_store st') = high_water ext now xs st (row_count (st_store st))"
  using assms
proof (induction xs arbitrary: st)
  case Nil
  then show ?case by simp
next
  case (Cons x xs)
  obtain u where u: "table_step ext now x st = Some u" "state_ok ext u" "state_table u = table_spec ext x (state_table st)"
    using keyed.simulation [of ext st x now] Cons.prems by auto
  have "row_count (st_store st') = high_water ext now xs u (row_count (st_store u))"
    using Cons.IH [OF u(2)] Cons.prems u by simp
  then show ?case using table_step_rows [OF Cons.prems(1) _ u(1)] Cons.prems(2) u(1) by simp
qed

section \<open>Publishing documents\<close>

lemma map_values_typed: "row_typed (map col_type (columns sch)) (map_values ext sch m)"
  by (auto simp: row_typed_def map_values_def typed_from_json split: option.splits)

lemma no_discovery:
  "\<not> is_placeholder_schema (st_schema (tp_state t)) \<Longrightarrow> maybe_discover_schema t m = Some t"
  by (simp add: maybe_discover_schema_def Let_def)


section \<open>No publish panics\<close>

text \<open>
  A weaker invariant, kept also by publishes without a key: row numbers exist and indexed
  columns are columns.
\<close>

definition rows_ok :: "store_state \<Rightarrow> bool" where
  "rows_ok st \<longleftrightarrow>
     store_ok (st_store st) \<and> cs_schema (st_store st) = st_schema st \<and>
     (\<forall>r \<in> snd ` set (key_to_row st) \<union> set (free_slots st). r < row_count (st_store st)) \<and>
     (\<forall>c \<in> set (indexed_cols (secondary_index st)). c < length (row_kinds (st_store st)))"

lemma state_ok_rows_ok: "state_ok ext st \<Longrightarrow> rows_ok st"
  using state_okD(1,2,7,11) [of ext st] by (auto simp: rows_ok_def)

lemma index_row_total:
  "\<forall>c \<in> set cols. get_value s c r \<noteq> None \<Longrightarrow> \<exists>ix'. index_row ext s r cols ix = Some ix' \<and> indexed_cols ix' = indexed_cols ix"
  by (induction cols arbitrary: ix) (auto, metis indexed_cols_index(1))

lemma unindex_row_total:
  "\<forall>c \<in> set cols. get_value s c r \<noteq> None \<Longrightarrow> \<exists>ix'. unindex_row ext s r cols ix = Some ix' \<and> indexed_cols ix' = indexed_cols ix"
  by (induction cols arbitrary: ix) (auto, metis indexed_cols_index(2))

lemma reindex_cols_total:
  "\<forall>c \<in> set cols. get_value s c r \<noteq> None \<Longrightarrow> \<exists>ix'. reindex_cols ext s r vs cols ix = Some ix' \<and> indexed_cols ix' = indexed_cols ix"
  by (induction cols arbitrary: ix) (auto simp: Let_def, (metis indexed_cols_index)+)

lemma indexed_cells:
  assumes "rows_ok st" "r < row_count (st_store st)"
  shows "\<forall>c \<in> set (indexed_cols (secondary_index st)). get_value (st_store st) c r \<noteq> None"
  using assms cell_of_row(1) [of "st_store st" r] by (auto simp: rows_ok_def)

lemma update_existing_total:
  assumes ok: "rows_ok st" and r: "r < row_count (st_store st)"
  obtains st' where "update_existing ext now st r vs = Some (st', r)" "rows_ok st'" "st_schema st' = st_schema st"
    "row_count (st_store st') = row_count (st_store st)" "key_to_row st' = key_to_row st" "free_slots st' = free_slots st"
proof -
  obtain ix' where ix0: "reindex_cols ext (st_store st) r vs (indexed_cols (secondary_index st)) (secondary_index st) = Some ix'"
    "indexed_cols ix' = indexed_cols (secondary_index st)"
    using reindex_cols_total [OF indexed_cells [OF ok r]] by metis
  then have ix': "reindex_row ext st r vs = Some (st\<lparr>secondary_index := ix'\<rparr>)"
    "indexed_cols ix' = indexed_cols (secondary_index st)"
    by (auto simp: reindex_row_def index_is_empty_def)
  have so: "store_ok (st_store st)" using ok by (simp add: rows_ok_def)
  obtain s' where s': "update_row ext (st_store st) r vs = Some s'" "store_ok s'" "row_kinds s' = row_kinds (st_store st)"
    "cs_schema s' = cs_schema (st_store st)"
    "store_rows s' = (store_rows (st_store st))[r := merged_values ext (row_kinds (st_store st)) (row_of (st_store st) r) vs]"
    using update_row_ok [OF so r, of ext vs] by metis
  show thesis
    by (rule that [of "touch r now (st\<lparr>secondary_index := ix', st_store := s'\<rparr>)"])
      (use ok ix' s' rows_update(1) [OF s'(5) r] in \<open>auto simp: update_existing_def rows_ok_def touch_def\<close>)
qed

lemma index_new_row_total:
  assumes "store_ok (st_store st)" "r < row_count (st_store st)"
    "\<forall>c \<in> set (indexed_cols (secondary_index st)). c < length (row_kinds (st_store st))"
  obtains ix' where "index_new_row_from_store ext st r = Some (st\<lparr>secondary_index := ix'\<rparr>)"
    "indexed_cols ix' = indexed_cols (secondary_index st)"
proof -
  have "\<forall>c \<in> set (indexed_cols (secondary_index st)). get_value (st_store st) c r \<noteq> None"
    using cell_of_row(1) [OF assms(1,2)] assms(3) by simp
  from index_row_total [OF this, of ext "secondary_index st"] obtain ix' where
    "index_row ext (st_store st) r (indexed_cols (secondary_index st)) (secondary_index st) = Some ix'"
    "indexed_cols ix' = indexed_cols (secondary_index st)" by blast
  then show thesis by (intro that [of ix']) (auto simp: index_new_row_from_store_def index_is_empty_def)
qed

lemma append_total:
  assumes ok: "rows_ok st"
  obtains s' ix' where "append_row_owned ext (st_store st) vs = Some (s', row_count (st_store st))"
    "index_new_row_from_store ext (st\<lparr>st_store := s', key_to_row := m\<rparr>) (row_count (st_store st)) =
       Some (st\<lparr>st_store := s', key_to_row := m, secondary_index := ix'\<rparr>)"
    "store_ok s'" "cs_schema s' = cs_schema (st_store st)" "row_kinds s' = row_kinds (st_store st)"
    "row_count s' = row_count (st_store st) + 1" "indexed_cols ix' = indexed_cols (secondary_index st)"
proof -
  have so: "store_ok (st_store st)" using ok by (simp add: rows_ok_def)
  obtain s' where s': "append_row_owned ext (st_store st) vs = Some (s', row_count (st_store st))" "store_ok s'"
    "row_kinds s' = row_kinds (st_store st)" "cs_schema s' = cs_schema (st_store st)"
    "store_rows s' = store_rows (st_store st) @ [fresh_values ext (row_kinds (st_store st)) vs]"
    using append_row_ok [OF so, of ext vs] by (metis append_row_owned_eq)
  note n = rows_snoc(1) [OF s'(5)]
  obtain ix' where "index_new_row_from_store ext (st\<lparr>st_store := s', key_to_row := m\<rparr>) (row_count (st_store st)) =
      Some (st\<lparr>st_store := s', key_to_row := m, secondary_index := ix'\<rparr>)"
    "indexed_cols ix' = indexed_cols (secondary_index st)"
    using index_new_row_total [of "st\<lparr>st_store := s', key_to_row := m\<rparr>" "row_count (st_store st)" ext] s' n ok
    unfolding rows_ok_def by simp blast
  then show thesis using that [of s' ix'] s' n by blast
qed

lemma update_rows_subset: "snd ` set (AList.update k r m) \<subseteq> insert r (snd ` set m)"
  by (induction m) auto

lemma commit_total:
  assumes ok: "rows_ok st"
  obtains st' r where "commit_values_locked ext now st vs = Some (st', r)" "rows_ok st'" "st_schema st' = st_schema st"
    "0 < row_count (st_store st')"
proof -
  have bound: "map_of (key_to_row st) k = Some r \<Longrightarrow> r < row_count (st_store st)" for k r
    using ok map_of_SomeD [of "key_to_row st" k r] by (force simp: rows_ok_def)
  have keys: "x < n" if "x \<in> snd ` set (AList.update k r (key_to_row st))" "r < n" "row_count (st_store st) \<le> n" for x k r n
  proof -
    have "x = r \<or> x \<in> snd ` set (key_to_row st)" using that(1) update_rows_subset [of k r "key_to_row st"] by blast
    moreover have "\<forall>y \<in> snd ` set (key_to_row st). y < row_count (st_store st)" using ok unfolding rows_ok_def by blast
    ultimately show ?thesis using that(2,3) by fastforce
  qed
  consider (old) k r where "compute_key_with ext vs (key_col_indices st) = Some k" "map_of (key_to_row st) k = Some r"
    | (slot) k where "compute_key_with ext vs (key_col_indices st) = Some k" "map_of (key_to_row st) k = None" "free_slots st \<noteq> []"
    | (grow) k where "compute_key_with ext vs (key_col_indices st) = Some k" "map_of (key_to_row st) k = None" "free_slots st = []"
    | (zero) "compute_key_with ext vs (key_col_indices st) = None" "0 < row_count (st_store st)"
    | (first) "compute_key_with ext vs (key_col_indices st) = None" "row_count (st_store st) = 0"
    by (metis gr0I option.exhaust)
  then show thesis
  proof cases
    case old
    obtain st' where "update_existing ext now st r vs = Some (st', r)" "rows_ok st'" "st_schema st' = st_schema st"
      "row_count (st_store st') = row_count (st_store st)"
      by (rule update_existing_total [OF ok bound [OF old(2)], of ext now vs])
    then show ?thesis using that [of st' r] old bound [OF old(2)] by (simp add: commit_values_locked_def)
  next
    case zero
    obtain st' where "update_existing ext now st 0 vs = Some (st', 0)" "rows_ok st'" "st_schema st' = st_schema st"
      "row_count (st_store st') = row_count (st_store st)"
      by (rule update_existing_total [OF ok zero(2), of ext now vs])
    then show ?thesis using that [of st' 0] zero by (simp add: commit_values_locked_def)
  next
    case slot
    define r where "r = last (free_slots st)"
    have r: "r < row_count (st_store st)" using ok slot(3) by (auto simp: rows_ok_def r_def)
    have so: "store_ok (st_store st)" using ok by (simp add: rows_ok_def)
    obtain s' where s': "write_row_at ext (st_store st) r vs = Some s'" "store_ok s'" "row_kinds s' = row_kinds (st_store st)"
      "cs_schema s' = cs_schema (st_store st)"
      "store_rows s' = (store_rows (st_store st))[r := full_values ext (row_kinds (st_store st)) (row_of (st_store st) r) vs]"
      using write_row_at_ok [OF so r, of ext vs] by metis
    note n = rows_update(1) [OF s'(5) r]
    let ?st = "st\<lparr>st_store := s', free_slots := butlast (free_slots st), key_to_row := AList.update k r (key_to_row st)\<rparr>"
    obtain ix' where ix': "index_new_row_from_store ext ?st r = Some (?st\<lparr>secondary_index := ix'\<rparr>)"
      "indexed_cols ix' = indexed_cols (secondary_index st)"
      by (rule index_new_row_total [of ?st r ext]) (use s' n r ok in \<open>auto simp: rows_ok_def\<close>)
    let ?t = "?st\<lparr>secondary_index := ix'\<rparr>"
    have "rows_ok ?t" using ok s' n r ix'(2) keys [of _ k r] in_set_butlastD [of _ "free_slots st"]
      unfolding rows_ok_def by auto
    then have rok: "rows_ok (if r < length (last_touched ?t) then touch r now ?t else push_last_touched r now ?t)"
      by (auto simp: rows_ok_def touch_def push_last_touched_def Let_def)
    have eq: "commit_values_locked ext now st vs =
        Some (if r < length (last_touched ?t) then touch r now ?t else push_last_touched r now ?t, r)"
      using slot s'(1) ix'(1) by (simp add: commit_values_locked_def r_def [symmetric] Let_def)
    show ?thesis
      by (rule that [OF eq rok]) (use r n in \<open>auto simp: touch_def push_last_touched_def Let_def\<close>)
  next
    case grow
    obtain s' ix' where a: "append_row_owned ext (st_store st) vs = Some (s', row_count (st_store st))"
      "index_new_row_from_store ext (st\<lparr>st_store := s', key_to_row := AList.update k (row_count (st_store st)) (key_to_row st)\<rparr>) (row_count (st_store st)) =
         Some (st\<lparr>st_store := s', key_to_row := AList.update k (row_count (st_store st)) (key_to_row st), secondary_index := ix'\<rparr>)"
      "store_ok s'" "cs_schema s' = cs_schema (st_store st)" "row_kinds s' = row_kinds (st_store st)"
      "row_count s' = row_count (st_store st) + 1" "indexed_cols ix' = indexed_cols (secondary_index st)"
      by (rule append_total [OF ok])
    show ?thesis
      by (rule that [of "push_last_touched (row_count (st_store st)) now
            (st\<lparr>st_store := s', key_to_row := AList.update k (row_count (st_store st)) (key_to_row st), secondary_index := ix'\<rparr>)" "row_count (st_store st)"])
        (use grow a ok keys [of _ k "row_count (st_store st)" "row_count s'"] in
          \<open>auto simp: commit_values_locked_def rows_ok_def push_last_touched_def Let_def\<close>)
  next
    case first
    obtain s' ix' where a: "append_row_owned ext (st_store st) vs = Some (s', row_count (st_store st))"
      "index_new_row_from_store ext (st\<lparr>st_store := s', key_to_row := key_to_row st\<rparr>) (row_count (st_store st)) =
         Some (st\<lparr>st_store := s', key_to_row := key_to_row st, secondary_index := ix'\<rparr>)"
      "store_ok s'" "cs_schema s' = cs_schema (st_store st)" "row_kinds s' = row_kinds (st_store st)"
      "row_count s' = row_count (st_store st) + 1" "indexed_cols ix' = indexed_cols (secondary_index st)"
      by (rule append_total [OF ok])
    show ?thesis
      by (rule that [of "push_last_touched (row_count (st_store st)) now
            (st\<lparr>st_store := s', key_to_row := key_to_row st, secondary_index := ix'\<rparr>)" "row_count (st_store st)"])
        (use first a ok in \<open>auto simp: commit_values_locked_def rows_ok_def push_last_touched_def Let_def\<close>)
  qed
qed

section \<open>Publishes and batches\<close>

lemma topic_append_fields:
  assumes "topic_append env t seq key payload fmt = (err, t')"
  shows "tp_config t' = tp_config t" "tp_state t' = tp_state t" "active_subscriptions t' = active_subscriptions t"
    "row_count_mirror t' = row_count_mirror t" "mutation_tx t' = mutation_tx t" "next_sequence t' = next_sequence t"
    "last_applied_sequence t' = last_applied_sequence t" "origin_id t' = origin_id t"
    "replicated_highwater t' = replicated_highwater t" "sparse_delta_txlog t' = sparse_delta_txlog t"
    "txlog t' = None \<longleftrightarrow> txlog t = None"
  using assms by (auto simp: topic_append_def split: option.splits prod.splits)

text \<open>What a write of values does, whether or not it is journalled.\<close>

definition journal_result :: "topic_env \<Rightarrow> topic \<Rightarrow> (string \<times> string \<times> payload_format) option \<Rightarrow> topic_error option \<times> topic" where
  "journal_result env t log_args =
     (let t1 = t\<lparr>next_sequence := next_sequence t + 1\<rparr>
      in case log_args of None \<Rightarrow> (None, t1)
         | Some (key, payload, fmt) \<Rightarrow> topic_append env t1 (next_sequence t + 1) key payload fmt)"

lemma journal_result_fields:
  assumes "journal_result env t log_args = (err, t')"
  shows "tp_config t' = tp_config t" "tp_state t' = tp_state t" "active_subscriptions t' = active_subscriptions t"
    "row_count_mirror t' = row_count_mirror t" "mutation_tx t' = mutation_tx t" "next_sequence t' = next_sequence t + 1"
    "last_applied_sequence t' = last_applied_sequence t" "origin_id t' = origin_id t"
    "replicated_highwater t' = replicated_highwater t" "sparse_delta_txlog t' = sparse_delta_txlog t"
    "txlog t' = None \<longleftrightarrow> txlog t = None"
proof -
  consider "err = None" "t' = t\<lparr>next_sequence := next_sequence t + 1\<rparr>"
    | key payload fmt where "topic_append env (t\<lparr>next_sequence := next_sequence t + 1\<rparr>) (next_sequence t + 1) key payload fmt = (err, t')"
    using assms by (cases log_args) (auto simp: journal_result_def Let_def)
  then show "tp_config t' = tp_config t" "tp_state t' = tp_state t" "active_subscriptions t' = active_subscriptions t"
    "row_count_mirror t' = row_count_mirror t" "mutation_tx t' = mutation_tx t" "next_sequence t' = next_sequence t + 1"
    "last_applied_sequence t' = last_applied_sequence t" "origin_id t' = origin_id t"
    "replicated_highwater t' = replicated_highwater t" "sparse_delta_txlog t' = sparse_delta_txlog t"
    "txlog t' = None \<longleftrightarrow> txlog t = None"
    by (cases, simp, simp add: topic_append_fields)+
qed

lemma write_store_unfold:
  "write_store_with_changed ext env t values log_args emit cols =
     (case journal_result env t log_args of
        (Some err, t2) \<Rightarrow> Some (Inl err, t2)
      | (None, t2) \<Rightarrow> do {
          (st, row) \<leftarrow> commit_values_locked ext (env_now env) (tp_state t) values;
          let t3 = t2\<lparr>tp_state := st, row_count_mirror := row_count (st_store st)\<rparr>;
          Some (Inr (row, next_sequence t + 1), if emit then emit_event row (next_sequence t + 1) MutUpsert cols t3 else t3)
        })"
proof -
  obtain err t2 where j: "journal_result env t log_args = (err, t2)" by force
  show ?thesis unfolding write_store_with_changed_def Let_def j [unfolded journal_result_def Let_def] j
    using journal_result_fields(2) [OF j] by (cases err) simp_all
qed

text \<open>A topic whose schema is settled: discovery leaves it alone.\<close>

definition settled :: "topic \<Rightarrow> bool" where
  "settled t \<longleftrightarrow> \<not> is_placeholder_schema (st_schema (tp_state t)) \<or> 0 < row_count (st_store (tp_state t))"

lemma settled_discover: "settled t \<Longrightarrow> maybe_discover_schema t m = Some t"
  by (auto simp: settled_def maybe_discover_schema_def Let_def)

lemma write_store_ok:
  assumes ok: "rows_ok (tp_state t)"
  obtains r t' where "write_store_with_changed ext env t values log_args emit cols = Some (r, t')"
    "rows_ok (tp_state t')" "st_schema (tp_state t') = st_schema (tp_state t)" "tp_config t' = tp_config t"
    "txlog t' = None \<longleftrightarrow> txlog t = None" "\<forall>x. r = Inr x \<longrightarrow> settled t' \<and> snd x = next_sequence t + 1"
    "\<forall>e. r = Inl e \<longrightarrow> tp_state t' = tp_state t \<and> row_count_mirror t' = row_count_mirror t"
    "\<forall>x. r = Inr x \<longrightarrow> row_count_mirror t' = row_count (st_store (tp_state t'))"
proof -
  obtain err t2 where j: "journal_result env t log_args = (err, t2)" by force
  note f = journal_result_fields [OF j]
  show thesis
  proof (cases err)
    case (Some e)
    then show ?thesis using that [of "Inl e" t2] j f ok by (simp add: write_store_unfold)
  next
    case None
    obtain st row where c: "commit_values_locked ext (env_now env) (tp_state t) values = Some (st, row)" "rows_ok st"
      "st_schema st = st_schema (tp_state t)" "0 < row_count (st_store st)"
      by (rule commit_total [OF ok])
    show ?thesis
      by (rule that [of "Inr (row, next_sequence t + 1)"
            "if emit then emit_event row (next_sequence t + 1) MutUpsert cols (t2\<lparr>tp_state := st, row_count_mirror := row_count (st_store st)\<rparr>)
             else t2\<lparr>tp_state := st, row_count_mirror := row_count (st_store st)\<rparr>"])
        (use None j f c in \<open>simp_all add: write_store_unfold emit_event_def settled_def\<close>)
  qed
qed

lemma rows_ok_build:
  assumes "0 < cap" "schema_wf sch"
  shows "rows_ok (state_build sch keys ixs cap)"
proof -
  note new = column_store_new_ok [OF assms(1), of sch]
  have "cs_schema (column_store_new sch cap) = sch" by (simp add: column_store_new_def Let_def)
  then show ?thesis
    using new index_of_bound [OF assms(2)]
    by (auto simp: rows_ok_def state_build_def sec_index_new_def set_map_filter arg_cong [OF new(3), of length])
qed

lemma discover_ok:
  assumes ok: "rows_ok (tp_state t)"
  obtains t' where "maybe_discover_schema t m = Some t'" "rows_ok (tp_state t')" "tp_config t' = tp_config t"
    "txlog t' = txlog t" "next_sequence t' = next_sequence t" "row_count_mirror t' = row_count_mirror t"
    "row_count (st_store (tp_state t')) = row_count (st_store (tp_state t))"
    "t' = t \<or> row_count (st_store (tp_state t)) = 0 \<and> 0 < capacity (st_store (tp_state t))"
proof -
  obtain sch where sch: "schema_new (map fst m) (map (\<lambda>(_, v). type_from_json v) m) = Some sch"
    by (simp add: schema_new_def Let_def)
  let ?st = "state_build sch (cfg_key_fields (tp_config t)) (cfg_index_columns (tp_config t)) (capacity (st_store (tp_state t)))"
  have cap: "0 < capacity (st_store (tp_state t))" using ok store_ok_shape(2) by (auto simp: rows_ok_def)
  have b: "rows_ok ?st" by (rule rows_ok_build [OF cap schema_new_schema_wf [OF sch]])
  have n: "row_count (st_store ?st) = 0" by (simp add: state_build_def column_store_new_def Let_def)
  show thesis
  proof (cases "settled t \<or> 0 < active_subscriptions t \<or> m = []")
    case True
    then show ?thesis by (intro that [of t]) (auto simp: maybe_discover_schema_def settled_def Let_def ok)
  next
    case False
    then have "maybe_discover_schema t m = Some (t\<lparr>tp_state := ?st\<rparr>)" "row_count (st_store (tp_state t)) = 0"
      using sch by (auto simp: maybe_discover_schema_def settled_def Let_def)
    then show ?thesis using b n cap by (intro that [of "t\<lparr>tp_state := ?st\<rparr>"]) simp_all
  qed
qed

text \<open>A publish on a topic whose schema has been discovered, as the batch and the single publish share it.\<close>

definition publish_flat :: "externals \<Rightarrow> json_io \<Rightarrow> topic_env \<Rightarrow> topic \<Rightarrow> json_map \<Rightarrow> ((topic_error + nat) \<times> topic) option" where
  "publish_flat ext io env t flat =
     (case (if txlog t = None then Some None else map_option Some (to_vec io (JObject flat))) of
        None \<Rightarrow> Some (Inl TopicSerialize, t)
      | Some payload \<Rightarrow> do {
          (r, t2) \<leftarrow> write_store_with_changed ext env t (map_values ext (st_schema (tp_state t)) flat)
             (map_option (\<lambda>p. (unwrap_or_default (compute_key_from_map (tp_config t) flat), p, PJson)) payload) True None;
          Some (res_bind r (\<lambda>(row, seq). Inr seq), t2)
        })"

lemma upsert_map_flat:
  "upsert_map ext io env t m = Option.bind (maybe_discover_schema t (flat_map m)) (\<lambda>t1. publish_flat ext io env t1 (flat_map m))"
  unfolding upsert_map_def publish_flat_def Let_def ..

text \<open>Publishing one document after another, until the first failure.\<close>

fun publish_each ::
  "externals \<Rightarrow> json_io \<Rightarrow> topic_env \<Rightarrow> topic \<Rightarrow> json_map list \<Rightarrow> nat list \<Rightarrow> ((topic_error + nat list) \<times> topic) option" where
  "publish_each ext io env t [] seqs = Some (Inr seqs, t)"
| "publish_each ext io env t (m # ms) seqs = do {
     (r, t1) \<leftarrow> upsert_map ext io env t m;
     case r of Inl err \<Rightarrow> Some (Inl err, t1) | Inr seq \<Rightarrow> publish_each ext io env t1 ms (seqs @ [seq])
   }"

definition batch_entries :: "json_io \<Rightarrow> topic \<Rightarrow> json_map list \<Rightarrow> (string \<times> string) option list \<times> bool" where
  "batch_entries io t rows =
     (if txlog t = None then (map (\<lambda>_. None) rows, True)
      else (case serialize_prefix io (tp_config t) rows of (es, ok) \<Rightarrow> (map Some es, ok)))"

definition batch_flat ::
  "externals \<Rightarrow> json_io \<Rightarrow> topic_env \<Rightarrow> topic \<Rightarrow> json_map list \<Rightarrow> nat list \<Rightarrow> ((topic_error + nat list) \<times> topic) option" where
  "batch_flat ext io env t rows seqs =
     (case batch_entries io t rows of
        (entries, serialized) \<Rightarrow> do {
          (r, t2) \<leftarrow> commit_batch ext env t (zip (map (map_values ext (st_schema (tp_state t))) rows) entries) seqs;
          Some (case r of Inl err \<Rightarrow> Inl err | Inr seqs \<Rightarrow> if serialized then Inr seqs else Inl TopicSerialize, t2)
        })"

lemma batch_flat_step:
  assumes ok: "rows_ok (tp_state t)"
    and rest: "\<And>t' seqs. rows_ok (tp_state t') \<Longrightarrow> settled t' \<Longrightarrow>
      batch_flat ext io env t' (map flat_map ms) seqs = publish_each ext io env t' ms seqs"
  shows "batch_flat ext io env t (map flat_map (m # ms)) seqs =
     Option.bind (publish_flat ext io env t (flat_map m))
       (\<lambda>(r, t1). case r of Inl err \<Rightarrow> Some (Inl err, t1) | Inr seq \<Rightarrow> publish_each ext io env t1 ms (seqs @ [seq]))"
proof (cases "txlog t = None \<or> to_vec io (JObject (flat_map m)) \<noteq> None")
  case False
  then obtain w where "txlog t = Some w" "to_vec io (JObject (flat_map m)) = None" by auto
  then show ?thesis by (simp add: batch_flat_def batch_entries_def publish_flat_def)
next
  case True
  let ?vals = "map_values ext (st_schema (tp_state t)) (flat_map m)"
  let ?key = "unwrap_or_default (compute_key_from_map (tp_config t) (flat_map m))"
  define log where "log = (if txlog t = None then None else Some (?key, the (to_vec io (JObject (flat_map m)))))"
  obtain r t1 where w: "write_store_with_changed ext env t ?vals (map_option (\<lambda>(k, p). (k, p, PJson)) log) True None = Some (r, t1)"
    "rows_ok (tp_state t1)" "st_schema (tp_state t1) = st_schema (tp_state t)" "tp_config t1 = tp_config t"
    "txlog t1 = None \<longleftrightarrow> txlog t = None" "\<forall>x. r = Inr x \<longrightarrow> settled t1 \<and> snd x = next_sequence t + 1"
    by (rule write_store_ok [OF ok, of ext env ?vals "map_option (\<lambda>(k, p). (k, p, PJson)) log" True None]) (rule that)
  have pub: "publish_flat ext io env t (flat_map m) = Some (res_bind r (\<lambda>(row, seq). Inr seq), t1)"
    using True w(1) by (auto simp: publish_flat_def log_def)
  have ents: "batch_entries io t (map flat_map (m # ms)) =
      (case batch_entries io t1 (map flat_map ms) of (es, ok) \<Rightarrow> (log # es, ok))"
    using True w(4,5) by (auto simp: batch_entries_def log_def split: prod.splits)
  show ?thesis
  proof (cases r)
    case (Inl e)
    then show ?thesis using pub w(1) ents by (simp add: batch_flat_def split: prod.splits)
  next
    case (Inr x)
    then show ?thesis
      using pub w(1,3) ents rest [OF w(2), of "seqs @ [snd x]"] w(6) Inr
      by (auto simp: batch_flat_def split: prod.splits)
  qed
qed

lemma batch_flat_each:
  "rows_ok (tp_state t) \<Longrightarrow> settled t \<Longrightarrow>
   batch_flat ext io env t (map flat_map ms) seqs = publish_each ext io env t ms seqs"
proof (induction ms arbitrary: t seqs)
  case Nil
  then show ?case by (simp add: batch_flat_def batch_entries_def)
next
  case (Cons m ms)
  then show ?case
    using batch_flat_step [OF Cons.prems(1) Cons.IH] by (simp add: upsert_map_flat settled_discover)
qed

definition mirror_ok :: "topic \<Rightarrow> bool" where
  "mirror_ok t \<longleftrightarrow> row_count_mirror t = row_count (st_store (tp_state t))"

lemma upsert_map_ok:
  assumes ok: "rows_ok (tp_state t)" and m: "mirror_ok t"
  obtains r t' where "upsert_map ext io env t m = Some (r, t')" "rows_ok (tp_state t')" "mirror_ok t'"
proof -
  obtain t1 where t1: "maybe_discover_schema t (flat_map m) = Some t1" "rows_ok (tp_state t1)"
    "row_count_mirror t1 = row_count_mirror t" "row_count (st_store (tp_state t1)) = row_count (st_store (tp_state t))"
    by (rule discover_ok [OF ok])
  have m1: "mirror_ok t1" using m t1 by (simp add: mirror_ok_def)
  show thesis
  proof (cases "if txlog t1 = None then Some None else map_option Some (to_vec io (JObject (flat_map m)))")
    case None
    then show ?thesis using that [of "Inl TopicSerialize" t1] t1 m1 by (simp add: upsert_map_flat publish_flat_def)
  next
    case (Some payload)
    let ?log = "map_option (\<lambda>p. (unwrap_or_default (compute_key_from_map (tp_config t1) (flat_map m)), p, PJson)) payload"
    obtain r t2 where w: "write_store_with_changed ext env t1 (map_values ext (st_schema (tp_state t1)) (flat_map m)) ?log True None = Some (r, t2)"
      "rows_ok (tp_state t2)" "\<forall>e. r = Inl e \<longrightarrow> tp_state t2 = tp_state t1 \<and> row_count_mirror t2 = row_count_mirror t1"
      "\<forall>x. r = Inr x \<longrightarrow> row_count_mirror t2 = row_count (st_store (tp_state t2))"
      by (rule write_store_ok [OF t1(2), of ext env "map_values ext (st_schema (tp_state t1)) (flat_map m)" ?log True None]) (rule that)
    have "mirror_ok t2" using w(3,4) m1 by (cases r) (simp_all add: mirror_ok_def)
    then show ?thesis using that [of "res_bind r (\<lambda>(row, seq). Inr seq)" t2] w(1,2) t1(1) Some
      by (simp add: upsert_map_flat publish_flat_def)
  qed
qed

lemma publish_each_ok:
  "rows_ok (tp_state t) \<Longrightarrow> mirror_ok t \<Longrightarrow> publish_each ext io env t ms seqs = Some (r, t') \<Longrightarrow> rows_ok (tp_state t') \<and> mirror_ok t'"
proof (induction ms arbitrary: t seqs)
  case Nil
  then show ?case by simp
next
  case (Cons m ms)
  obtain r1 t1 where "upsert_map ext io env t m = Some (r1, t1)" "rows_ok (tp_state t1)" "mirror_ok t1"
    by (rule upsert_map_ok [OF Cons.prems(1,2)])
  then show ?case using Cons.IH [of t1] Cons.prems(3) by (cases r1) auto
qed

lemma batch_each:
  assumes ok: "rows_ok (tp_state t)" and mir: "mirror_ok t"
  shows "upsert_map_batch ext io env t maps = publish_each ext io env t maps []"
proof (cases maps)
  case Nil
  then show ?thesis by (simp add: upsert_map_batch_def)
next
  case (Cons m ms)
  obtain t1 where t1: "maybe_discover_schema t (flat_map m) = Some t1" "rows_ok (tp_state t1)"
    by (rule discover_ok [OF ok])
  have "upsert_map_batch ext io env t maps =
      map_option (\<lambda>(r, t2). (r, t2\<lparr>row_count_mirror := row_count (st_store (tp_state t2))\<rparr>)) (batch_flat ext io env t1 (map flat_map maps) [])"
    using Cons t1(1)
    by (simp add: upsert_map_batch_def batch_flat_def batch_entries_def Let_def map_option_bind case_prod_beta' split: prod.splits)
  also have "batch_flat ext io env t1 (map flat_map maps) [] = publish_each ext io env t maps []"
    using batch_flat_step [where ms = ms and m = m and seqs = "[]", OF t1(2) batch_flat_each] Cons t1(1) by (simp add: upsert_map_flat)
  finally have eq: "upsert_map_batch ext io env t maps =
      map_option (\<lambda>(r, t2). (r, t2\<lparr>row_count_mirror := row_count (st_store (tp_state t2))\<rparr>)) (publish_each ext io env t maps [])" .
  show ?thesis
  proof (cases "publish_each ext io env t maps []")
    case None
    then show ?thesis using eq by simp
  next
    case (Some rt)
    then obtain r t2 where rt: "publish_each ext io env t maps [] = Some (r, t2)" by (cases rt) auto
    then have "mirror_ok t2" using publish_each_ok [OF ok mir] by blast
    then show ?thesis using eq rt by (simp add: mirror_ok_def)
  qed
qed


section \<open>Properties\<close>


lemma sample_schema_wf: "schema_wf sample_schema"
proof -
  obtain sch where "schema_new [''id'', ''px'', ''name''] [TLong, TDouble, TString] = Some sch"
    by (simp add: schema_new_def Let_def)
  then show ?thesis using schema_new_schema_wf [of _ _ sch] by (simp add: sample_schema_def)
qed

lemma sample_index: "index_of sample_schema ''id'' = Some 0" "index_of sample_schema ''name'' = Some 2" "length (columns sample_schema) = 3"
  by code_simp+

lemma sample_keys: "List.map_filter (index_of sample_schema) [''id''] = [0]" "List.map_filter (index_of sample_schema) [''name''] = [2]"
  by (simp_all add: map_filter_simps sample_index)

abbreviation sample_table :: "table_op list \<Rightarrow> keyed_table" where
  "sample_table ops \<equiv> fold (table_spec sample_externals) ops ([TLong, TDouble, TString], [0], Map.empty)"

definition sample_ops :: "table_op list" where
  "sample_ops = [PutRow [VLong 1, VNull, VString (Some ''a'')], PutRow [VLong 2, VNull, VString (Some ''b'')],
                 RemoveKey ''1'', PutRow [VLong 3, VNull, VString (Some ''c'')], PutRow [VLong 2, VNull, VString (Some ''d'')]]"

lemma sample_key: "compute_key_with sample_externals [VLong n, x, y] [0] = Some (show_int (sint n))"
  by (simp add: compute_key_with_def)

lemma sample_show: "show_int (sint (1 :: i64)) = ''1''" "show_int (sint (2 :: i64)) = ''2''" "show_int (sint (3 :: i64)) = ''3''"
  by code_simp+

lemma sample_pre: "run_pre (table_pre sample_externals) (table_spec sample_externals) sample_ops ([TLong, TDouble, TString], [0], Map.empty)"
  by (simp add: sample_ops_def row_typed_def sample_key All_less_Suc2 numeral_3_eq_3 Let_def)


text \<open>
  C36: Slots freed by deletes are reused before the store grows: after any such sequence the
  number of rows of the store is the largest number of keys that were live at the same time,
  not the number of keys ever published.
\<close>

theorem rows_are_live_high_water:
  assumes "0 < cap" "schema_wf sch" "List.map_filter (index_of sch) keys \<noteq> []" "distinct (List.map_filter (index_of sch) ixs)"
    and "run_pre (table_pre ext) (table_spec ext) ops (map col_type (columns sch), List.map_filter (index_of sch) keys, Map.empty)"
    and "run_steps (table_step ext now) ops (state_build sch keys ixs cap) = Some st"
  shows "row_count (st_store st) = high_water ext now ops (state_build sch keys ixs cap) 0"
proof -
  note b = state_build_ok [OF assms(1-4)]
  have "state_table (state_build sch keys ixs cap) = (map col_type (columns sch), List.map_filter (index_of sch) keys, Map.empty)"
    using b(2) column_store_new_ok(3) [OF assms(1), of sch] by (simp add: state_table_def state_build_def)
  then show ?thesis using run_high_water [OF b(1) _ assms(6)] assms(5) b(3) by simp
qed

theorem rows_are_live_high_water_witness:
  "\<exists>st. run_steps (table_step sample_externals 5) sample_ops (state_build sample_schema [''id''] [''name''] 1) = Some st \<and>
     row_count (st_store st) = high_water sample_externals 5 sample_ops (state_build sample_schema [''id''] [''name''] 1) 0"
proof -
  note b = state_build_ok [of 1 sample_schema "[''id'']" "[''name'']"]
  have ok: "state_ok sample_externals (state_build sample_schema [''id''] [''name''] 1)"
    by (rule b) (simp_all add: sample_schema_wf sample_index map_filter_simps)
  have t: "state_table (state_build sample_schema [''id''] [''name''] 1) = ([TLong, TDouble, TString], [0], Map.empty)"
    using b(2) column_store_new_ok(3) [of 1 sample_schema]
    by (simp add: state_table_def state_build_def sample_kinds sample_index map_filter_simps sample_schema_wf)
  obtain st where st: "run_steps (table_step sample_externals 5) sample_ops (state_build sample_schema [''id''] [''name''] 1) = Some st"
    using keyed.run_refines [where xs = sample_ops and now = 5, OF ok] t sample_pre by auto
  show ?thesis
    using rows_are_live_high_water [of 1 sample_schema "[''id'']" "[''name'']" sample_externals sample_ops 5 st] st
    by (simp add: sample_schema_wf sample_index map_filter_simps sample_kinds sample_pre)
qed

text \<open>
  In every such state an equality lookup in the secondary index of a column returns exactly
  the rows that are live under some key and hold the value in that column; deleted rows are
  never returned.
\<close>

theorem indexed_lookup_finds_live_rows:
  assumes "state_ok ext st" "covers (secondary_index st) c" "ix_key_from_value ext v = Some key"
  shows "rows_for ext (secondary_index st) c v =
     (let rs = {r. \<exists>k. map_of (key_to_row st) k = Some r \<and> ix_key_from_value ext (row_of (st_store st) r ! c) = Some key}
      in if rs = {} then None else Some rs)"
proof -
  note d = state_okD [OF assms(1)]
  have c: "c < length (row_kinds (st_store st))" using assms(2) d(11) by (simp add: covers_def)
  have "ix_key_from_value ext (cells (store_rows (st_store st)) c r) = Some key \<longleftrightarrow>
      (\<exists>k. map_of (key_to_row st) k = Some r \<and> ix_key_from_value ext (row_of (st_store st) r ! c) = Some key)" for r
  proof (cases "r < row_count (st_store st)")
    case False
    then show ?thesis using key_row_bound [OF assms(1)] by (auto simp: cells_def)
  next
    case True
    then have "r \<in> snd ` set (key_to_row st) \<union> set (free_slots st)" using d(7) by auto
    then consider k where "(k, r) \<in> set (key_to_row st)" | "r \<in> set (free_slots st)" by auto
    then show ?thesis
    proof cases
      case 1
      then show ?thesis using d(5) cell_of_row(2) [OF d(1) True c] by auto
    next
      case 2
      then have "map_of (key_to_row st) k \<noteq> Some r" for k using d(6) map_of_SomeD by fastforce
      then show ?thesis using d(9) [OF 2] cell_of_row(2) [OF d(1) True c] c by simp
    qed
  qed
  then show ?thesis using rows_for_scan [OF d(12) assms(2,3)] by simp
qed

lemma sample_commit:
  obtains st where "commit_values_locked sample_externals 5 (state_build sample_schema [''id''] [''name''] 1) [VLong 1, VNull, VString (Some ''a'')] = Some (st, 0)"
    "state_ok sample_externals st" "key_col_indices st = [0]" "indexed_cols (secondary_index st) = [2]"
    "row_kinds (st_store st) = [TLong, TDouble, TString]" "map_of (key_to_row st) ''1'' = Some 0" "last_touched st ! 0 = 5"
    "row_count (st_store st) = 1" "st_schema st = sample_schema"
proof -
  let ?b = "state_build sample_schema [''id''] [''name''] 1"
  note fresh = state_build_ok [of 1 sample_schema "[''id'']" "[''name'']"]
  have ok: "state_ok sample_externals ?b" "row_count (st_store ?b) = 0" "free_slots ?b = []"
    by (rule fresh; simp add: sample_schema_wf sample_index map_filter_simps) (simp_all add: state_build_def column_store_new_def Let_def)
  have kinds: "row_kinds (st_store ?b) = [TLong, TDouble, TString]" "key_col_indices ?b = [0]"
    "indexed_cols (secondary_index ?b) = [2]" "key_to_row ?b = []" "st_schema ?b = sample_schema"
    using column_store_new_ok(3) [of 1 sample_schema]
    by (simp_all add: state_build_def sample_kinds sample_index map_filter_simps sec_index_new_def)
  have vs: "row_typed (row_kinds (st_store ?b)) [VLong 1, VNull, VString (Some ''a'')]"
    unfolding kinds by (simp add: row_typed_def All_less_Suc2 numeral_3_eq_3)
  have key: "compute_key_with sample_externals [VLong 1, VNull, VString (Some ''a'')] (key_col_indices ?b) = Some ''1''"
    unfolding kinds sample_show(1) [symmetric] by (rule sample_key)
  obtain st r where c: "commit_values_locked sample_externals 5 ?b [VLong 1, VNull, VString (Some ''a'')] = Some (st, r)"
    "state_ok sample_externals st" "same_frame ?b st" "row_count (st_store st) = rows_after ?b ''1''"
    "map_of (key_to_row st) ''1'' = Some r" "last_touched st ! r = 5"
    by (rule commit_ok [OF ok(1) vs key, of 5])
  have n: "row_count (st_store st) = 1" unfolding c(4) rows_after_def topic_table_def using ok(2,3) kinds(4) by simp
  then have r: "r = 0" using key_row_bound [OF c(2,5)] by simp
  show thesis
    by (rule that [OF c(1,2) [unfolded r]]) (use c(3,5,6) r n kinds in \<open>auto simp: same_frame_def\<close>)
qed

theorem indexed_lookup_finds_live_rows_witness:
  "\<exists>st. commit_values_locked sample_externals 5 (state_build sample_schema [''id''] [''name''] 1) [VLong 1, VNull, VString (Some ''a'')] = Some (st, 0) \<and>
     rows_for sample_externals (secondary_index st) 2 (VString (Some ''a'')) =
       (let rs = {r. \<exists>k. map_of (key_to_row st) k = Some r \<and> ix_key_from_value sample_externals (row_of (st_store st) r ! 2) = Some (IxString ''a'')}
        in if rs = {} then None else Some rs)"
proof -
  obtain st where c: "commit_values_locked sample_externals 5 (state_build sample_schema [''id''] [''name''] 1) [VLong 1, VNull, VString (Some ''a'')] = Some (st, 0)"
    "state_ok sample_externals st" "indexed_cols (secondary_index st) = [2]"
    by (rule sample_commit)
  then show ?thesis
    using indexed_lookup_finds_live_rows [OF c(2), of 2 "VString (Some ''a'')" "IxString ''a''"] by (auto simp: covers_def)
qed

end
