(* ===== verification/CQ_Topic_Effects.thy ===== *)
theory CQ_Topic_Effects
  imports CQ_Topic_Table
begin

text \<open>
  What one operation of a topic does from the outside: the table, the journal, the sequence
  numbers and the events of a publish, of a batch, of a delete whose journal write fails and of
  the removal of an expired row.
\<close>

section \<open>A sample topic\<close>

definition sample_config :: topic_config where
  "sample_config = \<lparr>cfg_name = ''/t'', cfg_key_fields = [''id''], cfg_persist = True, cfg_conflation_ms = None,
     cfg_index_columns = [''name''], cfg_expire_seconds = Some 60\<rparr>"

definition sample_topic :: topic where
  "sample_topic = topic_new sample_config sample_schema 1"

definition sample_env :: topic_env where
  "sample_env = \<lparr>env_now = 9, env_ms = 0, env_torn = (\<lambda>seq. if seq = 2 then Some 0 else None), env_crc = sample_crc\<rparr>"

definition sample_doc :: json_map where
  "sample_doc = [(''id'', JNumber (JNum False (Some 1) None ''1''))]"

definition sample_io :: json_io where
  "sample_io = \<lparr>to_vec = (\<lambda>_. Some ''{}''), from_slice = (\<lambda>_. Some (JObject sample_doc))\<rparr>"

lemma sample_topic_ok:
  "state_ok sample_externals (tp_state sample_topic)" "rows_ok (tp_state sample_topic)" "mirror_ok sample_topic"
  "st_schema (tp_state sample_topic) = sample_schema" "key_col_indices (tp_state sample_topic) = [0]"
  "txlog sample_topic = None" "next_sequence sample_topic = 0" "mutation_tx sample_topic = []"
proof -
  show ok: "state_ok sample_externals (tp_state sample_topic)"
    unfolding sample_topic_def topic_new_def sample_config_def
    by (simp del: One_nat_def) (rule state_build_ok; simp add: sample_schema_wf sample_index map_filter_simps)
  show "rows_ok (tp_state sample_topic)" by (rule state_ok_rows_ok [OF ok])
qed (simp_all add: sample_topic_def topic_new_def mirror_ok_def state_build_def column_store_new_def Let_def
    sample_config_def sample_index map_filter_simps)

lemma sample_doc_flat: "flat_map sample_doc = sample_doc"
  by (simp add: flat_map_def map_has_nesting_def sample_doc_def)

lemma sample_schema_columns: "map col_name (columns sample_schema) = [''id'', ''px'', ''name'']" "map col_type (columns sample_schema) = [TLong, TDouble, TString]"
  "\<not> is_placeholder_schema sample_schema"
  by code_simp+

lemma sample_doc_values: "map_values sample_externals sample_schema sample_doc = [VLong 1, VNull, VNull]"
  by code_simp

section \<open>Properties\<close>



text \<open>
  C15: A batch is the publishes of its rows one after the other, up to the first failure: same
  sequence numbers, journal, store and events, and the same error.
\<close>

theorem batch_is_publishes:
  assumes "rows_ok (tp_state t)" "mirror_ok t"
  shows "upsert_map_batch ext io env t maps = publish_each ext io env t maps []"
  by (rule batch_each [OF assms])

theorem batch_is_publishes_witness:
  "upsert_map_batch sample_externals sample_io sample_env sample_topic [sample_doc, sample_doc] =
     publish_each sample_externals sample_io sample_env sample_topic [sample_doc, sample_doc] []"
  by (rule batch_is_publishes [OF sample_topic_ok(2,3)])

text \<open>
  C35: A publish without its key on a topic with key columns is not refused, unlike a delta: it is
  merged into row 0, whichever key that row belongs to.
\<close>

theorem publish_without_key_hits_row_zero:
  assumes ok: "state_ok ext st" and vs: "row_typed (row_kinds (st_store st)) vs"
    and key: "compute_key_with ext vs (key_col_indices st) = None" "map_of (key_to_row st) k = Some 0"
  shows "\<exists>st'. commit_values_locked ext now st vs = Some (st', 0) \<and>
     topic_table st' k = Some (merge_row (row_of (st_store st) 0) vs)"
proof -
  note d = state_okD [OF ok]
  have r: "0 < row_count (st_store st)" by (rule key_row_bound [OF ok key(2)])
  obtain s' where s': "update_row ext (st_store st) 0 vs = Some s'"
    "store_rows s' = (store_rows (st_store st))[0 := merge_row (row_of (st_store st) 0) vs]"
    using update_row_ok [OF d(1) r, of ext vs] merged_values_typed [OF vs] by (metis length_row_kinds length_row_of)
  obtain st' where st': "update_existing ext now st 0 vs = Some (st', 0)" "key_to_row st' = key_to_row st"
    by (rule update_existing_total [OF state_ok_rows_ok [OF ok] r])
  have "st_store st' = s'" using st'(1) s'(1)
    by (auto simp: update_existing_def reindex_row_def touch_def bind_eq_Some split: if_splits)
  then show ?thesis
    using st' rows_update(2) [OF s'(2) r] key r by (simp add: commit_values_locked_def topic_table_def)
qed

theorem publish_without_key_hits_row_zero_witness:
  "\<exists>st st'. commit_values_locked sample_externals 5 (state_build sample_schema [''id''] [''name''] 1) [VLong 1, VNull, VString (Some ''a'')] = Some (st, 0) \<and>
     commit_values_locked sample_externals 6 st [VNull, VNull, VString (Some ''b'')] = Some (st', 0) \<and>
     topic_table st' ''1'' = Some (merge_row (row_of (st_store st) 0) [VNull, VNull, VString (Some ''b'')])"
proof -
  obtain st where c: "commit_values_locked sample_externals 5 (state_build sample_schema [''id''] [''name''] 1) [VLong 1, VNull, VString (Some ''a'')] = Some (st, 0)"
    "state_ok sample_externals st" "key_col_indices st = [0]" "row_kinds (st_store st) = [TLong, TDouble, TString]"
    "map_of (key_to_row st) ''1'' = Some 0"
    by (rule sample_commit)
  have vs: "row_typed (row_kinds (st_store st)) [VNull, VNull, VString (Some ''b'')]"
    unfolding c(4) by (simp add: row_typed_def All_less_Suc2 numeral_3_eq_3)
  have key: "compute_key_with sample_externals [VNull, VNull, VString (Some ''b'')] (key_col_indices st) = None"
    unfolding c(3) by (simp add: compute_key_with_def)
  show ?thesis using c(1) publish_without_key_hits_row_zero [OF c(2) vs key c(5), of 6] by blast
qed

text \<open>
  C34: A delete takes the row out of the store before it is journalled. When the journal write
  fails the caller is told the delete failed and no subscriber hears of it, yet the key is gone
  from the table, while what a restart reads back is the journal of before the delete.
\<close>

theorem failed_delete_is_not_undone:
  assumes ok: "state_ok ext (tp_state t)" and key: "map_of (key_to_row (tp_state t)) k = Some r"
    and log: "txlog t = Some w" "writer_ok (env_crc env) es w" "\<forall>x \<in> set es. entry_ok x"
    and e: "e = \<lparr>tx_sequence = next_sequence t + 1, tx_timestamp_ms = env_ms env, tx_topic = cfg_name (tp_config t), tx_key = k,
       tx_origin = origin_id t, tx_payload = [], tx_format = PJson\<rparr>" "entry_ok e"
    and torn: "env_torn env (next_sequence t + 1) = Some n" "n < length (entry_frame (env_crc env) e)"
  shows "\<exists>t' w'. delete_key ext env t k = Some (Inl (TopicTxLog TxIo), t') \<and>
     topic_table (tp_state t') = (topic_table (tp_state t))(k := None) \<and> topic_table (tp_state t) k \<noteq> None \<and>
     mutation_tx t' = mutation_tx t \<and> txlog t' = Some w' \<and>
     read_all (env_crc env) (tw_live w') (tw_archive w') = Inr es"
proof -
  obtain st where st: "free_row ext (tp_state t) k r = Some st" "topic_table st = (topic_table (tp_state t))(k := None)"
    by (rule free_row_ok [OF ok key])
  obtain v where v: "append_with_origin_format (env_crc env) (Some n) w e = (Some TxIo, v)"
    "read_all (env_crc env) (tw_live v) (tw_archive v) = Inr es"
    using torn_append_reads [OF log(2,3) e(2) torn(2)] by blast
  have "topic_append env (t\<lparr>tp_state := st, next_sequence := next_sequence t + 1\<rparr>) (next_sequence t + 1) k [] PJson =
      (Some (TopicTxLog TxIo), t\<lparr>tp_state := st, next_sequence := next_sequence t + 1, txlog := Some v\<rparr>)"
    using v(1) log(1) torn(1) unfolding e(1) by (simp add: topic_append_def)
  then show ?thesis
    using st v key by (auto simp: delete_key_def delete_row_def topic_table_def)
qed

theorem failed_delete_is_not_undone_witness:
  "\<exists>st t'. commit_values_locked sample_externals 5 (state_build sample_schema [''id''] [''name''] 1) [VLong 1, VNull, VString (Some ''a'')] = Some (st, 0) \<and>
     delete_key sample_externals sample_env (sample_topic\<lparr>tp_state := st, next_sequence := 1, txlog := Some (new_log 1000 False)\<rparr>) ''1'' =
       Some (Inl (TopicTxLog TxIo), t') \<and> topic_table (tp_state t') ''1'' = None \<and> topic_table st ''1'' \<noteq> None"
proof -
  obtain st where c: "commit_values_locked sample_externals 5 (state_build sample_schema [''id''] [''name''] 1) [VLong 1, VNull, VString (Some ''a'')] = Some (st, 0)"
    "state_ok sample_externals st" "map_of (key_to_row st) ''1'' = Some 0"
    by (rule sample_commit)
  let ?t = "sample_topic\<lparr>tp_state := st, next_sequence := 1, txlog := Some (new_log 1000 False)\<rparr>"
  let ?e = "\<lparr>tx_sequence = next_sequence ?t + 1, tx_timestamp_ms = env_ms sample_env, tx_topic = cfg_name (tp_config ?t), tx_key = ''1'',
       tx_origin = origin_id ?t, tx_payload = [], tx_format = PJson\<rparr>"
  have e: "entry_ok ?e"
    by (simp add: entry_ok_def sample_topic_def topic_new_def sample_config_def sample_env_def entry_body_def entry_v2_def
        MAX_TOPIC_LEN_def MAX_ORIGIN_LEN_def MAX_ENTRY_SIZE_def byte_in_def)
  show ?thesis
    using failed_delete_is_not_undone [of sample_externals ?t "''1''" 0 "new_log 1000 False" sample_env "[]" ?e 0, OF _ _ _ _ _ refl e] c
      new_log_ok
    by (auto simp: sample_env_def length_entry_frame)
qed



end
