(* ===== verification/CQ_Recovery.thy ===== *)
theory CQ_Recovery
  imports CQ_Topic_Effects
begin

text \<open>
  Recovery of a topic from its journal (\<open>topic.rs\<close> \<open>replay_*\<close>, \<open>main.rs\<close>
  \<open>recover_topic_with_archive\<close>): the operations of a journalled topic, the entries they leave,
  and that replaying these entries into a new topic gives the same state up to the time stamps
  of the rows, which are the time of the replay.
\<close>

section \<open>States up to the time stamps of their rows\<close>

definition forget :: "store_state \<Rightarrow> store_state" where
  "forget st = st\<lparr>last_touched := map (\<lambda>_. 0) (last_touched st)\<rparr>"

lemma forget_simps [simp]:
  "st_store (forget st) = st_store st" "st_schema (forget st) = st_schema st" "key_to_row (forget st) = key_to_row st"
  "key_col_indices (forget st) = key_col_indices st" "free_slots (forget st) = free_slots st"
  "secondary_index (forget st) = secondary_index st" "length (last_touched (forget st)) = length (last_touched st)"
  by (simp_all add: forget_def)

lemma forget_updates:
  "forget (st\<lparr>st_store := s\<rparr>) = (forget st)\<lparr>st_store := s\<rparr>"
  "forget (st\<lparr>secondary_index := ix\<rparr>) = (forget st)\<lparr>secondary_index := ix\<rparr>"
  "forget (st\<lparr>key_to_row := m\<rparr>) = (forget st)\<lparr>key_to_row := m\<rparr>"
  "forget (st\<lparr>free_slots := fs\<rparr>) = (forget st)\<lparr>free_slots := fs\<rparr>"
  by (simp_all add: forget_def)

lemma forget_touch: "forget (touch r now st) = touch r 0 (forget st)"
  by (simp add: forget_def touch_def map_update)

lemma forget_push: "forget (push_last_touched r now st) = push_last_touched r 0 (forget st)"
  by (simp add: forget_def push_last_touched_def map_update resize_def Let_def)

lemma forget_reindex: "reindex_row ext (forget st) r vs = map_option forget (reindex_row ext st r vs)"
  by (auto simp: reindex_row_def map_option_bind forget_updates comp_def option.map_comp)

lemma forget_index_new: "index_new_row_from_store ext (forget st) r = map_option forget (index_new_row_from_store ext st r)"
  by (auto simp: index_new_row_from_store_def forget_updates option.map_comp comp_def)

lemma forget_update_existing:
  "update_existing ext 0 (forget st) r vs = map_option (map_prod forget id) (update_existing ext now st r vs)"
proof (cases "reindex_row ext st r vs")
  case None
  then show ?thesis by (simp add: update_existing_def forget_reindex)
next
  case (Some st1)
  then show ?thesis
    by (cases "update_row ext (st_store st1) r vs") (simp_all add: update_existing_def forget_reindex forget_touch forget_updates)
qed

lemma forget_commit:
  "commit_values_locked ext 0 (forget st) vs = map_option (map_prod forget id) (commit_values_locked ext now st vs)"
proof -
  have new: "Option.bind (index_new_row_from_store ext (forget u) r) (\<lambda>v. Some (push_last_touched r 0 v, r)) =
      map_option (map_prod forget id) (Option.bind (index_new_row_from_store ext u r) (\<lambda>v. Some (push_last_touched r now v, r)))" for u r
    by (simp add: forget_index_new map_option_bind forget_push comp_def) (simp add: map_conv_bind_option)
  have slot: "Option.bind (index_new_row_from_store ext (forget u) r)
        (\<lambda>v. Some (if r < length (last_touched v) then touch r 0 v else push_last_touched r 0 v, r)) =
      map_option (map_prod forget id) (Option.bind (index_new_row_from_store ext u r)
        (\<lambda>v. Some (if r < length (last_touched v) then touch r now v else push_last_touched r now v, r)))" for u r
    by (cases "index_new_row_from_store ext u r") (simp_all add: forget_index_new forget_push forget_touch)
  show ?thesis
  proof (cases "compute_key_with ext vs (key_col_indices st)")
    case None
    show ?thesis
    proof (cases "0 < row_count (st_store st)")
      case True
      with None show ?thesis by (simp add: commit_values_locked_def forget_update_existing [of _ _ _ _ now])
    next
      case False
      with None new [of "st\<lparr>st_store := fst sr\<rparr>" "snd sr" for sr] show ?thesis
        by (cases "append_row_owned ext (st_store st) vs") (auto simp: commit_values_locked_def forget_updates)
    qed
  next
    case (Some k)
    show ?thesis
    proof (cases "map_of (key_to_row st) k")
      case None
      show ?thesis
      proof (cases "free_slots st = []")
        case True
        with None Some new [of "st\<lparr>st_store := fst sr, key_to_row := AList.update k (snd sr) (key_to_row st)\<rparr>" "snd sr" for sr] show ?thesis
          by (cases "append_row_owned ext (st_store st) vs") (auto simp: commit_values_locked_def forget_updates)
      next
        case False
        let ?r = "last (free_slots st)"
        show ?thesis using None Some False
            slot [of "st\<lparr>st_store := s, free_slots := butlast (free_slots st), key_to_row := AList.update k ?r (key_to_row st)\<rparr>" ?r for s]
          by (cases "write_row_at ext (st_store st) ?r vs") (simp_all add: commit_values_locked_def forget_updates Let_def)
      qed
    next
      fix r assume "map_of (key_to_row st) k = Some r"
      with Some show ?thesis by (simp add: commit_values_locked_def forget_update_existing [of _ _ _ _ now])
    qed
  qed
qed

lemma forget_free_row: "free_row ext (forget st) k r = map_option forget (free_row ext st k r)"
proof (cases "if index_is_empty (secondary_index st) then Some (secondary_index st)
    else unindex_row ext (st_store st) r (indexed_cols (secondary_index st)) (secondary_index st)")
  case None
  then show ?thesis by (simp add: free_row_def split: if_splits)
next
  case (Some ix)
  then show ?thesis
    by (cases "null_out_row (st_store st) r") (simp_all add: free_row_def forget_updates split: if_splits)
qed

text \<open>Two states that differ in the time stamps only go the same way.\<close>

lemma same_commit:
  assumes "forget a = forget b" "commit_values_locked ext now a vs = Some (a', r)"
  obtains b' where "commit_values_locked ext now' b vs = Some (b', r)" "forget a' = forget b'"
  using forget_commit [of ext a vs now] forget_commit [of ext b vs now'] assms by auto

lemma same_free:
  assumes "forget a = forget b" "free_row ext a k r = Some a'"
  obtains b' where "free_row ext b k r = Some b'" "forget a' = forget b'"
  using forget_free_row [of ext a k r] forget_free_row [of ext b k r] assms by auto

lemma same_fields:
  assumes "forget a = forget b"
  shows "st_store a = st_store b" "st_schema a = st_schema b" "key_to_row a = key_to_row b" "topic_table a = topic_table b"
proof -
  show f: "st_store a = st_store b" "st_schema a = st_schema b" "key_to_row a = key_to_row b"
    using arg_cong [OF assms, of st_store] arg_cong [OF assms, of st_schema] arg_cong [OF assms, of key_to_row] by simp_all
  show "topic_table a = topic_table b" by (rule HOL.ext) (simp add: topic_table_def f)
qed

section \<open>Operations of a journalled topic\<close>

datatype topic_op = Publish json_map | DeltaPublish json_map | Remove string | Expire string nat nat

fun topic_step :: "externals \<Rightarrow> json_io \<Rightarrow> topic_env \<times> topic_op \<Rightarrow> topic \<Rightarrow> topic option" where
  "topic_step ext io (env, Publish m) t = map_option snd (upsert_map ext io env t m)"
| "topic_step ext io (env, DeltaPublish m) t = map_option snd (delta_upsert_map ext io env t m)"
| "topic_step ext io (env, Remove k) t = map_option snd (delete_key ext env t k)"
| "topic_step ext io (env, Expire k ttl observed) t = map_option snd (delete_if_still_expired ext env t k ttl observed)"

text \<open>The entry an operation leaves in the journal.\<close>

definition new_entry :: "topic_env \<Rightarrow> topic \<Rightarrow> string \<Rightarrow> string \<Rightarrow> payload_format \<Rightarrow> tx_entry" where
  "new_entry env t key payload fmt =
     \<lparr>tx_sequence = next_sequence t + 1, tx_timestamp_ms = env_ms env, tx_topic = cfg_name (tp_config t), tx_key = key,
      tx_origin = origin_id t, tx_payload = payload, tx_format = fmt\<rparr>"

fun op_entry :: "json_io \<Rightarrow> topic_env \<Rightarrow> topic \<Rightarrow> topic_op \<Rightarrow> tx_entry option" where
  "op_entry io env t (Publish m) =
     Some (new_entry env t (unwrap_or_default (compute_key_from_map (tp_config t) (flat_map m)))
             (the (to_vec io (JObject (flat_map m)))) PJson)"
| "op_entry io env t (DeltaPublish m) =
     map_option (\<lambda>k. new_entry env t k (the (to_vec io (JObject (flat_map m)))) PJsonDelta) (delta_key (tp_config t) (flat_map m))"
| "op_entry io env t (Remove k) = map_option (\<lambda>_. new_entry env t k [] PJson) (map_of (key_to_row (tp_state t)) k)"
| "op_entry io env t (Expire k ttl observed) =
     (case map_of (key_to_row (tp_state t)) k of
        None \<Rightarrow> None
      | Some r \<Rightarrow> if r < length (last_touched (tp_state t)) \<and> last_touched (tp_state t) ! r + ttl \<le> observed
                  then Some (new_entry env t k [] PJson) else None)"

text \<open>
  What the theorems ask of an operation: its journal write goes through and its entry fits the
  format; the bytes of a document are not empty and parse to the document. A delta is journalled
  as published, and it carries its key or the schema is known already.
\<close>

definition doc_journalled :: "json_io \<Rightarrow> json_map \<Rightarrow> bool" where
  "doc_journalled io m \<longleftrightarrow>
     (case to_vec io (JObject (flat_map m)) of
        Some b \<Rightarrow> b \<noteq> [] \<and> from_slice io b = Some (JObject (flat_map m)) | None \<Rightarrow> False)"

fun op_doc_ok :: "json_io \<Rightarrow> topic \<Rightarrow> topic_op \<Rightarrow> bool" where
  "op_doc_ok io t (Publish m) = doc_journalled io m"
| "op_doc_ok io t (DeltaPublish m) =
     (doc_journalled io m \<and> sparse_delta_txlog t \<and> (settled t \<or> delta_key (tp_config t) (flat_map m) \<noteq> None))"
| "op_doc_ok io t _ = True"

definition op_ok :: "json_io \<Rightarrow> (string \<Rightarrow> u32) \<Rightarrow> topic \<Rightarrow> topic_env \<times> topic_op \<Rightarrow> bool" where
  "op_ok io crc t = (\<lambda>(env, op).
     env_crc env = crc \<and> env_torn env (next_sequence t + 1) = None \<and> op_doc_ok io t op \<and>
     (case op_entry io env t op of Some e \<Rightarrow> entry_ok e | None \<Rightarrow> True))"

fun ops_ok :: "externals \<Rightarrow> json_io \<Rightarrow> (string \<Rightarrow> u32) \<Rightarrow> topic \<Rightarrow> (topic_env \<times> topic_op) list \<Rightarrow> bool" where
  "ops_ok ext io crc t [] = True"
| "ops_ok ext io crc t (op # ops) =
     (op_ok io crc t op \<and> (case topic_step ext io op t of Some t' \<Rightarrow> ops_ok ext io crc t' ops | None \<Rightarrow> True))"

text \<open>
  A relation between states may follow the writes of some values only: \<open>fine st vs\<close>. The
  operations of a sequence write such values.
\<close>

definition op_fine :: "(store_state \<Rightarrow> cq_value list \<Rightarrow> bool) \<Rightarrow> externals \<Rightarrow> topic \<Rightarrow> topic_op \<Rightarrow> bool" where
  "op_fine fine ext t op =
     (case op of
        Publish m \<Rightarrow> (case maybe_discover_schema t (flat_map m) of
            Some t1 \<Rightarrow> fine (tp_state t1) (map_values ext (st_schema (tp_state t1)) (flat_map m)) | None \<Rightarrow> True)
      | DeltaPublish m \<Rightarrow> (case (maybe_discover_schema t (flat_map m), delta_key (tp_config t) (flat_map m)) of
            (Some t1, Some key) \<Rightarrow>
              (case delta_columns ext (st_store (tp_state t1)) (map_of (key_to_row (tp_state t1)) key) (flat_map m) 0
                      (columns (st_schema (tp_state t1))) of
                 Some (vs, _) \<Rightarrow> fine (tp_state t1) vs | None \<Rightarrow> True)
          | _ \<Rightarrow> True)
      | _ \<Rightarrow> True)"

fun ops_fine :: "(store_state \<Rightarrow> cq_value list \<Rightarrow> bool) \<Rightarrow> externals \<Rightarrow> json_io \<Rightarrow> topic \<Rightarrow> (topic_env \<times> topic_op) list \<Rightarrow> bool" where
  "ops_fine fine ext io t [] = True"
| "ops_fine fine ext io t (op # ops) =
     (op_fine fine ext t (snd op) \<and> (case topic_step ext io op t of Some t' \<Rightarrow> ops_fine fine ext io t' ops | None \<Rightarrow> True))"

section \<open>The journal of a topic\<close>

text \<open>
  \<open>acc es w\<close>: the writer has accepted the entries \<open>es\<close>. What is known of the writer may be more
  than that its files hold the entries, as long as every append keeps it.
\<close>

definition accepts :: "(string \<Rightarrow> u32) \<Rightarrow> (tx_entry list \<Rightarrow> tx_writer \<Rightarrow> bool) \<Rightarrow> bool" where
  "accepts crc acc \<longleftrightarrow>
     (\<forall>es w e. acc es w \<and> entry_ok e \<longrightarrow> (\<exists>v. append_with_origin_format crc None w e = (None, v) \<and> acc (es @ [e]) v))"

lemma accepts_writer_ok: "accepts crc (writer_ok crc)"
  unfolding accepts_def using append_ok by metis

definition live_ok :: "(tx_entry list \<Rightarrow> tx_writer \<Rightarrow> bool) \<Rightarrow> tx_entry list \<Rightarrow> topic \<Rightarrow> bool" where
  "live_ok acc es t \<longleftrightarrow>
     rows_ok (tp_state t) \<and> active_subscriptions t = 0 \<and>
     (\<forall>e \<in> set es. entry_ok e \<and> tx_origin e = origin_id t \<and> 0 < tx_sequence e \<and> tx_sequence e \<le> next_sequence t) \<and>
     (\<exists>w. txlog t = Some w \<and> acc es w)"

lemma append_journals:
  assumes "accepts (env_crc env) acc" "txlog t = Some w" "acc es w" "env_torn env (next_sequence t + 1) = None"
    and "entry_ok (new_entry env t key payload fmt)"
  obtains v where "topic_append env (t\<lparr>next_sequence := next_sequence t + 1\<rparr>) (next_sequence t + 1) key payload fmt =
      (None, t\<lparr>next_sequence := next_sequence t + 1, txlog := Some v\<rparr>)"
    "\<forall>st. topic_append env (t\<lparr>tp_state := st, next_sequence := next_sequence t + 1\<rparr>) (next_sequence t + 1) key payload fmt =
      (None, t\<lparr>tp_state := st, next_sequence := next_sequence t + 1, txlog := Some v\<rparr>)"
    "acc (es @ [new_entry env t key payload fmt]) v"
proof -
  obtain v where "append_with_origin_format (env_crc env) None w (new_entry env t key payload fmt) = (None, v)"
    "acc (es @ [new_entry env t key payload fmt]) v"
    using assms(1,3,5) unfolding accepts_def by blast
  then show thesis using that assms(2,4) by (simp add: topic_append_def new_entry_def)
qed

lemma write_store_journals:
  assumes acc: "accepts (env_crc env) acc" and live: "live_ok acc es t" and torn: "env_torn env (next_sequence t + 1) = None"
    and e: "e = new_entry env t key payload fmt" "entry_ok e"
  obtains t' row where "write_store_with_changed ext env t vs (Some (key, payload, fmt)) True cols = Some (Inr (row, next_sequence t + 1), t')"
    "live_ok acc (es @ [e]) t'" "commit_values_locked ext (env_now env) (tp_state t) vs = Some (tp_state t', row)"
    "next_sequence t' = next_sequence t + 1" "tp_config t' = tp_config t" "origin_id t' = origin_id t" "settled t'"
    "sparse_delta_txlog t' = sparse_delta_txlog t"
proof -
  obtain w where w: "txlog t = Some w" "acc es w" using live by (auto simp: live_ok_def)
  obtain v where v: "topic_append env (t\<lparr>next_sequence := next_sequence t + 1\<rparr>) (next_sequence t + 1) key payload fmt =
      (None, t\<lparr>next_sequence := next_sequence t + 1, txlog := Some v\<rparr>)" "acc (es @ [e]) v"
    using append_journals [OF acc w torn e(2) [unfolded e(1)]] e(1) by blast
  have ok: "rows_ok (tp_state t)" using live by (simp add: live_ok_def)
  obtain st row where c: "commit_values_locked ext (env_now env) (tp_state t) vs = Some (st, row)" "rows_ok st"
    "0 < row_count (st_store st)"
    by (rule commit_total [OF ok])
  let ?t = "emit_event row (next_sequence t + 1) MutUpsert cols
      (t\<lparr>next_sequence := next_sequence t + 1, txlog := Some v, tp_state := st, row_count_mirror := row_count (st_store st)\<rparr>)"
  have "write_store_with_changed ext env t vs (Some (key, payload, fmt)) True cols = Some (Inr (row, next_sequence t + 1), ?t)"
    using v c by (simp add: write_store_unfold journal_result_def)
  moreover have "live_ok acc (es @ [e]) ?t"
    using live v(2) c(2) e by (auto simp: live_ok_def emit_event_def new_entry_def)
  ultimately show thesis
    by (rule that) (use c in \<open>simp_all add: emit_event_def settled_def\<close>)
qed

lemma discover_live:
  assumes live: "live_ok acc es t"
  obtains t1 where "maybe_discover_schema t m = Some t1" "live_ok acc es t1" "sparse_delta_txlog t1 = sparse_delta_txlog t"
proof -
  have ok: "rows_ok (tp_state t)" using live by (simp add: live_ok_def)
  obtain t1 where t1: "maybe_discover_schema t m = Some t1" "rows_ok (tp_state t1)" "txlog t1 = txlog t" "next_sequence t1 = next_sequence t"
    by (rule discover_ok [OF ok])
  then have "active_subscriptions t1 = active_subscriptions t" "sparse_delta_txlog t1 = sparse_delta_txlog t" "origin_id t1 = origin_id t"
    by (auto simp: maybe_discover_schema_def Let_def bind_eq_Some_conv split: if_splits)
  then show thesis using that t1 live by (simp add: live_ok_def)
qed

lemma new_entry_cong:
  "next_sequence t' = next_sequence t \<Longrightarrow> tp_config t' = tp_config t \<Longrightarrow> origin_id t' = origin_id t \<Longrightarrow>
   new_entry env t' k p f = new_entry env t k p f"
  by (simp add: new_entry_def)

lemma free_row_total:
  assumes ok: "rows_ok st" and key: "map_of (key_to_row st) k = Some r"
  obtains st' where "free_row ext st k r = Some st'" "rows_ok st'"
proof -
  have r: "r < row_count (st_store st)" using ok map_of_SomeD [OF key] by (force simp: rows_ok_def)
  obtain ix where ix0: "unindex_row ext (st_store st) r (indexed_cols (secondary_index st)) (secondary_index st) = Some ix"
    "indexed_cols ix = indexed_cols (secondary_index st)"
    using unindex_row_total [OF indexed_cells [OF ok r]] by metis
  then have ix: "(if index_is_empty (secondary_index st) then Some (secondary_index st)
      else unindex_row ext (st_store st) r (indexed_cols (secondary_index st)) (secondary_index st)) = Some ix"
    by (auto simp: index_is_empty_def)
  have so: "store_ok (st_store st)" using ok by (simp add: rows_ok_def)
  obtain s' where s': "null_out_row (st_store st) r = Some s'" "store_ok s'" "row_kinds s' = row_kinds (st_store st)"
    "cs_schema s' = cs_schema (st_store st)" "store_rows s' = (store_rows (st_store st))[r := map null_value (row_kinds (st_store st))]"
    using null_out_row_ok [OF so r] by metis
  have n: "row_count s' = row_count (st_store st)" by (rule rows_update(1) [OF s'(5) r])
  let ?st = "st\<lparr>key_to_row := AList.delete k (key_to_row st), secondary_index := ix, st_store := s', free_slots := free_slots st @ [r]\<rparr>"
  have "free_row ext st k r = Some ?st" using ix s'(1) unfolding free_row_def by simp
  moreover have "rows_ok ?st"
    using ok s' n ix0(2) r by (auto simp: rows_ok_def AList.delete_eq)
  ultimately show thesis by (rule that)
qed

lemma delta_columns_total:
  "existing = Some r \<Longrightarrow> \<forall>c < i + length cols. get_value s c r \<noteq> None \<Longrightarrow> delta_columns ext s existing flat i cols \<noteq> None"
proof (induction cols arbitrary: i)
  case Nil
  then show ?case by simp
next
  case (Cons col cols)
  have "delta_columns ext s existing flat (Suc i) cols \<noteq> None" using Cons by (intro Cons.IH) simp_all
  then obtain vs payload cs where rest: "delta_columns ext s existing flat (Suc i) cols = Some (vs, payload, cs)"
    by (metis option.exhaust prod_cases3)
  have "i < i + length (col # cols)" by simp
  then obtain v where "get_value s i r = Some v" using Cons.prems(2) by blast
  then show ?case using rest Cons.prems(1) by (auto split: option.splits)
qed

lemma delta_columns_new: "delta_columns ext s None flat i cols \<noteq> None"
proof (induction cols arbitrary: i)
  case Nil
  then show ?case by simp
next
  case (Cons col cols)
  then obtain vs payload cs where "delta_columns ext s None flat (Suc i) cols = Some (vs, payload, cs)"
    by (metis option.exhaust prod_cases3)
  then show ?case by (auto split: option.splits)
qed

lemma delta_columns_live:
  assumes ok: "rows_ok st"
  obtains x where "delta_columns ext (st_store st) (map_of (key_to_row st) k) flat 0 (columns (st_schema st)) = Some x"
proof (cases "map_of (key_to_row st) k")
  case None
  then show ?thesis using that delta_columns_new by (metis not_None_eq)
next
  case (Some r)
  have so: "store_ok (st_store st)" "cs_schema (st_store st) = st_schema st" using ok by (simp_all add: rows_ok_def)
  have "r < row_count (st_store st)" using ok map_of_SomeD [OF Some] by (force simp: rows_ok_def)
  moreover have "length (columns (st_schema st)) = length (mappings (st_store st))"
    using arg_cong [OF row_kinds_schema [OF so(1)], of length] so(2) by simp
  ultimately have "\<forall>c < 0 + length (columns (st_schema st)). get_value (st_store st) c r \<noteq> None"
    using so(1) by (auto simp: store_ok_def)
  then show ?thesis using that delta_columns_total [OF Some] by (metis not_None_eq)
qed

section \<open>Replaying the journal\<close>

text \<open>
  A topic \<open>u\<close> that has replayed the journal of \<open>t\<close> so far: related states, and its watermark is
  the last sequence number of \<open>t\<close>.
\<close>

definition twin :: "(store_state \<Rightarrow> store_state \<Rightarrow> bool) \<Rightarrow> nat \<Rightarrow> topic \<Rightarrow> topic \<Rightarrow> bool" where
  "twin rel n t u \<longleftrightarrow>
     rel (tp_state t) (tp_state u) \<and> tp_config u = tp_config t \<and> active_subscriptions u = 0 \<and>
     origin_id u = origin_id t \<and> last_applied_sequence u = next_sequence t \<and> next_sequence u = max n (next_sequence t)"

lemma twin_not_duplicate: "twin rel n t u \<Longrightarrow> \<not> replay_is_duplicate u (origin_id t) (next_sequence t + 1)"
  by (simp add: twin_def replay_is_duplicate_def own_origin_def)

lemma twin_note:
  assumes "twin rel n t u" "rel (tp_state t') (tp_state u2)"
    "next_sequence t' = next_sequence t + 1" "tp_config t' = tp_config t" "origin_id t' = origin_id t"
    "tp_config u2 = tp_config u" "active_subscriptions u2 = active_subscriptions u" "origin_id u2 = origin_id u"
    "next_sequence u2 = next_sequence u" "last_applied_sequence u2 = last_applied_sequence u"
  shows "twin rel n t' (replay_note_applied u2 (origin_id t) (next_sequence t + 1))"
  using assms by (simp add: twin_def replay_note_applied_def own_origin_def bump_sequence_to_def)

lemma delta_columns_typed:
  "delta_columns ext s existing flat i cols = Some (vs, payload, cs) \<Longrightarrow> i + length cols \<le> length (mappings s) \<Longrightarrow>
   \<forall>j < length cols. col_type (cols ! j) = kind (mappings s ! (i + j)) \<Longrightarrow> row_typed (map col_type cols) vs"
proof (induction cols arbitrary: i vs payload cs)
  case Nil
  then show ?case by (simp add: row_typed_def)
next
  case (Cons col cols)
  then obtain v changed vs' payload' cs' where v: "(case map_of flat (col_name col) of
         Some j \<Rightarrow> Some (from_json ext j (col_type col), [i])
       | None \<Rightarrow> (case existing of Some row \<Rightarrow> map_option (\<lambda>v. (v, [])) (get_value s i row) | None \<Rightarrow> Some (VNull, []))) = Some (v, changed)"
    and rest: "delta_columns ext s existing flat (Suc i) cols = Some (vs', payload', cs')" and vs: "vs = v # vs'"
    by (auto simp: bind_eq_Some_conv)
  have "row_typed (map col_type cols) vs'"
    by (rule Cons.IH [OF rest]) (use Cons.prems(2,3) in \<open>auto simp: nth_Cons' dest: spec [of _ "Suc _"]\<close>)
  moreover have "v = VNull \<or> typed (col_type col) v"
    using v get_value_typed [of s i] Cons.prems(3) by (auto simp: typed_from_json split: option.splits)
  ultimately show ?case unfolding vs row_typed_def by (auto simp: nth_Cons' All_less_Suc2 split: nat.split)
qed

lemma row_kinds_rows_ok: "rows_ok st \<Longrightarrow> row_kinds (st_store st) = map col_type (columns (st_schema st))"
  using row_kinds_schema [of "st_store st"] by (simp add: rows_ok_def)

lemma delta_columns_row_typed:
  assumes ok: "rows_ok st"
    and c: "delta_columns ext (st_store st) existing flat 0 (columns (st_schema st)) = Some (vs, payload, cs)"
  shows "row_typed (row_kinds (st_store st)) vs"
proof -
  note k = row_kinds_rows_ok [OF ok]
  have len: "length (columns (st_schema st)) = length (mappings (st_store st))" using arg_cong [OF k, of length] by simp
  have "col_type (columns (st_schema st) ! j) = kind (mappings (st_store st) ! j)" if "j < length (columns (st_schema st))" for j
    using that len row_kinds_nth [of j "st_store st"] unfolding k by simp
  then show ?thesis using delta_columns_typed [OF c] len unfolding k by simp
qed

text \<open>
  What a relation between the state of a topic and that of its replay has to promise: it is
  kept when the same values are written and when the same key is freed, whatever the clocks
  say, and related states have the same schema and show a delta the same row.
\<close>

locale replay_relation =
  fixes ext :: externals and rel :: "store_state \<Rightarrow> store_state \<Rightarrow> bool" and fine :: "store_state \<Rightarrow> cq_value list \<Rightarrow> bool"
  assumes rel_commit: "rel a b \<Longrightarrow> fine a vs \<Longrightarrow> row_typed (row_kinds (st_store a)) vs \<Longrightarrow>
        commit_values_locked ext now a vs = Some (a', r) \<Longrightarrow>
        \<exists>b' r'. commit_values_locked ext now' b vs = Some (b', r') \<and> rel a' b'"
    and rel_free: "rel a b \<Longrightarrow> map_of (key_to_row a) k = Some r \<Longrightarrow> free_row ext a k r = Some a' \<Longrightarrow>
        \<exists>b' r'. map_of (key_to_row b) k = Some r' \<and> free_row ext b k r' = Some b' \<and> rel a' b'"
    and rel_schema: "rel a b \<Longrightarrow> st_schema b = st_schema a"
    and rel_delta: "rel a b \<Longrightarrow>
        delta_columns ext (st_store b) (map_of (key_to_row b) k) flat 0 (columns (st_schema b)) =
        delta_columns ext (st_store a) (map_of (key_to_row a) k) flat 0 (columns (st_schema a))"
    and rel_discover: "rel a b \<Longrightarrow> is_placeholder_schema (st_schema a) \<Longrightarrow>
        row_count (st_store b) = row_count (st_store a) \<and> capacity (st_store b) = capacity (st_store a) \<and>
        (\<forall>sch keys ixs cap. rel (state_build sch keys ixs cap) (state_build sch keys ixs cap))"
begin

lemma replay_commit:
  assumes tw: "twin rel n t u" and c: "commit_values_locked ext now' (tp_state t) vs = Some (tp_state t', r)"
    and vs: "fine (tp_state t) vs" "row_typed (row_kinds (st_store (tp_state t))) vs"
    and t': "next_sequence t' = next_sequence t + 1" "tp_config t' = tp_config t" "origin_id t' = origin_id t"
  obtains u2 where "write_store_replay ext now u vs = Some u2"
    "twin rel n t' (replay_note_applied u2 (origin_id t) (next_sequence t + 1))"
proof -
  have "rel (tp_state t) (tp_state u)" using tw by (simp add: twin_def)
  then obtain b r' where b: "commit_values_locked ext now (tp_state u) vs = Some (b, r')" "rel (tp_state t') b"
    using rel_commit [OF _ vs c] by blast
  show thesis
  proof (rule that)
    show "write_store_replay ext now u vs = Some (u\<lparr>tp_state := b, row_count_mirror := row_count (st_store b)\<rparr>)"
      using b by (simp add: write_store_replay_def)
    show "twin rel n t' (replay_note_applied (u\<lparr>tp_state := b, row_count_mirror := row_count (st_store b)\<rparr>) (origin_id t) (next_sequence t + 1))"
      by (rule twin_note [OF tw]) (use b(2) t' in simp_all)
  qed
qed

lemma twin_discover:
  assumes tw: "twin rel n t u" and act: "active_subscriptions t = 0" and d: "maybe_discover_schema t m = Some t1"
  obtains u1 where "maybe_discover_schema u m = Some u1" "twin rel n t1 u1" "next_sequence t1 = next_sequence t"
    "origin_id t1 = origin_id t" "tp_config t1 = tp_config t" "tp_config u1 = tp_config t"
proof -
  have s: "rel (tp_state t) (tp_state u)" "tp_config u = tp_config t" "active_subscriptions u = 0"
    using tw by (simp_all add: twin_def)
  note f = rel_schema [OF s(1)] rel_discover [OF s(1)]
  show thesis
  proof (cases "settled t \<or> m = []")
    case True
    then have "t1 = t" "maybe_discover_schema u m = Some u"
      using d f act s(3) by (auto simp: maybe_discover_schema_def settled_def Let_def split: if_splits)
    then show ?thesis using that [of u] tw by (simp add: twin_def)
  next
    case False
    then obtain sch where sch: "schema_new (map fst m) (map (\<lambda>(_, v). type_from_json v) m) = Some sch"
      "t1 = t\<lparr>tp_state := state_build sch (cfg_key_fields (tp_config t)) (cfg_index_columns (tp_config t)) (capacity (st_store (tp_state t)))\<rparr>"
      using d act by (auto simp: maybe_discover_schema_def settled_def Let_def bind_eq_Some_conv split: if_splits)
    let ?u = "u\<lparr>tp_state := tp_state t1\<rparr>"
    have pl: "is_placeholder_schema (st_schema (tp_state t))" using False by (simp add: settled_def)
    have "maybe_discover_schema u m = Some ?u"
      using False sch f(1) f(2) [OF pl] s act by (auto simp: maybe_discover_schema_def settled_def Let_def)
    then show ?thesis using that [of ?u] tw sch(2) f(2) [OF pl] by (simp add: twin_def)
  qed
qed

lemma publish_replays:
  assumes acc: "accepts (env_crc env) acc" and live: "live_ok acc es t" and tw: "twin rel n t u" and torn: "env_torn env (next_sequence t + 1) = None"
    and doc: "doc_journalled io m" and fine: "op_fine fine ext t (Publish m)"
    and e: "op_entry io env t (Publish m) = Some e" "entry_ok e"
  obtains t' u' where "topic_step ext io (env, Publish m) t = Some t'" "live_ok acc (es @ [e]) t'"
    "replay_entry ext io now e u = Some u'" "twin rel n t' u'"
proof -
  let ?flat = "flat_map m" and ?key = "unwrap_or_default (compute_key_from_map (tp_config t) (flat_map m))"
  obtain p where p: "to_vec io (JObject ?flat) = Some p" "p \<noteq> []" "from_slice io p = Some (JObject ?flat)"
    using doc by (auto simp: doc_journalled_def split: option.splits)
  obtain t1 where t1: "maybe_discover_schema t ?flat = Some t1" "live_ok acc es t1" by (rule discover_live [OF live])
  have act: "active_subscriptions t = 0" using live by (simp add: live_ok_def)
  obtain u1 where u1: "maybe_discover_schema u ?flat = Some u1" "twin rel n t1 u1" "next_sequence t1 = next_sequence t"
    "origin_id t1 = origin_id t" "tp_config t1 = tp_config t"
    by (rule twin_discover [OF tw act t1(1)])
  have e': "e = new_entry env t1 ?key p PJson" using e(1) p(1) new_entry_cong [of t1 t env] u1(3-5) by simp
  let ?vs = "map_values ext (st_schema (tp_state t1)) ?flat"
  have ok: "rows_ok (tp_state t1)" using t1(2) by (simp add: live_ok_def)
  have vs: "fine (tp_state t1) ?vs" "row_typed (row_kinds (st_store (tp_state t1))) ?vs"
    using fine t1(1) map_values_typed row_kinds_rows_ok [OF ok] by (simp_all add: op_fine_def)
  obtain t' row where t': "write_store_with_changed ext env t1 ?vs (Some (?key, p, PJson)) True None = Some (Inr (row, next_sequence t1 + 1), t')"
    "live_ok acc (es @ [e]) t'" "commit_values_locked ext (env_now env) (tp_state t1) ?vs = Some (tp_state t', row)"
    "next_sequence t' = next_sequence t1 + 1" "tp_config t' = tp_config t1" "origin_id t' = origin_id t1"
    by (rule write_store_journals [OF acc t1(2) torn [folded u1(3)] e' e(2), of ext ?vs None])
  obtain u2 where u2: "write_store_replay ext now u1 ?vs = Some u2"
    "twin rel n t' (replay_note_applied u2 (origin_id t1) (next_sequence t1 + 1))"
    by (rule replay_commit [OF u1(2) t'(3) vs t'(4-6)])
  obtain w where w: "txlog t1 = Some w" using t1(2) by (auto simp: live_ok_def)
  have sch: "st_schema (tp_state u1) = st_schema (tp_state t1)"
    by (rule rel_schema) (use u1(2) in \<open>simp add: twin_def\<close>)
  show thesis
  proof (rule that)
    show "topic_step ext io (env, Publish m) t = Some t'"
      using t1(1) t'(1) p(1) w u1(5) unfolding topic_step.simps upsert_map_flat publish_flat_def by simp
    show "replay_entry ext io now e u = Some (replay_note_applied u2 (origin_id t1) (next_sequence t1 + 1))"
      using twin_not_duplicate [OF tw] p u1 u2(1) sch
      by (simp add: replay_entry_def e' new_entry_def is_tombstone_def replay_upsert_map_origin_def flat_map_idem)
  qed (use t'(2) u2(2) in simp_all)
qed

lemma delete_row_replays:
  assumes acc: "accepts (env_crc env) acc" and live: "live_ok acc es t" and tw: "twin rel n t u" and torn: "env_torn env (next_sequence t + 1) = None"
    and key: "map_of (key_to_row (tp_state t)) k = Some r" and e: "e = new_entry env t k [] PJson" "entry_ok e"
  obtains t' u' where "delete_row ext env t k r = Some (Inr (next_sequence t + 1), t')" "live_ok acc (es @ [e]) t'"
    "replay_entry ext io now e u = Some u'" "twin rel n t' u'"
proof -
  have ok: "rows_ok (tp_state t)" using live by (simp add: live_ok_def)
  obtain st where st: "free_row ext (tp_state t) k r = Some st" "rows_ok st" by (rule free_row_total [OF ok key])
  have same: "rel (tp_state t) (tp_state u)" using tw by (simp add: twin_def)
  obtain b r' where b: "free_row ext (tp_state u) k r' = Some b" "rel st b" "map_of (key_to_row (tp_state u)) k = Some r'"
    using rel_free [OF same key st(1)] by blast
  obtain w where w: "txlog t = Some w" "acc es w" using live by (auto simp: live_ok_def)
  obtain v where v: "\<forall>st. topic_append env (t\<lparr>tp_state := st, next_sequence := next_sequence t + 1\<rparr>) (next_sequence t + 1) k [] PJson =
      (None, t\<lparr>tp_state := st, next_sequence := next_sequence t + 1, txlog := Some v\<rparr>)" "acc (es @ [e]) v"
    using append_journals [OF acc w torn e(2) [unfolded e(1)]] e(1) by blast
  define t' where "t' = emit_event r (next_sequence t + 1) MutDelete None
      (t\<lparr>tp_state := st, next_sequence := next_sequence t + 1, txlog := Some v\<rparr>)"
  have 1: "delete_row ext env t k r = Some (Inr (next_sequence t + 1), t')"
    using st v(1) by (simp add: delete_row_def t'_def)
  have 2: "live_ok acc (es @ [e]) t'"
    using live v(2) st(2) e by (auto simp: live_ok_def emit_event_def new_entry_def t'_def)
  have 3: "replay_entry ext io now e u = Some (replay_note_applied (u\<lparr>tp_state := b\<rparr>) (origin_id t) (next_sequence t + 1))"
    using twin_not_duplicate [OF tw] b(1,3)
    by (simp add: replay_entry_def e(1) new_entry_def is_tombstone_def replay_delete_origin_def)
  have 4: "twin rel n t' (replay_note_applied (u\<lparr>tp_state := b\<rparr>) (origin_id t) (next_sequence t + 1))"
    by (rule twin_note [OF tw]) (use b(2) in \<open>simp_all add: t'_def emit_event_def\<close>)
  show thesis by (rule that [OF 1 2 3 4])
qed

lemma delta_replays:
  assumes acc: "accepts (env_crc env) acc" and live: "live_ok acc es t" and tw: "twin rel n t u" and torn: "env_torn env (next_sequence t + 1) = None"
    and doc: "doc_journalled io m" "sparse_delta_txlog t"
    and fine: "op_fine fine ext t (DeltaPublish m)" and e: "op_entry io env t (DeltaPublish m) = Some e" "entry_ok e"
  obtains t' u' where "topic_step ext io (env, DeltaPublish m) t = Some t'" "live_ok acc (es @ [e]) t'"
    "replay_entry ext io now e u = Some u'" "twin rel n t' u'"
proof -
  let ?flat = "flat_map m"
  obtain key where key: "delta_key (tp_config t) ?flat = Some key" using e(1) by auto
  obtain p where p: "to_vec io (JObject ?flat) = Some p" "p \<noteq> []" "from_slice io p = Some (JObject ?flat)"
    using doc(1) by (auto simp: doc_journalled_def split: option.splits)
  obtain t1 where t1: "maybe_discover_schema t ?flat = Some t1" "live_ok acc es t1" "sparse_delta_txlog t1"
    using discover_live [OF live, of ?flat] doc(2) by metis
  have act: "active_subscriptions t = 0" using live by (simp add: live_ok_def)
  obtain u1 where u1: "maybe_discover_schema u ?flat = Some u1" "twin rel n t1 u1" "next_sequence t1 = next_sequence t"
    "origin_id t1 = origin_id t" "tp_config t1 = tp_config t" "tp_config u1 = tp_config t"
    by (rule twin_discover [OF tw act t1(1)])
  have e': "e = new_entry env t1 key p PJsonDelta" using e(1) p(1) key new_entry_cong [of t1 t env] u1(3-5) by simp
  have ok: "rows_ok (tp_state t1)" using t1(2) by (simp add: live_ok_def)
  let ?cols = "\<lambda>st. delta_columns ext (st_store st) (map_of (key_to_row st) key) ?flat 0 (columns (st_schema st))"
  obtain vs payload cs where c: "?cols (tp_state t1) = Some (vs, payload, cs)"
    using delta_columns_live [OF ok, of ext key ?flat] by (metis prod_cases3)
  have "rel (tp_state t1) (tp_state u1)" using u1(2) by (simp add: twin_def)
  then have cu: "?cols (tp_state u1) = Some (vs, payload, cs)" using rel_delta c by simp
  have vs: "fine (tp_state t1) vs" using fine t1(1) key c by (simp add: op_fine_def)
  have typed: "row_typed (row_kinds (st_store (tp_state t1))) vs"
    by (rule delta_columns_row_typed [OF ok c])
  obtain t' row where t': "write_store_with_changed ext env t1 vs (Some (key, p, PJsonDelta)) True (Some cs) = Some (Inr (row, next_sequence t1 + 1), t')"
    "live_ok acc (es @ [e]) t'" "commit_values_locked ext (env_now env) (tp_state t1) vs = Some (tp_state t', row)"
    "next_sequence t' = next_sequence t1 + 1" "tp_config t' = tp_config t1" "origin_id t' = origin_id t1"
    by (rule write_store_journals [OF acc t1(2) torn [folded u1(3)] e' e(2), of ext vs "Some cs"])
  obtain u2 where u2: "write_store_replay ext now u1 vs = Some u2"
    "twin rel n t' (replay_note_applied u2 (origin_id t1) (next_sequence t1 + 1))"
    by (rule replay_commit [OF u1(2) t'(3) vs typed t'(4-6)])
  have 1: "topic_step ext io (env, DeltaPublish m) t = Some t'"
    using t1(1,3) key c p(1) t'(1) u1(5) by (simp add: delta_upsert_map_def)
  have 3: "replay_entry ext io now e u = Some (replay_note_applied u2 (origin_id t1) (next_sequence t1 + 1))"
    using twin_not_duplicate [OF tw] p u1(1,3,4,6) u2(1) cu key
    by (simp add: replay_entry_def e' new_entry_def is_tombstone_def replay_delta_map_origin_def flat_map_idem)
  show thesis by (rule that [OF 1 t'(2) 3 u2(2)])
qed

text \<open>One operation and the replay of its entry, if it left one.\<close>

lemma step_replays:
  assumes acc: "accepts crc acc" and live: "live_ok acc es t" and tw: "twin rel n t u" and ok: "op_ok io crc t (env, op)" and fine: "op_fine fine ext t op"
  obtains (entry) e t' u' where "topic_step ext io (env, op) t = Some t'" "live_ok acc (es @ [e]) t'"
      "replay_entry ext io now e u = Some u'" "twin rel n t' u'"
    | (none) t' where "topic_step ext io (env, op) t = Some t'" "live_ok acc es t'" "twin rel n t' u"
proof -
  have o: "crc = env_crc env" "env_torn env (next_sequence t + 1) = None" "op_doc_ok io t op"
    "\<And>e. op_entry io env t op = Some e \<Longrightarrow> entry_ok e"
    using ok by (auto simp: op_ok_def)
  note a = acc [unfolded o(1)]
  show thesis
  proof (cases op)
    case (Publish m)
    then obtain e where e: "op_entry io env t (Publish m) = Some e" "entry_ok e" using o(4) by simp
    have doc: "doc_journalled io m" using o(3) Publish by simp
    obtain t' u' where d: "topic_step ext io (env, Publish m) t = Some t'" "live_ok acc (es @ [e]) t'"
      "replay_entry ext io now e u = Some u'" "twin rel n t' u'"
      by (rule publish_replays [OF a live tw o(2) doc fine [unfolded Publish] e])
    show ?thesis by (rule entry [OF d(1) [folded Publish] d(2) d(3,4)])
  next
    case (DeltaPublish m)
    show ?thesis
    proof (cases "op_entry io env t (DeltaPublish m)")
      case None
      then have "delta_key (tp_config t) (flat_map m) = None" by simp
      moreover from this have "maybe_discover_schema t (flat_map m) = Some t" using o(3) DeltaPublish by (simp add: settled_discover)
      ultimately have "topic_step ext io (env, op) t = Some t" using DeltaPublish by (simp add: delta_upsert_map_def)
      then show ?thesis by (rule none [OF _ live tw])
    next
      case (Some e)
      have doc: "doc_journalled io m" "sparse_delta_txlog t" using o(3) DeltaPublish by simp_all
      have e: "entry_ok e" using o(4) DeltaPublish Some by simp
      obtain t' u' where d: "topic_step ext io (env, DeltaPublish m) t = Some t'" "live_ok acc (es @ [e]) t'"
        "replay_entry ext io now e u = Some u'" "twin rel n t' u'"
        by (rule delta_replays [OF a live tw o(2) doc fine [unfolded DeltaPublish] Some e])
      show ?thesis by (rule entry [OF d(1) [folded DeltaPublish] d(2) d(3,4)])
    qed
  next
    case (Remove k)
    show ?thesis
    proof (cases "map_of (key_to_row (tp_state t)) k")
      case None
      then have "topic_step ext io (env, op) t = Some t" using Remove by (simp add: delete_key_def)
      then show ?thesis by (rule none [OF _ live tw])
    next
      case (Some r)
      have e: "entry_ok (new_entry env t k [] PJson)" using o(4) Remove Some by simp
      obtain t' u' where d: "delete_row ext env t k r = Some (Inr (next_sequence t + 1), t')"
        "live_ok acc (es @ [new_entry env t k [] PJson]) t'"
        "replay_entry ext io now (new_entry env t k [] PJson) u = Some u'" "twin rel n t' u'"
        by (rule delete_row_replays [OF a live tw o(2) Some refl e])
      show ?thesis
        by (rule entry [OF _ d(2) d(3,4)]) (use Remove Some d(1) in \<open>simp add: delete_key_def\<close>)
    qed
  next
    case (Expire k ttl observed)
    show ?thesis
    proof (cases "op_entry io env t op")
      case None
      then have "topic_step ext io (env, op) t = Some t"
        using Expire by (auto simp: delete_if_still_expired_def Let_def split: option.splits if_splits)
      then show ?thesis by (rule none [OF _ live tw])
    next
      case (Some e)
      then obtain r where r: "map_of (key_to_row (tp_state t)) k = Some r" "r < length (last_touched (tp_state t))"
        "last_touched (tp_state t) ! r + ttl \<le> observed" "e = new_entry env t k [] PJson"
        using Expire by (auto split: option.splits if_splits)
      obtain t' u' where d: "delete_row ext env t k r = Some (Inr (next_sequence t + 1), t')"
        "live_ok acc (es @ [e]) t'" "replay_entry ext io now e u = Some u'" "twin rel n t' u'"
        by (rule delete_row_replays [OF a live tw o(2) r(1,4) o(4) [OF Some]])
      show ?thesis
        by (rule entry [OF _ d(2) d(3,4)])
          (use Expire r d(1) in \<open>simp add: delete_if_still_expired_def Let_def\<close>)
    qed
  qed
qed

lemma run_replays:
  "accepts crc acc \<Longrightarrow> live_ok acc es t \<Longrightarrow> twin rel n t u \<Longrightarrow> ops_ok ext io crc t ops \<Longrightarrow> ops_fine fine ext io t ops \<Longrightarrow>
   \<exists>t' fs u'. run_steps (topic_step ext io) ops t = Some t' \<and> live_ok acc (es @ fs) t' \<and>
     run_steps (replay_entry ext io now) fs u = Some u' \<and> twin rel n t' u'"
proof (induction ops arbitrary: t u es)
  case Nil
  then show ?case by (intro exI [of _ t] exI [of _ "[]"] exI [of _ u]) simp
next
  case (Cons op ops)
  obtain env o1 where op: "op = (env, o1)" by force
  have ok: "op_ok io crc t (env, o1)" "op_fine fine ext t o1" using Cons.prems(4,5) op by simp_all
  show ?case
  proof (rule step_replays [OF Cons.prems(1-3) ok, of now])
    fix e t' u' assume s: "topic_step ext io (env, o1) t = Some t'" "live_ok acc (es @ [e]) t'"
      "replay_entry ext io now e u = Some u'" "twin rel n t' u'"
    have "ops_ok ext io crc t' ops" "ops_fine fine ext io t' ops" using Cons.prems(4,5) s(1) op by simp_all
    from Cons.IH [OF Cons.prems(1) s(2,4) this] obtain t'' fs u'' where r: "run_steps (topic_step ext io) ops t' = Some t''"
      "live_ok acc ((es @ [e]) @ fs) t''" "run_steps (replay_entry ext io now) fs u' = Some u''" "twin rel n t'' u''" by blast
    show ?thesis
      by (rule exI [of _ t''], rule exI [of _ "e # fs"], rule exI [of _ u'']) (use r s op in simp)
  next
    fix t' assume s: "topic_step ext io (env, o1) t = Some t'" "live_ok acc es t'" "twin rel n t' u"
    have "ops_ok ext io crc t' ops" "ops_fine fine ext io t' ops" using Cons.prems(4,5) s(1) op by simp_all
    from Cons.IH [OF Cons.prems(1) s(2,3) this] obtain t'' fs u'' where r: "run_steps (topic_step ext io) ops t' = Some t''"
      "live_ok acc (es @ fs) t''" "run_steps (replay_entry ext io now) fs u = Some u''" "twin rel n t'' u''" by blast
    show ?thesis
      by (rule exI [of _ t''], rule exI [of _ fs], rule exI [of _ u'']) (use r s op in simp)
  qed
qed

end

text \<open>States that differ in the time stamps of their rows only are related, whatever is written.\<close>

interpretation stamps: replay_relation ext "\<lambda>a b. forget a = forget b" "\<lambda>_ _. True" for ext
proof
  fix a b vs a' r now now'
  assume "forget a = forget b" "commit_values_locked ext now a vs = Some (a', r)"
  then show "\<exists>b' r'. commit_values_locked ext now' b vs = Some (b', r') \<and> forget a' = forget b'"
    using same_commit by metis
next
  fix a b k r a'
  assume "forget a = forget b" "map_of (key_to_row a) k = Some r" "free_row ext a k r = Some a'"
  then show "\<exists>b' r'. map_of (key_to_row b) k = Some r' \<and> free_row ext b k r' = Some b' \<and> forget a' = forget b'"
    using same_free same_fields(3) by metis
next
  fix a b :: store_state and k flat
  assume "forget a = forget b"
  note f = same_fields [OF this]
  show "st_schema b = st_schema a" by (rule f(2) [symmetric])
  show "delta_columns ext (st_store b) (map_of (key_to_row b) k) flat 0 (columns (st_schema b)) =
      delta_columns ext (st_store a) (map_of (key_to_row a) k) flat 0 (columns (st_schema a))"
    unfolding f(1-3) ..
  show "row_count (st_store b) = row_count (st_store a) \<and> capacity (st_store b) = capacity (st_store a) \<and>
      (\<forall>sch keys ixs cap. forget (state_build sch keys ixs cap) = forget (state_build sch keys ixs cap))"
    using f(1) by simp
qed

lemma ops_fine_stamps: "ops_fine (\<lambda>_ _. True) ext io t ops"
  by (induction ops arbitrary: t) (auto simp: op_fine_def split: topic_op.splits option.splits)

lemma fold_max_bound:
  "\<forall>e \<in> set es. tx_sequence e \<le> (N :: nat) \<Longrightarrow> m \<le> N \<Longrightarrow> fold (\<lambda>e m. if m < tx_sequence e then tx_sequence e else m) es m \<le> N"
  by (induction es arbitrary: m) auto

lemma newest_bound:
  "\<forall>f \<in> set fs. \<exists>es. snd f = log_bytes crc es \<and> (\<forall>e \<in> set es. entry_ok e \<and> tx_sequence e \<le> N) \<Longrightarrow>
   \<exists>m \<le> N. newest_sequence crc fs = Inr m"
proof (induction fs)
  case Nil
  then show ?case by simp
next
  case (Cons f fs)
  then obtain es where es: "snd f = log_bytes crc es" "\<forall>e \<in> set es. entry_ok e" "\<forall>e \<in> set es. tx_sequence e \<le> N" by auto
  obtain i bs where f: "f = (i, bs)" by force
  have "seg_read_all crc True 0 bs = Inr es" using seg_read_log [OF es(2)] es(1) f by simp
  moreover have "fold (\<lambda>e m. if m < tx_sequence e then tx_sequence e else m) es 0 \<le> N" by (rule fold_max_bound [OF es(3)]) simp
  ultimately show ?case using Cons f by auto
qed

lemma reopen_log:
  assumes "live_ok (writer_ok crc) es t" "txlog t = Some w"
  obtains w' where "tx_open crc n (tw_live w) (tw_archive w) = Inr w'" "tw_max_sequence w' \<le> next_sequence t"
proof -
  have w: "writer_ok crc es w" and es: "\<forall>e \<in> set es. entry_ok e \<and> tx_sequence e \<le> next_sequence t"
    using assms by (auto simp: live_ok_def)
  obtain ess pre c where h: "holds crc ess (all_files w)" "concat ess = es" "tw_live w = pre @ [(tw_current_id w, c)]"
    using w by (auto simp: writer_ok_def)
  have "\<exists>l. snd f = log_bytes crc l \<and> (\<forall>e \<in> set l. entry_ok e \<and> tx_sequence e \<le> next_sequence t)" if "f \<in> set (tw_live w)" for f
  proof -
    have "snd f \<in> set (map snd (all_files w))" using that by (auto simp: all_files_def)
    then obtain l where "l \<in> set ess" "snd f = log_bytes crc l" unfolding h(1) [unfolded holds_def] by auto
    then show ?thesis using es h(2) by auto
  qed
  then obtain m where "m \<le> next_sequence t" "newest_sequence crc (rev (tw_live w)) = Inr m"
    using newest_bound [of "rev (tw_live w)" crc "next_sequence t"] by auto
  then show thesis using that h(3) by (simp add: tx_open_def)
qed

section \<open>Properties\<close>

text \<open>
  C2: A restart loses nothing that was journalled. Any sequence of publishes, sparse deltas,
  deletes and expiries, run on a new persistent topic with any segment size and with or without
  an archive, does not panic; opening the log it left and replaying it into a new topic gives
  the same store, key map, free slots and indexes, and the sequence numbers go on where the
  topic stopped.
\<close>

theorem recovery_rebuilds_topic:
  assumes cap: "0 < cap" "schema_wf sch"
    and t0: "t0 = (topic_new cfg sch cap)\<lparr>origin_id := inst, sparse_delta_txlog := True\<rparr>"
    and ops: "ops_ok ext io crc (attach_txlog (new_log seg arch) t0) ops"
  shows "\<exists>t w w' u. run_steps (topic_step ext io) ops (attach_txlog (new_log seg arch) t0) = Some t \<and> txlog t = Some w \<and>
     tx_open crc seg (tw_live w) (tw_archive w) = Inr w' \<and>
     recover_topic ext io now crc (attach_txlog w' t0) (tw_live w) (tw_archive w) 0 = Some (Inr u) \<and>
     forget (tp_state u) = forget (tp_state t) \<and> topic_table (tp_state u) = topic_table (tp_state t) \<and>
     next_sequence u = next_sequence t"
proof -
  let ?t0 = "attach_txlog (new_log seg arch) t0"
  have live: "live_ok (writer_ok crc) [] ?t0"
    using rows_ok_build [OF cap] new_log_ok by (simp add: live_ok_def t0 topic_new_def attach_txlog_def)
  have tw: "twin (\<lambda>a b. forget a = forget b) n ?t0 (t0\<lparr>next_sequence := n, txlog := l\<rparr>)" for n l
    by (simp add: twin_def t0 topic_new_def attach_txlog_def new_log_def)
  obtain t w where t: "run_steps (topic_step ext io) ops ?t0 = Some t" "txlog t = Some w"
    "\<And>n l. \<exists>fs u. live_ok (writer_ok crc) fs t \<and> run_steps (replay_entry ext io now) fs (t0\<lparr>next_sequence := n, txlog := l\<rparr>) = Some u \<and> twin (\<lambda>a b. forget a = forget b) n t u"
  proof -
    obtain t where t: "run_steps (topic_step ext io) ops ?t0 = Some t" "\<exists>fs. live_ok (writer_ok crc) fs t"
      using stamps.run_replays [OF accepts_writer_ok live tw [of 0 None] ops ops_fine_stamps, of 0] by auto
    moreover have "\<exists>fs u. live_ok (writer_ok crc) fs t \<and> run_steps (replay_entry ext io now) fs (t0\<lparr>next_sequence := n, txlog := l\<rparr>) = Some u \<and> twin (\<lambda>a b. forget a = forget b) n t u" for n l
      using stamps.run_replays [OF accepts_writer_ok live tw [of n l] ops ops_fine_stamps, of now] t(1) by auto
    moreover obtain w where "txlog t = Some w" using t(2) by (auto simp: live_ok_def)
    ultimately show thesis using that by blast
  qed
  obtain w' where w': "tx_open crc seg (tw_live w) (tw_archive w) = Inr w'" "tw_max_sequence w' \<le> next_sequence t"
    using t(3) [where n = 0 and l = None] reopen_log [OF _ t(2)] by metis
  obtain fs u where u: "live_ok (writer_ok crc) fs t" "run_steps (replay_entry ext io now) fs (attach_txlog w' t0) = Some u"
    "twin (\<lambda>a b. forget a = forget b) (tw_max_sequence w') t u"
    using t(3) [where n = "tw_max_sequence w'" and l = "Some w'"] unfolding attach_txlog_def by blast
  have "read_all crc (tw_live w) (tw_archive w) = Inr fs"
    using u(1) t(2) by (intro read_all_ok) (auto simp: live_ok_def)
  then have "recover_topic ext io now crc (attach_txlog w' t0) (tw_live w) (tw_archive w) 0 = Some (Inr u)"
    using u(2) by (simp add: recover_topic_def read_all_def)
  moreover have "forget (tp_state u) = forget (tp_state t)" "next_sequence u = next_sequence t"
    using u(3) w'(2) by (simp_all add: twin_def)
  ultimately show ?thesis using t(1,2) w'(1) same_fields(4) by blast
qed

text \<open>
  C26: Replaying an entry a second time, as a receiver does when a shipment is repeated, changes
  nothing: neither the store nor the watermarks, for entries of the topic itself and of others.
\<close>

theorem replay_twice_is_once:
  assumes pos: "0 < tx_sequence e" and once: "replay_entry ext io now e t = Some t'"
  shows "replay_entry ext io later e t' = Some t'"
proof -
  let ?dup = "\<lambda>x. replay_is_duplicate x (tx_origin e) (tx_sequence e)"
  have noted: "?dup (replay_note_applied x (tx_origin e) (tx_sequence e))" for x
    using pos by (auto simp: replay_is_duplicate_def replay_note_applied_def own_origin_def bump_sequence_to_def)
  consider (dup) "?dup t'" | (skip) "t' = t" "\<not> is_tombstone e" "\<And>m. from_slice io (tx_payload e) \<noteq> Some (JObject m)"
    | (nokey) m where "from_slice io (tx_payload e) = Some (JObject m)" "\<not> is_tombstone e" "tx_format e = PJsonDelta"
        "maybe_discover_schema t (flat_map m) = Some t'" "delta_key (tp_config t') (flat_map m) = None"
  proof (cases "is_tombstone e \<or> (\<exists>m. from_slice io (tx_payload e) = Some (JObject m))")
    case False
    then show ?thesis using once that(2) by (auto simp: replay_entry_def split: option.splits json.splits)
  next
    case True
    show ?thesis
    proof (cases "?dup t")
      case True
      then have "t' = t" using once
        by (auto simp: replay_entry_def replay_delete_origin_def replay_upsert_map_origin_def replay_delta_map_origin_def
            split: if_splits option.splits json.splits)
      then show ?thesis using True that(1) by simp
    next
      case False
      then show ?thesis using True once noted that(1,3)
        by (fastforce simp: replay_entry_def replay_delete_origin_def replay_upsert_map_origin_def replay_delta_map_origin_def Let_def
            bind_eq_Some_conv split: if_splits option.splits)
    qed
  qed
  then show ?thesis
  proof cases
    case nokey
    then have "maybe_discover_schema t' (flat_map m) = Some t'"
      by (auto simp: maybe_discover_schema_def Let_def bind_eq_Some_conv state_build_def column_store_new_def split: if_splits)
    then show ?thesis using nokey by (simp add: replay_entry_def replay_delta_map_origin_def)
  qed (auto simp: replay_entry_def replay_delete_origin_def replay_upsert_map_origin_def replay_delta_map_origin_def
      split: option.splits json.splits)
qed

lemma discover_frame:
  "maybe_discover_schema t m = Some t1 \<Longrightarrow>
   next_sequence t1 = next_sequence t \<and> tp_config t1 = tp_config t \<and> origin_id t1 = origin_id t"
  by (auto simp: maybe_discover_schema_def Let_def bind_eq_Some_conv split: if_splits)

lemma write_store_frame:
  assumes "write_store_with_changed ext env t vs log emit cols = Some (r, t2)"
  shows "next_sequence t2 = next_sequence t + 1 \<and> tp_config t2 = tp_config t \<and> origin_id t2 = origin_id t"
proof -
  obtain err t3 where j: "journal_result env t log = (err, t3)" by force
  show ?thesis using assms journal_result_fields(1,6,8) [OF j] unfolding write_store_unfold j
    by (cases err) (auto simp: bind_eq_Some_conv emit_event_def Let_def split: if_splits)
qed

lemma delete_row_frame:
  assumes "delete_row ext env t k row = Some (r, t2)"
  shows "next_sequence t2 = next_sequence t + 1 \<and> tp_config t2 = tp_config t \<and> origin_id t2 = origin_id t"
proof -
  obtain st where st: "free_row ext (tp_state t) k row = Some st" using assms by (auto simp: delete_row_def bind_eq_Some_conv)
  obtain err t3 where j: "topic_append env (t\<lparr>tp_state := st, next_sequence := next_sequence t + 1\<rparr>) (next_sequence t + 1) k [] PJson = (err, t3)"
    by force
  show ?thesis using assms st j topic_append_fields [OF j] by (cases err) (auto simp: delete_row_def emit_event_def)
qed

lemma step_frame:
  assumes "topic_step ext io (env, op) t = Some t'"
  shows "next_sequence t' \<le> next_sequence t + 1" "tp_config t' = tp_config t" "origin_id t' = origin_id t"
proof -
  have "next_sequence t' \<le> next_sequence t + 1 \<and> tp_config t' = tp_config t \<and> origin_id t' = origin_id t"
  proof (cases op)
    case (Publish m)
    then obtain t1 where t1: "maybe_discover_schema t (flat_map m) = Some t1" using assms by (auto simp: upsert_map_flat bind_eq_Some_conv)
    have "t' = t1 \<or> (\<exists>vs log r. write_store_with_changed ext env t1 vs log True None = Some (r, t'))"
      using assms t1 Publish by (auto simp: upsert_map_flat publish_flat_def bind_eq_Some_conv split: if_splits option.splits)
    then show ?thesis using write_store_frame discover_frame [OF t1] by fastforce
  next
    case (DeltaPublish m)
    then obtain t1 where t1: "maybe_discover_schema t (flat_map m) = Some t1" using assms by (auto simp: delta_upsert_map_def Let_def bind_eq_Some_conv)
    have "t' = t1 \<or> (\<exists>vs log r cols. write_store_with_changed ext env t1 vs log True cols = Some (r, t'))"
      using assms t1 DeltaPublish by (auto simp: delta_upsert_map_def Let_def bind_eq_Some_conv split: if_splits option.splits prod.splits)
    then show ?thesis using write_store_frame discover_frame [OF t1] by fastforce
  next
    case (Remove k)
    then have "t' = t \<or> (\<exists>row r. delete_row ext env t k row = Some (r, t'))" using assms by (auto simp: delete_key_def split: option.splits)
    then show ?thesis using delete_row_frame by fastforce
  next
    case (Expire k ttl observed)
    then have "t' = t \<or> (\<exists>row r. delete_row ext env t k row = Some (r, t'))"
      using assms by (auto simp: delete_if_still_expired_def Let_def split: option.splits if_splits)
    then show ?thesis using delete_row_frame by fastforce
  qed
  then show "next_sequence t' \<le> next_sequence t + 1" "tp_config t' = tp_config t" "origin_id t' = origin_id t" by simp_all
qed

lemma run_frame:
  "run_steps (topic_step ext io) ops t = Some t' \<Longrightarrow> tp_config t' = tp_config t \<and> origin_id t' = origin_id t"
proof (induction ops arbitrary: t)
  case (Cons op ops)
  obtain env o1 where op: "op = (env, o1)" by force
  obtain t1 where "topic_step ext io (env, o1) t = Some t1" "run_steps (topic_step ext io) ops t1 = Some t'"
    using Cons.prems op by (auto simp: bind_eq_Some_conv)
  then show ?case using Cons.IH [of t1] step_frame [of ext io env o1 t t1] by simp
qed simp

definition calm_env :: topic_env where
  "calm_env = sample_env\<lparr>env_torn := \<lambda>_. None\<rparr>"

definition sample_run :: "(topic_env \<times> topic_op) list" where
  "sample_run = [(calm_env, Publish sample_doc), (calm_env, Remove ''1'')]"

lemma sample_run_ok:
  "ops_ok sample_externals sample_io sample_crc (attach_txlog (new_log 30 True) (sample_topic\<lparr>origin_id := ''a'', sparse_delta_txlog := True\<rparr>)) sample_run"
proof -
  have small: "entry_ok (new_entry calm_env t k p PJson)"
    if "next_sequence t \<le> 9" "tp_config t = sample_config" "origin_id t = ''a''" "k = [] \<or> k = ''1''" "p = [] \<or> p = ''{}''" for t k p
    using that
    by (auto simp: entry_ok_def new_entry_def sample_config_def calm_env_def sample_env_def entry_body_def entry_v2_def
        MAX_TOPIC_LEN_def MAX_ORIGIN_LEN_def MAX_ENTRY_SIZE_def byte_in_def)
  let ?t0 = "attach_txlog (new_log 30 True) (sample_topic\<lparr>origin_id := ''a'', sparse_delta_txlog := True\<rparr>)"
  have f: "next_sequence ?t0 = 0" "tp_config ?t0 = sample_config" "origin_id ?t0 = ''a''"
    by (simp_all add: attach_txlog_def new_log_def sample_topic_def topic_new_def)
  have key: "compute_key_from_map sample_config sample_doc = Some ''1''"
    by (simp add: compute_key_from_map_def sample_config_def sample_doc_def)
  have e: "env_crc calm_env = sample_crc" "env_torn calm_env n = None" for n by (simp_all add: calm_env_def sample_env_def)
  have first: "op_ok sample_io sample_crc ?t0 (calm_env, Publish sample_doc)"
    using small [of ?t0 "''1''" "''{}''"] f
    by (simp add: op_ok_def doc_journalled_def sample_doc_flat sample_io_def key unwrap_or_default_def e)
  have "op_ok sample_io sample_crc t (calm_env, Remove ''1'')"
    if "topic_step sample_externals sample_io (calm_env, Publish sample_doc) ?t0 = Some t" for t
    using step_frame [OF that] f small [of t "''1''" "[]"] by (simp add: op_ok_def e split: option.splits)
  then show ?thesis using first by (simp add: sample_run_def split: option.splits)
qed

theorem recovery_rebuilds_topic_witness:
  "\<exists>t w w' u.
     run_steps (topic_step sample_externals sample_io) sample_run
       (attach_txlog (new_log 30 True) (sample_topic\<lparr>origin_id := ''a'', sparse_delta_txlog := True\<rparr>)) = Some t \<and> txlog t = Some w \<and>
     tx_open sample_crc 30 (tw_live w) (tw_archive w) = Inr w' \<and>
     recover_topic sample_externals sample_io 7 sample_crc
       (attach_txlog w' (sample_topic\<lparr>origin_id := ''a'', sparse_delta_txlog := True\<rparr>)) (tw_live w) (tw_archive w) 0 = Some (Inr u) \<and>
     forget (tp_state u) = forget (tp_state t) \<and> topic_table (tp_state u) = topic_table (tp_state t) \<and>
     next_sequence u = next_sequence t"
  by (rule recovery_rebuilds_topic [where cap = 1 and cfg = sample_config, OF _ sample_schema_wf _ sample_run_ok]) (simp_all add: sample_topic_def)

theorem replay_twice_is_once_witness:
  "\<exists>t'. replay_entry sample_externals sample_io 5 (sample_entry 3) sample_topic = Some t' \<and>
     replay_entry sample_externals sample_io 6 (sample_entry 3) t' = Some t'"
proof -
  obtain st r where c: "commit_values_locked sample_externals 5 (tp_state sample_topic) [VLong 1, VNull, VNull] = Some (st, r)"
    by (rule commit_total [OF sample_topic_ok(2)])
  then obtain t' where "replay_entry sample_externals sample_io 5 (sample_entry 3) sample_topic = Some t'"
    using sample_topic_ok(4) sample_schema_columns(3) sample_doc_values
    by (auto simp: replay_entry_def sample_entry_def is_tombstone_def sample_io_def replay_upsert_map_origin_def sample_doc_flat
        no_discovery write_store_replay_def replay_is_duplicate_def own_origin_def sample_topic_def topic_new_def Let_def)
  then show ?thesis using replay_twice_is_once [of "sample_entry 3" sample_externals sample_io 5 sample_topic t' 6]
    by (auto simp: sample_entry_def)
qed

end

