(* ===== verification/CQ_Snapshot.thy ===== *)
theory CQ_Snapshot
  imports CQ_Recovery
begin

text \<open>
  SOW snapshots: the file (\<open>cq-txlog/src/snapshot.rs\<close>), taking one and applying it
  (\<open>topic.rs\<close>), checkpoints that delete journal segments, and the start of a topic from snapshot
  and journal (\<open>main.rs\<close>). The theorems say what survives a checkpoint followed by a restart.
\<close>

section \<open>The file\<close>

record snapshot =
  snap_sequence :: nat
  snap_segment_id :: nat
  snap_origin_highwater :: "(string \<times> nat) list"
  snap_rows :: "string list"

definition SNAPSHOT_MAGIC :: string where
  "SNAPSHOT_MAGIC = ''CQSNAP'' @ [CHR 0x01, CHR 0x00]"

definition SNAPSHOT_VERSION :: char where "SNAPSHOT_VERSION = CHR 0x01"

definition SNAPSHOT_MAX_BODY :: nat where "SNAPSHOT_MAX_BODY = 64 * 1024 * 1024 * 1024"

definition encode_snapshot_body :: "snapshot \<Rightarrow> string" where
  "encode_snapshot_body s =
     be_bytes 8 (snap_sequence s) @ be_bytes 8 (snap_segment_id s) @
     be_bytes 4 (length (snap_origin_highwater s)) @
     concat (map (\<lambda>(o1, hw). be_bytes 2 (length o1) @ o1 @ be_bytes 8 hw) (snap_origin_highwater s)) @
     be_bytes 8 (length (snap_rows s)) @
     concat (map (\<lambda>r. be_bytes 4 (length r) @ r) (snap_rows s))"

text \<open>The cursor over the body: the bytes read and the rest, \<open>None\<close> on a short read.\<close>

definition cursor_bytes :: "nat \<Rightarrow> string \<Rightarrow> (string \<times> string) option" where
  "cursor_bytes n bs = (if length bs < n then None else Some (take n bs, drop n bs))"

definition cursor_uint :: "nat \<Rightarrow> string \<Rightarrow> (nat \<times> string) option" where
  "cursor_uint n bs = map_option (\<lambda>(b, rest). (be_nat b, rest)) (cursor_bytes n bs)"

fun decode_origins :: "nat \<Rightarrow> (string \<times> nat) list \<Rightarrow> string \<Rightarrow> ((string \<times> nat) list \<times> string) option" where
  "decode_origins 0 acc bs = Some (acc, bs)"
| "decode_origins (Suc n) acc bs = do {
     (olen, bs1) \<leftarrow> cursor_uint 2 bs;
     (origin, bs2) \<leftarrow> cursor_bytes olen bs1;
     (hw, bs3) \<leftarrow> cursor_uint 8 bs2;
     if utf8_valid origin then decode_origins n (AList.update origin hw acc) bs3 else None
   }"

fun decode_rows :: "nat \<Rightarrow> string \<Rightarrow> (string list \<times> string) option" where
  "decode_rows 0 bs = Some ([], bs)"
| "decode_rows (Suc n) bs = do {
     (plen, bs1) \<leftarrow> cursor_uint 4 bs;
     (payload, bs2) \<leftarrow> cursor_bytes plen bs1;
     (rows, rest) \<leftarrow> decode_rows n bs2;
     Some (payload # rows, rest)
   }"

definition decode_snapshot_body :: "string \<Rightarrow> snapshot option" where
  "decode_snapshot_body body = do {
     (seq, b1) \<leftarrow> cursor_uint 8 body;
     (seg, b2) \<leftarrow> cursor_uint 8 b1;
     (origin_count, b3) \<leftarrow> cursor_uint 4 b2;
     if 1000000 < origin_count then None else do {
       (hw, b4) \<leftarrow> decode_origins origin_count [] b3;
       (row_cnt, b5) \<leftarrow> cursor_uint 8 b4;
       (rows, rest) \<leftarrow> decode_rows row_cnt b5;
       if rest \<noteq> [] then None
       else Some \<lparr>snap_sequence = seq, snap_segment_id = seg, snap_origin_highwater = hw, snap_rows = rows\<rparr>
     }
   }"

text \<open>The bytes \<open>write_atomic\<close> leaves under the name of the snapshot, and loading them.\<close>

definition snapshot_bytes :: "(string \<Rightarrow> u32) \<Rightarrow> snapshot \<Rightarrow> string" where
  "snapshot_bytes crc s =
     (let body = encode_snapshot_body s
      in SNAPSHOT_MAGIC @ [SNAPSHOT_VERSION] @ be_bytes 8 (length body) @ be_bytes 4 (unat (crc body)) @ body)"

definition load_snapshot :: "(string \<Rightarrow> u32) \<Rightarrow> string option \<Rightarrow> snapshot option" where
  "load_snapshot crc file =
     (case file of
        None \<Rightarrow> None
      | Some bs \<Rightarrow>
          if length bs < 21 then None
          else if take 8 bs \<noteq> SNAPSHOT_MAGIC then None
          else if bs ! 8 \<noteq> SNAPSHOT_VERSION then None
          else let body_len = be_nat (take 8 (drop 9 bs)); crc_expected = be_nat (take 4 (drop 17 bs)) in
          if SNAPSHOT_MAX_BODY < body_len then None
          else if length (drop 21 bs) < body_len then None
          else let body = take body_len (drop 21 bs) in
          if unat (crc body) \<noteq> crc_expected then None
          else decode_snapshot_body body)"

section \<open>Building and applying\<close>

text \<open>The payloads of the rows, in the order the key map is walked; a row that cannot be printed is left out.\<close>

fun row_payloads :: "externals \<Rightarrow> json_io \<Rightarrow> column_store \<Rightarrow> nat list \<Rightarrow> string list option" where
  "row_payloads ext io s [] = Some []"
| "row_payloads ext io s (r # rs) = do {
     m \<leftarrow> get_row_map ext s r;
     ps \<leftarrow> row_payloads ext io s rs;
     Some (case to_vec io (JObject m) of Some b \<Rightarrow> b # ps | None \<Rightarrow> ps)
   }"

text \<open>
  \<open>walk\<close> and \<open>marks\<close> are the iteration orders of the key map and of the map of watermarks.
\<close>

definition build_snapshot ::
  "externals \<Rightarrow> json_io \<Rightarrow> ((string \<times> nat) list \<Rightarrow> (string \<times> nat) list) \<Rightarrow> ((string \<Rightarrow> nat option) \<Rightarrow> (string \<times> nat) list) \<Rightarrow>
   topic \<Rightarrow> snapshot option option" where
  "build_snapshot ext io walk marks t =
     (case txlog t of
        None \<Rightarrow> Some None
      | Some w \<Rightarrow>
          map_option (\<lambda>rows. Some \<lparr>snap_sequence = next_sequence t, snap_segment_id = tw_current_id w,
              snap_origin_highwater = marks (replicated_highwater t), snap_rows = rows\<rparr>)
            (row_payloads ext io (st_store (tp_state t)) (map snd (walk (key_to_row (tp_state t))))))"

definition apply_snapshot_row :: "externals \<Rightarrow> nat \<Rightarrow> topic \<Rightarrow> json_map \<Rightarrow> topic option" where
  "apply_snapshot_row ext now t m = do {
     let flat = flat_map m;
     t1 \<leftarrow> maybe_discover_schema t flat;
     write_store_replay ext now t1 (map_values ext (st_schema (tp_state t1)) flat)
   }"

fun apply_snapshot_rows :: "externals \<Rightarrow> json_io \<Rightarrow> nat \<Rightarrow> string list \<Rightarrow> topic \<Rightarrow> topic option" where
  "apply_snapshot_rows ext io now [] t = Some t"
| "apply_snapshot_rows ext io now (p # ps) t = do {
     t1 \<leftarrow> (case from_slice io p of Some (JObject m) \<Rightarrow> apply_snapshot_row ext now t m | _ \<Rightarrow> Some t);
     apply_snapshot_rows ext io now ps t1
   }"

definition raise_mark :: "string \<times> nat \<Rightarrow> (string \<Rightarrow> nat option) \<Rightarrow> string \<Rightarrow> nat option" where
  "raise_mark = (\<lambda>(origin, mark) hw. hw(origin \<mapsto> max (case hw origin of Some h \<Rightarrow> h | None \<Rightarrow> 0) mark))"

definition apply_snapshot :: "externals \<Rightarrow> json_io \<Rightarrow> nat \<Rightarrow> snapshot \<Rightarrow> topic \<Rightarrow> topic option" where
  "apply_snapshot ext io now s t = do {
     t1 \<leftarrow> apply_snapshot_rows ext io now (snap_rows s) t;
     Some (bump_sequence_to (snap_sequence s)
             (t1\<lparr>replicated_highwater := fold raise_mark (snap_origin_highwater s) (replicated_highwater t1)\<rparr>))
   }"

text \<open>
  Starting a persistent topic (\<open>main.rs\<close>): the snapshot, when there is a valid one, then the
  journal from the segment of the snapshot on.
\<close>

definition start_topic ::
  "externals \<Rightarrow> json_io \<Rightarrow> nat \<Rightarrow> (string \<Rightarrow> u32) \<Rightarrow> string option \<Rightarrow> segment_files \<Rightarrow> segment_files option \<Rightarrow> topic \<Rightarrow>
   (tx_log_error + topic) option" where
  "start_topic ext io now crc file live archive t =
     (case load_snapshot crc file of
        None \<Rightarrow> recover_topic ext io now crc t live archive 0
      | Some s \<Rightarrow> do {
          t1 \<leftarrow> apply_snapshot ext io now s t;
          recover_topic ext io now crc t1 live archive (snap_segment_id s)
        })"

text \<open>
  Writing the snapshot and reclaiming segments. The new contents of the snapshot file are part
  of the result; \<open>wrote\<close> says whether writing it succeeds.
\<close>

definition force_rotate_txlog :: "topic \<Rightarrow> topic_error option \<times> topic" where
  "force_rotate_txlog t =
     (case txlog t of
        None \<Rightarrow> (None, t)
      | Some w \<Rightarrow> (case tx_rotate w of (err, v) \<Rightarrow> (map_option TopicTxLog err, t\<lparr>txlog := Some v\<rparr>)))"

definition reclaim_sealed_segments_below :: "nat \<Rightarrow> topic \<Rightarrow> nat \<times> topic" where
  "reclaim_sealed_segments_below cutoff t =
     (case txlog t of
        None \<Rightarrow> (0, t)
      | Some w \<Rightarrow> (case tx_prune_segments_below cutoff w of (removed, v) \<Rightarrow> (removed, t\<lparr>txlog := Some v\<rparr>)))"

definition checkpoint ::
  "externals \<Rightarrow> json_io \<Rightarrow> (string \<Rightarrow> u32) \<Rightarrow> ((string \<times> nat) list \<Rightarrow> (string \<times> nat) list) \<Rightarrow>
   ((string \<Rightarrow> nat option) \<Rightarrow> (string \<times> nat) list) \<Rightarrow> bool \<Rightarrow> bool \<Rightarrow> topic \<Rightarrow>
   ((topic_error + (nat \<times> nat \<times> nat) option) \<times> string option \<times> topic) option" where
  "checkpoint ext io crc walk marks wrote reclaim t =
     (if txlog t = None then Some (Inr None, None, t)
      else do {
        built \<leftarrow> build_snapshot ext io walk marks t;
        case built of
          None \<Rightarrow> Some (Inr None, None, t)
        | Some s \<Rightarrow>
            if \<not> wrote then Some (Inl (TopicTxLog TxIo), None, t)
            else let (reclaimed, t') = (if reclaim then reclaim_sealed_segments_below (snap_segment_id s) t else (0, t))
                 in Some (Inr (Some (reclaimed, snap_sequence s, snap_segment_id s)), Some (snapshot_bytes crc s), t')
      })"

section \<open>A snapshot survives the way to disk\<close>

definition snapshot_ok :: "snapshot \<Rightarrow> bool" where
  "snapshot_ok s \<longleftrightarrow>
     snap_sequence s < 2 ^ 64 \<and> snap_segment_id s < 2 ^ 64 \<and>
     length (snap_origin_highwater s) \<le> 1000000 \<and> distinct (map fst (snap_origin_highwater s)) \<and>
     (\<forall>(o1, hw) \<in> set (snap_origin_highwater s). utf8_valid o1 \<and> length o1 < 65536 \<and> hw < 2 ^ 64) \<and>
     length (snap_rows s) < 2 ^ 64 \<and> (\<forall>r \<in> set (snap_rows s). length r < 2 ^ 32) \<and>
     length (encode_snapshot_body s) \<le> SNAPSHOT_MAX_BODY"

lemma cursor_bytes_append: "length a = n \<Longrightarrow> cursor_bytes n (a @ r) = Some (a, r)"
  by (auto simp: cursor_bytes_def)

lemma cursor_uint_append: "x < 256 ^ n \<Longrightarrow> cursor_uint n (be_bytes n x @ r) = Some (x, r)"
  by (simp add: cursor_uint_def cursor_bytes_append be_nat_be_bytes)

lemma decode_origins_encode:
  "\<forall>(o1, hw) \<in> set os. utf8_valid o1 \<and> length o1 < 65536 \<and> hw < 2 ^ 64 \<Longrightarrow> distinct (map fst (acc @ os)) \<Longrightarrow>
   decode_origins (length os) acc (concat (map (\<lambda>(o1, hw). be_bytes 2 (length o1) @ o1 @ be_bytes 8 hw) os) @ rest) = Some (acc @ os, rest)"
proof (induction os arbitrary: acc)
  case Nil
  then show ?case by simp
next
  case (Cons x os)
  obtain o1 hw where x: "x = (o1, hw)" by force
  have upd: "AList.update o1 hw acc = acc @ [(o1, hw)]" using Cons.prems(2) x by (induction acc) auto
  have "distinct (map fst ((acc @ [(o1, hw)]) @ os))" using Cons.prems(2) x by simp
  then show ?case using Cons.IH [of "acc @ [(o1, hw)]"] Cons.prems(1) x
    by (simp add: cursor_uint_append cursor_bytes_append upd)
qed

lemma decode_rows_encode:
  "\<forall>r \<in> set rs. length r < 2 ^ 32 \<Longrightarrow> decode_rows (length rs) (concat (map (\<lambda>r. be_bytes 4 (length r) @ r) rs) @ rest) = Some (rs, rest)"
  by (induction rs) (simp_all add: cursor_uint_append cursor_bytes_append)

lemma decode_encode_snapshot:
  assumes "snapshot_ok s" shows "decode_snapshot_body (encode_snapshot_body s) = Some s"
proof -
  have o: "decode_origins (length (snap_origin_highwater s)) []
      (concat (map (\<lambda>(o1, hw). be_bytes 2 (length o1) @ o1 @ be_bytes 8 hw) (snap_origin_highwater s)) @ rest) =
      Some (snap_origin_highwater s, rest)" for rest
    using decode_origins_encode [of "snap_origin_highwater s" "[]"] assms by (simp add: snapshot_ok_def)
  have r: "decode_rows (length (snap_rows s)) (concat (map (\<lambda>r. be_bytes 4 (length r) @ r) (snap_rows s))) = Some (snap_rows s, [])"
    using decode_rows_encode [of "snap_rows s" "[]"] assms by (simp add: snapshot_ok_def)
  have "snap_sequence s < 256 ^ 8" "snap_segment_id s < 256 ^ 8" "length (snap_origin_highwater s) < 256 ^ 4"
    "length (snap_rows s) < 256 ^ 8" "length (snap_origin_highwater s) \<le> 1000000"
    using assms by (auto simp: snapshot_ok_def)
  then show ?thesis
    unfolding decode_snapshot_body_def encode_snapshot_body_def by (simp add: cursor_uint_append o r)
qed

lemma load_snapshot_bytes:
  assumes "snapshot_ok s" shows "load_snapshot crc (Some (snapshot_bytes crc s)) = Some s"
proof -
  let ?b = "encode_snapshot_body s"
  have len: "length ?b \<le> SNAPSHOT_MAX_BODY" "length ?b < 256 ^ 8" using assms by (auto simp: snapshot_ok_def SNAPSHOT_MAX_BODY_def)
  have c: "unat (crc ?b) mod 4294967296 = unat (crc ?b)" by (rule unat_u32_mod)
  show ?thesis
    using decode_encode_snapshot [OF assms] len c
    by (simp add: load_snapshot_def snapshot_bytes_def Let_def SNAPSHOT_MAGIC_def nth_append be_nat_be_bytes)
qed

lemma short_snapshot_ignored:
  assumes "n < length (snapshot_bytes crc s)" "length (encode_snapshot_body s) < 256 ^ 8"
  shows "load_snapshot crc (Some (take n (snapshot_bytes crc s))) = None"
proof (cases "n < 21")
  case True
  then have "length (take n (snapshot_bytes crc s)) < 21" by simp
  then show ?thesis unfolding load_snapshot_def by simp
next
  case False
  let ?f = "snapshot_bytes crc s" and ?b = "encode_snapshot_body s"
  have f: "?f = (SNAPSHOT_MAGIC @ [SNAPSHOT_VERSION]) @ be_bytes 8 (length ?b) @ be_bytes 4 (unat (crc ?b)) @ ?b"
    by (simp add: snapshot_bytes_def Let_def)
  have m: "length (SNAPSHOT_MAGIC @ [SNAPSHOT_VERSION]) = 9" by (simp add: SNAPSHOT_MAGIC_def)
  have "take 8 (drop 9 (take n ?f)) = take 8 (drop 9 ?f)" using False by (simp add: drop_take min_def)
  also have "drop 9 ?f = be_bytes 8 (length ?b) @ be_bytes 4 (unat (crc ?b)) @ ?b" unfolding f using m by simp
  finally have "be_nat (take 8 (drop 9 (take n ?f))) = length ?b" using assms(2) by (simp add: be_nat_be_bytes)
  moreover have "length ?f = 21 + length ?b" unfolding f using m by simp
  ultimately have "length (drop 21 (take n ?f)) < be_nat (take 8 (drop 9 (take n ?f)))" using False assms(1) by simp
  then show ?thesis unfolding load_snapshot_def Let_def option.case(2) by argo
qed

section \<open>States that show the same table\<close>

definition same_rows :: "externals \<Rightarrow> schema \<Rightarrow> nat list \<Rightarrow> store_state \<Rightarrow> store_state \<Rightarrow> bool" where
  "same_rows ext sch kcs a b \<longleftrightarrow>
     state_ok ext a \<and> state_ok ext b \<and> topic_table a = topic_table b \<and> st_schema a = sch \<and> st_schema b = sch \<and>
     key_col_indices a = kcs \<and> key_col_indices b = kcs \<and> \<not> is_placeholder_schema sch"

definition carries_key :: "externals \<Rightarrow> store_state \<Rightarrow> cq_value list \<Rightarrow> bool" where
  "carries_key ext st vs \<longleftrightarrow> compute_key_with ext vs (key_col_indices st) \<noteq> None"

lemma same_rows_kinds: "same_rows ext sch kcs a b \<Longrightarrow> row_kinds (st_store b) = row_kinds (st_store a)"
  using row_kinds_rows_ok [OF state_ok_rows_ok] by (metis same_rows_def)

lemma same_rows_key:
  assumes "same_rows ext sch kcs a b" "map_of (key_to_row a) k = Some r"
  obtains r' where "map_of (key_to_row b) k = Some r'" "row_of (st_store b) r' = row_of (st_store a) r"
  using assms unfolding same_rows_def topic_table_def by (metis (no_types, lifting) map_option_eq_Some option.simps(9))

lemma delta_columns_rows:
  "(\<And>c. i \<le> c \<Longrightarrow> c < i + length cols \<Longrightarrow>
      map_option (get_value s c) existing = map_option (get_value s' c) existing') \<Longrightarrow> (existing = None \<longleftrightarrow> existing' = None) \<Longrightarrow>
   delta_columns ext s existing flat i cols = delta_columns ext s' existing' flat i cols"
proof (induction cols arbitrary: i)
  case Nil
  then show ?case by simp
next
  case (Cons col cols)
  have "delta_columns ext s existing flat (Suc i) cols = delta_columns ext s' existing' flat (Suc i) cols"
    by (rule Cons.IH) (use Cons.prems in auto)
  moreover have "map_option (get_value s i) existing = map_option (get_value s' i) existing'" by (rule Cons.prems(1)) auto
  ultimately show ?case using Cons.prems(2) by (cases existing; cases existing'; cases "map_of flat (col_name col)") simp_all
qed

lemma same_rows_delta:
  assumes rel: "same_rows ext sch kcs a b"
  shows "delta_columns ext (st_store b) (map_of (key_to_row b) k) flat 0 (columns (st_schema b)) =
     delta_columns ext (st_store a) (map_of (key_to_row a) k) flat 0 (columns (st_schema a))"
proof -
  have ok: "state_ok ext a" "state_ok ext b" and sch: "st_schema b = st_schema a" using rel by (simp_all add: same_rows_def)
  have len: "length (columns (st_schema a)) = length (row_kinds (st_store a))"
    by (simp add: row_kinds_rows_ok [OF state_ok_rows_ok [OF ok(1)]] del: length_row_kinds)
  have "map_option (get_value (st_store b) c) (map_of (key_to_row b) k) = map_option (get_value (st_store a) c) (map_of (key_to_row a) k)"
    if "c < length (columns (st_schema a))" for c
  proof (cases "map_of (key_to_row a) k")
    case None
    then show ?thesis using rel map_of_table [of a k] map_of_table [of b k] by (simp add: same_rows_def)
  next
    case (Some r)
    obtain r' where r': "map_of (key_to_row b) k = Some r'" "row_of (st_store b) r' = row_of (st_store a) r"
      by (rule same_rows_key [OF rel Some])
    have "get_value (st_store a) c r = Some (row_of (st_store a) r ! c)"
      using cell_of_row [OF state_okD(1) [OF ok(1)] key_row_bound [OF ok(1) Some]] that len by simp
    moreover have "get_value (st_store b) c r' = Some (row_of (st_store b) r' ! c)"
      using cell_of_row [OF state_okD(1) [OF ok(2)] key_row_bound [OF ok(2) r'(1)]] that len same_rows_kinds [OF rel] by simp
    ultimately show ?thesis using Some r' by simp
  qed
  moreover have "map_of (key_to_row b) k = None \<longleftrightarrow> map_of (key_to_row a) k = None"
    using rel map_of_table [of a k] map_of_table [of b k] by (simp add: same_rows_def)
  ultimately show ?thesis unfolding sch by (intro delta_columns_rows) auto
qed

interpretation tables: replay_relation ext "same_rows ext sch kcs" "carries_key ext" for ext sch kcs
proof
  fix a b vs a' r now now'
  assume rel: "same_rows ext sch kcs a b" and fine: "carries_key ext a vs" and vs: "row_typed (row_kinds (st_store a)) vs"
    and c: "commit_values_locked ext now a vs = Some (a', r)"
  have ok: "state_ok ext a" "state_ok ext b" using rel by (simp_all add: same_rows_def)
  obtain k where k: "compute_key_with ext vs (key_col_indices a) = Some k" using fine by (auto simp: carries_key_def)
  obtain x rx where x: "commit_values_locked ext now a vs = Some (x, rx)" "state_ok ext x" "same_frame a x"
    "topic_table x = (topic_table a)(k \<mapsto>
       merge_row (case topic_table a k of Some old \<Rightarrow> old | None \<Rightarrow> null_row (row_kinds (st_store a))) vs)"
    by (rule commit_ok [OF ok(1) vs k, of now])
  have vb: "row_typed (row_kinds (st_store b)) vs" using vs same_rows_kinds [OF rel] by simp
  have kb: "compute_key_with ext vs (key_col_indices b) = Some k" using k rel by (simp add: same_rows_def)
  obtain y ry where y: "commit_values_locked ext now' b vs = Some (y, ry)" "state_ok ext y" "same_frame b y"
    "topic_table y = (topic_table b)(k \<mapsto>
       merge_row (case topic_table b k of Some old \<Rightarrow> old | None \<Rightarrow> null_row (row_kinds (st_store b))) vs)"
    by (rule commit_ok [OF ok(2) vb kb, of now'])
  have "x = a'" using x(1) c by simp
  moreover have "topic_table x = topic_table y" unfolding x(4) y(4) same_rows_kinds [OF rel] using rel by (simp add: same_rows_def)
  ultimately have "same_rows ext sch kcs a' y" using x(2,3) y(2,3) rel by (auto simp: same_rows_def same_frame_def)
  then show "\<exists>b' r'. commit_values_locked ext now' b vs = Some (b', r') \<and> same_rows ext sch kcs a' b'" using y(1) by blast
next
  fix a b k r a'
  assume rel: "same_rows ext sch kcs a b" and key: "map_of (key_to_row a) k = Some r" and f: "free_row ext a k r = Some a'"
  have ok: "state_ok ext a" "state_ok ext b" using rel by (simp_all add: same_rows_def)
  obtain r' where r': "map_of (key_to_row b) k = Some r'" by (rule same_rows_key [OF rel key])
  obtain x where x: "free_row ext a k r = Some x" "state_ok ext x" "same_frame a x" "topic_table x = (topic_table a)(k := None)"
    by (rule free_row_ok [OF ok(1) key])
  obtain y where y: "free_row ext b k r' = Some y" "state_ok ext y" "same_frame b y" "topic_table y = (topic_table b)(k := None)"
    by (rule free_row_ok [OF ok(2) r'])
  have "x = a'" using x(1) f by simp
  then have "same_rows ext sch kcs a' y" using x y rel by (auto simp: same_rows_def same_frame_def)
  then show "\<exists>b' r'. map_of (key_to_row b) k = Some r' \<and> free_row ext b k r' = Some b' \<and> same_rows ext sch kcs a' b'" using r' y(1) by blast
next
  fix a b :: store_state and k flat
  assume rel: "same_rows ext sch kcs a b"
  show "st_schema b = st_schema a" using rel by (simp add: same_rows_def)
  show "delta_columns ext (st_store b) (map_of (key_to_row b) k) flat 0 (columns (st_schema b)) =
      delta_columns ext (st_store a) (map_of (key_to_row a) k) flat 0 (columns (st_schema a))" by (rule same_rows_delta [OF rel])
  show "is_placeholder_schema (st_schema a) \<Longrightarrow> row_count (st_store b) = row_count (st_store a) \<and> capacity (st_store b) = capacity (st_store a) \<and>
      (\<forall>sch' keys ixs cap. same_rows ext sch kcs (state_build sch' keys ixs cap) (state_build sch' keys ixs cap))"
    using rel by (simp add: same_rows_def)
qed

section \<open>A row survives the way over its snapshot\<close>

text \<open>
  A row that a snapshot restores: every cell prints and parses or is the null of its column,
  the key cells are not null, and the document of the row comes back from its bytes.
\<close>

definition row_restorable :: "externals \<Rightarrow> json_io \<Rightarrow> store_state \<Rightarrow> nat \<Rightarrow> bool" where
  "row_restorable ext io st r \<longleftrightarrow>
     (\<forall>c < length (row_kinds (st_store st)).
        json_safe (row_of (st_store st) r ! c) \<or>
        row_of (st_store st) r ! c = null_value (row_kinds (st_store st) ! c) \<and> c \<notin> set (key_col_indices st)) \<and>
     (case get_row_map ext (st_store st) r of
        Some m \<Rightarrow> (case to_vec io (JObject m) of Some b \<Rightarrow> from_slice io b = Some (JObject m) | None \<Rightarrow> False)
      | None \<Rightarrow> True)"

definition plain_schema :: "schema \<Rightarrow> bool" where
  "plain_schema sch \<longleftrightarrow>
     distinct (map col_name (columns sch)) \<and> (\<forall>i < length (columns sch). col_index (columns sch ! i) = i)"

lemma json_safe_not_null: "json_safe v \<Longrightarrow> \<not> value_is_null v"
  by (cases v) auto

lemma json_safe_scalar:
  assumes "json_laws ext" "json_safe v" shows "is_scalar (to_json ext v)"
proof (cases v)
  case (VDouble x)
  then have "\<not> f64_is_nan x" "\<not> f64_is_infinite x" using assms(2) by simp_all
  then obtain n where "json_of_f64 ext x = JNumber n" using assms(1) unfolding json_laws_def by blast
  then show ?thesis using VDouble assms(2) by simp
next
  case (VLong x)
  obtain n where "json_of_i64 ext x = JNumber n" using assms(1) unfolding json_laws_def by blast
  then show ?thesis using VLong by simp
next
  case (VInt x)
  obtain n where "json_of_i64 ext (i32_as_i64 x) = JNumber n" using assms(1) unfolding json_laws_def by blast
  then show ?thesis using VInt by simp
next
  case (VString x)
  then show ?thesis by (cases x) simp_all
next
  case (VBool x)
  then show ?thesis by (cases x) simp_all
next
  case (VBytes x)
  then show ?thesis by (cases x) simp_all
qed simp_all

lemma obj_insert_values: "(k', v') \<in> set (obj_insert k v m) \<Longrightarrow> (k', v') = (k, v) \<or> (k', v') \<in> set m"
  by (induction m) (auto split: if_splits)

lemma compute_key_cong:
  assumes "length vs = length ws" "\<forall>c \<in> set cols. c < length vs \<longrightarrow> vs ! c = ws ! c"
  shows "compute_key_with ext vs cols = compute_key_with ext ws cols"
proof -
  have "map (\<lambda>i. if i < length vs then value_key_part ext (vs ! i) else None) cols =
      map (\<lambda>i. if i < length ws then value_key_part ext (ws ! i) else None) cols"
    by (rule map_cong) (use assms in simp_all)
  then show ?thesis by (simp only: compute_key_with_def)
qed

lemma row_restored:
  assumes laws: "json_laws ext" and ok: "state_ok ext st" and sch: "plain_schema (st_schema st)"
    and key: "map_of (key_to_row st) k = Some r" and res: "row_restorable ext io st r"
  obtains m b where "get_row_map ext (st_store st) r = Some m" "to_vec io (JObject m) = Some b" "from_slice io b = Some (JObject m)"
    "flat_map m = m" "compute_key_with ext (map_values ext (st_schema st) m) (key_col_indices st) = Some k"
    "merge_row (null_row (row_kinds (st_store st))) (map_values ext (st_schema st) m) = row_of (st_store st) r"
proof -
  let ?s = "st_store st" and ?cols = "columns (st_schema st)"
  note d = state_okD [OF ok]
  have r: "r < row_count ?s" by (rule key_row_bound [OF ok key])
  then have cap: "r < capacity ?s" using store_ok_shape(3) [OF d(1)] by simp
  have n: "length ?cols = length (row_kinds ?s)" "length (row_of ?s r) = length ?cols"
    using row_kinds_rows_ok [OF state_ok_rows_ok [OF ok]] by (metis length_map, metis length_map length_row_kinds length_row_of)
  have kinds: "row_kinds ?s ! c = col_type (?cols ! c)" if "c < length ?cols" for c
    using row_kinds_rows_ok [OF state_ok_rows_ok [OF ok]] that by simp
  have names: "distinct (map col_name (columns (cs_schema ?s)))"
    "\<forall>i < length (columns (cs_schema ?s)). col_index (columns (cs_schema ?s) ! i) = i"
    using sch d(2) by (simp_all add: plain_schema_def)
  have idx: "map col_index ?cols = [0..<length ?cols]" using names(2) d(2) by (intro nth_equalityI) simp_all
  define m where "m = fold (\<lambda>c. obj_insert (col_name (?cols ! c)) (to_json ext (row_of ?s r ! c))) (live_columns ?s r [0..<length ?cols]) []"
  have m: "get_row_map ext ?s r = Some m"
    unfolding get_row_map_def m_def d(2) idx using insert_fields_map [OF d(1) cap, of "[0..<length ?cols]" ext "[]"] d(2) by simp
  have look: "map_of m (col_name (?cols ! c)) = (if value_is_null (row_of ?s r ! c) then None else Some (to_json ext (row_of ?s r ! c)))"
    if "c < length ?cols" for c
    using get_row_map_lookup [OF d(1) cap _ names, of c ext] that m d(2) by auto
  have cell: "json_safe (row_of ?s r ! c) \<or> row_of ?s r ! c = null_value (row_kinds ?s ! c) \<and> c \<notin> set (key_col_indices st)"
    if "c < length ?cols" for c using res that n(1) by (simp add: row_restorable_def)
  have typed: "typed (row_kinds ?s ! c) (row_of ?s r ! c)" if "c < length ?cols" for c
    using that n(1) cell_of_row [OF d(1) r, of c] get_value_typed [of ?s c r] row_kinds_nth [of c ?s] by simp
  have vals: "map_values ext (st_schema st) m ! c = (if value_is_null (row_of ?s r ! c) then VNull else row_of ?s r ! c)"
    if "c < length ?cols" for c
    using that look [OF that] cell [OF that] json_round_trip [OF laws typed [OF that]] kinds [OF that]
    by (auto simp: map_values_def)
  have len: "length (map_values ext (st_schema st) m) = length (row_of ?s r)" using n by (simp add: map_values_def)
  have scalars: "is_scalar v" if "(x, v) \<in> set (fold (\<lambda>c. obj_insert (col_name (?cols ! c)) (to_json ext (row_of ?s r ! c))) cs out)"
      "\<forall>c \<in> set cs. c < length ?cols \<and> \<not> value_is_null (row_of ?s r ! c)" "\<forall>(x, v) \<in> set out. is_scalar v" for x v cs out
    using that
  proof (induction cs arbitrary: out)
    case (Cons c cs)
    have "is_scalar (to_json ext (row_of ?s r ! c))" using Cons.prems(2) cell [of c] json_safe_scalar [OF laws] by auto
    then have "\<forall>(x, v) \<in> set (obj_insert (col_name (?cols ! c)) (to_json ext (row_of ?s r ! c)) out). is_scalar v"
      using Cons.prems(3) obj_insert_values by fast
    then show ?case using Cons.IH Cons.prems(1,2) by auto
  qed auto
  have "flat_map m = m"
    using scalars [of _ _ "live_columns ?s r [0..<length ?cols]" "[]", folded m_def]
    by (auto simp: flat_map_def map_has_nesting_def live_columns_def)
  moreover have "compute_key_with ext (map_values ext (st_schema st) m) (key_col_indices st) = Some k"
  proof -
    have "map_values ext (st_schema st) m ! c = row_of ?s r ! c" if "c \<in> set (key_col_indices st)" "c < length ?cols" for c
      using vals [of c] cell [of c] that json_safe_not_null by auto
    then have "compute_key_with ext (map_values ext (st_schema st) m) (key_col_indices st) = compute_key_with ext (row_of ?s r) (key_col_indices st)"
      using n(2) len by (intro compute_key_cong [OF len]) simp
    then show ?thesis using d(8) [OF map_of_SomeD [OF key]] by simp
  qed
  moreover have "merge_row (null_row (row_kinds ?s)) (map_values ext (st_schema st) m) = row_of ?s r"
  proof (rule nth_equalityI)
    show "length (merge_row (null_row (row_kinds ?s)) (map_values ext (st_schema st) m)) = length (row_of ?s r)"
      using len n by (simp add: merge_row_def del: length_row_kinds)
    fix c assume "c < length (merge_row (null_row (row_kinds ?s)) (map_values ext (st_schema st) m))"
    then have c: "c < length ?cols" using len n by (simp add: merge_row_def del: length_row_kinds)
    show "merge_row (null_row (row_kinds ?s)) (map_values ext (st_schema st) m) ! c = row_of ?s r ! c"
      using c vals [OF c] cell [OF c] json_safe_not_null len n typed [OF c]
      by (auto simp: merge_row_def simp del: length_row_kinds)
  qed
  moreover obtain b where "to_vec io (JObject m) = Some b" "from_slice io b = Some (JObject m)"
    using res m by (auto simp: row_restorable_def split: option.splits)
  ultimately show thesis using that m by blast
qed

text \<open>A topic that can take the rows of a snapshot of \<open>st\<close>: same schema and key columns.\<close>

definition fits_schema :: "externals \<Rightarrow> store_state \<Rightarrow> topic \<Rightarrow> bool" where
  "fits_schema ext st u \<longleftrightarrow>
     state_ok ext (tp_state u) \<and> st_schema (tp_state u) = st_schema st \<and> key_col_indices (tp_state u) = key_col_indices st \<and>
     \<not> is_placeholder_schema (st_schema st)"

lemma restore_row:
  assumes fits: "fits_schema ext st u" and ok: "state_ok ext st"
    and m: "flat_map m = m" "compute_key_with ext (map_values ext (st_schema st) m) (key_col_indices st) = Some k"
      "merge_row (null_row (row_kinds (st_store st))) (map_values ext (st_schema st) m) = row"
    and new: "topic_table (tp_state u) k = None"
  obtains b where "apply_snapshot_row ext now u m = Some (u\<lparr>tp_state := b, row_count_mirror := row_count (st_store b)\<rparr>)"
    "fits_schema ext st (u\<lparr>tp_state := b, row_count_mirror := row_count (st_store b)\<rparr>)"
    "topic_table b = (topic_table (tp_state u))(k \<mapsto> row)"
proof -
  let ?vs = "map_values ext (st_schema st) m"
  have ou: "state_ok ext (tp_state u)" and f: "st_schema (tp_state u) = st_schema st" "key_col_indices (tp_state u) = key_col_indices st"
    "\<not> is_placeholder_schema (st_schema st)" using fits by (simp_all add: fits_schema_def)
  have kinds: "row_kinds (st_store (tp_state u)) = row_kinds (st_store st)"
    using row_kinds_rows_ok [OF state_ok_rows_ok [OF ou]] row_kinds_rows_ok [OF state_ok_rows_ok [OF ok]] f(1) by simp
  have vs: "row_typed (row_kinds (st_store (tp_state u))) ?vs"
    using map_values_typed row_kinds_rows_ok [OF state_ok_rows_ok [OF ou]] f(1) by simp
  have key: "compute_key_with ext ?vs (key_col_indices (tp_state u)) = Some k" using m(2) f(2) by simp
  obtain b r where b: "commit_values_locked ext now (tp_state u) ?vs = Some (b, r)" "state_ok ext b" "same_frame (tp_state u) b"
    "topic_table b = (topic_table (tp_state u))(k \<mapsto>
       merge_row (case topic_table (tp_state u) k of Some old \<Rightarrow> old | None \<Rightarrow> null_row (row_kinds (st_store (tp_state u)))) ?vs)"
    by (rule commit_ok [OF ou vs key, of now])
  show thesis
  proof (rule that)
    show "apply_snapshot_row ext now u m = Some (u\<lparr>tp_state := b, row_count_mirror := row_count (st_store b)\<rparr>)"
      using b(1) m(1) f(1,3) by (simp add: apply_snapshot_row_def no_discovery write_store_replay_def)
    show "fits_schema ext st (u\<lparr>tp_state := b, row_count_mirror := row_count (st_store b)\<rparr>)"
      using b(2,3) f by (simp add: fits_schema_def same_frame_def)
    show "topic_table b = (topic_table (tp_state u))(k \<mapsto> row)" using b(4) new kinds m(3) by simp
  qed
qed

lemma restore_rows:
  assumes laws: "json_laws ext" and ok: "state_ok ext st" and sch: "plain_schema (st_schema st)"
  shows "fits_schema ext st u \<Longrightarrow> distinct (map fst ps) \<Longrightarrow>
   \<forall>(k, r) \<in> set ps. map_of (key_to_row st) k = Some r \<and> row_restorable ext io st r \<and> topic_table (tp_state u) k = None \<Longrightarrow>
   \<exists>bs b n. row_payloads ext io (st_store st) (map snd ps) = Some bs \<and>
     apply_snapshot_rows ext io now bs u = Some (u\<lparr>tp_state := b, row_count_mirror := n\<rparr>) \<and>
     fits_schema ext st (u\<lparr>tp_state := b, row_count_mirror := n\<rparr>) \<and>
     topic_table b = topic_table (tp_state u) ++ (\<lambda>k. map_option (row_of (st_store st)) (map_of ps k))"
proof (induction ps arbitrary: u)
  case Nil
  have e: "(\<lambda>k. map_option (row_of (st_store st)) (map_of [] k)) = Map.empty" by simp
  show ?case
    by (rule exI [of _ "[]"], rule exI [of _ "tp_state u"], rule exI [of _ "row_count_mirror u"])
      (use Nil in \<open>simp add: e\<close>)
next
  case (Cons p ps)
  obtain k r where p: "p = (k, r)" by force
  have key: "map_of (key_to_row st) k = Some r" "row_restorable ext io st r" "topic_table (tp_state u) k = None"
    using Cons.prems(3) p by auto
  obtain m b0 where m: "get_row_map ext (st_store st) r = Some m" "to_vec io (JObject m) = Some b0" "from_slice io b0 = Some (JObject m)"
    "flat_map m = m" "compute_key_with ext (map_values ext (st_schema st) m) (key_col_indices st) = Some k"
    "merge_row (null_row (row_kinds (st_store st))) (map_values ext (st_schema st) m) = row_of (st_store st) r"
    by (rule row_restored [OF laws ok sch key(1,2)])
  obtain b1 where b1: "apply_snapshot_row ext now u m = Some (u\<lparr>tp_state := b1, row_count_mirror := row_count (st_store b1)\<rparr>)"
    "fits_schema ext st (u\<lparr>tp_state := b1, row_count_mirror := row_count (st_store b1)\<rparr>)"
    "topic_table b1 = (topic_table (tp_state u))(k \<mapsto> row_of (st_store st) r)"
    by (rule restore_row [OF Cons.prems(1) ok m(4-6) key(3)])
  have rest: "\<forall>(k', r') \<in> set ps. map_of (key_to_row st) k' = Some r' \<and> row_restorable ext io st r' \<and>
      topic_table (tp_state (u\<lparr>tp_state := b1, row_count_mirror := row_count (st_store b1)\<rparr>)) k' = None"
  proof (clarify, intro conjI)
    fix k' r' assume i: "(k', r') \<in> set ps"
    then show "map_of (key_to_row st) k' = Some r'" "row_restorable ext io st r'" using Cons.prems(3) by auto
    have "k' \<noteq> k" using Cons.prems(2) p i by force
    then show "topic_table (tp_state (u\<lparr>tp_state := b1, row_count_mirror := row_count (st_store b1)\<rparr>)) k' = None"
      using b1(3) Cons.prems(3) i by auto
  qed
  have d: "distinct (map fst ps)" using Cons.prems(2) by simp
  obtain bs b n where r: "row_payloads ext io (st_store st) (map snd ps) = Some bs"
    "apply_snapshot_rows ext io now bs (u\<lparr>tp_state := b1, row_count_mirror := row_count (st_store b1)\<rparr>) = Some (u\<lparr>tp_state := b, row_count_mirror := n\<rparr>)"
    "fits_schema ext st (u\<lparr>tp_state := b, row_count_mirror := n\<rparr>)"
    "topic_table b = topic_table b1 ++ (\<lambda>k. map_option (row_of (st_store st)) (map_of ps k))"
    using Cons.IH [OF b1(2) d rest] by auto
  have "map_of ps k = None" using Cons.prems(2) p by (simp add: map_of_eq_None_iff)
  then have "topic_table b = topic_table (tp_state u) ++ (\<lambda>k. map_option (row_of (st_store st)) (map_of (p # ps) k))"
    unfolding r(4) b1(3) p by (simp add: fun_eq_iff map_add_def split: option.splits)
  then show ?case
    by (intro exI [of _ "b0 # bs"] exI [of _ b] exI [of _ n] conjI) (use p m b1(1) r in simp_all)
qed

text \<open>Applying the snapshot of a topic to a new one gives a topic that has replayed everything so far.\<close>

lemma snapshot_twin:
  assumes laws: "json_laws ext" and ok: "state_ok ext (tp_state t)" and sch: "plain_schema (st_schema (tp_state t))"
    and log: "txlog t = Some w" and walk: "\<forall>es. mset (walk es) = mset es"
    and res: "\<forall>k r. map_of (key_to_row (tp_state t)) k = Some r \<longrightarrow> row_restorable ext io (tp_state t) r"
    and u: "fits_schema ext (tp_state t) u" "topic_table (tp_state u) = Map.empty" "tp_config u = tp_config t" "origin_id u = origin_id t"
      "active_subscriptions u = 0" "last_applied_sequence u = 0" "next_sequence u = n"
    and b: "build_snapshot ext io walk marks t = Some (Some s)"
  obtains u' where "apply_snapshot ext io now s u = Some u'" "twin (same_rows ext (st_schema (tp_state t)) (key_col_indices (tp_state t))) n t u'"
    "snap_segment_id s = tw_current_id w" "txlog u' = txlog u"
proof -
  let ?st = "tp_state t" and ?ps = "walk (key_to_row (tp_state t))"
  note d = state_okD [OF ok]
  have m: "mset ?ps = mset (key_to_row ?st)" using walk by simp
  then have set: "set ?ps = set (key_to_row ?st)" by (rule mset_eq_setD)
  have dist: "distinct (map fst ?ps)" using d(5) m by (metis mset_eq_imp_distinct_iff mset_map)
  have look: "map_of ?ps = map_of (key_to_row ?st)" using map_of_inject_set [OF dist d(5)] set by simp
  have all: "\<forall>(k, r) \<in> set ?ps. map_of (key_to_row ?st) k = Some r \<and> row_restorable ext io ?st r \<and> topic_table (tp_state u) k = None"
    using set d(5) res u(2) by auto
  obtain bs b n' where r: "row_payloads ext io (st_store ?st) (map snd ?ps) = Some bs"
    "apply_snapshot_rows ext io now bs u = Some (u\<lparr>tp_state := b, row_count_mirror := n'\<rparr>)"
    "fits_schema ext ?st (u\<lparr>tp_state := b, row_count_mirror := n'\<rparr>)"
    "topic_table b = topic_table (tp_state u) ++ (\<lambda>k. map_option (row_of (st_store ?st)) (map_of ?ps k))"
    using restore_rows [OF laws ok sch u(1) dist all, of now] by blast
  have table: "topic_table b = topic_table ?st" unfolding r(4) u(2) look by (simp add: fun_eq_iff topic_table_def)
  have s: "s = \<lparr>snap_sequence = next_sequence t, snap_segment_id = tw_current_id w,
      snap_origin_highwater = marks (replicated_highwater t), snap_rows = bs\<rparr>"
    using b log r(1) by (simp add: build_snapshot_def)
  have same: "same_rows ext (st_schema ?st) (key_col_indices ?st) ?st b" using ok r(3) table by (auto simp: same_rows_def fits_schema_def)
  define u' where "u' = bump_sequence_to (next_sequence t) (u\<lparr>tp_state := b, row_count_mirror := n',
      replicated_highwater := fold raise_mark (marks (replicated_highwater t)) (replicated_highwater u)\<rparr>)"
  show thesis
  proof (rule that)
    show "apply_snapshot ext io now s u = Some u'" using r(2) by (simp add: apply_snapshot_def s u'_def)
    show "twin (same_rows ext (st_schema (tp_state t)) (key_col_indices (tp_state t))) n t u'" using same u by (simp add: twin_def u'_def bump_sequence_to_def)
  qed (simp_all add: s u'_def bump_sequence_to_def)
qed

section \<open>The journal behind a snapshot\<close>

text \<open>
  A writer that had accepted \<open>suf\<close> in its active segment \<open>seg\<close> when the snapshot was taken, and
  \<open>es\<close> since: the segments from \<open>seg\<close> on hold \<open>suf @ es\<close>.
\<close>

definition tail_ok :: "(string \<Rightarrow> u32) \<Rightarrow> nat \<Rightarrow> tx_entry list \<Rightarrow> tx_entry list \<Rightarrow> tx_writer \<Rightarrow> bool" where
  "tail_ok crc seg suf es w \<longleftrightarrow>
     (\<exists>pre. writer_ok crc (pre @ es) w) \<and> seg \<le> tw_current_id w \<and>
     (\<exists>ess. holds crc ess (filter (\<lambda>f. seg \<le> fst f) (all_files w)) \<and> concat ess = suf @ es)"

lemma writer_last:
  assumes "writer_ok crc es w" "all_files w = fs @ [(i, c)]"
  shows "i = tw_current_id w"
  using assms by (auto simp: writer_ok_def all_files_def)

lemma tail_start:
  assumes "writer_ok crc es w"
  obtains pre suf where "es = pre @ suf" "tail_ok crc (tw_current_id w) suf [] w"
proof -
  obtain fs c where live: "tw_live w = fs @ [(tw_current_id w, c)]" using assms by (auto simp: writer_ok_def)
  then obtain xs where all: "all_files w = xs @ [(tw_current_id w, c)]" by (auto simp: all_files_def)
  obtain ess where ess: "holds crc ess (all_files w)" "concat ess = es" using assms by (auto simp: writer_ok_def)
  obtain ess' l where l: "ess = ess' @ [l]" "holds crc ess' xs" "c = log_bytes crc l"
    using ess(1) holds_snocE unfolding all by metis
  have "sorted_wrt (<) (map fst (all_files w))" using assms by (simp add: writer_ok_def)
  then have "\<forall>f \<in> set xs. fst f < tw_current_id w" unfolding all by (auto simp: sorted_wrt_append)
  then have "filter (\<lambda>f. tw_current_id w \<le> fst f) (all_files w) = [(tw_current_id w, c)]"
    unfolding all by (auto simp: filter_empty_conv not_le)
  then have "tail_ok crc (tw_current_id w) l [] w"
    using assms l(3) by (auto simp: tail_ok_def holds_def intro!: exI [of _ "[l]"] exI [of _ es])
  then show thesis using that [of "concat ess'" l] ess(2) l(1) by simp
qed

lemma accepts_tail: "accepts crc (tail_ok crc seg suf)"
  unfolding accepts_def
proof (intro allI impI, elim conjE)
  fix es w e assume t: "tail_ok crc seg suf es w" and e: "entry_ok e"
  obtain pre where w: "writer_ok crc (pre @ es) w" using t by (auto simp: tail_ok_def)
  have seg: "seg \<le> tw_current_id w" using t by (simp add: tail_ok_def)
  obtain ess where ess: "holds crc ess (filter (\<lambda>f. seg \<le> fst f) (all_files w))" "concat ess = suf @ es"
    using t by (auto simp: tail_ok_def)
  obtain v where v: "append_with_origin_format crc None w e = (None, v)" "writer_ok crc ((pre @ es) @ [e]) v"
    "\<exists>fs c. all_files v = fs @ [(tw_current_id v, c @ entry_frame crc e)] \<and>
       (all_files w = fs @ [(tw_current_id v, c)] \<or> c = [] \<and> all_files w = fs \<and> tw_current_id v = Suc (tw_current_id w))"
    by (rule append_ok [OF w e])
  from v(3) obtain fs c where f: "all_files v = fs @ [(tw_current_id v, c @ entry_frame crc e)]"
    "all_files w = fs @ [(tw_current_id v, c)] \<or> c = [] \<and> all_files w = fs \<and> tw_current_id v = Suc (tw_current_id w)" by blast
  from f(2) have "\<exists>ess'. holds crc ess' (filter (\<lambda>f. seg \<le> fst f) (all_files v)) \<and> concat ess' = suf @ es @ [e] \<and> seg \<le> tw_current_id v"
  proof
    assume a: "all_files w = fs @ [(tw_current_id v, c)]"
    have id: "seg \<le> tw_current_id v" using writer_last [OF w a] seg by simp
    have "holds crc ess (filter (\<lambda>f. seg \<le> fst f) fs @ [(tw_current_id v, c)])" using ess(1) id unfolding a by simp
    then obtain ess' l where l: "ess = ess' @ [l]" "holds crc ess' (filter (\<lambda>f. seg \<le> fst f) fs)" "c = log_bytes crc l"
      using holds_snocE by metis
    show ?thesis
      by (rule exI [of _ "ess' @ [l @ [e]]"]) (use l ess(2) id in \<open>simp add: f(1) holds_snoc log_bytes_snoc\<close>)
  next
    assume a: "c = [] \<and> all_files w = fs \<and> tw_current_id v = Suc (tw_current_id w)"
    have "log_bytes crc [e] = entry_frame crc e" by (simp add: log_bytes_def)
    then show ?thesis
      by (intro exI [of _ "ess @ [[e]]"]) (use a ess seg in \<open>simp add: f(1) holds_snoc\<close>)
  qed
  then have "tail_ok crc seg suf (es @ [e]) v" using v(2) unfolding tail_ok_def by auto
  then show "\<exists>v. append_with_origin_format crc None w e = (None, v) \<and> tail_ok crc seg suf (es @ [e]) v" using v(1) by blast
qed

lemma skip_to_segment_filter:
  "sorted_wrt (<) (map fst fs) \<Longrightarrow> skip_to_segment n fs = filter (\<lambda>f. n \<le> fst f) fs"
proof (induction fs)
  case (Cons f fs)
  obtain i c where f: "f = (i, c)" by force
  show ?case
  proof (cases "i < n")
    case True
    then show ?thesis using Cons f by (simp add: skip_to_segment_def)
  next
    case False
    then have "\<forall>x \<in> set fs. n \<le> fst x" using Cons.prems f by fastforce
    then show ?thesis using False f by (simp add: skip_to_segment_def)
  qed
qed (simp add: skip_to_segment_def)

lemma pruned_tail:
  assumes w: "writer_ok crc es w" and p: "p = snd (tx_prune_segments_below seg w)" and id: "seg \<le> tw_current_id w"
  shows "skip_to_segment seg (reader_segments (tw_live p) (tw_archive p)) = filter (\<lambda>f. seg \<le> fst f) (all_files w)"
    "tw_live p = filter (\<lambda>f. seg \<le> fst f) (tw_live w)" "tw_archive p = tw_archive w" "tw_live p \<noteq> []"
proof -
  show live: "tw_live p = filter (\<lambda>f. seg \<le> fst f) (tw_live w)" and ar: "tw_archive p = tw_archive w"
    using id by (simp_all add: p tx_prune_segments_below_def min_def Let_def case_prod_beta' not_less)
  show "tw_live p \<noteq> []" using w id unfolding live by (auto simp: writer_ok_def filter_empty_conv)
  have s: "sorted_wrt (<) (map fst (all_files w))" using w by (simp add: writer_ok_def)
  have "sorted_wrt (<) (map fst (archive_files (tw_archive w) @ filter (\<lambda>f. seg \<le> fst f) (tw_live w)))"
  proof -
    have "sorted_wrt (<) (map fst (xs @ filter P ys))" if "sorted_wrt (<) (map fst (xs @ ys))" for xs ys :: segment_files and P
      using that by (fastforce simp: sorted_wrt_append sorted_wrt_map sorted_wrt_filter)
    then show ?thesis using s unfolding all_files_def by blast
  qed
  then have "reader_segments (tw_live p) (tw_archive p) = archive_files (tw_archive w) @ filter (\<lambda>f. seg \<le> fst f) (tw_live w)"
    and "sorted_wrt (<) (map fst (reader_segments (tw_live p) (tw_archive p)))"
    unfolding live ar by (simp_all add: reader_segments_all)
  then show "skip_to_segment seg (reader_segments (tw_live p) (tw_archive p)) = filter (\<lambda>f. seg \<le> fst f) (all_files w)"
    using skip_to_segment_filter by (simp add: all_files_def)
qed

lemma run_steps_append: "run_steps step (xs @ ys) s = Option.bind (run_steps step xs s) (run_steps step ys)"
  by (induction xs arbitrary: s) (simp_all, metis Option.bind_assoc)

lemma pruned_reads:
  assumes t: "tail_ok crc seg suf es w" and ok: "\<forall>e \<in> set (suf @ es). entry_ok e \<and> tx_sequence e \<le> N"
    and p: "p = snd (tx_prune_segments_below seg w)"
  obtains w' where "read_segments crc (skip_to_segment seg (reader_segments (tw_live p) (tw_archive p))) = Inr (suf @ es)"
    "tx_open crc n (tw_live p) (tw_archive p) = Inr w'" "tw_max_sequence w' \<le> N"
proof -
  obtain pre where w: "writer_ok crc (pre @ es) w" using t by (auto simp: tail_ok_def)
  have id: "seg \<le> tw_current_id w" using t by (simp add: tail_ok_def)
  obtain ess where ess: "holds crc ess (filter (\<lambda>f. seg \<le> fst f) (all_files w))" "concat ess = suf @ es"
    using t by (auto simp: tail_ok_def)
  note pt = pruned_tail [OF w p id]
  have ok1: "\<forall>e \<in> set (concat ess). entry_ok e" unfolding ess(2) using ok by blast
  have r: "read_segments crc (skip_to_segment seg (reader_segments (tw_live p) (tw_archive p))) = Inr (suf @ es)"
    unfolding pt(1) using read_segments_holds [OF ess(1) ok1] ess(2) by simp
  have "\<exists>l. snd f = log_bytes crc l \<and> (\<forall>e \<in> set l. entry_ok e \<and> tx_sequence e \<le> N)" if "f \<in> set (rev (tw_live p))" for f
  proof -
    have "snd f \<in> set (map snd (filter (\<lambda>f. seg \<le> fst f) (all_files w)))" using that unfolding pt(2) by (auto simp: all_files_def)
    then obtain l where l: "l \<in> set ess" "snd f = log_bytes crc l" unfolding ess(1) [unfolded holds_def] by auto
    then have "set l \<subseteq> set (suf @ es)" unfolding ess(2) [symmetric] by auto
    then show ?thesis using l(2) ok by blast
  qed
  then obtain m where "m \<le> N" "newest_sequence crc (rev (tw_live p)) = Inr m"
    using newest_bound [of "rev (tw_live p)" crc N] by blast
  then show thesis using that r pt(4) by (simp add: tx_open_def)
qed

lemma skip_replayed:
  "\<forall>e \<in> set es. tx_origin e = origin_id u \<and> 0 < tx_sequence e \<and> tx_sequence e \<le> last_applied_sequence u \<Longrightarrow>
   run_steps (replay_entry ext io now) es u = Some u"
proof (induction es)
  case (Cons e es)
  have "replay_is_duplicate u (tx_origin e) (tx_sequence e)" using Cons.prems by (simp add: replay_is_duplicate_def own_origin_def)
  then have "replay_entry ext io now e u = Some u"
    by (auto simp: replay_entry_def replay_delete_origin_def replay_upsert_map_origin_def replay_delta_map_origin_def
        split: option.splits json.splits)
  then show ?case using Cons by simp
qed simp

lemma ops_ok_append:
  "run_steps (topic_step ext io) ops1 t = Some t1 \<Longrightarrow> ops_ok ext io crc t (ops1 @ ops2) \<longleftrightarrow> ops_ok ext io crc t ops1 \<and> ops_ok ext io crc t1 ops2"
  by (induction ops1 arbitrary: t) (auto simp: bind_eq_Some_conv)

lemma ops_fine_append:
  "run_steps (topic_step ext io) ops1 t = Some t1 \<Longrightarrow> ops_fine fine ext io t (ops1 @ ops2) \<longleftrightarrow> ops_fine fine ext io t ops1 \<and> ops_fine fine ext io t1 ops2"
  by (induction ops1 arbitrary: t) (auto simp: bind_eq_Some_conv)

text \<open>
  A new topic with a known schema and key columns, and where it stands after a run of operations
  that carry their keys.
\<close>

definition keyed_topic :: "externals \<Rightarrow> topic_config \<Rightarrow> schema \<Rightarrow> nat \<Rightarrow> string \<Rightarrow> topic \<Rightarrow> bool" where
  "keyed_topic ext cfg sch cap inst t0 \<longleftrightarrow>
     0 < cap \<and> schema_wf sch \<and> plain_schema sch \<and> \<not> is_placeholder_schema sch \<and>
     List.map_filter (index_of sch) (cfg_key_fields cfg) \<noteq> [] \<and> distinct (List.map_filter (index_of sch) (cfg_index_columns cfg)) \<and>
     t0 = (topic_new cfg sch cap)\<lparr>origin_id := inst, sparse_delta_txlog := True\<rparr>"

abbreviation key_columns :: "topic_config \<Rightarrow> schema \<Rightarrow> nat list" where
  "key_columns cfg sch \<equiv> List.map_filter (index_of sch) (cfg_key_fields cfg)"

lemma keyed_topic_state:
  assumes "keyed_topic ext cfg sch cap inst t0"
  shows "same_rows ext sch (key_columns cfg sch) (tp_state t0) (tp_state t0)" "rows_ok (tp_state t0)" "topic_table (tp_state t0) = Map.empty"
proof -
  note k = assms [unfolded keyed_topic_def]
  have st: "tp_state t0 = state_build sch (cfg_key_fields cfg) (cfg_index_columns cfg) cap" using k by (simp add: topic_new_def)
  note b = state_build_ok [of cap sch "cfg_key_fields cfg" "cfg_index_columns cfg"]
  show "same_rows ext sch (key_columns cfg sch) (tp_state t0) (tp_state t0)"
    unfolding st same_rows_def using k b(1) by (simp add: state_build_def)
  show "rows_ok (tp_state t0)" unfolding st using k rows_ok_build by blast
  show "topic_table (tp_state t0) = Map.empty" unfolding st using k b(2) by blast
qed

lemma keyed_run:
  assumes t0: "keyed_topic ext cfg sch cap inst t0"
    and ops: "ops_ok ext io crc (attach_txlog (new_log seg arch) t0) ops"
      "ops_fine (carries_key ext) ext io (attach_txlog (new_log seg arch) t0) ops"
  obtains t es where "run_steps (topic_step ext io) ops (attach_txlog (new_log seg arch) t0) = Some t" "live_ok (writer_ok crc) es t"
    "same_rows ext sch (key_columns cfg sch) (tp_state t) (tp_state t)" "tp_config t = cfg" "origin_id t = inst"
proof -
  let ?t0 = "attach_txlog (new_log seg arch) t0"
  have f: "active_subscriptions t0 = 0" "last_applied_sequence t0 = 0" "next_sequence t0 = 0" "tp_config t0 = cfg" "origin_id t0 = inst"
    using t0 by (simp_all add: keyed_topic_def topic_new_def)
  have live: "live_ok (writer_ok crc) [] ?t0"
    using keyed_topic_state(2) [OF t0] new_log_ok f by (simp add: live_ok_def attach_txlog_def)
  have tw: "twin (same_rows ext sch (key_columns cfg sch)) 0 ?t0 t0"
    using keyed_topic_state(1) [OF t0] f by (simp add: twin_def attach_txlog_def new_log_def)
  obtain t fs u where t: "run_steps (topic_step ext io) ops ?t0 = Some t" "live_ok (writer_ok crc) ([] @ fs) t"
    "twin (same_rows ext sch (key_columns cfg sch)) 0 t u"
    using tables.run_replays [OF accepts_writer_ok live tw ops, of 0] by blast
  have "same_rows ext sch (key_columns cfg sch) (tp_state t) (tp_state u)" using t(3) by (simp add: twin_def)
  then have "same_rows ext sch (key_columns cfg sch) (tp_state t) (tp_state t)" by (simp add: same_rows_def)
  then show thesis using that t(1,2) run_frame [OF t(1)] f by (simp add: attach_txlog_def)
qed

section \<open>Properties\<close>

text \<open>
  C3: Checkpoints lose nothing. A snapshot is taken after any operations on a persistent keyed
  topic; more operations follow; the segments below that of the snapshot are deleted; the
  server restarts. Loading the snapshot and replaying what is left of the journal gives the
  table and the next sequence number the topic had, provided the rows of the snapshot print
  and parse and their key cells are not null.
\<close>

theorem checkpoint_loses_nothing:
  assumes laws: "json_laws ext" and t0: "keyed_topic ext cfg sch cap inst t0" and walk: "\<forall>es. mset (walk es) = mset es"
    and ops: "ops_ok ext io crc (attach_txlog (new_log seg arch) t0) (ops1 @ ops2)"
      "ops_fine (carries_key ext) ext io (attach_txlog (new_log seg arch) t0) (ops1 @ ops2)"
    and t1: "run_steps (topic_step ext io) ops1 (attach_txlog (new_log seg arch) t0) = Some t1"
    and snap: "build_snapshot ext io walk marks t1 = Some (Some s)" "snapshot_ok s"
      "\<forall>k r. map_of (key_to_row (tp_state t1)) k = Some r \<longrightarrow> row_restorable ext io (tp_state t1) r"
    and t2: "run_steps (topic_step ext io) ops2 t1 = Some t2" "txlog t2 = Some w"
    and p: "p = snd (tx_prune_segments_below (snap_segment_id s) w)"
  shows "\<exists>w' u. tx_open crc seg (tw_live p) (tw_archive p) = Inr w' \<and>
     start_topic ext io now crc (Some (snapshot_bytes crc s)) (tw_live p) (tw_archive p) (attach_txlog w' t0) = Some (Inr u) \<and>
     topic_table (tp_state u) = topic_table (tp_state t2) \<and> next_sequence u = next_sequence t2"
proof -
  have o: "ops_ok ext io crc (attach_txlog (new_log seg arch) t0) ops1" "ops_ok ext io crc t1 ops2"
    "ops_fine (carries_key ext) ext io (attach_txlog (new_log seg arch) t0) ops1" "ops_fine (carries_key ext) ext io t1 ops2"
    using ops ops_ok_append [OF t1] ops_fine_append [OF t1] by auto
  obtain es1 where l1: "live_ok (writer_ok crc) es1 t1" "same_rows ext sch (key_columns cfg sch) (tp_state t1) (tp_state t1)"
    "tp_config t1 = cfg" "origin_id t1 = inst"
    using keyed_run [OF t0 o(1,3)] t1 by (metis option.inject)
  obtain w1 where w1: "txlog t1 = Some w1" "writer_ok crc es1 w1" using l1(1) by (auto simp: live_ok_def)
  obtain pre suf where cut: "es1 = pre @ suf" "tail_ok crc (tw_current_id w1) suf [] w1" by (rule tail_start [OF w1(2)])
  have sf: "state_ok ext (tp_state t1)" "st_schema (tp_state t1) = sch" "key_col_indices (tp_state t1) = key_columns cfg sch"
    using l1(2) by (simp_all add: same_rows_def)
  have sch: "plain_schema (st_schema (tp_state t1))" using sf(2) t0 by (simp add: keyed_topic_def)
  have fits: "fits_schema ext (tp_state t1) (t0\<lparr>next_sequence := n, txlog := l\<rparr>)" for n l
    using keyed_topic_state(1) [OF t0] sf by (simp add: fits_schema_def same_rows_def)
  have seg: "snap_segment_id s = tw_current_id w1" using snap(1) w1(1) by (auto simp: build_snapshot_def)
  let ?tl = "tail_ok crc (tw_current_id w1) suf" and ?rel = "same_rows ext sch (key_columns cfg sch)"
  have live: "live_ok ?tl [] t1" using l1(1) w1 cut(2) by (auto simp: live_ok_def)
  have restart: "\<exists>u1 fs u. apply_snapshot ext io now s (t0\<lparr>next_sequence := n, txlog := l\<rparr>) = Some u1 \<and> twin ?rel n t1 u1 \<and>
      live_ok ?tl fs t2 \<and> run_steps (replay_entry ext io now) fs u1 = Some u \<and> twin ?rel n t2 u" for n l
  proof -
    obtain u1 where u1: "apply_snapshot ext io now s (t0\<lparr>next_sequence := n, txlog := l\<rparr>) = Some u1" "twin ?rel n t1 u1"
      using snapshot_twin [OF laws sf(1) sch w1(1) walk snap(3) fits [where n = n and l = l] _ _ _ _ _ _ snap(1), of n now]
        keyed_topic_state(3) [OF t0] t0 l1(3,4) sf by (auto simp: keyed_topic_def topic_new_def)
    show ?thesis using tables.run_replays [OF accepts_tail live u1(2) o(2,4), of now] u1 t2(1) by fastforce
  qed
  obtain fs0 where fs0: "live_ok ?tl fs0 t2" using restart [where n = 0 and l = None] by blast
  have tl: "twin ?rel 0 t1 (t1\<lparr>active_subscriptions := 0, last_applied_sequence := next_sequence t1\<rparr>)"
    using l1(2) by (simp add: twin_def)
  obtain fs' where all: "live_ok (writer_ok crc) (es1 @ fs') t2"
    using tables.run_replays [OF accepts_writer_ok l1(1) tl o(2,4), of 0] t2(1) by auto
  have suf: "\<forall>e \<in> set suf. entry_ok e \<and> tx_origin e = inst \<and> 0 < tx_sequence e \<and> tx_sequence e \<le> next_sequence t1 \<and> tx_sequence e \<le> next_sequence t2"
    using l1(1,4) all cut(1) by (auto simp: live_ok_def)
  have tail: "\<forall>e \<in> set (suf @ fs0). entry_ok e \<and> tx_sequence e \<le> next_sequence t2" "?tl fs0 w"
    using suf fs0 t2(2) by (auto simp: live_ok_def)
  obtain w' where w': "tx_open crc seg (tw_live p) (tw_archive p) = Inr w'" "tw_max_sequence w' \<le> next_sequence t2"
    "read_segments crc (skip_to_segment (tw_current_id w1) (reader_segments (tw_live p) (tw_archive p))) = Inr (suf @ fs0)"
    by (rule pruned_reads [OF tail(2,1) p [unfolded seg], of seg]) (rule that)
  obtain u1 fs u where u: "apply_snapshot ext io now s (attach_txlog w' t0) = Some u1" "twin ?rel (tw_max_sequence w') t1 u1"
    "live_ok ?tl fs t2" "run_steps (replay_entry ext io now) fs u1 = Some u" "twin ?rel (tw_max_sequence w') t2 u"
    using restart [where n = "tw_max_sequence w'" and l = "Some w'"] unfolding attach_txlog_def by blast
  have "?tl fs w" "\<forall>e \<in> set (suf @ fs). entry_ok e \<and> tx_sequence e \<le> next_sequence t2" using suf u(3) t2(2) by (auto simp: live_ok_def)
  then have "fs = fs0" using pruned_reads [OF _ _ p [unfolded seg]] w'(3) by (metis sum.inject(2) same_append_eq)
  have "run_steps (replay_entry ext io now) suf u1 = Some u1"
    by (rule skip_replayed) (use suf u(2) l1(4) in \<open>auto simp: twin_def\<close>)
  then have run: "run_steps (replay_entry ext io now) (suf @ fs0) u1 = Some u" using u(4) \<open>fs = fs0\<close> by (simp add: run_steps_append)
  have "skip_to_segment 0 xs = xs" for xs by (cases xs) (auto simp: skip_to_segment_def)
  then have "recover_topic ext io now crc u1 (tw_live p) (tw_archive p) (tw_current_id w1) = Some (Inr u)"
    using w'(3) run by (cases "tw_current_id w1") (simp_all add: recover_topic_def)
  then have "start_topic ext io now crc (Some (snapshot_bytes crc s)) (tw_live p) (tw_archive p) (attach_txlog w' t0) = Some (Inr u)"
    using load_snapshot_bytes [OF snap(2)] u(1) seg by (simp add: start_topic_def)
  then show ?thesis using w'(1,2) u(5) by (auto simp: twin_def same_rows_def)
qed

text \<open>A topic with one published row, and JSON functions that print and parse what it needs.\<close>

definition row_doc :: json_map where
  "row_doc = [(''id'', json_of_i64 sample_externals 1)]"

definition snap_io :: json_io where
  "snap_io = \<lparr>to_vec = (\<lambda>j. Some (if j = JObject sample_doc then ''d'' else ''r'')),
     from_slice = (\<lambda>b. Some (JObject (if b = ''d'' then sample_doc else row_doc)))\<rparr>"

definition snap_topic :: topic where
  "snap_topic = sample_topic\<lparr>origin_id := ''a'', sparse_delta_txlog := True\<rparr>"

lemma snap_topic_keyed: "keyed_topic sample_externals sample_config sample_schema 1 ''a'' snap_topic"
proof -
  have "plain_schema sample_schema" by code_simp
  then show ?thesis
    using sample_schema_wf sample_schema_columns(3)
    by (simp add: keyed_topic_def snap_topic_def sample_topic_def sample_config_def sample_index map_filter_simps)
qed

lemma not_null_one: "(1 :: i64) \<noteq> NULL_LONG"
  by code_simp

lemma snap_docs: "row_doc \<noteq> sample_doc" "to_json sample_externals (VLong 1) = json_of_i64 sample_externals 1"
  using not_null_one by (simp_all add: row_doc_def sample_doc_def sample_externals_def)

lemma small_entry:
  assumes "next_sequence t \<le> 9" "cfg_name (tp_config t) = ''/t''" "origin_id t = ''a''" "k = [] \<or> k = ''1''" "length p \<le> 2"
  shows "entry_ok (new_entry calm_env t k p PJson)"
  using assms
  by (auto simp: entry_ok_def new_entry_def calm_env_def sample_env_def entry_body_def entry_v2_def
      MAX_TOPIC_LEN_def MAX_ORIGIN_LEN_def MAX_ENTRY_SIZE_def byte_in_def)

abbreviation snap_start :: topic where "snap_start \<equiv> attach_txlog (new_log 30 True) snap_topic"

lemma snap_start_fields: "next_sequence snap_start = 0" "tp_config snap_start = sample_config" "cfg_name sample_config = ''/t''" "origin_id snap_start = ''a''"
  "st_schema (tp_state snap_start) = sample_schema" "key_col_indices (tp_state snap_start) = [0]" "env_crc calm_env = sample_crc"
  "\<And>n. env_torn calm_env n = None"
  by (simp_all add: attach_txlog_def new_log_def snap_topic_def sample_topic_ok calm_env_def sample_env_def)
    (simp_all add: sample_topic_def topic_new_def sample_config_def)

lemma snap_ops:
  "ops_ok sample_externals snap_io sample_crc snap_start ([(calm_env, Publish sample_doc)] @ [(calm_env, Remove ''1'')])"
  "ops_fine (carries_key sample_externals) sample_externals snap_io snap_start ([(calm_env, Publish sample_doc)] @ [(calm_env, Remove ''1'')])"
proof -
  note f = snap_start_fields
  have key: "compute_key_from_map sample_config sample_doc = Some ''1''"
    by (simp add: compute_key_from_map_def sample_config_def sample_doc_def)
  have first: "op_ok snap_io sample_crc snap_start (calm_env, Publish sample_doc)"
    using small_entry [of snap_start "''1''" "''d''"] f
    by (simp add: op_ok_def doc_journalled_def sample_doc_flat snap_io_def key unwrap_or_default_def)
  have "op_ok snap_io sample_crc t (calm_env, Remove ''1'')"
    if "topic_step sample_externals snap_io (calm_env, Publish sample_doc) snap_start = Some t" for t
    using step_frame [OF that] f small_entry [of t "''1''" "[]"] by (simp add: op_ok_def split: option.splits)
  then show "ops_ok sample_externals snap_io sample_crc snap_start ([(calm_env, Publish sample_doc)] @ [(calm_env, Remove ''1'')])"
    using first by (simp split: option.splits)
  have "compute_key_with sample_externals [VLong 1, VNull, VNull] [0] = Some ''1''"
    unfolding sample_show(1) [symmetric] by (rule sample_key)
  then have "op_fine (carries_key sample_externals) sample_externals snap_start (Publish sample_doc)"
    using no_discovery [of snap_start] f(5,6) sample_schema_columns(3)
    by (simp add: op_fine_def sample_doc_flat sample_doc_values carries_key_def)
  then show "ops_fine (carries_key sample_externals) sample_externals snap_io snap_start ([(calm_env, Publish sample_doc)] @ [(calm_env, Remove ''1'')])"
    by (simp add: op_fine_def split: option.splits)
qed

lemma snap_published:
  obtains t1 w1 r where "run_steps (topic_step sample_externals snap_io) [(calm_env, Publish sample_doc)] snap_start = Some t1"
    "txlog t1 = Some w1" "tw_current_id w1 \<le> 2" "next_sequence t1 = 1" "state_ok sample_externals (tp_state t1)"
    "map_of (key_to_row (tp_state t1)) = [''1'' \<mapsto> r]" "row_of (st_store (tp_state t1)) r = [VLong 1, VDouble NULL_DOUBLE, VString None]"
    "st_schema (tp_state t1) = sample_schema" "key_col_indices (tp_state t1) = [0]"
proof -
  note f = snap_start_fields
  have st: "state_ok sample_externals (tp_state snap_start)" "topic_table (tp_state snap_start) = Map.empty" "rows_ok (tp_state snap_start)"
    using keyed_topic_state [OF snap_topic_keyed] by (simp_all add: same_rows_def attach_txlog_def)
  have kinds: "row_kinds (st_store (tp_state snap_start)) = [TLong, TDouble, TString]"
    using row_kinds_rows_ok [OF st(3)] f(5) sample_schema_columns(2) by simp
  have vs: "row_typed (row_kinds (st_store (tp_state snap_start))) [VLong 1, VNull, VNull]"
    unfolding kinds by (simp add: row_typed_def All_less_Suc2 numeral_3_eq_3)
  have key: "compute_key_with sample_externals [VLong 1, VNull, VNull] (key_col_indices (tp_state snap_start)) = Some ''1''"
    unfolding f(6) sample_show(1) [symmetric] by (rule sample_key)
  have live: "live_ok (writer_ok sample_crc) [] snap_start"
    using st(3) new_log_ok by (simp add: live_ok_def attach_txlog_def snap_topic_def sample_topic_def topic_new_def)
  have w: "txlog snap_start = Some (new_log 30 True)" "writer_ok sample_crc [] (new_log 30 True)"
    by (simp_all add: attach_txlog_def new_log_ok)
  let ?e = "new_entry calm_env snap_start ''1'' ''d'' PJson"
  have e: "entry_ok ?e" by (rule small_entry) (use f in simp_all)
  obtain t1 row where t1: "write_store_with_changed sample_externals calm_env snap_start [VLong 1, VNull, VNull] (Some (''1'', ''d'', PJson)) True None =
      Some (Inr (row, next_sequence snap_start + 1), t1)" "live_ok (writer_ok sample_crc) ([] @ [?e]) t1"
    "commit_values_locked sample_externals (env_now calm_env) (tp_state snap_start) [VLong 1, VNull, VNull] = Some (tp_state t1, row)"
    "next_sequence t1 = next_sequence snap_start + 1"
    by (rule write_store_journals [OF _ _ f(8) refl e, of "writer_ok sample_crc" "[]" sample_externals "[VLong 1, VNull, VNull]" None])
      (use accepts_writer_ok live f(7) in simp_all)
  obtain v where v: "append_with_origin_format sample_crc None (new_log 30 True) ?e = (None, v)"
    "\<exists>fs c. all_files v = fs @ [(tw_current_id v, c @ entry_frame sample_crc ?e)] \<and>
       (all_files (new_log 30 True) = fs @ [(tw_current_id v, c)] \<or>
        c = [] \<and> all_files (new_log 30 True) = fs \<and> tw_current_id v = Suc (tw_current_id (new_log 30 True)))"
    by (rule append_ok [OF w(2) e])
  have id: "tw_current_id v \<le> 2" using v(2) by (auto simp: all_files_def new_log_def)
  have "topic_append calm_env (snap_start\<lparr>next_sequence := next_sequence snap_start + 1\<rparr>) (next_sequence snap_start + 1) ''1'' ''d'' PJson =
      (None, snap_start\<lparr>next_sequence := next_sequence snap_start + 1, txlog := Some v\<rparr>)"
    using v(1) w(1) f(2,4,7,8) by (simp add: topic_append_def new_entry_def)
  then have log: "txlog t1 = Some v"
    using t1(1,3) by (simp add: write_store_unfold journal_result_def emit_event_def) (drule arg_cong [where f = txlog], simp)
  obtain st r where c: "commit_values_locked sample_externals (env_now calm_env) (tp_state snap_start) [VLong 1, VNull, VNull] = Some (st, r)"
    "state_ok sample_externals st" "same_frame (tp_state snap_start) st"
    "topic_table st = (topic_table (tp_state snap_start))(''1'' \<mapsto>
       merge_row (case topic_table (tp_state snap_start) ''1'' of Some old \<Rightarrow> old | None \<Rightarrow> null_row (row_kinds (st_store (tp_state snap_start)))) [VLong 1, VNull, VNull])"
    "map_of (key_to_row st) ''1'' = Some r"
    by (rule commit_ok [OF st(1) vs key, of "env_now calm_env"])
  have st1: "tp_state t1 = st" using c(1) t1(3) by simp
  have table: "topic_table st = [''1'' \<mapsto> [VLong 1, VDouble NULL_DOUBLE, VString None]]"
    unfolding c(4) st(2) kinds by (simp add: merge_row_def)
  have "map_of (key_to_row st) = [''1'' \<mapsto> r]"
  proof (rule HOL.ext)
    fix k show "map_of (key_to_row st) k = [''1'' \<mapsto> r] k"
      using c(5) map_of_table [of st k] table by (cases "k = ''1''") simp_all
  qed
  moreover have "row_of (st_store st) r = [VLong 1, VDouble NULL_DOUBLE, VString None]"
    using fun_cong [OF table, of "''1''"] c(5) by (simp add: topic_table_def)
  moreover have "run_steps (topic_step sample_externals snap_io) [(calm_env, Publish sample_doc)] snap_start = Some t1"
  proof -
    have "compute_key_from_map sample_config sample_doc = Some ''1''"
      by (simp add: compute_key_from_map_def sample_config_def sample_doc_def)
    then show ?thesis
      using t1(1) no_discovery [of snap_start sample_doc] f(2,5) sample_schema_columns(3) w(1)
      by (simp add: upsert_map_flat publish_flat_def sample_doc_flat sample_doc_values snap_io_def unwrap_or_default_def)
  qed
  ultimately show thesis
    using that [of t1 v r] log id t1(4) f(1,5,6) c(2,3) st1 by (simp add: same_frame_def)
qed

lemma snap_row:
  assumes ok: "state_ok sample_externals st" and key: "map_of (key_to_row st) ''1'' = Some r"
    and row: "row_of (st_store st) r = [VLong 1, VDouble NULL_DOUBLE, VString None]" and sch: "st_schema st = sample_schema"
    and kcs: "key_col_indices st = [0]"
  shows "get_row_map sample_externals (st_store st) r = Some row_doc" "row_restorable sample_externals snap_io st r"
proof -
  note d = state_okD [OF ok]
  have r: "r < capacity (st_store st)" using key_row_bound [OF ok key] store_ok_shape(3) [OF d(1)] by simp
  have kinds: "row_kinds (st_store st) = [TLong, TDouble, TString]"
    using row_kinds_rows_ok [OF state_ok_rows_ok [OF ok]] sch sample_schema_columns(2) by simp
  have idx: "map col_index (columns sample_schema) = [0, 1, 2]" "col_name (columns sample_schema ! 0) = ''id''"
    by code_simp+
  have live: "live_columns (st_store st) r [0, 1, 2] = [0]" using row not_null_one by (simp add: live_columns_def)
  have "insert_fields sample_externals (column_name_at sample_schema) (st_store st) r [0, 1, 2] [] = Some row_doc"
    using insert_fields_map [OF d(1) r, of "[0, 1, 2]" sample_externals "[]"] d(2) sch sample_index(3) live idx(2) row snap_docs(2)
    by (simp add: row_doc_def)
  then show m: "get_row_map sample_externals (st_store st) r = Some row_doc"
    unfolding get_row_map_def using d(2) sch idx(1) by simp
  show "row_restorable sample_externals snap_io st r"
    unfolding row_restorable_def m kinds row kcs
    using not_null_one snap_docs(1) by (simp add: All_less_Suc2 numeral_3_eq_3 snap_io_def)
qed

theorem checkpoint_loses_nothing_witness:
  "\<exists>t1 s t2 w w' u. run_steps (topic_step sample_externals snap_io) [(calm_env, Publish sample_doc)] snap_start = Some t1 \<and>
     build_snapshot sample_externals snap_io (\<lambda>es. es) (\<lambda>_. []) t1 = Some (Some s) \<and> snap_rows s = [''r''] \<and>
     run_steps (topic_step sample_externals snap_io) [(calm_env, Remove ''1'')] t1 = Some t2 \<and> txlog t2 = Some w \<and>
     start_topic sample_externals snap_io 7 sample_crc (Some (snapshot_bytes sample_crc s))
       (tw_live (snd (tx_prune_segments_below (snap_segment_id s) w))) (tw_archive (snd (tx_prune_segments_below (snap_segment_id s) w)))
       (attach_txlog w' snap_topic) = Some (Inr u) \<and>
     topic_table (tp_state u) = topic_table (tp_state t2)"
proof -
  obtain t1 w1 r where t1: "run_steps (topic_step sample_externals snap_io) [(calm_env, Publish sample_doc)] snap_start = Some t1"
    "txlog t1 = Some w1" "tw_current_id w1 \<le> 2" "next_sequence t1 = 1" "state_ok sample_externals (tp_state t1)"
    "map_of (key_to_row (tp_state t1)) = [''1'' \<mapsto> r]" "row_of (st_store (tp_state t1)) r = [VLong 1, VDouble NULL_DOUBLE, VString None]"
    "st_schema (tp_state t1) = sample_schema" "key_col_indices (tp_state t1) = [0]"
    by (rule snap_published)
  have key: "map_of (key_to_row (tp_state t1)) ''1'' = Some r" using t1(6) by simp
  note row = snap_row [OF t1(5) key t1(7-9)]
  have keys: "key_to_row (tp_state t1) = [(''1'', r)]"
  proof -
    have "map_of (key_to_row (tp_state t1)) = map_of [(''1'', r)]" using t1(6) by simp
    then have "set (key_to_row (tp_state t1)) = set [(''1'', r)]" using map_of_inject_set [OF state_okD(5) [OF t1(5)], of "[(''1'', r)]"] by simp
    moreover have "distinct (key_to_row (tp_state t1))" using state_okD(5) [OF t1(5)] by (simp add: distinct_map)
    ultimately have "length (key_to_row (tp_state t1)) = 1" using distinct_card by fastforce
    then obtain x where "key_to_row (tp_state t1) = [x]" by (auto simp: length_Suc_conv)
    then show ?thesis using \<open>set (key_to_row (tp_state t1)) = set [(''1'', r)]\<close> by simp
  qed
  define s where "s = \<lparr>snap_sequence = 1, snap_segment_id = tw_current_id w1, snap_origin_highwater = [], snap_rows = [''r'']\<rparr>"
  have s: "build_snapshot sample_externals snap_io (\<lambda>es. es) (\<lambda>_. []) t1 = Some (Some s)"
    using t1(2,4) keys row(1) snap_docs(1) by (simp add: build_snapshot_def s_def snap_io_def)
  have ok: "snapshot_ok s" using t1(3) by (simp add: snapshot_ok_def s_def encode_snapshot_body_def SNAPSHOT_MAX_BODY_def)
  have res: "\<forall>k r. map_of (key_to_row (tp_state t1)) k = Some r \<longrightarrow> row_restorable sample_externals snap_io (tp_state t1) r"
    using t1(6) row(2) by simp
  obtain t where t: "run_steps (topic_step sample_externals snap_io) ([(calm_env, Publish sample_doc)] @ [(calm_env, Remove ''1'')]) snap_start = Some t"
    "\<exists>es. live_ok (writer_ok sample_crc) es t"
    using keyed_run [OF snap_topic_keyed snap_ops] by metis
  have t2: "run_steps (topic_step sample_externals snap_io) [(calm_env, Remove ''1'')] t1 = Some t"
    using t(1) unfolding run_steps_append t1(1) Option.bind.simps(2) .
  obtain w where w: "txlog t = Some w" using t(2) by (auto simp: live_ok_def)
  show ?thesis
    using checkpoint_loses_nothing [OF sample_json_laws snap_topic_keyed _ snap_ops t1(1) s ok res t2 w refl, of 7] t1(1) s t2 w
    by (auto simp: s_def)
qed

text \<open>A topic without key columns never has a key in its map.\<close>

definition keyless :: "topic \<Rightarrow> bool" where
  "keyless t \<longleftrightarrow> cfg_key_fields (tp_config t) = [] \<and> key_col_indices (tp_state t) = [] \<and> key_to_row (tp_state t) = []"

lemma index_new_fields:
  "index_new_row_from_store ext st r = Some st' \<Longrightarrow> key_to_row st' = key_to_row st \<and> key_col_indices st' = key_col_indices st"
  by (auto simp: index_new_row_from_store_def split: if_splits)

lemma reindex_fields:
  "reindex_row ext st r vs = Some st' \<Longrightarrow> key_to_row st' = key_to_row st \<and> key_col_indices st' = key_col_indices st"
  by (auto simp: reindex_row_def split: if_splits)

lemma commit_keyless:
  assumes "commit_values_locked ext now st vs = Some (st', r)" "key_col_indices st = []"
  shows "key_to_row st' = key_to_row st" "key_col_indices st' = []"
proof -
  have none: "compute_key_with ext vs (key_col_indices st) = None" using assms(2) by (simp add: compute_key_with_def)
  consider st1 s where "reindex_row ext st 0 vs = Some st1" "st' = touch 0 now (st1\<lparr>st_store := s\<rparr>)"
    | s row st1 where "index_new_row_from_store ext (st\<lparr>st_store := s\<rparr>) row = Some st1" "st' = push_last_touched row now st1"
    using assms(1) none
    by (auto simp: commit_values_locked_def update_existing_def bind_eq_Some_conv split: if_splits)
  then show "key_to_row st' = key_to_row st" "key_col_indices st' = []"
    using assms(2) by (cases; auto dest!: reindex_fields index_new_fields simp: touch_def push_last_touched_def Let_def)+
qed

lemma keyless_publish:
  assumes "keyless t" "topic_step ext io (env, Publish m) t = Some t'"
  shows "keyless t'"
proof -
  obtain t1 where t1: "maybe_discover_schema t (flat_map m) = Some t1" "map_option snd (publish_flat ext io env t1 (flat_map m)) = Some t'"
    using assms(2) by (auto simp: upsert_map_flat bind_eq_Some_conv)
  have k1: "keyless t1"
    using t1(1) assms(1) by (auto simp: keyless_def maybe_discover_schema_def Let_def bind_eq_Some_conv state_build_def map_filter_simps split: if_splits)
  consider "t' = t1" | vs log r where "write_store_with_changed ext env t1 vs log True None = Some (r, t')"
    using t1(2) by (auto simp: publish_flat_def bind_eq_Some_conv split: if_splits option.splits)
  then show ?thesis
  proof cases
    case 2
    obtain err t3 where j: "journal_result env t1 log = (err, t3)" by force
    note f = journal_result_fields [OF j]
    show ?thesis
    proof (cases err)
      case (Some e)
      then show ?thesis using 2 j f k1 by (auto simp: write_store_unfold keyless_def)
    next
      case None
      then obtain st row where "commit_values_locked ext (env_now env) (tp_state t1) vs = Some (st, row)" "tp_state t' = st" "tp_config t' = tp_config t1"
        using 2 j f by (auto simp: write_store_unfold bind_eq_Some_conv emit_event_def Let_def)
      then show ?thesis using commit_keyless k1 by (simp add: keyless_def)
    qed
  qed (use k1 in simp)
qed

lemma keyless_run:
  "keyless t \<Longrightarrow> run_steps (topic_step ext io) (map (\<lambda>(env, m). (env, Publish m)) pubs) t = Some t' \<Longrightarrow> keyless t'"
proof (induction pubs arbitrary: t)
  case (Cons p pubs)
  obtain env m where p: "p = (env, m)" by force
  obtain t1 where "topic_step ext io (env, Publish m) t = Some t1" "run_steps (topic_step ext io) (map (\<lambda>(env, m). (env, Publish m)) pubs) t1 = Some t'"
    using Cons.prems(2) p by (auto simp: bind_eq_Some_conv)
  then show ?case using Cons.IH [of t1] keyless_publish [OF Cons.prems(1)] by blast
qed simp

text \<open>
  C25: The snapshot of a topic without key fields holds no row, because only the rows of the key
  map are written, but it carries the sequence number of the topic. After any publishes on such
  a topic a restart with the snapshot skips every entry of the journal as already applied and
  comes up with an empty store, where a restart without it would have rebuilt the row.
\<close>

theorem keyless_snapshot_drops_row:
  assumes cap: "0 < cap" "schema_wf sch" "cfg_key_fields cfg = []"
    and t0: "t0 = (topic_new cfg sch cap)\<lparr>origin_id := inst, sparse_delta_txlog := True\<rparr>"
    and ops: "ops_ok ext io crc (attach_txlog (new_log seg arch) t0) (map (\<lambda>(env, m). (env, Publish m)) pubs)"
    and t: "run_steps (topic_step ext io) (map (\<lambda>(env, m). (env, Publish m)) pubs) (attach_txlog (new_log seg arch) t0) = Some t"
    and w: "txlog t = Some w" and walk: "\<forall>es. mset (walk es) = mset es"
    and s: "build_snapshot ext io walk marks t = Some (Some s)" "snapshot_ok s"
  shows "snap_rows s = [] \<and>
     (\<exists>u. start_topic ext io now crc (Some (snapshot_bytes crc s)) (tw_live w) (tw_archive w) (attach_txlog w' t0) = Some (Inr u) \<and>
        row_count (st_store (tp_state u)) = 0)"
proof -
  have live0: "live_ok (writer_ok crc) [] (attach_txlog (new_log seg arch) t0)"
    using rows_ok_build [OF cap(1,2)] new_log_ok by (simp add: live_ok_def t0 topic_new_def attach_txlog_def)
  have tw: "twin (\<lambda>a b. forget a = forget b) 0 (attach_txlog (new_log seg arch) t0) t0"
    by (simp add: twin_def t0 topic_new_def attach_txlog_def new_log_def)
  obtain es where live: "live_ok (writer_ok crc) es t"
    using stamps.run_replays [OF accepts_writer_ok live0 tw ops ops_fine_stamps, of 0] t by auto
  have "keyless (attach_txlog (new_log seg arch) t0)"
    using cap(3) by (simp add: keyless_def t0 topic_new_def attach_txlog_def state_build_def map_filter_simps)
  then have "keyless t" using keyless_run t by blast
  then have "walk (key_to_row (tp_state t)) = []" using walk by (metis keyless_def mset.simps(1) mset_zero_iff)
  then have snap: "snap_rows s = []" "snap_sequence s = next_sequence t" "snap_segment_id s = tw_current_id w"
    using s(1) w by (auto simp: build_snapshot_def)
  define u where "u = bump_sequence_to (next_sequence t) ((attach_txlog w' t0)\<lparr>replicated_highwater :=
      fold raise_mark (snap_origin_highwater s) (replicated_highwater (attach_txlog w' t0))\<rparr>)"
  have u: "apply_snapshot ext io now s (attach_txlog w' t0) = Some u" using snap(1,2) by (simp add: apply_snapshot_def u_def)
  have uf: "last_applied_sequence u = next_sequence t" "origin_id u = inst" "row_count (st_store (tp_state u)) = 0"
    by (simp_all add: u_def bump_sequence_to_def attach_txlog_def t0 topic_new_def state_build_def column_store_new_def Let_def)
  have wok: "writer_ok crc es w" using live w by (auto simp: live_ok_def)
  obtain pre suf where cut: "es = pre @ suf" "tail_ok crc (tw_current_id w) suf [] w" by (rule tail_start [OF wok])
  have inst: "origin_id t = inst" using run_frame [OF t] by (simp add: t0 attach_txlog_def)
  have suf: "\<forall>e \<in> set suf. entry_ok e \<and> tx_origin e = inst \<and> 0 < tx_sequence e \<and> tx_sequence e \<le> next_sequence t"
    using live cut(1) inst by (auto simp: live_ok_def)
  obtain ess where ess: "holds crc ess (filter (\<lambda>f. tw_current_id w \<le> fst f) (all_files w))" "concat ess = suf"
    using cut(2) by (auto simp: tail_ok_def)
  have srt: "sorted_wrt (<) (map fst (all_files w))" using wok by (simp add: writer_ok_def)
  have rs: "reader_segments (tw_live w) (tw_archive w) = all_files w" using reader_segments_all srt unfolding all_files_def by blast
  have "read_segments crc (skip_to_segment (tw_current_id w) (reader_segments (tw_live w) (tw_archive w))) = Inr suf"
    unfolding rs skip_to_segment_filter [OF srt] using read_segments_holds [OF ess(1)] ess(2) suf by auto
  moreover have "run_steps (replay_entry ext io now) suf u = Some u" by (rule skip_replayed) (use suf uf in simp)
  moreover have "skip_to_segment 0 xs = xs" for xs by (cases xs) (auto simp: skip_to_segment_def)
  ultimately have "recover_topic ext io now crc u (tw_live w) (tw_archive w) (tw_current_id w) = Some (Inr u)"
    by (cases "tw_current_id w") (simp_all add: recover_topic_def)
  then show ?thesis using snap u uf(3) load_snapshot_bytes [OF s(2)] by (simp add: start_topic_def)
qed

text \<open>
  C27: A snapshot file loads as the snapshot that was written when its fields fit their widths,
  and no strict prefix of it, as a crash in the middle of the write may leave, loads as one.
\<close>

theorem snapshot_file_round_trip:
  assumes "snapshot_ok s"
  shows "load_snapshot crc (Some (snapshot_bytes crc s)) = Some s \<and>
     (\<forall>n < length (snapshot_bytes crc s). load_snapshot crc (Some (take n (snapshot_bytes crc s))) = None)"
proof -
  have "length (encode_snapshot_body s) < 256 ^ 8" using assms by (simp add: snapshot_ok_def SNAPSHOT_MAX_BODY_def)
  then show ?thesis using load_snapshot_bytes [OF assms] short_snapshot_ignored by blast
qed

definition sample_snapshot :: snapshot where
  "sample_snapshot = \<lparr>snap_sequence = 7, snap_segment_id = 2, snap_origin_highwater = [(''b'', 3)], snap_rows = [''{}'']\<rparr>"

theorem snapshot_file_round_trip_witness:
  "load_snapshot sample_crc (Some (snapshot_bytes sample_crc sample_snapshot)) = Some sample_snapshot \<and>
   load_snapshot sample_crc (Some (take 30 (snapshot_bytes sample_crc sample_snapshot))) = None"
proof -
  have "snapshot_ok sample_snapshot"
    by (simp add: snapshot_ok_def sample_snapshot_def encode_snapshot_body_def SNAPSHOT_MAX_BODY_def byte_in_def)
  moreover have "30 < length (snapshot_bytes sample_crc sample_snapshot)"
    by (simp add: snapshot_bytes_def Let_def SNAPSHOT_MAGIC_def sample_snapshot_def encode_snapshot_body_def)
  ultimately show ?thesis using snapshot_file_round_trip [of sample_snapshot sample_crc] by blast
qed

definition keyless_topic :: topic where
  "keyless_topic = (topic_new (sample_config\<lparr>cfg_key_fields := []\<rparr>) sample_schema 1)\<lparr>origin_id := ''a'', sparse_delta_txlog := True\<rparr>"

abbreviation keyless_start :: topic where "keyless_start \<equiv> attach_txlog (new_log 30 True) keyless_topic"

lemma accepts_id: "accepts crc (\<lambda>es w. writer_ok crc es w \<and> tw_current_id w \<le> 1 + length es)"
  unfolding accepts_def
proof (intro allI impI, elim conjE)
  fix es w e assume w: "writer_ok crc es w" "tw_current_id w \<le> 1 + length es" and e: "entry_ok e"
  obtain v where v: "append_with_origin_format crc None w e = (None, v)" "writer_ok crc (es @ [e]) v"
    "\<exists>fs c. all_files v = fs @ [(tw_current_id v, c @ entry_frame crc e)] \<and>
       (all_files w = fs @ [(tw_current_id v, c)] \<or> c = [] \<and> all_files w = fs \<and> tw_current_id v = Suc (tw_current_id w))"
    by (rule append_ok [OF w(1) e])
  then have "tw_current_id v \<le> Suc (tw_current_id w)" using writer_last [OF w(1)] by auto
  then show "\<exists>v. append_with_origin_format crc None w e = (None, v) \<and> writer_ok crc (es @ [e]) v \<and> tw_current_id v \<le> 1 + length (es @ [e])"
    using v(1,2) w(2) by auto
qed

theorem keyless_snapshot_drops_row_witness:
  "\<exists>t w s u. run_steps (topic_step sample_externals snap_io) [(calm_env, Publish sample_doc)] keyless_start = Some t \<and> txlog t = Some w \<and>
     0 < row_count (st_store (tp_state t)) \<and>
     build_snapshot sample_externals snap_io (\<lambda>es. es) (\<lambda>_. []) t = Some (Some s) \<and>
     start_topic sample_externals snap_io 7 sample_crc (Some (snapshot_bytes sample_crc s)) (tw_live w) (tw_archive w)
       (attach_txlog (new_log 30 True) keyless_topic) = Some (Inr u) \<and>
     row_count (st_store (tp_state u)) = 0"
proof -
  have f: "next_sequence keyless_start = 0" "cfg_name (tp_config keyless_start) = ''/t''" "origin_id keyless_start = ''a''"
    "compute_key_from_map (tp_config keyless_start) sample_doc = None" "active_subscriptions keyless_start = 0"
    "tp_state keyless_start = state_build sample_schema [] [''name''] 1" "last_applied_sequence keyless_topic = 0"
    "next_sequence keyless_topic = 0" "tp_state keyless_topic = tp_state keyless_start"
    by (simp_all add: attach_txlog_def new_log_def keyless_topic_def topic_new_def sample_config_def compute_key_from_map_def)
  note c = snap_start_fields(7,8)
  have e: "entry_ok (new_entry calm_env keyless_start [] ''d'' PJson)" by (rule small_entry) (use f in simp_all)
  have ops: "ops_ok sample_externals snap_io sample_crc keyless_start (map (\<lambda>(env, m). (env, Publish m)) [(calm_env, sample_doc)])"
    using e f c by (simp add: op_ok_def doc_journalled_def sample_doc_flat snap_io_def unwrap_or_default_def split: option.splits)
  have rows: "rows_ok (tp_state keyless_start)" unfolding f(6) by (rule rows_ok_build [OF _ sample_schema_wf]) simp
  have log: "writer_ok sample_crc [] (new_log 30 True)" "tw_current_id (new_log 30 True) = 1" "txlog keyless_start = Some (new_log 30 True)"
    by (rule new_log_ok) (simp_all add: new_log_def attach_txlog_def)
  have live: "live_ok (\<lambda>es w. writer_ok sample_crc es w \<and> tw_current_id w \<le> 1 + length es) [] keyless_start"
    unfolding live_ok_def log(3) using rows log(1,2) f(5) by simp
  let ?vs = "[VLong 1, VNull, VNull]"
  obtain t row where t: "write_store_with_changed sample_externals calm_env keyless_start ?vs (Some ([], ''d'', PJson)) True None =
      Some (Inr (row, next_sequence keyless_start + 1), t)"
    "live_ok (\<lambda>es w. writer_ok sample_crc es w \<and> tw_current_id w \<le> 1 + length es) ([] @ [new_entry calm_env keyless_start [] ''d'' PJson]) t"
    "commit_values_locked sample_externals (env_now calm_env) (tp_state keyless_start) ?vs = Some (tp_state t, row)"
    "next_sequence t = next_sequence keyless_start + 1"
    by (rule write_store_journals [OF accepts_id [where crc = "env_crc calm_env"] live [folded c(1)] c(2) refl e, of sample_externals ?vs None])
      (use c(1) in \<open>simp add: that\<close>)
  obtain w where w: "txlog t = Some w" "tw_current_id w \<le> 2" using t(2) by (auto simp: live_ok_def)
  have sch: "st_schema (tp_state keyless_start) = sample_schema" unfolding f(6) by (simp add: state_build_def)
  have step: "run_steps (topic_step sample_externals snap_io) [(calm_env, Publish sample_doc)] keyless_start = Some t"
    using t(1) no_discovery [of keyless_start sample_doc] sch sample_schema_columns(3) log(3) f(4)
    by (simp add: upsert_map_flat publish_flat_def sample_doc_flat sample_doc_values snap_io_def unwrap_or_default_def)
  have run: "run_steps (topic_step sample_externals snap_io) (map (\<lambda>(env, m). (env, Publish m)) [(calm_env, sample_doc)]) keyless_start = Some t"
    using step by simp
  have pos: "0 < row_count (st_store (tp_state t))"
    using commit_total [OF rows, of sample_externals "env_now calm_env" ?vs] t(3) by (metis Pair_inject option.inject)
  have "keyless keyless_start" unfolding keyless_def f(6) by (simp add: keyless_topic_def topic_new_def attach_txlog_def state_build_def map_filter_simps)
  then have "key_to_row (tp_state t) = []" using keyless_run [OF _ run] by (simp add: keyless_def)
  then have s: "build_snapshot sample_externals snap_io (\<lambda>es. es) (\<lambda>_. []) t =
      Some (Some \<lparr>snap_sequence = 1, snap_segment_id = tw_current_id w, snap_origin_highwater = [], snap_rows = []\<rparr>)"
    using w(1) t(4) f(1) by (simp add: build_snapshot_def)
  have ok: "snapshot_ok \<lparr>snap_sequence = 1, snap_segment_id = tw_current_id w, snap_origin_highwater = [], snap_rows = []\<rparr>"
    using w(2) by (simp add: snapshot_ok_def encode_snapshot_body_def SNAPSHOT_MAX_BODY_def)
  show ?thesis
    using keyless_snapshot_drops_row [of 1 sample_schema "sample_config\<lparr>cfg_key_fields := []\<rparr>" keyless_topic "''a''",
        OF _ sample_schema_wf _ keyless_topic_def ops run w(1) _ s ok, of 7 "new_log 30 True"] step w(1) pos s by auto
qed

end
