(* ===== verification/CQ_Expr.thy ===== *)
theory CQ_Expr
  imports CQ_Predicate
begin

text \<open>
  Expressions of the SELECT list and of HAVING (\<open>crates/cq-core/src/query.rs\<close>, lines 109-545):
  scalar expressions over the values of a row, expressions over the output row of an aggregation,
  and HAVING conditions. All of them propagate null instead of failing. The orderings and the
  stable sort of the standard library that the query code uses are here as well.
\<close>

section \<open>Orderings and sorting\<close>

datatype ordering = OrdLess | OrdEqual | OrdGreater

fun ord_reverse :: "ordering \<Rightarrow> ordering" where
  "ord_reverse OrdLess = OrdGreater"
| "ord_reverse OrdEqual = OrdEqual"
| "ord_reverse OrdGreater = OrdLess"

definition ord_cmp :: "'a::linorder \<Rightarrow> 'a \<Rightarrow> ordering" where
  "ord_cmp a b = (if a < b then OrdLess else if a = b then OrdEqual else OrdGreater)"

text \<open>\<open>f64::partial_cmp(..).unwrap_or(Equal)\<close>, and \<open>Option\<close>'s order, in which \<open>None\<close> is least.\<close>

definition f64_partial_cmp :: "f64 \<Rightarrow> f64 \<Rightarrow> ordering option" where
  "f64_partial_cmp a b = (if f64_is_nan a \<or> f64_is_nan b then None else Some (ord_cmp (f64_key a) (f64_key b)))"

definition cmp_or_equal :: "ordering option \<Rightarrow> ordering" where
  "cmp_or_equal c = (case c of Some x \<Rightarrow> x | None \<Rightarrow> OrdEqual)"

fun option_cmp :: "('a \<Rightarrow> 'a \<Rightarrow> ordering) \<Rightarrow> 'a option \<Rightarrow> 'a option \<Rightarrow> ordering" where
  "option_cmp cmp None None = OrdEqual"
| "option_cmp cmp None (Some _) = OrdLess"
| "option_cmp cmp (Some _) None = OrdGreater"
| "option_cmp cmp (Some a) (Some b) = cmp a b"

text \<open>
  \<open>sort_by\<close> is stable: it keeps equal elements in their order. The comparison reads the store,
  so it may panic.
\<close>

fun insert_by :: "('a \<Rightarrow> 'a \<Rightarrow> ordering option) \<Rightarrow> 'a \<Rightarrow> 'a list \<Rightarrow> 'a list option" where
  "insert_by cmp x [] = Some [x]"
| "insert_by cmp x (y # ys) = do {
     c \<leftarrow> cmp x y;
     if c = OrdGreater then map_option ((#) y) (insert_by cmp x ys) else Some (x # y # ys)
   }"

fun sort_by :: "('a \<Rightarrow> 'a \<Rightarrow> ordering option) \<Rightarrow> 'a list \<Rightarrow> 'a list option" where
  "sort_by cmp [] = Some []"
| "sort_by cmp (x # xs) = Option.bind (sort_by cmp xs) (insert_by cmp x)"

text \<open>A loop that keeps the elements a fallible test accepts.\<close>

fun filter_opt :: "('a \<Rightarrow> bool option) \<Rightarrow> 'a list \<Rightarrow> 'a list option" where
  "filter_opt P [] = Some []"
| "filter_opt P (x # xs) = do { b \<leftarrow> P x; ys \<leftarrow> filter_opt P xs; Some (if b then x # ys else ys) }"

section \<open>Scalar expressions of the SELECT list\<close>

datatype scalar_expr =
    ECol nat
  | ELitDouble f64
  | ELitLong i64
  | ELitString string
  | EAdd scalar_expr scalar_expr
  | ESub scalar_expr scalar_expr
  | EMul scalar_expr scalar_expr
  | EDiv scalar_expr scalar_expr
  | ENeg scalar_expr
  | EAbs scalar_expr
  | ERound scalar_expr
  | EFloor scalar_expr
  | ECeil scalar_expr
  | ECoalesce "scalar_expr list"
  | ENullIf scalar_expr scalar_expr

record computed_column =
  cc_alias :: string
  cc_expr :: scalar_expr

definition num_binop :: "(f64 \<Rightarrow> f64 \<Rightarrow> f64) \<Rightarrow> cq_value \<Rightarrow> cq_value \<Rightarrow> cq_value" where
  "num_binop f a b = (case (as_f64 a, as_f64 b) of (Some x, Some y) \<Rightarrow> VDouble (f x y) | _ \<Rightarrow> VNull)"

definition unary_num :: "(f64 \<Rightarrow> f64) \<Rightarrow> cq_value \<Rightarrow> cq_value" where
  "unary_num f v = (case as_f64 v of Some x \<Rightarrow> VDouble (f x) | None \<Rightarrow> VNull)"

definition values_equal_for_nullif :: "cq_value \<Rightarrow> cq_value \<Rightarrow> bool" where
  "values_equal_for_nullif a b =
     (if value_is_null a \<or> value_is_null b then False
      else case (as_f64 a, as_f64 b) of
             (Some x, Some y) \<Rightarrow> \<not> f64_is_nan x \<and> \<not> f64_is_nan y \<and> f64_eq x y
           | _ \<Rightarrow> (case (a, b) of
                     (VString (Some s), VString (Some t)) \<Rightarrow> s = t
                   | (VBool (Some p), VBool (Some q)) \<Rightarrow> p = q
                   | _ \<Rightarrow> False))"

fun scalar_eval :: "cq_value list \<Rightarrow> scalar_expr \<Rightarrow> cq_value"
  and scalar_coalesce :: "cq_value list \<Rightarrow> scalar_expr list \<Rightarrow> cq_value" where
  "scalar_eval row (ECol i) = (if i < length row then row ! i else VNull)"
| "scalar_eval row (ELitDouble d) = VDouble d"
| "scalar_eval row (ELitLong n) = VLong n"
| "scalar_eval row (ELitString s) = VString (Some s)"
| "scalar_eval row (EAdd a b) = num_binop f64_add (scalar_eval row a) (scalar_eval row b)"
| "scalar_eval row (ESub a b) = num_binop f64_sub (scalar_eval row a) (scalar_eval row b)"
| "scalar_eval row (EMul a b) = num_binop f64_mul (scalar_eval row a) (scalar_eval row b)"
| "scalar_eval row (EDiv a b) =
     (case (as_f64 (scalar_eval row a), as_f64 (scalar_eval row b)) of
        (Some x, Some y) \<Rightarrow> if f64_eq y 0 then VNull else VDouble (f64_div x y)
      | _ \<Rightarrow> VNull)"
| "scalar_eval row (ENeg a) = unary_num f64_minus (scalar_eval row a)"
| "scalar_eval row (EAbs a) = unary_num f64_abs (scalar_eval row a)"
| "scalar_eval row (ERound a) = unary_num f64_round (scalar_eval row a)"
| "scalar_eval row (EFloor a) = unary_num f64_floor (scalar_eval row a)"
| "scalar_eval row (ECeil a) = unary_num f64_ceil (scalar_eval row a)"
| "scalar_eval row (ECoalesce es) = scalar_coalesce row es"
| "scalar_eval row (ENullIf a b) =
     (let av = scalar_eval row a; bv = scalar_eval row b
      in if values_equal_for_nullif av bv then VNull else av)"
| "scalar_coalesce row [] = VNull"
| "scalar_coalesce row (e # es) =
     (let v = scalar_eval row e in if value_is_null v then scalar_coalesce row es else v)"

section \<open>Expressions over the output row of an aggregation\<close>

fun json_as_f64 :: "json \<Rightarrow> f64 option" where
  "json_as_f64 (JNumber n) = num_as_f64 n"
| "json_as_f64 _ = None"

fun json_as_str :: "json \<Rightarrow> string option" where
  "json_as_str (JString s) = Some s"
| "json_as_str _ = None"

fun json_as_bool :: "json \<Rightarrow> bool option" where
  "json_as_bool (JBool b) = Some b"
| "json_as_bool _ = None"

datatype post_agg_expr =
    GRef string
  | GLitDouble f64
  | GLitLong i64
  | GLitString string
  | GAdd post_agg_expr post_agg_expr
  | GSub post_agg_expr post_agg_expr
  | GMul post_agg_expr post_agg_expr
  | GDiv post_agg_expr post_agg_expr
  | GNeg post_agg_expr
  | GAbs post_agg_expr
  | GRound post_agg_expr
  | GFloor post_agg_expr
  | GCeil post_agg_expr
  | GCoalesce "post_agg_expr list"
  | GNullIf post_agg_expr post_agg_expr

record post_agg_column =
  pa_alias :: string
  pa_expr :: post_agg_expr

definition post_binop :: "externals \<Rightarrow> (f64 \<Rightarrow> f64 \<Rightarrow> f64) \<Rightarrow> json \<Rightarrow> json \<Rightarrow> json" where
  "post_binop ext f a b = (case (json_as_f64 a, json_as_f64 b) of (Some x, Some y) \<Rightarrow> json_of_f64 ext (f x y) | _ \<Rightarrow> JNull)"

definition post_unary :: "externals \<Rightarrow> (f64 \<Rightarrow> f64) \<Rightarrow> json \<Rightarrow> json" where
  "post_unary ext f v = (case json_as_f64 v of Some x \<Rightarrow> json_of_f64 ext (f x) | None \<Rightarrow> JNull)"

definition json_values_equal_for_nullif :: "json \<Rightarrow> json \<Rightarrow> bool" where
  "json_values_equal_for_nullif a b =
     (if a = JNull \<or> b = JNull then False
      else case (json_as_f64 a, json_as_f64 b) of
             (Some x, Some y) \<Rightarrow> \<not> f64_is_nan x \<and> \<not> f64_is_nan y \<and> f64_eq x y
           | _ \<Rightarrow> (case (json_as_str a, json_as_str b) of (Some s, Some t) \<Rightarrow> s = t | _ \<Rightarrow> False))"

fun post_eval :: "externals \<Rightarrow> json_map \<Rightarrow> post_agg_expr \<Rightarrow> json"
  and post_coalesce :: "externals \<Rightarrow> json_map \<Rightarrow> post_agg_expr list \<Rightarrow> json" where
  "post_eval ext row (GRef name) = (case map_of row name of Some v \<Rightarrow> v | None \<Rightarrow> JNull)"
| "post_eval ext row (GLitDouble d) = json_of_f64 ext d"
| "post_eval ext row (GLitLong n) = json_of_i64 ext n"
| "post_eval ext row (GLitString s) = JString s"
| "post_eval ext row (GAdd a b) = post_binop ext f64_add (post_eval ext row a) (post_eval ext row b)"
| "post_eval ext row (GSub a b) = post_binop ext f64_sub (post_eval ext row a) (post_eval ext row b)"
| "post_eval ext row (GMul a b) = post_binop ext f64_mul (post_eval ext row a) (post_eval ext row b)"
| "post_eval ext row (GDiv a b) =
     (case (json_as_f64 (post_eval ext row a), json_as_f64 (post_eval ext row b)) of
        (Some x, Some y) \<Rightarrow> if f64_eq y 0 then JNull else json_of_f64 ext (f64_div x y)
      | _ \<Rightarrow> JNull)"
| "post_eval ext row (GNeg a) = post_unary ext f64_minus (post_eval ext row a)"
| "post_eval ext row (GAbs a) = post_unary ext f64_abs (post_eval ext row a)"
| "post_eval ext row (GRound a) = post_unary ext f64_round (post_eval ext row a)"
| "post_eval ext row (GFloor a) = post_unary ext f64_floor (post_eval ext row a)"
| "post_eval ext row (GCeil a) = post_unary ext f64_ceil (post_eval ext row a)"
| "post_eval ext row (GCoalesce es) = post_coalesce ext row es"
| "post_eval ext row (GNullIf a b) =
     (let av = post_eval ext row a; bv = post_eval ext row b
      in if json_values_equal_for_nullif av bv then JNull else av)"
| "post_coalesce ext row [] = JNull"
| "post_coalesce ext row (e # es) =
     (let v = post_eval ext row e in if v = JNull then post_coalesce ext row es else v)"

section \<open>HAVING\<close>

datatype having_expr =
    HRef string
  | HLitDouble f64
  | HLitLong i64
  | HLitString string
  | HLitBool bool
  | HEq having_expr having_expr
  | HNe having_expr having_expr
  | HLt having_expr having_expr
  | HLe having_expr having_expr
  | HGt having_expr having_expr
  | HGe having_expr having_expr
  | HAnd having_expr having_expr
  | HOr having_expr having_expr
  | HNot having_expr

fun eval_having_to_json :: "externals \<Rightarrow> json_map \<Rightarrow> having_expr \<Rightarrow> json option" where
  "eval_having_to_json ext row (HRef name) = map_of row name"
| "eval_having_to_json ext row (HLitDouble d) = Some (json_of_f64 ext d)"
| "eval_having_to_json ext row (HLitLong n) = Some (json_of_i64 ext n)"
| "eval_having_to_json ext row (HLitString s) = Some (JString s)"
| "eval_having_to_json ext row (HLitBool b) = Some (JBool b)"
| "eval_having_to_json ext row _ = None"

definition compare_having :: "externals \<Rightarrow> json_map \<Rightarrow> having_expr \<Rightarrow> having_expr \<Rightarrow> ordering option" where
  "compare_having ext row lhs rhs = do {
     l \<leftarrow> eval_having_to_json ext row lhs;
     r \<leftarrow> eval_having_to_json ext row rhs;
     case (json_as_f64 l, json_as_f64 r) of
       (Some x, Some y) \<Rightarrow> f64_partial_cmp x y
     | _ \<Rightarrow> (case (json_as_str l, json_as_str r) of
               (Some s, Some t) \<Rightarrow> Some (ord_cmp s t)
             | _ \<Rightarrow> (case (json_as_bool l, json_as_bool r) of
                       (Some p, Some q) \<Rightarrow> Some (ord_cmp p q)
                     | _ \<Rightarrow> None))
   }"

fun having_matches :: "externals \<Rightarrow> json_map \<Rightarrow> having_expr \<Rightarrow> bool" where
  "having_matches ext row (HAnd a b) = (having_matches ext row a \<and> having_matches ext row b)"
| "having_matches ext row (HOr a b) = (having_matches ext row a \<or> having_matches ext row b)"
| "having_matches ext row (HNot e) = (\<not> having_matches ext row e)"
| "having_matches ext row (HEq a b) = (compare_having ext row a b = Some OrdEqual)"
| "having_matches ext row (HNe a b) =
     (case compare_having ext row a b of Some OrdEqual \<Rightarrow> False | Some _ \<Rightarrow> True | None \<Rightarrow> False)"
| "having_matches ext row (HLt a b) = (compare_having ext row a b = Some OrdLess)"
| "having_matches ext row (HLe a b) = (compare_having ext row a b \<in> {Some OrdLess, Some OrdEqual})"
| "having_matches ext row (HGt a b) = (compare_having ext row a b = Some OrdGreater)"
| "having_matches ext row (HGe a b) = (compare_having ext row a b \<in> {Some OrdGreater, Some OrdEqual})"
| "having_matches ext row _ = False"

end
