(* ===== verification/CQ_Aggregate.thy ===== *)
theory CQ_Aggregate
  imports CQ_Expr
begin

text \<open>
  Group keys and running aggregate states (\<open>GroupKeyPart\<close>, \<open>AggState\<close> of
  \<open>crates/cq-core/src/query.rs\<close>): initial state, update by one value, final value.
\<close>

section \<open>Group keys\<close>

datatype group_key_part =
    GkNull
  | GkInt i32
  | GkLong i64
  | GkDoubleBits u64
  | GkString string
  | GkBool bool
  | GkTimestamp i64

fun group_key_from_value :: "externals \<Rightarrow> cq_value \<Rightarrow> group_key_part" where
  "group_key_from_value ext VNull = GkNull"
| "group_key_from_value ext (VString s) = (case s of None \<Rightarrow> GkNull | Some x \<Rightarrow> GkString x)"
| "group_key_from_value ext (VLong n) = (if n = NULL_LONG then GkNull else GkLong n)"
| "group_key_from_value ext (VInt n) = (if n = NULL_INT then GkNull else GkInt n)"
| "group_key_from_value ext (VDouble d) = (if f64_is_nan d then GkNull else GkDoubleBits d)"
| "group_key_from_value ext (VBool b) = (case b of None \<Rightarrow> GkNull | Some x \<Rightarrow> GkBool x)"
| "group_key_from_value ext (VTimestamp t) = (if t = NULL_TIMESTAMP then GkNull else GkTimestamp t)"
| "group_key_from_value ext (VBytes b) = (case b of None \<Rightarrow> GkNull | Some x \<Rightarrow> GkString (b64_encode ext x))"

fun group_key_to_json :: "externals \<Rightarrow> group_key_part \<Rightarrow> json" where
  "group_key_to_json ext GkNull = JNull"
| "group_key_to_json ext (GkInt n) = json_of_i64 ext (i32_as_i64 n)"
| "group_key_to_json ext (GkLong n) = json_of_i64 ext n"
| "group_key_to_json ext (GkDoubleBits b) = json_of_f64 ext b"
| "group_key_to_json ext (GkString s) = JString s"
| "group_key_to_json ext (GkBool b) = JBool b"
| "group_key_to_json ext (GkTimestamp t) = JString (format_timestamp_micros ext t)"

section \<open>Aggregates\<close>

datatype agg_fn =
    AggSum | AggCount | AggAvg | AggMin | AggMax | AggStddev | AggStddevSamp | AggVariance
  | AggVarianceSamp | AggPercentileCont | AggCountDistinct

definition agg_label :: "agg_fn \<Rightarrow> string" where
  "agg_label f =
     (case f of
        AggSum \<Rightarrow> ''SUM'' | AggCount \<Rightarrow> ''COUNT'' | AggAvg \<Rightarrow> ''AVG'' | AggMin \<Rightarrow> ''MIN'' | AggMax \<Rightarrow> ''MAX''
      | AggStddev \<Rightarrow> ''STDDEV'' | AggStddevSamp \<Rightarrow> ''STDDEV_SAMP'' | AggVariance \<Rightarrow> ''VARIANCE''
      | AggVarianceSamp \<Rightarrow> ''VAR_SAMP'' | AggPercentileCont \<Rightarrow> ''PERCENTILE_CONT''
      | AggCountDistinct \<Rightarrow> ''COUNT_DISTINCT'')"

record aggregate_spec =
  agg_func :: agg_fn
  agg_col :: "nat option"
  agg_expr :: "num_expr option"
  agg_alias :: string
  percentile_q :: "f64 option"

datatype welford_kind = StddevPop | StddevSamp | VarPop | VarSamp

text \<open>
  Running states. The integer sum is an \<open>i128\<close>, which no number of rows a store can hold
  overflows; the set of distinct values is the list of its members.
\<close>

datatype agg_state =
    ACount nat
  | ASumI int bool
  | ASumF f64 bool
  | AAvgF f64 nat
  | AMinI i64 bool
  | AMaxI i64 bool
  | AMinF f64 bool
  | AMaxF f64 bool
  | AMinS string bool
  | AMaxS string bool
  | AWelford nat f64 f64 welford_kind
  | APercentile "f64 list" f64
  | ACountDistinct "group_key_part list"

definition f64_infinity :: f64 where "f64_infinity = 0x7FF0000000000000"
definition f64_neg_infinity :: f64 where "f64_neg_infinity = 0xFFF0000000000000"
definition f64_half :: f64 where "f64_half = 0x3FE0000000000000"
definition i64_max :: i64 where "i64_max = 0x7FFFFFFFFFFFFFFF"

definition agg_init :: "agg_fn \<Rightarrow> column_type option \<Rightarrow> f64 option \<Rightarrow> agg_state" where
  "agg_init f ty q =
     (case f of
        AggCount \<Rightarrow> ACount 0
      | AggSum \<Rightarrow> (case ty of Some TDouble \<Rightarrow> ASumF 0 False
                    | Some TLong \<Rightarrow> ASumI 0 False | Some TInt \<Rightarrow> ASumI 0 False | _ \<Rightarrow> ACount 0)
      | AggAvg \<Rightarrow> AAvgF 0 0
      | AggMin \<Rightarrow> (case ty of Some TDouble \<Rightarrow> AMinF f64_infinity False
                    | Some TLong \<Rightarrow> AMinI i64_max False | Some TInt \<Rightarrow> AMinI i64_max False
                    | Some TString \<Rightarrow> AMinS [] False | _ \<Rightarrow> ACount 0)
      | AggMax \<Rightarrow> (case ty of Some TDouble \<Rightarrow> AMaxF f64_neg_infinity False
                    | Some TLong \<Rightarrow> AMaxI i64_min False | Some TInt \<Rightarrow> AMaxI i64_min False
                    | Some TString \<Rightarrow> AMaxS [] False | _ \<Rightarrow> ACount 0)
      | AggStddev \<Rightarrow> AWelford 0 0 0 StddevPop
      | AggStddevSamp \<Rightarrow> AWelford 0 0 0 StddevSamp
      | AggVariance \<Rightarrow> AWelford 0 0 0 VarPop
      | AggVarianceSamp \<Rightarrow> AWelford 0 0 0 VarSamp
      | AggPercentileCont \<Rightarrow> APercentile [] (case q of Some x \<Rightarrow> x | None \<Rightarrow> f64_half)
      | AggCountDistinct \<Rightarrow> ACountDistinct [])"

text \<open>\<open>update(v)\<close>: \<open>None\<close> is the call of \<open>COUNT(*)\<close>, which reads no column.\<close>

fun agg_update :: "externals \<Rightarrow> cq_value option \<Rightarrow> agg_state \<Rightarrow> agg_state" where
  "agg_update ext v (ACount n) =
     (case v of None \<Rightarrow> ACount (n + 1) | Some x \<Rightarrow> if value_is_null x then ACount n else ACount (n + 1))"
| "agg_update ext v (ASumI acc seen) =
     (case Option.bind v as_i64 of Some x \<Rightarrow> ASumI (acc + sint x) True | None \<Rightarrow> ASumI acc seen)"
| "agg_update ext v (ASumF acc seen) =
     (case Option.bind v as_f64 of Some x \<Rightarrow> ASumF (f64_add acc x) True | None \<Rightarrow> ASumF acc seen)"
| "agg_update ext v (AAvgF acc n) =
     (case Option.bind v as_f64 of Some x \<Rightarrow> AAvgF (f64_add acc x) (n + 1) | None \<Rightarrow> AAvgF acc n)"
| "agg_update ext v (AMinI cur seen) =
     (case Option.bind v as_i64 of
        Some x \<Rightarrow> AMinI (if \<not> seen \<or> sint x < sint cur then x else cur) True | None \<Rightarrow> AMinI cur seen)"
| "agg_update ext v (AMaxI cur seen) =
     (case Option.bind v as_i64 of
        Some x \<Rightarrow> AMaxI (if \<not> seen \<or> sint x > sint cur then x else cur) True | None \<Rightarrow> AMaxI cur seen)"
| "agg_update ext v (AMinF cur seen) =
     (case Option.bind v as_f64 of
        Some x \<Rightarrow> AMinF (if \<not> seen \<or> f64_lt x cur then x else cur) True | None \<Rightarrow> AMinF cur seen)"
| "agg_update ext v (AMaxF cur seen) =
     (case Option.bind v as_f64 of
        Some x \<Rightarrow> AMaxF (if \<not> seen \<or> f64_lt cur x then x else cur) True | None \<Rightarrow> AMaxF cur seen)"
| "agg_update ext v (AMinS cur seen) =
     (case Option.bind v as_str of
        Some x \<Rightarrow> AMinS (if \<not> seen \<or> x < cur then x else cur) True | None \<Rightarrow> AMinS cur seen)"
| "agg_update ext v (AMaxS cur seen) =
     (case Option.bind v as_str of
        Some x \<Rightarrow> AMaxS (if \<not> seen \<or> x > cur then x else cur) True | None \<Rightarrow> AMaxS cur seen)"
| "agg_update ext v (AWelford n mean m2 k) =
     (case Option.bind v as_f64 of
        Some x \<Rightarrow>
          (let delta = f64_sub x mean;
               mean' = f64_add mean (f64_div delta (f64_of_int (int (n + 1))));
               delta2 = f64_sub x mean'
           in AWelford (n + 1) mean' (f64_add m2 (f64_mul delta delta2)) k)
      | None \<Rightarrow> AWelford n mean m2 k)"
| "agg_update ext v (APercentile values q) =
     (case Option.bind v as_f64 of Some x \<Rightarrow> APercentile (values @ [x]) q | None \<Rightarrow> APercentile values q)"
| "agg_update ext v (ACountDistinct ks) =
     (case v of
        Some x \<Rightarrow> if value_is_null x then ACountDistinct ks
                  else ACountDistinct (List.insert (group_key_from_value ext x) ks)
      | None \<Rightarrow> ACountDistinct ks)"

text \<open>
  The square root of a finite positive number, from the integer square root of the mantissa
  shifted left by an even number of bits; a remainder is a sticky bit for the rounding.
\<close>

fun isqrt :: "nat \<Rightarrow> nat" where
  "isqrt n = (if n = 0 then 0 else let r = 2 * isqrt (n div 4) in if (r + 1) * (r + 1) \<le> n then r + 1 else r)"

declare isqrt.simps [simp del]

definition f64_sqrt :: "f64 \<Rightarrow> f64" where
  "f64_sqrt b =
     (if f64_is_nan b then f64_nan
      else if f64_mag b = 0 then b
      else if f64_neg b then f64_nan
      else if f64_is_infinite b then b
      else let e = f64_exponent b;
               n = (if even e then f64_mantissa b else 2 * f64_mantissa b) * 4 ^ 60;
               h = (if even e then e else e - 1) div 2 - 60;
               r = isqrt n
           in f64_scaled False (2 * r + (if r * r = n then 0 else 1)) (h - 1))"

text \<open>\<open>as usize\<close> truncates and saturates; NaN is 0.\<close>

definition f64_as_usize :: "f64 \<Rightarrow> nat" where
  "f64_as_usize b =
     (if f64_is_nan b \<or> f64_neg b then 0
      else if f64_is_infinite b then 2 ^ 64 - 1
      else min (2 ^ 64 - 1)
             (if 0 \<le> f64_exponent b then f64_mantissa b * 2 ^ nat (f64_exponent b)
              else f64_mantissa b div 2 ^ nat (- f64_exponent b)))"

text \<open>\<open>Value::from(n as u64)\<close> for a count, which is below \<open>2 ^ 63\<close>.\<close>

definition json_of_count :: "externals \<Rightarrow> nat \<Rightarrow> json" where
  "json_of_count ext n = json_of_i64 ext (word_of_nat n)"

definition f64_one :: f64 where "f64_one = 0x3FF0000000000000"

definition nth_opt :: "'a list \<Rightarrow> nat \<Rightarrow> 'a option" where
  "nth_opt xs i = (if i < length xs then Some (xs ! i) else None)"

definition percentile_of :: "externals \<Rightarrow> f64 list \<Rightarrow> f64 \<Rightarrow> json option" where
  "percentile_of ext values q =
     (if values = [] then Some JNull
      else do {
        ys \<leftarrow> sort_by (\<lambda>a b. Some (cmp_or_equal (f64_partial_cmp a b))) values;
        let rank = f64_mul q (f64_of_int (int (length ys - 1)));
        let lo = f64_as_usize (f64_floor rank);
        let hi = f64_as_usize (f64_ceil rank);
        a \<leftarrow> nth_opt ys lo;
        if lo = hi then Some (json_of_f64 ext a)
        else do {
          b \<leftarrow> nth_opt ys hi;
          Some (json_of_f64 ext (f64_add a (f64_mul (f64_sub rank (f64_of_int (int lo))) (f64_sub b a))))
        }
      })"

definition welford_value :: "externals \<Rightarrow> nat \<Rightarrow> f64 \<Rightarrow> welford_kind \<Rightarrow> json" where
  "welford_value ext cnt m2 k =
     (if cnt = 0 then JNull
      else let n = f64_of_int (int cnt)
           in case k of
                VarPop \<Rightarrow> json_of_f64 ext (f64_div m2 n)
              | StddevPop \<Rightarrow> json_of_f64 ext (f64_sqrt (f64_div m2 n))
              | VarSamp \<Rightarrow> if cnt < 2 then JNull else json_of_f64 ext (f64_div m2 (f64_sub n f64_one))
              | StddevSamp \<Rightarrow> if cnt < 2 then JNull else json_of_f64 ext (f64_sqrt (f64_div m2 (f64_sub n f64_one))))"

fun agg_finalize :: "externals \<Rightarrow> agg_state \<Rightarrow> json option" where
  "agg_finalize ext (ACount n) = Some (json_of_count ext n)"
| "agg_finalize ext (ASumI acc seen) =
     Some (if \<not> seen then JNull
           else if - (2 ^ 63) \<le> acc \<and> acc \<le> 2 ^ 63 - 1 then json_of_i64 ext (word_of_int acc)
           else json_of_f64 ext (f64_of_int acc))"
| "agg_finalize ext (ASumF s seen) = Some (if seen then json_of_f64 ext s else JNull)"
| "agg_finalize ext (AAvgF acc n) = Some (if n = 0 then JNull else json_of_f64 ext (f64_div acc (f64_of_int (int n))))"
| "agg_finalize ext (AMinI v seen) = Some (if seen then json_of_i64 ext v else JNull)"
| "agg_finalize ext (AMaxI v seen) = Some (if seen then json_of_i64 ext v else JNull)"
| "agg_finalize ext (AMinF v seen) = Some (if seen then json_of_f64 ext v else JNull)"
| "agg_finalize ext (AMaxF v seen) = Some (if seen then json_of_f64 ext v else JNull)"
| "agg_finalize ext (AMinS v seen) = Some (if seen then JString v else JNull)"
| "agg_finalize ext (AMaxS v seen) = Some (if seen then JString v else JNull)"
| "agg_finalize ext (ACountDistinct ks) = Some (json_of_count ext (length ks))"
| "agg_finalize ext (APercentile values q) = percentile_of ext values q"
| "agg_finalize ext (AWelford n mean m2 k) = Some (welford_value ext n m2 k)"

end
