(* ===== verification/CQ_Query.thy ===== *)
theory CQ_Query
  imports CQ_Aggregate CQ_Sec_Index
begin

text \<open>
  Compiled queries and their execution (\<open>crates/cq-core/src/query.rs\<close>, \<open>pivot.rs\<close>): the planner
  that asks the secondary index for candidate rows, filtering, ordering, windows of rows,
  projection, window functions, grouping and pivots. \<open>None\<close> is a panic. A \<open>HashMap\<close> of groups
  together with the list that records their first appearance is one association list in that
  order.
\<close>

section \<open>Queries\<close>

datatype frame_agg_kind = FrameSum | FrameAvg | FrameMin | FrameMax | FrameCount

datatype window_fn =
    RowNumber
  | Rank
  | DenseRank
  | Lag nat nat "json option"
  | Lead nat nat "json option"
  | Ntile nat
  | FrameAgg frame_agg_kind nat nat

record window_column =
  wc_alias :: string
  partition_by :: "nat list"
  wc_order_by :: "(nat \<times> bool) list"
  wc_kind :: window_fn

datatype join_kind = JoinInner | JoinLeftOuter | JoinRightOuter | JoinFullOuter | JoinAsOf string

record join_spec =
  right_topic :: string
  join_using :: "string list"
  join_kind :: join_kind

datatype pivot_literal = PvString string | PvLong i64 | PvDouble u64 | PvBool bool | PvTimestamp i64

record parsed_pivot =
  pv_aggregates :: "aggregate_spec list"
  pivot_col :: nat
  pivot_values :: "pivot_literal list"
  pv_dynamic :: bool
  pv_anchor_cols :: "nat list"

record parsed_unpivot =
  value_col_name :: string
  name_col_name :: string
  source_cols :: "nat list"
  up_anchor_cols :: "nat list"

record parsed_query =
  q_topic :: string
  projection :: "nat list"
  predicate :: compiled_predicate
  order_by :: "(nat \<times> bool) list"
  order_by_aliases :: "string option list"
  limit :: "nat option"
  offset :: "nat option"
  aggregates :: "aggregate_spec list"
  group_by :: "nat list"
  pivot :: "parsed_pivot option"
  unpivot :: "parsed_unpivot option"
  q_join :: "join_spec option"
  windows :: "window_column list"
  having :: "having_expr option"
  computed :: "computed_column list"
  post_agg :: "post_agg_column list"

definition is_aggregate :: "parsed_query \<Rightarrow> bool" where "is_aggregate q = (aggregates q \<noteq> [])"
definition is_pivot :: "parsed_query \<Rightarrow> bool" where "is_pivot q = (pivot q \<noteq> None \<or> unpivot q \<noteq> None)"

record query_result =
  qr_rows :: "json_map list"
  total_matches :: nat
  source_rows :: "nat list"

section \<open>Candidate rows\<close>

datatype candidate_rows = CBitmap "nat set" | COwnedBitmap "nat set" | CFull nat

text \<open>The rows \<open>for_each\<close> visits, in ascending order.\<close>

fun candidate_list :: "candidate_rows \<Rightarrow> nat list" where
  "candidate_list (CBitmap b) = sorted_list_of_set b"
| "candidate_list (COwnedBitmap b) = sorted_list_of_set b"
| "candidate_list (CFull n) = [0..<n]"

fun or_else :: "'a option \<Rightarrow> 'a option \<Rightarrow> 'a option" where
  "or_else (Some a) b = Some a"
| "or_else None b = b"

fun find_index_hint :: "sec_index \<Rightarrow> compiled_predicate \<Rightarrow> (nat \<times> ix_key) option" where
  "find_index_hint ix (EqString c x) = (if covers ix c then Some (c, IxString x) else None)"
| "find_index_hint ix (EqLong c x) = (if covers ix c then Some (c, IxLong x) else None)"
| "find_index_hint ix (EqDouble c x) = (if covers ix c \<and> \<not> f64_is_nan x then Some (c, IxDoubleBits x) else None)"
| "find_index_hint ix (PAnd a b) = or_else (find_index_hint ix a) (find_index_hint ix b)"
| "find_index_hint ix _ = None"

text \<open>\<open>RangeKey::from_double\<close>.\<close>

definition range_key_double :: "f64 \<Rightarrow> range_key option" where
  "range_key_double d = (if f64_is_nan d then None else Some (RkDoubleOrdered (f64_to_ordered_bits d)))"

fun find_range_hint :: "sec_index \<Rightarrow> compiled_predicate \<Rightarrow> nat set option" where
  "find_range_hint ix (BetweenLong c lo hi) =
     (if has_range ix c then rows_in_range ix c (Some (RkLong lo)) (Some (RkLong hi)) else None)"
| "find_range_hint ix (BetweenDouble c lo hi) =
     (if has_range ix c
      then do { l \<leftarrow> range_key_double lo; h \<leftarrow> range_key_double hi; rows_in_range ix c (Some l) (Some h) } else None)"
| "find_range_hint ix (GtLong c x) = (if has_range ix c then rows_greater_than ix c (RkLong x) else None)"
| "find_range_hint ix (GtDouble c x) =
     (if has_range ix c then do { v \<leftarrow> range_key_double x; rows_greater_than ix c v } else None)"
| "find_range_hint ix (GeLong c x) = (if has_range ix c then rows_in_range ix c (Some (RkLong x)) None else None)"
| "find_range_hint ix (GeDouble c x) =
     (if has_range ix c then do { v \<leftarrow> range_key_double x; rows_in_range ix c (Some v) None } else None)"
| "find_range_hint ix (LtLong c x) = (if has_range ix c then rows_less_than ix c (RkLong x) else None)"
| "find_range_hint ix (LtDouble c x) =
     (if has_range ix c then do { v \<leftarrow> range_key_double x; rows_less_than ix c v } else None)"
| "find_range_hint ix (LeLong c x) = (if has_range ix c then rows_in_range ix c None (Some (RkLong x)) else None)"
| "find_range_hint ix (LeDouble c x) =
     (if has_range ix c then do { v \<leftarrow> range_key_double x; rows_in_range ix c None (Some v) } else None)"
| "find_range_hint ix (PAnd a b) = or_else (find_range_hint ix a) (find_range_hint ix b)"
| "find_range_hint ix _ = None"

definition clone_or_empty :: "nat set option \<Rightarrow> nat set" where
  "clone_or_empty b = (case b of Some x \<Rightarrow> x | None \<Rightarrow> {})"

definition rows_for_keys :: "sec_index \<Rightarrow> nat \<Rightarrow> ix_key set \<Rightarrow> nat set" where
  "rows_for_keys ix c ks = (\<Union>k \<in> ks. clone_or_empty (rows_for_key ix c k))"

fun find_set_hint :: "sec_index \<Rightarrow> compiled_predicate \<Rightarrow> nat set option" where
  "find_set_hint ix (EqString c x) = (if covers ix c then Some (clone_or_empty (rows_for_key ix c (IxString x))) else None)"
| "find_set_hint ix (EqLong c x) = (if covers ix c then Some (clone_or_empty (rows_for_key ix c (IxLong x))) else None)"
| "find_set_hint ix (EqDouble c x) =
     (if covers ix c \<and> \<not> f64_is_nan x then Some (clone_or_empty (rows_for_key ix c (IxDoubleBits x))) else None)"
| "find_set_hint ix (EqBool c x) = (if covers ix c then Some (clone_or_empty (rows_for_key ix c (IxBool x))) else None)"
| "find_set_hint ix (EqTimestamp c x) =
     (if covers ix c then Some (clone_or_empty (rows_for_key ix c (IxTimestamp x))) else None)"
| "find_set_hint ix (InString c xs) = (if covers ix c then Some (rows_for_keys ix c (IxString ` xs)) else None)"
| "find_set_hint ix (InLong c xs) = (if covers ix c then Some (rows_for_keys ix c (IxLong ` xs)) else None)"
| "find_set_hint ix (InDouble c xs) = (if covers ix c then Some (rows_for_keys ix c (IxDoubleBits ` xs)) else None)"
| "find_set_hint ix (InBool c xs) = (if covers ix c then Some (rows_for_keys ix c (IxBool ` xs)) else None)"
| "find_set_hint ix (InTimestamp c xs) = (if covers ix c then Some (rows_for_keys ix c (IxTimestamp ` xs)) else None)"
| "find_set_hint ix (PAnd a b) =
     (case (find_set_hint ix a, find_set_hint ix b) of
        (Some x, Some y) \<Rightarrow> Some (x \<inter> y)
      | (Some x, None) \<Rightarrow> Some x
      | (None, Some x) \<Rightarrow> Some x
      | (None, None) \<Rightarrow> None)"
| "find_set_hint ix (POr a b) =
     (case (find_set_hint ix a, find_set_hint ix b) of (Some x, Some y) \<Rightarrow> Some (x \<union> y) | _ \<Rightarrow> None)"
| "find_set_hint ix p = find_range_hint ix p"

definition plan_candidates :: "parsed_query \<Rightarrow> column_store \<Rightarrow> sec_index option \<Rightarrow> candidate_rows" where
  "plan_candidates q s ixo =
     (case ixo of
        None \<Rightarrow> CFull (row_count s)
      | Some ix \<Rightarrow>
          (case find_index_hint ix (predicate q) of
             Some (c, key) \<Rightarrow> (case rows_for_key ix c key of Some b \<Rightarrow> CBitmap b | None \<Rightarrow> CFull 0)
           | None \<Rightarrow>
               (case find_range_hint ix (predicate q) of
                  Some b \<Rightarrow> COwnedBitmap b
                | None \<Rightarrow>
                    (case find_set_hint ix (predicate q) of
                       Some b \<Rightarrow> COwnedBitmap b
                     | None \<Rightarrow> CFull (row_count s)))))"

section \<open>Comparing rows\<close>

definition cmp_with :: "('a \<Rightarrow> 'a \<Rightarrow> ordering) \<Rightarrow> 'a option \<Rightarrow> 'a option \<Rightarrow> ordering option" where
  "cmp_with cmp a b = do { x \<leftarrow> a; y \<leftarrow> b; Some (cmp x y) }"

definition nulls_first_cmp :: "f64 \<Rightarrow> f64 \<Rightarrow> ordering" where
  "nulls_first_cmp a b =
     (case (f64_is_nan a, f64_is_nan b) of
        (True, True) \<Rightarrow> OrdEqual
      | (True, False) \<Rightarrow> OrdLess
      | (False, True) \<Rightarrow> OrdGreater
      | (False, False) \<Rightarrow> cmp_or_equal (f64_partial_cmp a b))"

definition compare_values :: "column_store \<Rightarrow> nat \<Rightarrow> nat \<Rightarrow> nat \<Rightarrow> ordering option" where
  "compare_values s col a b =
     (case column_type_at (cs_schema s) col of
        None \<Rightarrow> None
      | Some TDouble \<Rightarrow> cmp_with nulls_first_cmp (get_double s col a) (get_double s col b)
      | Some TLong \<Rightarrow> cmp_with (\<lambda>x y. ord_cmp (sint x) (sint y)) (get_long s col a) (get_long s col b)
      | Some TInt \<Rightarrow> cmp_with (\<lambda>x y. ord_cmp (sint x) (sint y)) (get_int s col a) (get_int s col b)
      | Some TString \<Rightarrow> cmp_with (option_cmp ord_cmp) (get_string s col a) (get_string s col b)
      | Some TBool \<Rightarrow> cmp_with (option_cmp ord_cmp) (get_bool s col a) (get_bool s col b)
      | Some TTimestamp \<Rightarrow> cmp_with (\<lambda>x y. ord_cmp (sint x) (sint y)) (get_timestamp s col a) (get_timestamp s col b)
      | Some TBytes \<Rightarrow> Some OrdEqual)"

definition ord_directed :: "bool \<Rightarrow> ordering \<Rightarrow> ordering" where
  "ord_directed asc c = (if asc then c else ord_reverse c)"

fun compare_rows :: "column_store \<Rightarrow> (nat \<times> bool) list \<Rightarrow> nat \<Rightarrow> nat \<Rightarrow> ordering option" where
  "compare_rows s [] a b = Some OrdEqual"
| "compare_rows s ((col, asc) # cols) a b = do {
     c \<leftarrow> compare_values s col a b;
     if ord_directed asc c \<noteq> OrdEqual then Some (ord_directed asc c) else compare_rows s cols a b
   }"

definition compare_json_values :: "json option \<Rightarrow> json option \<Rightarrow> ordering" where
  "compare_json_values a b =
     (case (a, b) of
        (None, None) \<Rightarrow> OrdEqual
      | (None, _) \<Rightarrow> OrdLess
      | (_, None) \<Rightarrow> OrdGreater
      | (Some JNull, Some JNull) \<Rightarrow> OrdEqual
      | (Some JNull, _) \<Rightarrow> OrdLess
      | (_, Some JNull) \<Rightarrow> OrdGreater
      | (Some (JNumber x), Some (JNumber y)) \<Rightarrow>
          cmp_or_equal (f64_partial_cmp (case num_as_f64 x of Some v \<Rightarrow> v | None \<Rightarrow> 0)
                                        (case num_as_f64 y of Some v \<Rightarrow> v | None \<Rightarrow> 0))
      | (Some (JString x), Some (JString y)) \<Rightarrow> ord_cmp x y
      | _ \<Rightarrow> OrdEqual)"

fun compare_outputs :: "schema \<Rightarrow> ((nat \<times> bool) \<times> string option) list \<Rightarrow> json_map \<Rightarrow> json_map \<Rightarrow> ordering option" where
  "compare_outputs sch [] a b = Some OrdEqual"
| "compare_outputs sch (((col, asc), alias) # rest) a b = do {
     key \<leftarrow> (case alias of Some x \<Rightarrow> Some x | None \<Rightarrow> column_name_at sch col);
     let c = ord_directed asc (compare_json_values (map_of a key) (map_of b key));
     if c \<noteq> OrdEqual then Some c else compare_outputs sch rest a b
   }"

section \<open>Window functions\<close>

definition row_group_key :: "externals \<Rightarrow> column_store \<Rightarrow> nat list \<Rightarrow> nat \<Rightarrow> group_key_part list option" where
  "row_group_key ext s cols row = those (map (\<lambda>c. map_option (group_key_from_value ext) (get_value s c row)) cols)"

definition push_to :: "'k \<Rightarrow> 'a \<Rightarrow> ('k \<times> 'a list) list \<Rightarrow> ('k \<times> 'a list) list" where
  "push_to k x m = AList.update k ((case map_of m k of Some xs \<Rightarrow> xs | None \<Rightarrow> []) @ [x]) m"

text \<open>The output positions of each partition, partitions in the order they are first seen.\<close>

fun window_partitions ::
  "externals \<Rightarrow> column_store \<Rightarrow> nat list \<Rightarrow> nat \<Rightarrow> nat list \<Rightarrow> (group_key_part list \<times> nat list) list \<Rightarrow>
   (group_key_part list \<times> nat list) list option" where
  "window_partitions ext s cols i [] parts = Some parts"
| "window_partitions ext s cols i (src # srcs) parts = do {
     key \<leftarrow> row_group_key ext s cols src;
     window_partitions ext s cols (i + 1) srcs (push_to key i parts)
   }"

definition rows_tie :: "column_store \<Rightarrow> (nat \<times> bool) list \<Rightarrow> nat \<Rightarrow> nat \<Rightarrow> bool option" where
  "rows_tie s cols a b = map_option (\<lambda>c. c = OrdEqual) (compare_rows s (map (\<lambda>(c, _). (c, True)) cols) a b)"

text \<open>
  \<open>RANK\<close> and \<open>DENSE_RANK\<close> of the rows of a partition in its order: \<open>step pos prev_rank\<close> is the rank of
  a row that does not tie with the one before it.
\<close>

fun rank_values :: "(nat \<Rightarrow> nat \<Rightarrow> nat) \<Rightarrow> (nat \<Rightarrow> nat \<Rightarrow> bool option) \<Rightarrow> nat \<Rightarrow> nat \<Rightarrow> nat \<Rightarrow> nat list \<Rightarrow> nat list option" where
  "rank_values step tie pos prev_rank prev [] = Some []"
| "rank_values step tie pos prev_rank prev (r # rs) = do {
     t \<leftarrow> tie prev r;
     let k = (if t then prev_rank else step pos prev_rank);
     map_option ((#) k) (rank_values step tie (pos + 1) k r rs)
   }"

definition ranks :: "(nat \<Rightarrow> nat \<Rightarrow> nat) \<Rightarrow> (nat \<Rightarrow> nat \<Rightarrow> bool option) \<Rightarrow> nat list \<Rightarrow> nat list option" where
  "ranks step tie rs = (case rs of [] \<Rightarrow> Some [] | r # rest \<Rightarrow> map_option ((#) 1) (rank_values step tie 1 1 r rest))"

text \<open>\<open>NTILE\<close>: the buckets in order, the first ones with one row more.\<close>

definition ntile_values :: "nat \<Rightarrow> nat \<Rightarrow> nat list" where
  "ntile_values n buckets =
     (let base = n div buckets; extras = n mod buckets
      in take n (concat (map (\<lambda>b. replicate (base + (if b \<le> extras then 1 else 0)) b) [1..<Suc buckets])))"

fun frame_fold :: "frame_agg_kind \<Rightarrow> cq_value list \<Rightarrow> f64 \<times> f64 \<times> f64 \<times> nat \<Rightarrow> f64 \<times> f64 \<times> f64 \<times> nat" where
  "frame_fold k [] acc = acc"
| "frame_fold k (v # vs) (tot, mn, mx, n) =
     frame_fold k vs
       (case as_f64 v of
          Some x \<Rightarrow> (f64_add tot x, if f64_lt x mn then x else mn, if f64_lt mx x then x else mx, n + 1)
        | None \<Rightarrow> (tot, mn, mx, if k = FrameCount then n + 1 else n))"

definition frame_value :: "externals \<Rightarrow> frame_agg_kind \<Rightarrow> cq_value list \<Rightarrow> json" where
  "frame_value ext k vs =
     (case frame_fold k vs (0, f64_infinity, f64_neg_infinity, 0) of
        (tot, mn, mx, n) \<Rightarrow>
          (case k of
             FrameSum \<Rightarrow> if n = 0 then JNull else json_of_f64 ext tot
           | FrameAvg \<Rightarrow> if n = 0 then JNull else json_of_f64 ext (f64_div tot (f64_of_int (int n)))
           | FrameMin \<Rightarrow> if n = 0 then JNull else json_of_f64 ext mn
           | FrameMax \<Rightarrow> if n = 0 then JNull else json_of_f64 ext mx
           | FrameCount \<Rightarrow> json_of_count ext n))"

definition usize_max :: nat where "usize_max = 2 ^ 64 - 1"

text \<open>The values of a window column for the rows of one partition, in its order.\<close>

definition window_values :: "externals \<Rightarrow> column_store \<Rightarrow> window_column \<Rightarrow> nat list \<Rightarrow> json list option" where
  "window_values ext s wc rs =
     (case wc_kind wc of
        RowNumber \<Rightarrow> Some (map (\<lambda>pos. json_of_count ext (pos + 1)) [0..<length rs])
      | Rank \<Rightarrow> map_option (map (json_of_count ext)) (ranks (\<lambda>pos r. pos + 1) (rows_tie s (wc_order_by wc)) rs)
      | DenseRank \<Rightarrow> map_option (map (json_of_count ext)) (ranks (\<lambda>pos r. r + 1) (rows_tie s (wc_order_by wc)) rs)
      | Lag col off dflt \<Rightarrow>
          those (map (\<lambda>pos. if off \<le> pos then map_option (to_json ext) (get_value s col (rs ! (pos - off)))
                            else Some (case dflt of Some d \<Rightarrow> d | None \<Rightarrow> JNull)) [0..<length rs])
      | Lead col off dflt \<Rightarrow>
          those (map (\<lambda>pos. if pos + off < length rs then map_option (to_json ext) (get_value s col (rs ! (pos + off)))
                            else Some (case dflt of Some d \<Rightarrow> d | None \<Rightarrow> JNull)) [0..<length rs])
      | Ntile buckets \<Rightarrow> Some (map (json_of_count ext) (ntile_values (length rs) buckets))
      | FrameAgg k col preceding \<Rightarrow> do {
          vs \<leftarrow> those (map (get_value s col) rs);
          Some (map (\<lambda>pos. let start = (if preceding = usize_max then 0 else pos - preceding)
                           in frame_value ext k (drop start (take (pos + 1) vs))) [0..<length rs])
        })"

fun insert_at :: "string \<Rightarrow> (nat \<times> json) list \<Rightarrow> json_map list \<Rightarrow> json_map list" where
  "insert_at alias [] rows = rows"
| "insert_at alias ((i, v) # ivs) rows = insert_at alias ivs (rows[i := obj_insert alias v (rows ! i)])"

definition skips_ntile :: "window_fn \<Rightarrow> bool" where
  "skips_ntile k = (case k of Ntile b \<Rightarrow> b = 0 | _ \<Rightarrow> False)"

fun window_partition_rows ::
  "externals \<Rightarrow> column_store \<Rightarrow> window_column \<Rightarrow> nat list \<Rightarrow> nat list list \<Rightarrow> json_map list \<Rightarrow> json_map list option" where
  "window_partition_rows ext s wc srcs [] rows = Some rows"
| "window_partition_rows ext s wc srcs (part # parts) rows = do {
     p \<leftarrow> (if wc_order_by wc = [] then Some part
           else sort_by (\<lambda>a b. compare_rows s (wc_order_by wc) (srcs ! a) (srcs ! b)) part);
     if skips_ntile (wc_kind wc) then window_partition_rows ext s wc srcs parts rows
     else do {
       vals \<leftarrow> window_values ext s wc (map (\<lambda>i. srcs ! i) p);
       window_partition_rows ext s wc srcs parts (insert_at (wc_alias wc) (zip p vals) rows)
     }
   }"

definition apply_window ::
  "externals \<Rightarrow> column_store \<Rightarrow> window_column \<Rightarrow> nat list \<Rightarrow> json_map list \<Rightarrow> json_map list option" where
  "apply_window ext s wc srcs rows = do {
     parts \<leftarrow> window_partitions ext s (partition_by wc) 0 srcs [];
     window_partition_rows ext s wc srcs (map snd parts) rows
   }"

fun apply_windows ::
  "externals \<Rightarrow> column_store \<Rightarrow> window_column list \<Rightarrow> nat list \<Rightarrow> json_map list \<Rightarrow> json_map list option" where
  "apply_windows ext s [] srcs rows = Some rows"
| "apply_windows ext s (wc # wcs) srcs rows = Option.bind (apply_window ext s wc srcs rows) (apply_windows ext s wcs srcs)"

section \<open>Grouping\<close>

definition agg_types :: "schema \<Rightarrow> aggregate_spec list \<Rightarrow> column_type option list option" where
  "agg_types sch specs =
     those (map (\<lambda>a. if agg_expr a \<noteq> None then Some (Some TDouble)
                     else case agg_col a of None \<Rightarrow> Some None | Some c \<Rightarrow> map_option Some (column_type_at sch c)) specs)"

definition agg_inits :: "aggregate_spec list \<Rightarrow> column_type option list \<Rightarrow> agg_state list" where
  "agg_inits specs tys = map (\<lambda>(a, ty). agg_init (agg_func a) ty (percentile_q a)) (zip specs tys)"

text \<open>What one aggregate is fed for a row; a NaN of an expression is passed on as no value.\<close>

definition agg_input :: "column_store \<Rightarrow> nat \<Rightarrow> aggregate_spec \<Rightarrow> cq_value option option" where
  "agg_input s row a =
     (case agg_expr a of
        Some e \<Rightarrow> map_option (\<lambda>v. if f64_is_nan v then None else Some (VDouble v)) (eval_num s row e)
      | None \<Rightarrow> (case agg_col a of None \<Rightarrow> Some None | Some c \<Rightarrow> map_option Some (get_value s c row)))"

definition update_states ::
  "externals \<Rightarrow> column_store \<Rightarrow> aggregate_spec list \<Rightarrow> nat \<Rightarrow> agg_state list \<Rightarrow> agg_state list option" where
  "update_states ext s specs row states = do {
     vs \<leftarrow> those (map (agg_input s row) specs);
     Some (map (\<lambda>(v, st). agg_update ext v st) (zip vs states))
   }"

definition finalize_states ::
  "externals \<Rightarrow> aggregate_spec list \<Rightarrow> agg_state list \<Rightarrow> json_map \<Rightarrow> json_map option" where
  "finalize_states ext specs states m = do {
     vs \<leftarrow> those (map (agg_finalize ext) states);
     Some (fold (\<lambda>(a, v). obj_insert (agg_alias a) v) (zip specs vs) m)
   }"

fun starts_with :: "string \<Rightarrow> string \<Rightarrow> bool" where
  "starts_with s [] = True"
| "starts_with [] (c # cs) = False"
| "starts_with (d # ds) (c # cs) = (c = d \<and> starts_with ds cs)"

definition apply_post_agg :: "externals \<Rightarrow> parsed_query \<Rightarrow> json_map \<Rightarrow> json_map" where
  "apply_post_agg ext q m =
     (if post_agg q = [] then m
      else filter (\<lambda>(k, _). \<not> starts_with k ''__postagg_'')
             (fold (\<lambda>pa row. obj_insert (pa_alias pa) (post_eval ext row (pa_expr pa)) row) (post_agg q) m))"

text \<open>The output row of a group, or none when HAVING drops it.\<close>

definition group_output ::
  "externals \<Rightarrow> parsed_query \<Rightarrow> schema \<Rightarrow> group_key_part list \<Rightarrow> agg_state list \<Rightarrow> json_map option option" where
  "group_output ext q sch key states = do {
     names \<leftarrow> those (map (column_name_at sch) (group_by q));
     m \<leftarrow> finalize_states ext (aggregates q) states
            (fold (\<lambda>(n, part). obj_insert n (group_key_to_json ext part)) (zip names key) []);
     Some (if (case having q of Some h \<Rightarrow> having_matches ext m h | None \<Rightarrow> True)
           then Some (apply_post_agg ext q m) else None)
   }"

text \<open>The scan: groups in the order they are first seen.\<close>

fun scan_groups ::
  "externals \<Rightarrow> text_ops \<Rightarrow> parsed_query \<Rightarrow> column_store \<Rightarrow> column_type option list \<Rightarrow> nat set option \<Rightarrow> nat list \<Rightarrow>
   (group_key_part list \<times> agg_state list) list \<Rightarrow> (group_key_part list \<times> agg_state list) list option" where
  "scan_groups ext tx q s tys live [] groups = Some groups"
| "scan_groups ext tx q s tys live (row # rows) groups =
     (if (case live of Some l \<Rightarrow> row \<notin> l | None \<Rightarrow> False) then scan_groups ext tx q s tys live rows groups
      else do {
        m \<leftarrow> matches tx s row (predicate q);
        if \<not> m then scan_groups ext tx q s tys live rows groups
        else do {
          key \<leftarrow> row_group_key ext s (group_by q) row;
          states \<leftarrow> update_states ext s (aggregates q) row
                      (case map_of groups key of Some st \<Rightarrow> st | None \<Rightarrow> agg_inits (aggregates q) tys);
          scan_groups ext tx q s tys live rows (AList.update key states groups)
        }
      })"

definition aliases_of :: "parsed_query \<Rightarrow> ((nat \<times> bool) \<times> string option) list" where
  "aliases_of q =
     map (\<lambda>i. (order_by q ! i, if i < length (order_by_aliases q) then order_by_aliases q ! i else None))
       [0..<length (order_by q)]"

definition execute_aggregate_query ::
  "externals \<Rightarrow> text_ops \<Rightarrow> parsed_query \<Rightarrow> column_store \<Rightarrow> sec_index option \<Rightarrow> nat set option \<Rightarrow> query_result option" where
  "execute_aggregate_query ext tx q s ix live = do {
     let sch = cs_schema s;
     _ \<leftarrow> those (map (column_name_at sch) (group_by q));
     tys \<leftarrow> agg_types sch (aggregates q);
     groups \<leftarrow> scan_groups ext tx q s tys live (candidate_list (plan_candidates q s ix)) [];
     let groups' = (if groups = [] \<and> group_by q = [] \<and> aggregates q \<noteq> []
                    then [([], agg_inits (aggregates q) tys)] else groups);
     outs \<leftarrow> those (map (\<lambda>(key, states). group_output ext q sch key states) groups');
     rows \<leftarrow> (if order_by q = [] then Some (List.map_filter id outs)
              else sort_by (compare_outputs sch (aliases_of q)) (List.map_filter id outs));
     let rows' = (case limit q of Some n \<Rightarrow> take n rows | None \<Rightarrow> rows);
     Some \<lparr>qr_rows = rows', total_matches = length rows', source_rows = []\<rparr>
   }"

text \<open>One group from the rows that belong to it. The assertion that there is one is a panic.\<close>

fun update_all ::
  "externals \<Rightarrow> column_store \<Rightarrow> aggregate_spec list \<Rightarrow> nat list \<Rightarrow> agg_state list \<Rightarrow> agg_state list option" where
  "update_all ext s specs [] states = Some states"
| "update_all ext s specs (row # rows) states = Option.bind (update_states ext s specs row states) (update_all ext s specs rows)"

definition aggregate_one_group ::
  "externals \<Rightarrow> parsed_query \<Rightarrow> column_store \<Rightarrow> nat set \<Rightarrow> json_map option option" where
  "aggregate_one_group ext q s members = do {
     let sch = cs_schema s;
     _ \<leftarrow> those (map (column_name_at sch) (group_by q));
     tys \<leftarrow> agg_types sch (aggregates q);
     states \<leftarrow> update_all ext s (aggregates q) (sorted_list_of_set members) (agg_inits (aggregates q) tys);
     anchor \<leftarrow> nth_opt (sorted_list_of_set members) 0;
     key \<leftarrow> row_group_key ext s (group_by q) anchor;
     group_output ext q sch key states
   }"

section \<open>Pivots\<close>

definition pivot_label :: "externals \<Rightarrow> pivot_literal \<Rightarrow> string" where
  "pivot_label ext l =
     (case l of
        PvString s \<Rightarrow> s
      | PvLong n \<Rightarrow> show_int (sint n)
      | PvDouble b \<Rightarrow> f64_text ext b
      | PvBool b \<Rightarrow> (if b then ''true'' else ''false'')
      | PvTimestamp t \<Rightarrow> format_timestamp_micros ext t)"

text \<open>The pivot value of a row as a literal; none for a null.\<close>

definition row_pivot_literal :: "column_store \<Rightarrow> nat \<Rightarrow> nat \<Rightarrow> pivot_literal option option" where
  "row_pivot_literal s col row =
     (case column_type_at (cs_schema s) col of
        None \<Rightarrow> None
      | Some TString \<Rightarrow> map_option (map_option PvString) (get_string s col row)
      | Some TLong \<Rightarrow> map_option (\<lambda>n. if n = NULL_LONG then None else Some (PvLong n)) (get_long s col row)
      | Some TInt \<Rightarrow> map_option (\<lambda>n. if n = NULL_INT then None else Some (PvLong (i32_as_i64 n))) (get_int s col row)
      | Some TDouble \<Rightarrow> map_option (\<lambda>d. if f64_is_nan d then None else Some (PvDouble d)) (get_double s col row)
      | Some TBool \<Rightarrow> map_option (map_option PvBool) (get_bool s col row)
      | Some TTimestamp \<Rightarrow> map_option (\<lambda>t. if t = NULL_TIMESTAMP then None else Some (PvTimestamp t)) (get_timestamp s col row)
      | Some TBytes \<Rightarrow> Some None)"

fun position_of :: "'a \<Rightarrow> 'a list \<Rightarrow> nat option" where
  "position_of x [] = None"
| "position_of x (y # ys) = (if x = y then Some 0 else map_option Suc (position_of x ys))"

text \<open>An \<open>Int\<close> cell is compared with the null of \<open>i64\<close>, so its own null is not recognised here.\<close>

definition match_pivot_value :: "column_store \<Rightarrow> nat \<Rightarrow> pivot_literal list \<Rightarrow> nat \<Rightarrow> nat option option" where
  "match_pivot_value s col values row = do {
     lit \<leftarrow> (if column_type_at (cs_schema s) col = Some TInt
             then map_option (\<lambda>n. if i32_as_i64 n = NULL_LONG then None else Some (PvLong (i32_as_i64 n))) (get_int s col row)
             else row_pivot_literal s col row);
     Some (case lit of Some l \<Rightarrow> position_of l values | None \<Rightarrow> None)
   }"

fun literal_int :: "pivot_literal \<Rightarrow> int" where
  "literal_int (PvLong n) = sint n"
| "literal_int (PvTimestamp n) = sint n"
| "literal_int (PvBool b) = (if b then 1 else 0)"
| "literal_int (PvDouble b) = uint b"
| "literal_int (PvString s) = 0"

fun literal_text :: "pivot_literal \<Rightarrow> string" where
  "literal_text (PvString s) = s"
| "literal_text _ = []"

fun literal_f64_key :: "pivot_literal \<Rightarrow> int" where
  "literal_f64_key (PvDouble b) = f64_key b"
| "literal_f64_key _ = 0"

definition matching_rows :: "text_ops \<Rightarrow> parsed_query \<Rightarrow> column_store \<Rightarrow> sec_index option \<Rightarrow> nat list option" where
  "matching_rows tx q s ix =
     filter_opt (\<lambda>row. matches tx s row (predicate q)) (candidate_list (plan_candidates q s ix))"

definition discover_pivot_values :: "text_ops \<Rightarrow> parsed_query \<Rightarrow> parsed_pivot \<Rightarrow> column_store \<Rightarrow> pivot_literal list option" where
  "discover_pivot_values tx q pv s = do {
     rows \<leftarrow> matching_rows tx q s None;
     lits \<leftarrow> those (map (row_pivot_literal s (pivot_col pv)) rows);
     ty \<leftarrow> column_type_at (cs_schema s) (pivot_col pv);
     let found = remdups (List.map_filter id lits);
     Some (case ty of
             TString \<Rightarrow> sort_key literal_text found
           | TDouble \<Rightarrow> sort_key literal_f64_key (sort_key literal_int found)
           | TBytes \<Rightarrow> []
           | _ \<Rightarrow> sort_key literal_int found)
   }"

definition pivot_output_col_name :: "externals \<Rightarrow> parsed_pivot \<Rightarrow> pivot_literal \<Rightarrow> aggregate_spec \<Rightarrow> string" where
  "pivot_output_col_name ext pv l a =
     (if length (pv_aggregates pv) = 1 then pivot_label ext l else pivot_label ext l @ ''_'' @ agg_alias a)"

text \<open>Aggregates of a pivot read a column or nothing: their expression is not consulted.\<close>

definition pivot_types :: "schema \<Rightarrow> aggregate_spec list \<Rightarrow> column_type option list option" where
  "pivot_types sch specs =
     those (map (\<lambda>a. case agg_col a of None \<Rightarrow> Some None | Some c \<Rightarrow> map_option Some (column_type_at sch c)) specs)"

definition pivot_update ::
  "externals \<Rightarrow> column_store \<Rightarrow> aggregate_spec list \<Rightarrow> nat \<Rightarrow> agg_state list \<Rightarrow> agg_state list option" where
  "pivot_update ext s specs row states = do {
     vs \<leftarrow> those (map (\<lambda>a. case agg_col a of None \<Rightarrow> Some None | Some c \<Rightarrow> map_option Some (get_value s c row)) specs);
     Some (map (\<lambda>(v, st). agg_update ext v st) (zip vs states))
   }"

type_synonym pivot_buckets = "((group_key_part list \<times> nat) \<times> agg_state list) list"

fun scan_pivot ::
  "externals \<Rightarrow> parsed_pivot \<Rightarrow> column_store \<Rightarrow> column_type option list \<Rightarrow> nat list \<Rightarrow>
   group_key_part list list \<Rightarrow> pivot_buckets \<Rightarrow> (group_key_part list list \<times> pivot_buckets) option" where
  "scan_pivot ext pv s tys [] anchors buckets = Some (anchors, buckets)"
| "scan_pivot ext pv s tys (row # rows) anchors buckets = do {
     anchor \<leftarrow> row_group_key ext s (pv_anchor_cols pv) row;
     let anchors' = (if anchor \<in> set anchors then anchors else anchors @ [anchor]);
     hit \<leftarrow> match_pivot_value s (pivot_col pv) (pivot_values pv) row;
     case hit of
       None \<Rightarrow> scan_pivot ext pv s tys rows anchors' buckets
     | Some i \<Rightarrow> do {
         states \<leftarrow> pivot_update ext s (pv_aggregates pv) row
                     (case map_of buckets (anchor, i) of Some st \<Rightarrow> st | None \<Rightarrow> agg_inits (pv_aggregates pv) tys);
         scan_pivot ext pv s tys rows anchors' (AList.update (anchor, i) states buckets)
       }
   }"

definition pivot_cells ::
  "externals \<Rightarrow> parsed_pivot \<Rightarrow> column_type option list \<Rightarrow> pivot_buckets \<Rightarrow> group_key_part list \<Rightarrow>
   (string \<times> json) list option" where
  "pivot_cells ext pv tys buckets anchor =
     those (concat (map (\<lambda>vi.
       (let states = (case map_of buckets (anchor, vi) of Some st \<Rightarrow> st | None \<Rightarrow> agg_inits (pv_aggregates pv) tys)
        in map (\<lambda>ai. map_option (Pair (pivot_output_col_name ext pv (pivot_values pv ! vi) (pv_aggregates pv ! ai)))
                       (agg_finalize ext (states ! ai))) [0..<length (pv_aggregates pv)]))
       [0..<length (pivot_values pv)]))"

definition pivot_output ::
  "externals \<Rightarrow> parsed_pivot \<Rightarrow> schema \<Rightarrow> column_type option list \<Rightarrow> pivot_buckets \<Rightarrow> group_key_part list \<Rightarrow> json_map option" where
  "pivot_output ext pv sch tys buckets anchor = do {
     names \<leftarrow> those (map (column_name_at sch) (pv_anchor_cols pv));
     named \<leftarrow> pivot_cells ext pv tys buckets anchor;
     Some (fold (\<lambda>(n, v). obj_insert n v) named
             (fold (\<lambda>(n, part). obj_insert n (group_key_to_json ext part)) (zip names anchor) []))
   }"

definition static_pivot ::
  "externals \<Rightarrow> text_ops \<Rightarrow> parsed_query \<Rightarrow> parsed_pivot \<Rightarrow> column_store \<Rightarrow> query_result option" where
  "static_pivot ext tx q pv s = do {
     tys \<leftarrow> pivot_types (cs_schema s) (pv_aggregates pv);
     rows \<leftarrow> matching_rows tx q s None;
     (anchors, buckets) \<leftarrow> scan_pivot ext pv s tys rows [] [];
     outs \<leftarrow> those (map (pivot_output ext pv (cs_schema s) tys buckets) anchors);
     Some \<lparr>qr_rows = outs, total_matches = length outs, source_rows = []\<rparr>
   }"

definition execute_pivot_query :: "externals \<Rightarrow> text_ops \<Rightarrow> parsed_query \<Rightarrow> column_store \<Rightarrow> query_result option" where
  "execute_pivot_query ext tx q s = do {
     pv \<leftarrow> pivot q;
     if pv_dynamic pv
     then do {
       found \<leftarrow> discover_pivot_values tx q pv s;
       if found = [] then Some \<lparr>qr_rows = [], total_matches = 0, source_rows = []\<rparr>
       else static_pivot ext tx q (pv\<lparr>pivot_values := found, pv_dynamic := False\<rparr>) s
     }
     else static_pivot ext tx q pv s
   }"

definition unpivot_row :: "externals \<Rightarrow> parsed_unpivot \<Rightarrow> column_store \<Rightarrow> nat \<Rightarrow> json_map list option" where
  "unpivot_row ext up s row = do {
     anchor \<leftarrow> insert_fields ext (column_name_at (cs_schema s)) s row (up_anchor_cols up) [];
     named \<leftarrow> those (map (\<lambda>c. do { n \<leftarrow> column_name_at (cs_schema s) c; v \<leftarrow> get_value s c row; Some (n, v) }) (source_cols up));
     Some (map (\<lambda>(n, v). obj_insert (value_col_name up) (to_json ext v) (obj_insert (name_col_name up) (JString n) anchor))
             (filter (\<lambda>(n, v). \<not> value_is_null v) named))
   }"

definition execute_unpivot_query :: "externals \<Rightarrow> text_ops \<Rightarrow> parsed_query \<Rightarrow> column_store \<Rightarrow> query_result option" where
  "execute_unpivot_query ext tx q s = do {
     up \<leftarrow> unpivot q;
     rows \<leftarrow> matching_rows tx q s None;
     outs \<leftarrow> those (map (unpivot_row ext up s) rows);
     Some \<lparr>qr_rows = concat outs, total_matches = length (concat outs), source_rows = []\<rparr>
   }"

section \<open>Execution\<close>

definition output_row :: "externals \<Rightarrow> parsed_query \<Rightarrow> column_store \<Rightarrow> nat list \<Rightarrow> nat \<Rightarrow> json_map option" where
  "output_row ext q s proj row = do {
     m \<leftarrow> get_row_map_projected ext s row proj;
     if computed q = [] then Some m
     else do {
       vs \<leftarrow> those (map (\<lambda>c. get_value s c row) [0..<column_count (cs_schema s)]);
       Some (fold (\<lambda>cc. obj_insert (cc_alias cc) (to_json ext (scalar_eval vs (cc_expr cc)))) (computed q) m)
     }
   }"

definition effective_projection :: "parsed_query \<Rightarrow> nat \<Rightarrow> nat list" where
  "effective_projection q n = (if projection q = [] then [0..<n] else projection q)"

definition row_window :: "parsed_query \<Rightarrow> 'a list \<Rightarrow> 'a list" where
  "row_window q xs =
     (let ys = (case offset q of Some off \<Rightarrow> if length xs \<le> off then [] else drop off xs | None \<Rightarrow> xs)
      in case limit q of Some n \<Rightarrow> take n ys | None \<Rightarrow> ys)"

definition execute_query_with_index_filtered ::
  "externals \<Rightarrow> text_ops \<Rightarrow> parsed_query \<Rightarrow> column_store \<Rightarrow> sec_index option \<Rightarrow> nat set option \<Rightarrow> query_result option" where
  "execute_query_with_index_filtered ext tx q s ix live =
     (if pivot q \<noteq> None then execute_pivot_query ext tx q s
      else if unpivot q \<noteq> None then execute_unpivot_query ext tx q s
      else if is_aggregate q \<or> group_by q \<noteq> [] then execute_aggregate_query ext tx q s ix live
      else do {
        found \<leftarrow> matching_rows tx q s ix;
        ranked \<leftarrow> (if order_by q = [] then Some found else sort_by (compare_rows s (order_by q)) found);
        let srcs = row_window q ranked;
        rows \<leftarrow> those (map (output_row ext q s (effective_projection q (column_count (cs_schema s)))) srcs);
        rows' \<leftarrow> (if windows q \<noteq> [] \<and> rows \<noteq> [] then apply_windows ext s (windows q) srcs rows else Some rows);
        Some \<lparr>qr_rows = rows', total_matches = length found, source_rows = srcs\<rparr>
      })"

abbreviation execute_query_with_index ::
  "externals \<Rightarrow> text_ops \<Rightarrow> parsed_query \<Rightarrow> column_store \<Rightarrow> sec_index option \<Rightarrow> query_result option" where
  "execute_query_with_index ext tx q s ix \<equiv> execute_query_with_index_filtered ext tx q s ix None"

abbreviation execute_query :: "externals \<Rightarrow> text_ops \<Rightarrow> parsed_query \<Rightarrow> column_store \<Rightarrow> query_result option" where
  "execute_query ext tx q s \<equiv> execute_query_with_index ext tx q s None"

definition project_row :: "externals \<Rightarrow> parsed_query \<Rightarrow> column_store \<Rightarrow> nat \<Rightarrow> json_map option" where
  "project_row ext q s row =
     (if projection q = [] then get_row_map ext s row else get_row_map_projected ext s row (projection q))"

end
