(* ===== verification/CQ_Predicate_Index.thy ===== *)
theory CQ_Predicate_Index
  imports CQ_Predicate_Meaning
begin

text \<open>
  The index from columns to subscriptions of \<open>crates/cq-core/src/predicate_index.rs\<close>: which
  subscriptions to evaluate when a mutation reports the columns it changed. It is shown to be the
  map from subscriptions to the columns of their filters, through any sequence of registrations.
\<close>

section \<open>The index\<close>

record pred_index =
  col_to_subs :: "(nat \<times> string list) list"
  always_subs :: "string list"
  sub_to_cols :: "(string \<times> nat list) list"

definition pi_new :: pred_index where
  "pi_new = \<lparr>col_to_subs = [], always_subs = [], sub_to_cols = []\<rparr>"

definition subs_at :: "nat \<Rightarrow> (nat \<times> string list) list \<Rightarrow> string list" where
  "subs_at c m = (case map_of m c of Some ids \<Rightarrow> ids | None \<Rightarrow> [])"

definition drop_from_column :: "string \<Rightarrow> nat \<Rightarrow> (nat \<times> string list) list \<Rightarrow> (nat \<times> string list) list" where
  "drop_from_column sid c m =
     (case map_of m c of
        None \<Rightarrow> m
      | Some ids \<Rightarrow> let ids' = filter (\<lambda>x. x \<noteq> sid) ids in
                   if ids' = [] then AList.delete c m else AList.update c ids' m)"

definition pi_remove :: "string \<Rightarrow> pred_index \<Rightarrow> pred_index" where
  "pi_remove sid ix =
     (case map_of (sub_to_cols ix) sid of
        None \<Rightarrow> ix
      | Some cs \<Rightarrow>
          let ix' = ix\<lparr>sub_to_cols := AList.delete sid (sub_to_cols ix)\<rparr> in
          if cs = [] then ix'\<lparr>always_subs := filter (\<lambda>x. x \<noteq> sid) (always_subs ix)\<rparr>
          else ix'\<lparr>col_to_subs := fold (drop_from_column sid) cs (col_to_subs ix)\<rparr>)"

definition pi_add :: "string \<Rightarrow> compiled_predicate \<Rightarrow> pred_index \<Rightarrow> pred_index" where
  "pi_add sid p ix =
     (let ix' = (if map_of (sub_to_cols ix) sid \<noteq> None then pi_remove sid ix else ix);
          cs = referenced_columns p;
          ix'' = (if cs = [] then ix'\<lparr>always_subs := always_subs ix' @ [sid]\<rparr>
                  else ix'\<lparr>col_to_subs := fold (\<lambda>c m. AList.update c (subs_at c m @ [sid]) m) cs (col_to_subs ix')\<rparr>)
      in ix''\<lparr>sub_to_cols := AList.update sid cs (sub_to_cols ix'')\<rparr>)"

definition affected :: "pred_index \<Rightarrow> nat list option \<Rightarrow> string list" where
  "affected ix changed =
     (let out = always_subs ix @
            (case changed of
               Some cs \<Rightarrow> concat (map (\<lambda>c. subs_at c (col_to_subs ix)) cs)
             | None \<Rightarrow> concat (map snd (col_to_subs ix)))
      in remdups_adj (sort out))"

definition pi_len :: "pred_index \<Rightarrow> nat" where
  "pi_len ix = length (sub_to_cols ix)"

definition pi_is_empty :: "pred_index \<Rightarrow> bool" where
  "pi_is_empty ix \<longleftrightarrow> sub_to_cols ix = []"

section \<open>What it represents\<close>

text \<open>The registered columns of each subscription.\<close>

definition registered :: "pred_index \<Rightarrow> string \<rightharpoonup> nat list" where
  "registered ix = map_of (sub_to_cols ix)"

definition pi_ok :: "pred_index \<Rightarrow> bool" where
  "pi_ok ix \<longleftrightarrow>
     distinct (map fst (sub_to_cols ix)) \<and> distinct (map fst (col_to_subs ix)) \<and>
     (\<forall>sid. sid \<in> set (always_subs ix) \<longleftrightarrow> registered ix sid = Some []) \<and>
     (\<forall>sid c. sid \<in> set (subs_at c (col_to_subs ix)) \<longleftrightarrow> (\<exists>cs. registered ix sid = Some cs \<and> c \<in> set cs))"

datatype index_op = IdxAdd string compiled_predicate | IdxRemove string

fun index_step :: "index_op \<Rightarrow> pred_index \<Rightarrow> pred_index option" where
  "index_step (IdxAdd sid p) ix = Some (pi_add sid p ix)"
| "index_step (IdxRemove sid) ix = Some (pi_remove sid ix)"

fun index_spec :: "index_op \<Rightarrow> (string \<rightharpoonup> nat list) \<Rightarrow> (string \<rightharpoonup> nat list)" where
  "index_spec (IdxAdd sid p) m = m(sid \<mapsto> referenced_columns p)"
| "index_spec (IdxRemove sid) m = m(sid := None)"

lemma subs_at_drop [simp]:
  "subs_at c (drop_from_column sid c' m) = (if c = c' then filter (\<lambda>x. x \<noteq> sid) (subs_at c m) else subs_at c m)"
  by (auto simp: subs_at_def drop_from_column_def Let_def delete_conv' update_conv' split: option.splits)

lemma subs_at_drops:
  "set (subs_at c (fold (drop_from_column sid) cs m)) = (if c \<in> set cs then set (subs_at c m) - {sid} else set (subs_at c m))"
  by (induction cs arbitrary: m) auto

lemma subs_at_pushes:
  "set (subs_at c (fold (\<lambda>c m. AList.update c (subs_at c m @ [sid]) m) cs m)) =
     (if c \<in> set cs then insert sid (set (subs_at c m)) else set (subs_at c m))"
proof (induction cs arbitrary: m)
  case (Cons c' cs)
  have "subs_at c (AList.update c' ids m) = (if c = c' then ids else subs_at c m)" for ids
    by (simp add: subs_at_def update_conv')
  then show ?case using Cons by auto
qed simp

lemma distinct_drops: "distinct (map fst m) \<Longrightarrow> distinct (map fst (fold (drop_from_column sid) cs m))"
proof (induction cs arbitrary: m)
  case (Cons c cs)
  have "distinct (map fst (drop_from_column sid c m))"
    using Cons.prems by (auto simp: drop_from_column_def Let_def distinct_delete distinct_update split: option.splits)
  with Cons show ?case by simp
qed simp

lemma distinct_pushes: "distinct (map fst m) \<Longrightarrow> distinct (map fst (fold (\<lambda>c m. AList.update c (f c m) m) cs m))"
  by (induction cs arbitrary: m) (simp_all add: distinct_update)

lemma pi_remove_ok:
  assumes "pi_ok ix"
  shows "pi_ok (pi_remove sid ix) \<and> registered (pi_remove sid ix) = (registered ix)(sid := None)"
proof (cases "registered ix sid")
  case None
  then show ?thesis using assms by (auto simp: pi_remove_def registered_def)
next
  case (Some cs)
  then have reg: "registered (pi_remove sid ix) = (registered ix)(sid := None)"
    by (simp add: pi_remove_def registered_def Let_def delete_conv')
  moreover have "distinct (map fst (sub_to_cols (pi_remove sid ix))) \<and> distinct (map fst (col_to_subs (pi_remove sid ix)))"
    using assms Some by (simp add: pi_remove_def registered_def pi_ok_def Let_def distinct_delete distinct_drops)
  moreover have "x \<in> set (always_subs (pi_remove sid ix)) \<longleftrightarrow> registered (pi_remove sid ix) x = Some []" for x
    unfolding reg using assms Some by (auto simp: pi_remove_def registered_def pi_ok_def Let_def)
  moreover have "x \<in> set (subs_at c (col_to_subs (pi_remove sid ix))) \<longleftrightarrow>
      (\<exists>cs. registered (pi_remove sid ix) x = Some cs \<and> c \<in> set cs)" for x c
    unfolding reg using assms Some by (auto simp: pi_remove_def registered_def pi_ok_def Let_def subs_at_drops)
  ultimately show ?thesis by (simp add: pi_ok_def)
qed

lemma pi_add_ok:
  assumes "pi_ok ix"
  shows "pi_ok (pi_add sid p ix) \<and> registered (pi_add sid p ix) = (registered ix)(sid \<mapsto> referenced_columns p)"
proof -
  define ix' where "ix' = (if map_of (sub_to_cols ix) sid \<noteq> None then pi_remove sid ix else ix)"
  have ix': "pi_ok ix'" "registered ix' = (registered ix)(sid := None)"
    using assms pi_remove_ok [OF assms, of sid] by (auto simp: ix'_def registered_def)
  have fresh: "registered ix' sid = None" using ix'(2) by simp
  have add: "pi_add sid p ix = (let ix'' = (if referenced_columns p = [] then ix'\<lparr>always_subs := always_subs ix' @ [sid]\<rparr>
      else ix'\<lparr>col_to_subs := fold (\<lambda>c m. AList.update c (subs_at c m @ [sid]) m) (referenced_columns p) (col_to_subs ix')\<rparr>)
    in ix''\<lparr>sub_to_cols := AList.update sid (referenced_columns p) (sub_to_cols ix'')\<rparr>)"
    by (simp add: pi_add_def ix'_def Let_def)
  have reg: "registered (pi_add sid p ix) = (registered ix')(sid \<mapsto> referenced_columns p)"
    by (simp add: add registered_def Let_def update_conv')
  moreover have "distinct (map fst (sub_to_cols (pi_add sid p ix))) \<and> distinct (map fst (col_to_subs (pi_add sid p ix)))"
    using ix'(1) by (simp add: add pi_ok_def Let_def distinct_update distinct_pushes)
  moreover have "x \<in> set (always_subs (pi_add sid p ix)) \<longleftrightarrow> registered (pi_add sid p ix) x = Some []" for x
    unfolding reg using ix'(1) fresh by (auto simp: add pi_ok_def Let_def)
  moreover have "x \<in> set (subs_at c (col_to_subs (pi_add sid p ix))) \<longleftrightarrow>
      (\<exists>cs. registered (pi_add sid p ix) x = Some cs \<and> c \<in> set cs)" for x c
    unfolding reg using ix'(1) fresh by (auto simp: add pi_ok_def Let_def subs_at_pushes simp del: set_referenced_columns)
  ultimately show ?thesis using ix'(2) by (simp add: pi_ok_def)
qed

interpretation pred_index: refinement pi_ok registered index_step index_spec "\<lambda>_ _. True"
proof
  show "\<exists>t. index_step x s = Some t \<and> pi_ok t \<and> registered t = index_spec x (registered s)" if "pi_ok s" for x s
    using that pi_add_ok pi_remove_ok by (cases x) simp_all
qed

lemma affected_set:
  assumes "pi_ok ix"
  shows "sorted (affected ix changed) \<and> distinct (affected ix changed) \<and>
    set (affected ix changed) = {sid. \<exists>cs. registered ix sid = Some cs \<and>
      (case changed of Some chs \<Rightarrow> cs = [] \<or> (\<exists>c. c \<in> set cs \<and> c \<in> set chs) | None \<Rightarrow> True)}"
proof -
  have reg: "\<forall>sid c. sid \<in> set (subs_at c (col_to_subs ix)) \<longleftrightarrow> (\<exists>cs. registered ix sid = Some cs \<and> c \<in> set cs)"
    "\<forall>sid. sid \<in> set (always_subs ix) \<longleftrightarrow> registered ix sid = Some []" "distinct (map fst (col_to_subs ix))"
    using assms unfolding pi_ok_def by blast+
  have all: "set (concat (map snd (col_to_subs ix))) = {sid. \<exists>cs c. registered ix sid = Some cs \<and> c \<in> set cs}"
  proof -
    have "set (concat (map snd (col_to_subs ix))) = {sid. \<exists>c. sid \<in> set (subs_at c (col_to_subs ix))}"
      using reg(3) by (force simp: subs_at_def dest: map_of_SomeD split: option.splits intro: map_of_is_SomeI)
    then show ?thesis using reg(1) by auto
  qed
  have "cs = [] \<or> (\<exists>c. c \<in> set cs)" for cs :: "nat list" by (cases cs) auto
  then have "set (affected ix None) = {sid. \<exists>cs. registered ix sid = Some cs}"
    using reg(2) all by (fastforce simp: affected_def Let_def)
  moreover have "set (affected ix (Some chs)) = {sid. \<exists>cs. registered ix sid = Some cs \<and> (cs = [] \<or> (\<exists>c. c \<in> set cs \<and> c \<in> set chs))}" for chs
    using reg(1,2) by (fastforce simp: affected_def Let_def)
  moreover have "sorted (affected ix changed)" "distinct (affected ix changed)"
    using sorted_remdups_adj_strict [OF sorted_sort] by (simp_all add: affected_def Let_def strict_sorted_iff)
  ultimately show ?thesis by (cases changed) simp_all
qed

text \<open>
  C19: Whatever sequence of registrations and removals built it, the index answers a mutation with
  exactly the registered subscriptions whose filter reads one of the changed columns or no column
  at all, each once and in order, and with all of them when the changed columns are not known.
\<close>

theorem affected_exact:
  "\<exists>ix. run_steps index_step ops pi_new = Some ix \<and> sorted (affected ix changed) \<and> distinct (affected ix changed) \<and>
    set (affected ix changed) = {sid. \<exists>cs. fold index_spec ops Map.empty sid = Some cs \<and>
      (case changed of Some chs \<Rightarrow> cs = [] \<or> (\<exists>c. c \<in> set cs \<and> c \<in> set chs) | None \<Rightarrow> True)}"
proof -
  have "pi_ok pi_new" "registered pi_new = Map.empty" by (simp_all add: pi_ok_def pi_new_def registered_def subs_at_def)
  moreover have "run_pre (\<lambda>_ _. True) index_spec ops m" for m by (induction ops arbitrary: m) simp_all
  ultimately show ?thesis using pred_index.run_refines [of pi_new ops] affected_set [of _ changed] by force
qed

end
