(* ===== verification/CQ_Subscription.thy ===== *)
theory CQ_Subscription
  imports CQ_Query CQ_Topic CQ_Conflation CQ_Predicate_Index
begin

text \<open>
  Continuous queries of \<open>crates/cq-core/src/subscription.rs\<close>: a subscription with its active set,
  the sparse, top-n and aggregating modes, and the engine that evaluates a mutated row against
  the subscriptions of a topic. A hash map that is iterated is an association list, whose order
  is the iteration order; deltas of different subscriptions do not depend on each other.
\<close>

section \<open>Sort keys\<close>

text \<open>The \<open>compare_values\<close> of this file: floats by \<open>total_cmp\<close>; booleans, instants and bytes all tie.\<close>

definition sort_compare_values :: "cq_value \<Rightarrow> cq_value \<Rightarrow> ordering" where
  "sort_compare_values a b =
     (case (a, b) of
        (VNull, VNull) \<Rightarrow> OrdEqual
      | (VNull, _) \<Rightarrow> OrdLess
      | (_, VNull) \<Rightarrow> OrdGreater
      | (VDouble x, VDouble y) \<Rightarrow> ord_cmp (f64_total_key x) (f64_total_key y)
      | (VLong x, VLong y) \<Rightarrow> ord_cmp (sint x) (sint y)
      | (VInt x, VInt y) \<Rightarrow> ord_cmp (sint x) (sint y)
      | (VString x, VString y) \<Rightarrow> option_cmp ord_cmp x y
      | _ \<Rightarrow> OrdEqual)"

type_synonym sort_key = "(cq_value \<times> bool) list"

definition sort_element_cmp :: "cq_value \<times> bool \<Rightarrow> cq_value \<times> bool \<Rightarrow> ordering" where
  "sort_element_cmp a b = ord_directed (snd a) (sort_compare_values (fst a) (fst b))"

fun sort_key_cmp :: "sort_key \<Rightarrow> sort_key \<Rightarrow> ordering" where
  "sort_key_cmp (a # as) (b # bs) =
     (let c = sort_element_cmp a b in if c \<noteq> OrdEqual then c else sort_key_cmp as bs)"
| "sort_key_cmp _ _ = OrdEqual"

definition build_sort_key :: "column_store \<Rightarrow> nat \<Rightarrow> (nat \<times> bool) list \<Rightarrow> sort_key option" where
  "build_sort_key s row cols = those (map (\<lambda>(c, asc). map_option (\<lambda>v. (v, asc)) (get_value s c row)) cols)"

text \<open>The ordered set of ranked rows: a list in the order of the pairs.\<close>

definition ranked_cmp :: "sort_key \<times> nat \<Rightarrow> sort_key \<times> nat \<Rightarrow> ordering" where
  "ranked_cmp a b = (let c = sort_key_cmp (fst a) (fst b) in if c \<noteq> OrdEqual then c else ord_cmp (snd a) (snd b))"

fun ranked_insert :: "sort_key \<times> nat \<Rightarrow> (sort_key \<times> nat) list \<Rightarrow> (sort_key \<times> nat) list" where
  "ranked_insert x [] = [x]"
| "ranked_insert x (y # ys) =
     (case ranked_cmp x y of OrdLess \<Rightarrow> x # y # ys | OrdEqual \<Rightarrow> y # ys | OrdGreater \<Rightarrow> y # ranked_insert x ys)"

definition ranked_remove :: "sort_key \<times> nat \<Rightarrow> (sort_key \<times> nat) list \<Rightarrow> (sort_key \<times> nat) list" where
  "ranked_remove x ys = filter (\<lambda>y. ranked_cmp x y \<noteq> OrdEqual) ys"

section \<open>Subscriptions\<close>

record topn_state =
  ranked :: "(sort_key \<times> nat) list"
  row_to_key :: "nat \<rightharpoonup> sort_key"
  current_topn :: "nat list"

record aggregate_sub_state =
  last_emitted :: "(string \<times> json_map) list"
  group_rows :: "string \<rightharpoonup> nat set"
  row_group :: "nat \<rightharpoonup> string"
  incremental_ready :: bool

datatype close_reason = TooManyMatches

record subscription =
  sub_id :: string
  sub_query :: parsed_query
  active_set :: "nat set"
  sub_sparse :: bool
  key_cols :: "nat list"
  last_snapshot :: "nat \<rightharpoonup> (nat \<rightharpoonup> cq_value)"
  sub_topn :: "topn_state option"
  live_start_sequence :: nat
  sub_closed :: bool
  max_active :: "nat option"
  sub_close_reason :: "close_reason option"
  sub_aggregate :: "aggregate_sub_state option"

definition topn_default :: topn_state where
  "topn_default = \<lparr>ranked = [], row_to_key = Map.empty, current_topn = []\<rparr>"

definition subscription_new :: "string \<Rightarrow> parsed_query \<Rightarrow> subscription" where
  "subscription_new sid q =
     \<lparr>sub_id = sid, sub_query = q, active_set = {}, sub_sparse = False, key_cols = [], last_snapshot = Map.empty,
      sub_topn = (case limit q of Some n \<Rightarrow> if n > 0 then Some topn_default else None | None \<Rightarrow> None),
      live_start_sequence = 0, sub_closed = False, max_active = None, sub_close_reason = None, sub_aggregate = None\<rparr>"

definition into_aggregating :: "subscription \<Rightarrow> subscription" where
  "into_aggregating sub =
     sub\<lparr>sub_aggregate := Some \<lparr>last_emitted = [], group_rows = Map.empty, row_group = Map.empty, incremental_ready = False\<rparr>\<rparr>"

definition with_max_active :: "nat \<Rightarrow> subscription \<Rightarrow> subscription" where
  "with_max_active cap sub = sub\<lparr>max_active := Some cap\<rparr>"

definition into_sparse :: "nat list \<Rightarrow> subscription \<Rightarrow> subscription" where
  "into_sparse cs sub = sub\<lparr>sub_sparse := True, key_cols := cs\<rparr>"

definition with_live_start :: "nat \<Rightarrow> subscription \<Rightarrow> subscription" where
  "with_live_start seq sub = sub\<lparr>live_start_sequence := seq\<rparr>"

definition close_sub :: "subscription \<Rightarrow> subscription" where
  "close_sub sub = sub\<lparr>sub_closed := True\<rparr>"

definition too_many :: "subscription \<Rightarrow> subscription" where
  "too_many sub = close_sub (sub\<lparr>sub_close_reason := Some TooManyMatches\<rparr>)"

definition make_delta :: "subscription \<Rightarrow> delta_type \<Rightarrow> nat \<Rightarrow> nat \<Rightarrow> json_map \<Rightarrow> delta" where
  "make_delta sub ty row seq body =
     \<lparr>subscription_id = sub_id sub, delta_type = ty, d_row = row, d_sequence = seq, row_data = body\<rparr>"

section \<open>Sparse deltas\<close>

definition snapshot_columns :: "column_store \<Rightarrow> nat \<Rightarrow> nat list \<Rightarrow> (nat \<rightharpoonup> cq_value) option" where
  "snapshot_columns s row cs = do {
     vs \<leftarrow> those (map (\<lambda>c. get_value s c row) cs);
     Some (map_of (rev (zip cs vs)))
   }"

definition put_field :: "externals \<Rightarrow> schema \<Rightarrow> nat \<Rightarrow> cq_value \<Rightarrow> json_map \<Rightarrow> json_map option" where
  "put_field ext sch c v m =
     (if value_is_null v then Some m else map_option (\<lambda>n. obj_insert n (to_json ext v) m) (column_name_at sch c))"

fun diff_columns ::
  "externals \<Rightarrow> (nat \<rightharpoonup> cq_value) option \<Rightarrow> column_store \<Rightarrow> nat \<Rightarrow> nat list \<Rightarrow> nat list \<Rightarrow>
   json_map \<times> (nat \<rightharpoonup> cq_value) \<times> bool \<Rightarrow> (json_map \<times> (nat \<rightharpoonup> cq_value) \<times> bool) option" where
  "diff_columns ext prev s row keys [] acc = Some acc"
| "diff_columns ext prev s row keys (c # cs) (out, snap, changed) = do {
     v \<leftarrow> get_value s c row;
     let snap' = snap(c \<mapsto> v);
     let differs = (case prev of
                      Some p \<Rightarrow> (case p c of Some w \<Rightarrow> \<not> value_eq w v | None \<Rightarrow> True)
                    | None \<Rightarrow> True);
     out' \<leftarrow> (if differs \<or> c \<in> set keys then put_field ext (cs_schema s) c v out else Some out);
     diff_columns ext prev s row keys cs (out', snap', changed \<or> differs)
   }"

fun diff_keys ::
  "externals \<Rightarrow> column_store \<Rightarrow> nat \<Rightarrow> nat list \<Rightarrow> json_map \<times> (nat \<rightharpoonup> cq_value) \<times> bool \<Rightarrow>
   (json_map \<times> (nat \<rightharpoonup> cq_value) \<times> bool) option" where
  "diff_keys ext s row [] acc = Some acc"
| "diff_keys ext s row (k # ks) (out, snap, changed) =
     (if snap k \<noteq> None then diff_keys ext s row ks (out, snap, changed)
      else do {
        v \<leftarrow> get_value s k row;
        out' \<leftarrow> (if changed then put_field ext (cs_schema s) k v out else Some out);
        diff_keys ext s row ks (out', snap(k \<mapsto> v), changed)
      })"

definition diff_update ::
  "externals \<Rightarrow> (nat \<rightharpoonup> cq_value) option \<Rightarrow> column_store \<Rightarrow> nat \<Rightarrow> nat list \<Rightarrow> nat list \<Rightarrow>
   (json_map \<times> (nat \<rightharpoonup> cq_value) \<times> bool) option" where
  "diff_update ext prev s row proj keys = do {
     acc \<leftarrow> diff_columns ext prev s row keys proj ([], Map.empty, False);
     diff_keys ext s row keys acc
   }"

fun key_only_payload :: "externals \<Rightarrow> schema \<Rightarrow> (nat \<rightharpoonup> cq_value) \<Rightarrow> nat list \<Rightarrow> json_map \<Rightarrow> json_map option" where
  "key_only_payload ext sch prev [] out = Some out"
| "key_only_payload ext sch prev (k # ks) out = do {
     out' \<leftarrow> (case prev k of Some v \<Rightarrow> put_field ext sch k v out | None \<Rightarrow> Some out);
     key_only_payload ext sch prev ks out'
   }"

section \<open>Aggregating subscriptions\<close>

definition canonical_parts :: "json_map \<Rightarrow> string list \<Rightarrow> json" where
  "canonical_parts row names =
     JArray (map (\<lambda>n. JArray [JString n, case map_of row n of Some v \<Rightarrow> v | None \<Rightarrow> JNull]) names)"

definition group_key_canonical :: "externals \<Rightarrow> json_map \<Rightarrow> string list \<Rightarrow> string" where
  "group_key_canonical ext row names = json_text ext (canonical_parts row names)"

definition group_key_canonical_from_store :: "externals \<Rightarrow> column_store \<Rightarrow> nat \<Rightarrow> nat list \<Rightarrow> string option" where
  "group_key_canonical_from_store ext s row cs = do {
     names \<leftarrow> those (map (column_name_at (cs_schema s)) cs);
     parts \<leftarrow> row_group_key ext s cs row;
     Some (group_key_canonical ext
             (fold (\<lambda>(n, part). obj_insert n (group_key_to_json ext part)) (zip names parts) []) names)
   }"

fun scan_membership ::
  "externals \<Rightarrow> text_ops \<Rightarrow> parsed_query \<Rightarrow> column_store \<Rightarrow> nat set option \<Rightarrow> nat list \<Rightarrow>
   (string \<rightharpoonup> nat set) \<times> (nat \<rightharpoonup> string) \<Rightarrow> ((string \<rightharpoonup> nat set) \<times> (nat \<rightharpoonup> string)) option" where
  "scan_membership ext tx q s live [] acc = Some acc"
| "scan_membership ext tx q s live (row # rows) (groups, rowg) =
     (if (case live of Some l \<Rightarrow> row \<notin> l | None \<Rightarrow> False) then scan_membership ext tx q s live rows (groups, rowg)
      else do {
        m \<leftarrow> matches tx s row (predicate q);
        if \<not> m then scan_membership ext tx q s live rows (groups, rowg)
        else do {
          key \<leftarrow> group_key_canonical_from_store ext s row (group_by q);
          scan_membership ext tx q s live rows
            (groups(key \<mapsto> insert row (case groups key of Some b \<Rightarrow> b | None \<Rightarrow> {})), rowg(row \<mapsto> key))
        }
      })"

definition build_group_membership ::
  "externals \<Rightarrow> text_ops \<Rightarrow> parsed_query \<Rightarrow> column_store \<Rightarrow> nat set option \<Rightarrow>
   ((string \<rightharpoonup> nat set) \<times> (nat \<rightharpoonup> string)) option" where
  "build_group_membership ext tx q s live =
     scan_membership ext tx q s live (candidate_list (plan_candidates q s None)) (Map.empty, Map.empty)"

definition aggregate_needs_full_recompute :: "parsed_query \<Rightarrow> bool" where
  "aggregate_needs_full_recompute q \<longleftrightarrow>
     q_join q \<noteq> None \<or> pivot q \<noteq> None \<or> unpivot q \<noteq> None \<or> limit q \<noteq> None \<or> offset q \<noteq> None \<or> windows q \<noteq> [] \<or>
     group_by q = []"

definition seed_aggregate_membership ::
  "externals \<Rightarrow> text_ops \<Rightarrow> column_store \<Rightarrow> nat set \<Rightarrow> subscription \<Rightarrow> subscription option" where
  "seed_aggregate_membership ext tx s live sub =
     (if aggregate_needs_full_recompute (sub_query sub) then Some sub
      else do {
        (groups, rowg) \<leftarrow> build_group_membership ext tx (sub_query sub) s (Some live);
        Some (case sub_aggregate sub of
                None \<Rightarrow> sub
              | Some agg \<Rightarrow> sub\<lparr>sub_aggregate := Some (agg\<lparr>group_rows := groups, row_group := rowg, incremental_ready := True\<rparr>)\<rparr>)
      })"

text \<open>Equality of JSON values is that of \<open>serde_json\<close>: floats by \<open>f64\<close>.\<close>

definition number_eq :: "json_number \<Rightarrow> json_number \<Rightarrow> bool" where
  "number_eq a b \<longleftrightarrow>
     num_is_f64 a = num_is_f64 b \<and>
     (if num_is_f64 a
      then (case (num_as_f64 a, num_as_f64 b) of (Some x, Some y) \<Rightarrow> f64_eq x y | (None, None) \<Rightarrow> True | _ \<Rightarrow> False)
      else num_as_i64 a = num_as_i64 b \<and> num_text a = num_text b)"

fun json_eq :: "json \<Rightarrow> json \<Rightarrow> bool" and json_list_eq :: "json list \<Rightarrow> json list \<Rightarrow> bool"
  and json_fields_eq :: "json_map \<Rightarrow> json_map \<Rightarrow> bool" where
  "json_eq (JNumber a) (JNumber b) = number_eq a b"
| "json_eq (JArray xs) (JArray ys) = json_list_eq xs ys"
| "json_eq (JObject xs) (JObject ys) = json_fields_eq xs ys"
| "json_eq JNull JNull = True"
| "json_eq (JBool a) (JBool b) = (a = b)"
| "json_eq (JString a) (JString b) = (a = b)"
| "json_eq _ _ = False"
| "json_list_eq [] [] = True"
| "json_list_eq (x # xs) (y # ys) = (json_eq x y \<and> json_list_eq xs ys)"
| "json_list_eq _ _ = False"
| "json_fields_eq [] [] = True"
| "json_fields_eq ((k, x) # xs) ((k', y) # ys) = (k = k' \<and> json_eq x y \<and> json_fields_eq xs ys)"
| "json_fields_eq _ _ = False"

text \<open>The difference of one group: what is sent and what is remembered.\<close>

definition emit_group ::
  "subscription \<Rightarrow> nat \<Rightarrow> string \<Rightarrow> json_map option \<Rightarrow> (string \<times> json_map) list \<Rightarrow> (string \<times> json_map) list \<times> delta list" where
  "emit_group sub seq key recomputed emitted =
     (case recomputed of
        Some new_row \<Rightarrow>
          (case map_of emitted key of
             None \<Rightarrow> (AList.update key new_row emitted, [make_delta sub DAdd 0 seq new_row])
           | Some prev \<Rightarrow>
               if \<not> json_fields_eq prev new_row
               then (AList.update key new_row emitted, [make_delta sub DUpdate 0 seq new_row])
               else (emitted, []))
      | None \<Rightarrow>
          (case map_of emitted key of
             Some prev \<Rightarrow> (AList.delete key emitted, [make_delta sub DRemove 0 seq prev])
           | None \<Rightarrow> (emitted, [])))"

definition dirty_groups :: "string option \<Rightarrow> string option \<Rightarrow> string list" where
  "dirty_groups old new =
     (case (old, new) of
        (Some a, Some b) \<Rightarrow> if a = b then [b] else [a, b]
      | (Some a, None) \<Rightarrow> [a]
      | (None, Some b) \<Rightarrow> [b]
      | (None, None) \<Rightarrow> [])"

definition move_member ::
  "nat \<Rightarrow> string option \<Rightarrow> string option \<Rightarrow> (string \<rightharpoonup> nat set) \<Rightarrow> (string \<rightharpoonup> nat set)" where
  "move_member row old new groups =
     (if old = new then groups
      else let left = (case old of
                 None \<Rightarrow> groups
               | Some a \<Rightarrow> (case groups a of
                     None \<Rightarrow> groups
                   | Some b \<Rightarrow> if b - {row} = {} then groups(a := None) else groups(a \<mapsto> b - {row})))
           in case new of
                None \<Rightarrow> left
              | Some a \<Rightarrow> left(a \<mapsto> insert row (case left a of Some b \<Rightarrow> b | None \<Rightarrow> {})))"

fun recompute_groups ::
  "externals \<Rightarrow> column_store \<Rightarrow> subscription \<Rightarrow> nat \<Rightarrow> (string \<rightharpoonup> nat set) \<Rightarrow> string list \<Rightarrow> (string \<times> json_map) list \<Rightarrow>
   ((string \<times> json_map) list \<times> delta list) option" where
  "recompute_groups ext s sub seq groups [] emitted = Some (emitted, [])"
| "recompute_groups ext s sub seq groups (key # keys) emitted = do {
     recomputed \<leftarrow> (case groups key of
        Some b \<Rightarrow> if b = {} then Some None else aggregate_one_group ext (sub_query sub) s b
      | None \<Rightarrow> Some None);
     let (emitted', ds) = emit_group sub seq key recomputed emitted;
     (emitted'', ds') \<leftarrow> recompute_groups ext s sub seq groups keys emitted';
     Some (emitted'', ds @ ds')
   }"

definition evaluate_aggregating_incremental ::
  "externals \<Rightarrow> text_ops \<Rightarrow> subscription \<Rightarrow> aggregate_sub_state \<Rightarrow> nat \<Rightarrow> nat \<Rightarrow> mutation_kind \<Rightarrow> column_store \<Rightarrow>
   (subscription \<times> delta list) option" where
  "evaluate_aggregating_incremental ext tx sub agg row seq mk s = do {
     m \<leftarrow> (if mk = MutDelete then Some False else matches tx s row (predicate (sub_query sub)));
     new_key \<leftarrow> (if m then map_option Some (group_key_canonical_from_store ext s row (group_by (sub_query sub))) else Some None);
     let old_key = row_group agg row;
     if old_key = None \<and> new_key = None then Some (sub, [])
     else do {
       let groups = move_member row old_key new_key (group_rows agg);
       (emitted, ds) \<leftarrow> recompute_groups ext s sub seq groups (dirty_groups old_key new_key) (last_emitted agg);
       Some (sub\<lparr>sub_aggregate := Some (agg\<lparr>last_emitted := emitted, group_rows := groups, row_group := (row_group agg)(row := new_key)\<rparr>)\<rparr>, ds)
     }
   }"

definition current_groups :: "externals \<Rightarrow> string list \<Rightarrow> json_map list \<Rightarrow> (string \<times> json_map) list" where
  "current_groups ext names rows = fold (\<lambda>row m. AList.update (group_key_canonical ext row names) row m) rows []"

definition evaluate_aggregating_full ::
  "externals \<Rightarrow> text_ops \<Rightarrow> subscription \<Rightarrow> aggregate_sub_state \<Rightarrow> nat \<Rightarrow> column_store \<Rightarrow> (subscription \<times> delta list) option" where
  "evaluate_aggregating_full ext tx sub agg seq s = do {
     result \<leftarrow> execute_query_with_index ext tx (sub_query sub) s None;
     names \<leftarrow> those (map (column_name_at (cs_schema s)) (group_by (sub_query sub)));
     let current = current_groups ext names (qr_rows result);
     let changed = List.map_filter (\<lambda>(k, row).
           case map_of (last_emitted agg) k of
             None \<Rightarrow> Some (make_delta sub DAdd 0 seq row)
           | Some prev \<Rightarrow> if \<not> json_fields_eq prev row then Some (make_delta sub DUpdate 0 seq row) else None) current;
     let gone = List.map_filter (\<lambda>(k, prev).
           if map_of current k = None then Some (make_delta sub DRemove 0 seq prev) else None) (last_emitted agg);
     Some (sub\<lparr>sub_aggregate := Some (agg\<lparr>last_emitted := current\<rparr>)\<rparr>, changed @ gone)
   }"

definition evaluate_aggregating ::
  "externals \<Rightarrow> text_ops \<Rightarrow> subscription \<Rightarrow> aggregate_sub_state \<Rightarrow> nat \<Rightarrow> nat \<Rightarrow> mutation_kind \<Rightarrow> column_store \<Rightarrow>
   (subscription \<times> delta list) option" where
  "evaluate_aggregating ext tx sub agg row seq mk s =
     (if \<not> incremental_ready agg \<or> aggregate_needs_full_recompute (sub_query sub)
      then evaluate_aggregating_full ext tx sub agg seq s
      else evaluate_aggregating_incremental ext tx sub agg row seq mk s)"

section \<open>Top-n subscriptions\<close>

definition topn_rows :: "nat \<Rightarrow> (sort_key \<times> nat) list \<Rightarrow> nat list" where
  "topn_rows n rk = map snd (take n rk)"

definition rerank ::
  "text_ops \<Rightarrow> column_store \<Rightarrow> parsed_query \<Rightarrow> nat \<Rightarrow> topn_state \<Rightarrow> (topn_state \<times> bool) option" where
  "rerank tx s q row tn = do {
     m \<leftarrow> matches tx s row (predicate q);
     let rk = (case row_to_key tn row of Some old \<Rightarrow> ranked_remove (old, row) (ranked tn) | None \<Rightarrow> ranked tn);
     if m then do {
       key \<leftarrow> build_sort_key s row (order_by q);
       Some (tn\<lparr>ranked := ranked_insert (key, row) rk, row_to_key := (row_to_key tn)(row \<mapsto> key)\<rparr>, True)
     }
     else Some (tn\<lparr>ranked := rk, row_to_key := (row_to_key tn)(row := None)\<rparr>, False)
   }"

definition evaluate_topn ::
  "externals \<Rightarrow> text_ops \<Rightarrow> subscription \<Rightarrow> topn_state \<Rightarrow> nat \<Rightarrow> nat \<Rightarrow> column_store \<Rightarrow> (subscription \<times> delta list) option" where
  "evaluate_topn ext tx sub tn row seq s =
     (let n = (case limit (sub_query sub) of Some x \<Rightarrow> x | None \<Rightarrow> 0); q = sub_query sub in
      if n = 0 then Some (sub, [])
      else do {
        (tn', m) \<leftarrow> rerank tx s q row tn;
        let new = topn_rows n (ranked tn');
        let old = current_topn tn;
        added \<leftarrow> those (map (\<lambda>r. map_option (make_delta sub DAdd r seq) (project_row ext q s r)) (filter (\<lambda>r. r \<notin> set old) new));
        left \<leftarrow> those (map (\<lambda>r. map_option (make_delta sub (if row_to_key tn' r \<noteq> None then DOof else DRemove) r seq)
                                   (project_row ext q s r)) (filter (\<lambda>r. r \<notin> set new) old));
        kept \<leftarrow> (if row \<in> set old \<and> row \<in> set new
                 then map_option (\<lambda>d. [make_delta sub DUpdate row seq d]) (project_row ext q s row) else Some []);
        Some (sub\<lparr>sub_topn := Some (tn'\<lparr>current_topn := new\<rparr>),
                  active_set := (if m then insert row (active_set sub) else active_set sub - {row})\<rparr>,
              added @ left @ kept)
      })"

section \<open>One row against one subscription\<close>

definition evaluate_plain ::
  "externals \<Rightarrow> text_ops \<Rightarrow> subscription \<Rightarrow> nat \<Rightarrow> nat \<Rightarrow> mutation_kind \<Rightarrow> column_store \<Rightarrow> (subscription \<times> delta list) option" where
  "evaluate_plain ext tx sub row seq mk s = do {
     let q = sub_query sub;
     m \<leftarrow> (if mk = MutDelete then Some False else matches tx s row (predicate q));
     let was_active = row \<in> active_set sub;
     let proj = effective_projection q (column_count (cs_schema s));
     if m \<and> \<not> was_active then
       (if (case max_active sub of Some cap \<Rightarrow> cap \<le> card (active_set sub) | None \<Rightarrow> False) then Some (too_many sub, [])
        else do {
          d \<leftarrow> project_row ext q s row;
          let sub1 = sub\<lparr>active_set := insert row (active_set sub)\<rparr>;
          sub2 \<leftarrow> (if sub_sparse sub
                    then map_option (\<lambda>snap. sub1\<lparr>last_snapshot := (last_snapshot sub)(row \<mapsto> snap)\<rparr>) (snapshot_columns s row proj)
                    else Some sub1);
          Some (sub2, [make_delta sub DAdd row seq d])
        })
     else if m \<and> was_active then
       (if sub_sparse sub then do {
          (payload, snap, changed) \<leftarrow> diff_update ext (last_snapshot sub row) s row proj (key_cols sub);
          Some (sub\<lparr>last_snapshot := (last_snapshot sub)(row \<mapsto> snap)\<rparr>,
                if changed then [make_delta sub DUpdate row seq payload] else [])
        }
        else map_option (\<lambda>d. (sub, [make_delta sub DUpdate row seq d])) (project_row ext q s row))
     else if \<not> m \<and> was_active then do {
       let sub1 = sub\<lparr>active_set := active_set sub - {row}\<rparr>;
       d \<leftarrow> (if sub_sparse sub
             then key_only_payload ext (cs_schema s) (case last_snapshot sub row of Some p \<Rightarrow> p | None \<Rightarrow> Map.empty) (key_cols sub) []
             else if mk = MutDelete then Some [] else project_row ext q s row);
       Some ((if sub_sparse sub then sub1\<lparr>last_snapshot := (last_snapshot sub)(row := None)\<rparr> else sub1),
             [make_delta sub (if mk = MutDelete then DRemove else DOof) row seq d])
     }
     else Some (sub, [])
   }"

definition evaluate_sub ::
  "externals \<Rightarrow> text_ops \<Rightarrow> subscription \<Rightarrow> nat \<Rightarrow> nat \<Rightarrow> mutation_kind \<Rightarrow> column_store \<Rightarrow> (subscription \<times> delta list) option" where
  "evaluate_sub ext tx sub row seq mk s =
     (if sub_closed sub \<or> seq < live_start_sequence sub then Some (sub, [])
      else case sub_aggregate sub of
        Some agg \<Rightarrow> evaluate_aggregating ext tx sub agg row seq mk s
      | None \<Rightarrow> (case sub_topn sub of
          Some tn \<Rightarrow> evaluate_topn ext tx sub tn row seq s
        | None \<Rightarrow> evaluate_plain ext tx sub row seq mk s))"

section \<open>The engine\<close>

record subscription_engine =
  subscriptions :: "(string \<times> subscription) list"
  predicate_index :: pred_index

definition engine_new :: subscription_engine where
  "engine_new = \<lparr>subscriptions = [], predicate_index = pi_new\<rparr>"

definition engine_add :: "subscription \<Rightarrow> subscription_engine \<Rightarrow> subscription_engine" where
  "engine_add sub e =
     e\<lparr>predicate_index := pi_add (sub_id sub) (predicate (sub_query sub)) (predicate_index e),
       subscriptions := AList.update (sub_id sub) sub (subscriptions e)\<rparr>"

definition engine_remove :: "string \<Rightarrow> subscription_engine \<Rightarrow> subscription option \<times> subscription_engine" where
  "engine_remove sid e =
     (map_of (subscriptions e) sid,
      e\<lparr>predicate_index := pi_remove sid (predicate_index e), subscriptions := AList.delete sid (subscriptions e)\<rparr>)"

definition engine_remove_by_prefix :: "string \<Rightarrow> subscription_engine \<Rightarrow> nat \<times> subscription_engine" where
  "engine_remove_by_prefix pre e =
     (let gone = filter (\<lambda>sid. starts_with sid pre) (map fst (subscriptions e)) in
      (length gone,
       e\<lparr>predicate_index := fold pi_remove gone (predicate_index e),
         subscriptions := filter (\<lambda>(sid, _). \<not> starts_with sid pre) (subscriptions e)\<rparr>))"

definition mark_closed :: "string \<Rightarrow> subscription_engine \<Rightarrow> bool \<times> subscription_engine" where
  "mark_closed sid e =
     (case map_of (subscriptions e) sid of
        Some sub \<Rightarrow> (True, e\<lparr>subscriptions := AList.update sid (close_sub sub) (subscriptions e)\<rparr>)
      | None \<Rightarrow> (False, e))"

definition reap_closed :: "subscription_engine \<Rightarrow> nat \<times> subscription_engine" where
  "reap_closed e =
     (let gone = map fst (filter (\<lambda>(_, sub). sub_closed sub) (subscriptions e)) in
      (length gone,
       e\<lparr>predicate_index := fold pi_remove gone (predicate_index e),
         subscriptions := fold AList.delete gone (subscriptions e)\<rparr>))"

fun seed_rows :: "text_ops \<Rightarrow> column_store \<Rightarrow> nat list \<Rightarrow> nat list \<Rightarrow> subscription \<Rightarrow> (subscription \<times> bool) option" where
  "seed_rows tx s proj [] sub = Some (sub, True)"
| "seed_rows tx s proj (row # rows) sub = do {
     m \<leftarrow> matches tx s row (predicate (sub_query sub));
     if \<not> m then seed_rows tx s proj rows sub
     else if (case max_active sub of Some cap \<Rightarrow> cap \<le> card (active_set sub) | None \<Rightarrow> False) then Some (too_many sub, False)
     else do {
       let sub1 = sub\<lparr>active_set := insert row (active_set sub)\<rparr>;
       sub2 \<leftarrow> (if sub_sparse sub
                 then map_option (\<lambda>snap. sub1\<lparr>last_snapshot := (last_snapshot sub)(row \<mapsto> snap)\<rparr>) (snapshot_columns s row proj)
                 else Some sub1);
       sub3 \<leftarrow> (case sub_topn sub of
                   None \<Rightarrow> Some sub2
                 | Some tn \<Rightarrow> map_option (\<lambda>key. sub2\<lparr>sub_topn := Some (tn\<lparr>ranked := ranked_insert (key, row) (ranked tn),
                                                                   row_to_key := (row_to_key tn)(row \<mapsto> key)\<rparr>)\<rparr>)
                                (build_sort_key s row (order_by (sub_query sub))));
       seed_rows tx s proj rows sub3
     }
   }"

definition seed_subscription :: "text_ops \<Rightarrow> column_store \<Rightarrow> subscription \<Rightarrow> subscription option" where
  "seed_subscription tx s sub = do {
     (sub', done_all) \<leftarrow> seed_rows tx s (effective_projection (sub_query sub) (column_count (cs_schema s))) [0..<row_count s] sub;
     Some (if \<not> done_all then sub'
           else case sub_topn sub' of
             None \<Rightarrow> sub'
           | Some tn \<Rightarrow> sub'\<lparr>sub_topn := Some (tn\<lparr>current_topn :=
                 topn_rows (case limit (sub_query sub') of Some n \<Rightarrow> n | None \<Rightarrow> 0) (ranked tn)\<rparr>)\<rparr>)
   }"

definition seed_active_set :: "text_ops \<Rightarrow> column_store \<Rightarrow> string \<Rightarrow> subscription_engine \<Rightarrow> subscription_engine option" where
  "seed_active_set tx s sid e =
     (case map_of (subscriptions e) sid of
        None \<Rightarrow> Some e
      | Some sub \<Rightarrow> map_option (\<lambda>sub'. e\<lparr>subscriptions := AList.update sid sub' (subscriptions e)\<rparr>) (seed_subscription tx s sub))"

fun evaluate_ids ::
  "externals \<Rightarrow> text_ops \<Rightarrow> nat \<Rightarrow> nat \<Rightarrow> mutation_kind \<Rightarrow> column_store \<Rightarrow> string list \<Rightarrow> (string \<times> subscription) list \<Rightarrow>
   ((string \<times> subscription) list \<times> delta list) option" where
  "evaluate_ids ext tx row seq mk s [] subs = Some (subs, [])"
| "evaluate_ids ext tx row seq mk s (sid # sids) subs =
     (case map_of subs sid of
        None \<Rightarrow> evaluate_ids ext tx row seq mk s sids subs
      | Some sub \<Rightarrow> do {
          (sub', ds) \<leftarrow> evaluate_sub ext tx sub row seq mk s;
          (subs', ds') \<leftarrow> evaluate_ids ext tx row seq mk s sids (AList.update sid sub' subs);
          Some (subs', ds @ ds')
        })"

definition evaluate_row_kind_indexed ::
  "externals \<Rightarrow> text_ops \<Rightarrow> nat \<Rightarrow> nat \<Rightarrow> column_store \<Rightarrow> mutation_kind \<Rightarrow> nat list option \<Rightarrow> subscription_engine \<Rightarrow>
   (subscription_engine \<times> delta list) option" where
  "evaluate_row_kind_indexed ext tx row seq s mk changed e = do {
     let sids = (case changed of Some cs \<Rightarrow> affected (predicate_index e) (Some cs) | None \<Rightarrow> map fst (subscriptions e));
     (subs, ds) \<leftarrow> evaluate_ids ext tx row seq mk s sids (subscriptions e);
     Some (e\<lparr>subscriptions := subs\<rparr>, ds)
   }"

definition evaluate_row_kind ::
  "externals \<Rightarrow> text_ops \<Rightarrow> nat \<Rightarrow> nat \<Rightarrow> column_store \<Rightarrow> mutation_kind \<Rightarrow> subscription_engine \<Rightarrow>
   (subscription_engine \<times> delta list) option" where
  "evaluate_row_kind ext tx row seq s mk e = evaluate_row_kind_indexed ext tx row seq s mk None e"

definition evaluate_row ::
  "externals \<Rightarrow> text_ops \<Rightarrow> nat \<Rightarrow> nat \<Rightarrow> column_store \<Rightarrow> subscription_engine \<Rightarrow> (subscription_engine \<times> delta list) option" where
  "evaluate_row ext tx row seq s e = evaluate_row_kind ext tx row seq s MutUpsert e"

end
