(* ===== verification/CQ_Topic_Query.thy ===== *)
theory CQ_Topic_Query
  imports CQ_Subscription
begin

text \<open>
  The query, subscription and evaluator functions of \<open>crates/cq-core/src/topic.rs\<close>: a topic with
  its evaluation lanes. The SQL parser is an argument, and so is the hash that assigns a
  subscription to a lane. What a streaming query emits is the list of its batches.
\<close>

record live_topic =
  lt_topic :: topic
  sub_engines :: "subscription_engine list"

type_synonym 'e parser = "string \<Rightarrow> schema \<Rightarrow> 'e + parsed_query"

definition key_rows :: "topic \<Rightarrow> nat set" where
  "key_rows t = set (map snd (key_to_row (tp_state t)))"

definition has_keys :: "topic \<Rightarrow> bool" where
  "has_keys t \<longleftrightarrow> cfg_key_fields (tp_config t) \<noteq> []"

section \<open>Queries\<close>

definition execute_parsed_query :: "externals \<Rightarrow> text_ops \<Rightarrow> topic \<Rightarrow> parsed_query \<Rightarrow> query_result option" where
  "execute_parsed_query ext tx t q =
     execute_query_with_index_filtered ext tx q (st_store (tp_state t)) (Some (secondary_index (tp_state t))) (Some (key_rows t))"

definition synth_output :: "parsed_query \<Rightarrow> bool" where
  "synth_output q \<longleftrightarrow> is_aggregate q \<or> group_by q \<noteq> [] \<or> is_pivot q"

definition keep_live :: "nat set \<Rightarrow> query_result \<Rightarrow> (json_map \<times> nat) list" where
  "keep_live live res = filter (\<lambda>(_, src). src \<in> live) (zip (qr_rows res) (source_rows res))"

definition topic_query ::
  "externals \<Rightarrow> text_ops \<Rightarrow> 'e parser \<Rightarrow> topic \<Rightarrow> string \<Rightarrow> ('e + query_result) option" where
  "topic_query ext tx parse t sql =
     (case parse sql (st_schema (tp_state t)) of
        Inl e \<Rightarrow> Some (Inl e)
      | Inr q \<Rightarrow> do {
          res \<leftarrow> execute_query_with_index ext tx q (st_store (tp_state t)) (Some (secondary_index (tp_state t)));
          Some (Inr (if \<not> synth_output q \<and> has_keys t
                     then let kept = keep_live (key_rows t) res in
                          \<lparr>qr_rows = map fst kept, total_matches = length kept, source_rows = map snd kept\<rparr>
                     else res))
        })"

definition needs_full_buffer :: "parsed_query \<Rightarrow> bool" where
  "needs_full_buffer q \<longleftrightarrow>
     order_by q \<noteq> [] \<or> limit q \<noteq> None \<or> is_aggregate q \<or> group_by q \<noteq> [] \<or> computed q \<noteq> [] \<or> is_pivot q \<or> windows q \<noteq> []"

fun chunks :: "nat \<Rightarrow> 'a list \<Rightarrow> 'a list list" where
  "chunks n xs = (if xs = [] then [] else take (max n 1) xs # chunks n (drop (max n 1) xs))"

declare chunks.simps [simp del]

text \<open>The rows a streaming query walks without a buffer.\<close>

definition streamed_rows :: "text_ops \<Rightarrow> topic \<Rightarrow> parsed_query \<Rightarrow> nat list option" where
  "streamed_rows tx t q =
     filter_opt (\<lambda>row. if has_keys t \<and> row \<notin> key_rows t then Some False else matches tx (st_store (tp_state t)) row (predicate q))
       (candidate_list (plan_candidates q (st_store (tp_state t)) (Some (secondary_index (tp_state t)))))"

definition query_streaming ::
  "externals \<Rightarrow> text_ops \<Rightarrow> 'e parser \<Rightarrow> topic \<Rightarrow> string \<Rightarrow> nat \<Rightarrow> ('e + nat \<times> json_map list list) option" where
  "query_streaming ext tx parse t sql batch_size =
     (case parse sql (st_schema (tp_state t)) of
        Inl e \<Rightarrow> Some (Inl e)
      | Inr q \<Rightarrow>
          if needs_full_buffer q then do {
            res \<leftarrow> execute_query_with_index ext tx q (st_store (tp_state t)) (Some (secondary_index (tp_state t)));
            let rows = (if \<not> (is_aggregate q \<or> group_by q \<noteq> []) \<and> has_keys t then map fst (keep_live (key_rows t) res) else qr_rows res);
            Some (Inr (length rows, chunks batch_size rows))
          } else do {
            srcs \<leftarrow> streamed_rows tx t q;
            rows \<leftarrow> those (map (\<lambda>r. get_row_map_projected ext (st_store (tp_state t)) r
                                  (effective_projection q (column_count (st_schema (tp_state t))))) srcs);
            Some (Inr (length rows, chunks batch_size rows))
          })"

definition query_streaming_json ::
  "externals \<Rightarrow> text_ops \<Rightarrow> json_io \<Rightarrow> 'e parser \<Rightarrow> topic \<Rightarrow> string \<Rightarrow> nat \<Rightarrow> ('e + nat \<times> string list list) option" where
  "query_streaming_json ext tx io parse t sql batch_size =
     (case parse sql (st_schema (tp_state t)) of
        Inl e \<Rightarrow> Some (Inl e)
      | Inr q \<Rightarrow>
          if needs_full_buffer q then do {
            res \<leftarrow> execute_query_with_index ext tx q (st_store (tp_state t)) (Some (secondary_index (tp_state t)));
            let rows = (if \<not> synth_output q \<and> has_keys t then map fst (keep_live (key_rows t) res) else qr_rows res);
            Some (Inr (length rows, chunks batch_size
              (map (\<lambda>row. case to_vec io (JObject row) of Some b \<Rightarrow> b | None \<Rightarrow> ''{}'') rows)))
          } else do {
            srcs \<leftarrow> streamed_rows tx t q;
            rows \<leftarrow> those (map (\<lambda>r. write_row_json_projected ext (st_store (tp_state t)) r
                                  (effective_projection q (column_count (st_schema (tp_state t)))) []) srcs);
            Some (Inr (length rows, chunks batch_size rows))
          })"

section \<open>Lanes\<close>

definition engine_for :: "(string \<Rightarrow> nat) \<Rightarrow> live_topic \<Rightarrow> string \<Rightarrow> nat" where
  "engine_for hash lt sid = (if length (sub_engines lt) = 1 then 0 else hash sid mod length (sub_engines lt))"

definition on_engine ::
  "(string \<Rightarrow> nat) \<Rightarrow> string \<Rightarrow> (subscription_engine \<Rightarrow> subscription_engine option) \<Rightarrow> live_topic \<Rightarrow> live_topic option" where
  "on_engine hash sid f lt = do {
     e \<leftarrow> nth_opt (sub_engines lt) (engine_for hash lt sid);
     e' \<leftarrow> f e;
     Some (lt\<lparr>sub_engines := (sub_engines lt)[engine_for hash lt sid := e']\<rparr>)
   }"

definition count_subs :: "int \<Rightarrow> live_topic \<Rightarrow> live_topic" where
  "count_subs n lt = lt\<lparr>lt_topic := (lt_topic lt)\<lparr>active_subscriptions := nat (int (active_subscriptions (lt_topic lt)) + n)\<rparr>\<rparr>"

section \<open>Subscribing\<close>

definition seed_emitted ::
  "externals \<Rightarrow> text_ops \<Rightarrow> store_state \<Rightarrow> nat set \<Rightarrow> query_result \<Rightarrow> subscription \<Rightarrow> subscription option" where
  "seed_emitted ext tx st live res sub = do {
     names \<leftarrow> those (map (column_name_at (st_schema st)) (group_by (sub_query sub)));
     let sub1 = into_aggregating sub;
     let sub2 = sub1\<lparr>sub_aggregate := map_option (\<lambda>agg. agg\<lparr>last_emitted :=
           fold (\<lambda>row m. AList.update (group_key_canonical ext row names) row m) (qr_rows res) (last_emitted agg)\<rparr>) (sub_aggregate sub1)\<rparr>;
     seed_aggregate_membership ext tx (st_store st) live sub2
   }"

definition with_pivot_groups :: "parsed_query \<Rightarrow> parsed_query" where
  "with_pivot_groups q =
     (case pivot q of Some p \<Rightarrow> if group_by q = [] then q\<lparr>group_by := pv_anchor_cols p\<rparr> else q | None \<Rightarrow> q)"

definition new_sub :: "topic \<Rightarrow> string \<Rightarrow> parsed_query \<Rightarrow> bool \<Rightarrow> subscription" where
  "new_sub t sid q sparse =
     (let sub = with_live_start (next_sequence t + 1) (subscription_new sid q) in
      if sparse then into_sparse (key_col_indices (tp_state t)) sub else sub)"

definition subscribe_register ::
  "externals \<Rightarrow> text_ops \<Rightarrow> (string \<Rightarrow> nat) \<Rightarrow> 'e parser \<Rightarrow> live_topic \<Rightarrow> string \<Rightarrow> string \<Rightarrow> bool \<Rightarrow>
   (('e + parsed_query) \<times> live_topic) option" where
  "subscribe_register ext tx hash parse lt sid sql sparse =
     (let t = lt_topic lt; st = tp_state t in
      case parse sql (st_schema st) of
        Inl e \<Rightarrow> Some (Inl e, lt)
      | Inr q0 \<Rightarrow> do {
          let q = with_pivot_groups q0;
          let sub = new_sub t sid q sparse;
          lt' \<leftarrow> (if is_aggregate q \<or> group_by q \<noteq> [] \<or> pivot q \<noteq> None then do {
                    res \<leftarrow> execute_query_with_index_filtered ext tx q (st_store st) (Some (secondary_index st)) (Some (key_rows t));
                    sub' \<leftarrow> seed_emitted ext tx st (key_rows t) res sub;
                    on_engine hash sid (\<lambda>e. Some (engine_add sub' e)) lt
                  } else on_engine hash sid (\<lambda>e. seed_active_set tx (st_store st) sid (engine_add sub e)) lt);
          Some (Inr q, count_subs 1 lt')
        })"

definition key_fields_only :: "schema \<Rightarrow> nat list \<Rightarrow> json_map \<Rightarrow> json_map option" where
  "key_fields_only sch keys row = do {
     names \<leftarrow> those (map (column_name_at sch) keys);
     Some (fold (\<lambda>n out. case map_of row n of Some v \<Rightarrow> obj_insert n v out | None \<Rightarrow> out) names [])
   }"

definition subscribe_inner ::
  "externals \<Rightarrow> text_ops \<Rightarrow> (string \<Rightarrow> nat) \<Rightarrow> 'e parser \<Rightarrow> live_topic \<Rightarrow> string \<Rightarrow> string \<Rightarrow> bool \<Rightarrow> bool \<Rightarrow>
   (('e + json_map list \<times> parsed_query) \<times> live_topic) option" where
  "subscribe_inner ext tx hash parse lt sid sql sparse send_keys =
     (let t = lt_topic lt; st = tp_state t in
      case parse sql (st_schema st) of
        Inl e \<Rightarrow> Some (Inl e, lt)
      | Inr q \<Rightarrow> do {
          let agg = (is_aggregate q \<or> group_by q \<noteq> []);
          res \<leftarrow> (if agg
                   then execute_query_with_index_filtered ext tx q (st_store st) (Some (secondary_index st)) (Some (key_rows t))
                   else execute_query ext tx q (st_store st));
          let rows = (if \<not> agg \<and> has_keys t then map fst (keep_live (key_rows t) res) else qr_rows res);
          let sub = new_sub t sid q sparse;
          lt' \<leftarrow> (if agg then do {
                    sub' \<leftarrow> seed_emitted ext tx st (key_rows t) (res\<lparr>qr_rows := rows\<rparr>) sub;
                    on_engine hash sid (\<lambda>e. Some (engine_add sub' e)) lt
                  } else on_engine hash sid (\<lambda>e. seed_active_set tx (st_store st) sid (engine_add sub e)) lt);
          out \<leftarrow> (if send_keys then those (map (key_fields_only (st_schema st) (key_col_indices st)) rows) else Some rows);
          Some (Inr (out, q), count_subs 1 lt')
        })"

definition subscribe_with_bookmark ::
  "text_ops \<Rightarrow> (string \<Rightarrow> nat) \<Rightarrow> 'e parser \<Rightarrow> live_topic \<Rightarrow> string \<Rightarrow> string \<Rightarrow> (('e + parsed_query \<times> nat) \<times> live_topic) option" where
  "subscribe_with_bookmark tx hash parse lt sid sql =
     (let t = lt_topic lt; st = tp_state t in
      case parse sql (st_schema st) of
        Inl e \<Rightarrow> Some (Inl e, lt)
      | Inr q \<Rightarrow> do {
          lt' \<leftarrow> on_engine hash sid (\<lambda>e. seed_active_set tx (st_store st) sid (engine_add (new_sub t sid q False) e)) lt;
          Some (Inr (q, next_sequence t), count_subs 1 lt')
        })"

definition subscribe_with_cap ::
  "externals \<Rightarrow> text_ops \<Rightarrow> (string \<Rightarrow> nat) \<Rightarrow> 'e parser \<Rightarrow> live_topic \<Rightarrow> string \<Rightarrow> string \<Rightarrow> nat \<Rightarrow>
   (('e + json_map list \<times> parsed_query) \<times> live_topic) option" where
  "subscribe_with_cap ext tx hash parse lt sid sql cap =
     (let t = lt_topic lt; st = tp_state t in
      case parse sql (st_schema st) of
        Inl e \<Rightarrow> Some (Inl e, lt)
      | Inr q \<Rightarrow> do {
          res \<leftarrow> execute_query ext tx q (st_store st);
          let rows = (if \<not> (is_aggregate q \<or> group_by q \<noteq> []) \<and> has_keys t then map fst (keep_live (key_rows t) res) else qr_rows res);
          lt' \<leftarrow> on_engine hash sid (\<lambda>e. seed_active_set tx (st_store st) sid
                    (engine_add (with_max_active cap (new_sub t sid q False)) e)) lt;
          Some (Inr (rows, q), count_subs 1 lt')
        })"

definition unsubscribe :: "(string \<Rightarrow> nat) \<Rightarrow> string \<Rightarrow> live_topic \<Rightarrow> live_topic option" where
  "unsubscribe hash sid lt = do {
     e \<leftarrow> nth_opt (sub_engines lt) (engine_for hash lt sid);
     let (old, e') = engine_remove sid (snd (mark_closed sid e));
     let lt' = lt\<lparr>sub_engines := (sub_engines lt)[engine_for hash lt sid := e']\<rparr>;
     Some (if old \<noteq> None then count_subs (-1) lt' else lt')
   }"

definition unsubscribe_prefix :: "string \<Rightarrow> live_topic \<Rightarrow> live_topic" where
  "unsubscribe_prefix pre lt =
     (let rs = map (engine_remove_by_prefix pre) (sub_engines lt) in
      count_subs (- int (sum_list (map fst rs))) (lt\<lparr>sub_engines := map snd rs\<rparr>))"

definition close_subscription :: "(string \<Rightarrow> nat) \<Rightarrow> string \<Rightarrow> live_topic \<Rightarrow> (bool \<times> live_topic) option" where
  "close_subscription hash sid lt = do {
     e \<leftarrow> nth_opt (sub_engines lt) (engine_for hash lt sid);
     let (found, e') = mark_closed sid e;
     Some (found, lt\<lparr>sub_engines := (sub_engines lt)[engine_for hash lt sid := e']\<rparr>)
   }"

definition reap_closed_subscriptions :: "live_topic \<Rightarrow> nat \<times> live_topic" where
  "reap_closed_subscriptions lt =
     (let rs = map reap_closed (sub_engines lt); n = sum_list (map fst rs) in
      (n, count_subs (- int n) (lt\<lparr>sub_engines := map snd rs\<rparr>)))"

section \<open>Evaluating\<close>

fun evaluate_engines ::
  "externals \<Rightarrow> text_ops \<Rightarrow> nat \<Rightarrow> nat \<Rightarrow> column_store \<Rightarrow> mutation_kind \<Rightarrow> nat list option \<Rightarrow> subscription_engine list \<Rightarrow>
   (subscription_engine list \<times> delta list) option" where
  "evaluate_engines ext tx row seq s mk changed [] = Some ([], [])"
| "evaluate_engines ext tx row seq s mk changed (e # es) = do {
     (e', ds) \<leftarrow> evaluate_row_kind_indexed ext tx row seq s mk changed e;
     (es', ds') \<leftarrow> evaluate_engines ext tx row seq s mk changed es;
     Some (e' # es', ds @ ds')
   }"

definition topic_evaluate_indexed ::
  "externals \<Rightarrow> text_ops \<Rightarrow> nat \<Rightarrow> nat \<Rightarrow> mutation_kind \<Rightarrow> nat list option \<Rightarrow> live_topic \<Rightarrow> (live_topic \<times> delta list) option" where
  "topic_evaluate_indexed ext tx row seq mk changed lt = do {
     (es, ds) \<leftarrow> evaluate_engines ext tx row seq (st_store (tp_state (lt_topic lt))) mk changed (sub_engines lt);
     Some (lt\<lparr>sub_engines := es\<rparr>, ds)
   }"

definition topic_evaluate_lane ::
  "externals \<Rightarrow> text_ops \<Rightarrow> nat \<Rightarrow> nat \<Rightarrow> nat \<Rightarrow> mutation_kind \<Rightarrow> nat list option \<Rightarrow> live_topic \<Rightarrow> (live_topic \<times> delta list) option" where
  "topic_evaluate_lane ext tx lane row seq mk changed lt = do {
     e \<leftarrow> nth_opt (sub_engines lt) lane;
     (e', ds) \<leftarrow> evaluate_row_kind_indexed ext tx row seq (st_store (tp_state (lt_topic lt))) mk changed e;
     Some (lt\<lparr>sub_engines := (sub_engines lt)[lane := e']\<rparr>, ds)
   }"

definition mark_replicated :: "nat \<Rightarrow> nat \<Rightarrow> nat" where
  "mark_replicated seq cur = (if cur < seq then seq else cur)"

end
