(* ===== verification/CQ_Query_Plan.thy ===== *)
theory CQ_Query_Plan
  imports CQ_Query CQ_Topic_Table CQ_Predicate_Meaning
begin

text \<open>
  The planner of \<open>crates/cq-core/src/query.rs\<close> (\<open>plan_candidates\<close> and its hints) against the
  full scan: whatever the secondary index answers is a superset of the matching rows, so a query
  returns the same with and without an index. The exception are the two zeros of floats, which
  the index tells apart.
\<close>

section \<open>Fallible loops\<close>

lemma filter_opt_Some: "(\<And>x. x \<in> set xs \<Longrightarrow> P x = Some (Q x)) \<Longrightarrow> filter_opt P xs = Some (filter Q xs)"
  by (induction xs) auto

lemma those_map_total: "(\<And>x. x \<in> set xs \<Longrightarrow> f x = Some (g x)) \<Longrightarrow> those (map f xs) = Some (map g xs)"
  by (induction xs) auto

section \<open>The planner\<close>

text \<open>
  The index keeps floats apart by their bits, so the two zeros are different keys. A filter is
  \<open>zero_safe\<close> when no comparison the planner may answer from the index depends on them.
\<close>

fun zero_safe :: "compiled_predicate \<Rightarrow> bool" where
  "zero_safe (EqDouble c x) = (f64_mag x \<noteq> 0)"
| "zero_safe (GeDouble c x) = (x \<noteq> 0)"
| "zero_safe (LeDouble c x) = (x \<noteq> 0x8000000000000000)"
| "zero_safe (BetweenDouble c lo hi) = (lo \<noteq> 0 \<and> hi \<noteq> 0x8000000000000000)"
| "zero_safe (PAnd a b) = (zero_safe a \<and> zero_safe b)"
| "zero_safe (POr a b) = (zero_safe a \<and> zero_safe b)"
| "zero_safe _ = True"

lemma f64_zero_bits: "f64_mag x = 0 \<Longrightarrow> x = 0 \<or> x = 0x8000000000000000"
  using f64_key_split [of x] by (auto simp: word_unat_eq_iff split: if_splits)

lemma f64_key_zero: "f64_mag a = 0 \<longleftrightarrow> f64_key a = 0"
  by (simp add: f64_key_def)

lemma f64_eq_bits: "f64_eq a b \<Longrightarrow> f64_mag b \<noteq> 0 \<Longrightarrow> a = b"
  using f64_key_split [of a] f64_key_split [of b]
  by (auto simp: f64_eq_def f64_key_def word_unat_eq_iff split: if_splits)

lemma f64_le_total:
  assumes "f64_le a b" "\<not> (a = 0 \<and> b = 0x8000000000000000)"
  shows "f64_total_key a \<le> f64_total_key b"
proof (cases "f64_lt a b")
  case True
  then show ?thesis using f64_lt_total by fastforce
next
  case False
  then have eq: "f64_key a = f64_key b" "f64_eq a b" using assms(1) by (auto simp: f64_le_def f64_lt_def f64_eq_def)
  show ?thesis
  proof (cases "f64_mag b = 0")
    case True
    then have "f64_mag a = 0" using eq by (simp add: f64_key_zero)
    then have "a = b \<or> a = 0x8000000000000000 \<and> b = 0"
      using True assms(2) f64_zero_bits by blast
    then show ?thesis by (auto simp: f64_total_key_def f64_neg_def f64_mag_def)
  next
    case False
    then show ?thesis using f64_eq_bits [OF eq(2)] by simp
  qed
qed

lemma ordered_bits_le_iff: "f64_to_ordered_bits a \<le> f64_to_ordered_bits b \<longleftrightarrow> f64_total_key a \<le> f64_total_key b"
  by (metis not_le ordered_bits_less_iff)

lemma range_key_order:
  "RkDoubleOrdered (f64_to_ordered_bits a) < RkDoubleOrdered (f64_to_ordered_bits b) \<longleftrightarrow> f64_total_key a < f64_total_key b"
  "RkDoubleOrdered (f64_to_ordered_bits a) \<le> RkDoubleOrdered (f64_to_ordered_bits b) \<longleftrightarrow> f64_total_key a \<le> f64_total_key b"
  "RkLong i < RkLong j \<longleftrightarrow> sint i < sint j" "RkLong i \<le> RkLong j \<longleftrightarrow> sint i \<le> sint j"
  using ordered_bits_less_iff [of a b] ordered_bits_le_iff [of a b]
  by (auto simp: less_range_key_def less_eq_range_key_def word_less_def word_le_def less_eq_prod_def)

lemma covers_has_range: "index_in_step ext ix T \<Longrightarrow> has_range ix c \<longleftrightarrow> covers ix c"
  by (auto simp: index_in_step_def side_in_step_def has_range_def covers_def dom_def)

lemma rows_for_key_scan:
  assumes "index_in_step ext ix T" "covers ix c"
  shows "clone_or_empty (rows_for_key ix c k) = {r. ix_key_from_value ext (T c r) = Some k}"
proof -
  obtain inner where inner: "by_col ix c = Some inner" "inner_in_step (ix_key_from_value ext) keys_distinct inner (T c)"
    using assms unfolding index_in_step_def side_in_step_def covers_def by blast
  then show ?thesis by (simp add: rows_for_key_def clone_or_empty_def inner_in_step_def bitmap_rows_def)
qed

text \<open>When a leaf the planner can look up holds on a row.\<close>

lemma leaf_true:
  "row_3vl tx vs (EqDouble c x) = TriTrue \<longleftrightarrow> \<not> value_is_null (vs ! c) \<and> value_cmp CmpEq (vs ! c) (VDouble x)"
  "row_3vl tx vs (LtDouble c x) = TriTrue \<longleftrightarrow> \<not> value_is_null (vs ! c) \<and> value_cmp CmpLt (vs ! c) (VDouble x)"
  "row_3vl tx vs (LeDouble c x) = TriTrue \<longleftrightarrow> \<not> value_is_null (vs ! c) \<and> value_cmp CmpLe (vs ! c) (VDouble x)"
  "row_3vl tx vs (GtDouble c x) = TriTrue \<longleftrightarrow> \<not> value_is_null (vs ! c) \<and> value_cmp CmpGt (vs ! c) (VDouble x)"
  "row_3vl tx vs (GeDouble c x) = TriTrue \<longleftrightarrow> \<not> value_is_null (vs ! c) \<and> value_cmp CmpGe (vs ! c) (VDouble x)"
  "row_3vl tx vs (BetweenDouble c x y) = TriTrue \<longleftrightarrow> \<not> value_is_null (vs ! c) \<and> value_between (vs ! c) (VDouble x) (VDouble y)"
  "row_3vl tx vs (EqLong c i) = TriTrue \<longleftrightarrow> \<not> value_is_null (vs ! c) \<and> value_cmp CmpEq (vs ! c) (VLong i)"
  "row_3vl tx vs (LtLong c i) = TriTrue \<longleftrightarrow> \<not> value_is_null (vs ! c) \<and> value_cmp CmpLt (vs ! c) (VLong i)"
  "row_3vl tx vs (LeLong c i) = TriTrue \<longleftrightarrow> \<not> value_is_null (vs ! c) \<and> value_cmp CmpLe (vs ! c) (VLong i)"
  "row_3vl tx vs (GtLong c i) = TriTrue \<longleftrightarrow> \<not> value_is_null (vs ! c) \<and> value_cmp CmpGt (vs ! c) (VLong i)"
  "row_3vl tx vs (GeLong c i) = TriTrue \<longleftrightarrow> \<not> value_is_null (vs ! c) \<and> value_cmp CmpGe (vs ! c) (VLong i)"
  "row_3vl tx vs (BetweenLong c i j) = TriTrue \<longleftrightarrow> \<not> value_is_null (vs ! c) \<and> value_between (vs ! c) (VLong i) (VLong j)"
  "row_3vl tx vs (EqString c t) = TriTrue \<longleftrightarrow> \<not> value_is_null (vs ! c) \<and> value_cmp CmpEq (vs ! c) (VString (Some t))"
  "row_3vl tx vs (EqBool c b) = TriTrue \<longleftrightarrow> \<not> value_is_null (vs ! c) \<and> value_cmp CmpEq (vs ! c) (VBool (Some b))"
  "row_3vl tx vs (EqTimestamp c i) = TriTrue \<longleftrightarrow> \<not> value_is_null (vs ! c) \<and> value_cmp CmpEq (vs ! c) (VTimestamp i)"
  "row_3vl tx vs (InString c ts) = TriTrue \<longleftrightarrow> \<not> value_is_null (vs ! c) \<and> vs ! c \<in> (\<lambda>x. VString (Some x)) ` ts"
  "row_3vl tx vs (InLong c is) = TriTrue \<longleftrightarrow> \<not> value_is_null (vs ! c) \<and> vs ! c \<in> VLong ` is"
  "row_3vl tx vs (InDouble c xs) = TriTrue \<longleftrightarrow> \<not> value_is_null (vs ! c) \<and> vs ! c \<in> VDouble ` xs"
  "row_3vl tx vs (InBool c bs) = TriTrue \<longleftrightarrow> \<not> value_is_null (vs ! c) \<and> vs ! c \<in> (\<lambda>x. VBool (Some x)) ` bs"
  "row_3vl tx vs (InTimestamp c is) = TriTrue \<longleftrightarrow> \<not> value_is_null (vs ! c) \<and> vs ! c \<in> VTimestamp ` is"
  by (simp_all only: row_3vl.simps leaf_column.simps leaf_holds.simps option.case unless_null_def tri_def) auto

lemma min_true [simp]: "min a b = TriTrue \<longleftrightarrow> a = TriTrue \<and> b = TriTrue"
  by (cases a; cases b) (simp_all add: min_def less_eq_tri_def)

lemma max_true [simp]: "max a b = TriTrue \<longleftrightarrow> a = TriTrue \<or> b = TriTrue"
  by (cases a; cases b) (simp_all add: max_def less_eq_tri_def)

lemma index_hint_sound:
  assumes "find_index_hint ix p = Some (c, k)" "zero_safe p" "row_3vl tx vs p = TriTrue"
  shows "covers ix c \<and> ix_key_from_value ext (vs ! c) = Some k"
  using assms
proof (induction p rule: find_index_hint.induct)
  case (1 ix d x)
  then show ?case unfolding leaf_true by (cases "vs ! d") (auto split: if_splits)
next
  case (2 ix d x)
  then show ?case unfolding leaf_true by (cases "vs ! d") (auto split: if_splits)
next
  case (3 ix d x)
  then show ?case unfolding leaf_true
    by (cases "vs ! d") (auto split: if_splits dest: f64_eq_bits simp: f64_eq_def [of _ NULL_DOUBLE])
next
  case (4 ix a b)
  then show ?case by (cases "find_index_hint ix a") auto
qed simp_all

lemma f64_eq_null [simp]: "\<not> f64_eq v NULL_DOUBLE"
  by (simp add: f64_eq_def)

lemma key_of_double: "\<not> f64_is_nan v \<Longrightarrow> range_key_from_value ext (VDouble v) = Some (RkDoubleOrdered (f64_to_ordered_bits v))"
  "\<not> f64_is_nan v \<Longrightarrow> range_key_double v = Some (RkDoubleOrdered (f64_to_ordered_bits v))"
  by (simp_all add: range_key_double_def f64_eq_def [of _ NULL_DOUBLE])

lemma range_leaf_sound:
  assumes ix: "index_in_step ext ix T" and c: "covers ix c" "T c r = vs ! c"
  shows "find_range_hint ix (BetweenLong c i j) = Some b \<Longrightarrow> row_3vl tx vs (BetweenLong c i j) = TriTrue \<Longrightarrow> r \<in> b"
    "find_range_hint ix (GtLong c i) = Some b \<Longrightarrow> row_3vl tx vs (GtLong c i) = TriTrue \<Longrightarrow> r \<in> b"
    "find_range_hint ix (GeLong c i) = Some b \<Longrightarrow> row_3vl tx vs (GeLong c i) = TriTrue \<Longrightarrow> r \<in> b"
    "find_range_hint ix (LtLong c i) = Some b \<Longrightarrow> row_3vl tx vs (LtLong c i) = TriTrue \<Longrightarrow> r \<in> b"
    "find_range_hint ix (LeLong c i) = Some b \<Longrightarrow> row_3vl tx vs (LeLong c i) = TriTrue \<Longrightarrow> r \<in> b"
  unfolding leaf_true find_range_hint.simps covers_has_range [OF ix] rows_in_range_scan [OF ix c(1)] rows_strict_scan [OF ix c(1)]
  using c by (cases "vs ! c"; auto simp: value_between_def value_cmp_keys range_key_order)+

lemma double_leaf:
  "value_between w (VDouble x) (VDouble y) \<Longrightarrow> \<exists>v. w = VDouble v \<and> f64_le x v \<and> f64_le v y"
  "value_cmp CmpGt w (VDouble x) \<Longrightarrow> \<exists>v. w = VDouble v \<and> f64_lt x v"
  "value_cmp CmpLt w (VDouble x) \<Longrightarrow> \<exists>v. w = VDouble v \<and> f64_lt v x"
  "value_cmp CmpGe w (VDouble x) \<Longrightarrow> \<exists>v. w = VDouble v \<and> f64_le x v"
  "value_cmp CmpLe w (VDouble x) \<Longrightarrow> \<exists>v. w = VDouble v \<and> f64_le v x"
  by (cases w; auto simp: value_between_def f64_le_def f64_lt_def f64_eq_def)+

lemma f64_ordered_numbers: "f64_le a b \<or> f64_lt a b \<Longrightarrow> \<not> f64_is_nan a \<and> \<not> f64_is_nan b"
  by (auto simp: f64_le_def f64_lt_def)

lemma range_double_sound:
  assumes ix: "index_in_step ext ix T" and c: "covers ix c" "T c r = vs ! c"
  shows "find_range_hint ix (BetweenDouble c x y) = Some b \<Longrightarrow> row_3vl tx vs (BetweenDouble c x y) = TriTrue \<Longrightarrow>
      zero_safe (BetweenDouble c x y) \<Longrightarrow> r \<in> b"
    "find_range_hint ix (GtDouble c x) = Some b \<Longrightarrow> row_3vl tx vs (GtDouble c x) = TriTrue \<Longrightarrow> r \<in> b"
    "find_range_hint ix (GeDouble c x) = Some b \<Longrightarrow> row_3vl tx vs (GeDouble c x) = TriTrue \<Longrightarrow> zero_safe (GeDouble c x) \<Longrightarrow> r \<in> b"
    "find_range_hint ix (LtDouble c x) = Some b \<Longrightarrow> row_3vl tx vs (LtDouble c x) = TriTrue \<Longrightarrow> r \<in> b"
    "find_range_hint ix (LeDouble c x) = Some b \<Longrightarrow> row_3vl tx vs (LeDouble c x) = TriTrue \<Longrightarrow> zero_safe (LeDouble c x) \<Longrightarrow> r \<in> b"
proof -
  note s = leaf_true find_range_hint.simps covers_has_range [OF ix] rows_in_range_scan [OF ix c(1)] rows_strict_scan [OF ix c(1)]
  note f = range_key_order key_of_double c f64_lt_total
  have le: "f64_le x v \<Longrightarrow> x \<noteq> 0 \<Longrightarrow> f64_total_key x \<le> f64_total_key v"
    "f64_le v y \<Longrightarrow> y \<noteq> 0x8000000000000000 \<Longrightarrow> f64_total_key v \<le> f64_total_key y" for x v y
    using f64_le_total by blast+
  { assume *: "find_range_hint ix (BetweenDouble c x y) = Some b" "row_3vl tx vs (BetweenDouble c x y) = TriTrue"
      "zero_safe (BetweenDouble c x y)"
    then obtain v where v: "vs ! c = VDouble v" "f64_le x v" "f64_le v y" unfolding leaf_true using double_leaf(1) by blast
    with * f64_ordered_numbers [of x v] f64_ordered_numbers [of v y] le show "r \<in> b" unfolding s by (auto simp: f) }
  { assume *: "find_range_hint ix (GtDouble c x) = Some b" "row_3vl tx vs (GtDouble c x) = TriTrue"
    then obtain v where v: "vs ! c = VDouble v" "f64_lt x v" unfolding leaf_true using double_leaf(2) by blast
    with * f64_ordered_numbers [of x v] show "r \<in> b" unfolding s by (auto simp: f) }
  { assume *: "find_range_hint ix (GeDouble c x) = Some b" "row_3vl tx vs (GeDouble c x) = TriTrue" "zero_safe (GeDouble c x)"
    then obtain v where v: "vs ! c = VDouble v" "f64_le x v" unfolding leaf_true using double_leaf(4) by blast
    with * f64_ordered_numbers [of x v] le show "r \<in> b" unfolding s by (auto simp: f) }
  { assume *: "find_range_hint ix (LtDouble c x) = Some b" "row_3vl tx vs (LtDouble c x) = TriTrue"
    then obtain v where v: "vs ! c = VDouble v" "f64_lt v x" unfolding leaf_true using double_leaf(3) by blast
    with * f64_ordered_numbers [of v x] show "r \<in> b" unfolding s by (auto simp: f) }
  { assume *: "find_range_hint ix (LeDouble c x) = Some b" "row_3vl tx vs (LeDouble c x) = TriTrue" "zero_safe (LeDouble c x)"
    then obtain v where v: "vs ! c = VDouble v" "f64_le v x" unfolding leaf_true using double_leaf(5) by blast
    with * f64_ordered_numbers [of v x] le show "r \<in> b" unfolding s by (auto simp: f) }
qed

text \<open>The columns a hint reads are covered by the index.\<close>

lemma range_hint_sound:
  assumes ix: "index_in_step ext ix T" and row: "\<And>c. covers ix c \<Longrightarrow> T c r = vs ! c"
    and hint: "find_range_hint ix p = Some b" "zero_safe p" "row_3vl tx vs p = TriTrue"
  shows "r \<in> b"
  using hint
proof (induction p arbitrary: b)
  case (PAnd p q)
  then show ?case by (cases "find_range_hint ix p") auto
next
  case (BetweenLong c i j)
  then have "covers ix c" by (simp add: covers_has_range [OF ix] split: if_splits)
  from range_leaf_sound(1) [OF ix this row [OF this]] BetweenLong show ?case by blast
next
  case (GtLong c i)
  then have "covers ix c" by (simp add: covers_has_range [OF ix] split: if_splits)
  from range_leaf_sound(2) [OF ix this row [OF this]] GtLong show ?case by blast
next
  case (GeLong c i)
  then have "covers ix c" by (simp add: covers_has_range [OF ix] split: if_splits)
  from range_leaf_sound(3) [OF ix this row [OF this]] GeLong show ?case by blast
next
  case (LtLong c i)
  then have "covers ix c" by (simp add: covers_has_range [OF ix] split: if_splits)
  from range_leaf_sound(4) [OF ix this row [OF this]] LtLong show ?case by blast
next
  case (LeLong c i)
  then have "covers ix c" by (simp add: covers_has_range [OF ix] split: if_splits)
  from range_leaf_sound(5) [OF ix this row [OF this]] LeLong show ?case by blast
next
  case (BetweenDouble c x y)
  then have "covers ix c" by (simp add: covers_has_range [OF ix] split: if_splits)
  from range_double_sound(1) [OF ix this row [OF this]] BetweenDouble show ?case by blast
next
  case (GtDouble c x)
  then have "covers ix c" by (simp add: covers_has_range [OF ix] split: if_splits)
  from range_double_sound(2) [OF ix this row [OF this]] GtDouble show ?case by blast
next
  case (GeDouble c x)
  then have "covers ix c" by (simp add: covers_has_range [OF ix] split: if_splits)
  from range_double_sound(3) [OF ix this row [OF this]] GeDouble show ?case by blast
next
  case (LtDouble c x)
  then have "covers ix c" by (simp add: covers_has_range [OF ix] split: if_splits)
  from range_double_sound(4) [OF ix this row [OF this]] LtDouble show ?case by blast
next
  case (LeDouble c x)
  then have "covers ix c" by (simp add: covers_has_range [OF ix] split: if_splits)
  from range_double_sound(5) [OF ix this row [OF this]] LeDouble show ?case by blast
qed simp_all

lemma keys_scan:
  assumes "index_in_step ext ix T" "covers ix c"
  shows "rows_for_keys ix c ks = {r. \<exists>k \<in> ks. ix_key_from_value ext (T c r) = Some k}"
  by (auto simp: rows_for_keys_def rows_for_key_scan [OF assms])

lemma set_leaf_sound:
  assumes ix: "index_in_step ext ix T" and c: "covers ix c" "T c r = vs ! c"
  shows "find_set_hint ix (EqString c t) = Some b \<Longrightarrow> row_3vl tx vs (EqString c t) = TriTrue \<Longrightarrow> r \<in> b"
    "find_set_hint ix (EqLong c i) = Some b \<Longrightarrow> row_3vl tx vs (EqLong c i) = TriTrue \<Longrightarrow> r \<in> b"
    "find_set_hint ix (EqDouble c x) = Some b \<Longrightarrow> row_3vl tx vs (EqDouble c x) = TriTrue \<Longrightarrow> zero_safe (EqDouble c x) \<Longrightarrow> r \<in> b"
    "find_set_hint ix (EqBool c p) = Some b \<Longrightarrow> row_3vl tx vs (EqBool c p) = TriTrue \<Longrightarrow> r \<in> b"
    "find_set_hint ix (EqTimestamp c i) = Some b \<Longrightarrow> row_3vl tx vs (EqTimestamp c i) = TriTrue \<Longrightarrow> r \<in> b"
  unfolding leaf_true find_set_hint.simps rows_for_key_scan [OF ix c(1)]
  using c by (cases "vs ! c"; auto split: if_splits dest: f64_eq_bits)+

lemma in_leaf_sound:
  assumes ix: "index_in_step ext ix T" and c: "covers ix c" "T c r = vs ! c"
  shows "find_set_hint ix (InString c ts) = Some b \<Longrightarrow> row_3vl tx vs (InString c ts) = TriTrue \<Longrightarrow> r \<in> b"
    "find_set_hint ix (InLong c is) = Some b \<Longrightarrow> row_3vl tx vs (InLong c is) = TriTrue \<Longrightarrow> r \<in> b"
    "find_set_hint ix (InDouble c xs) = Some b \<Longrightarrow> row_3vl tx vs (InDouble c xs) = TriTrue \<Longrightarrow> r \<in> b"
    "find_set_hint ix (InBool c bs) = Some b \<Longrightarrow> row_3vl tx vs (InBool c bs) = TriTrue \<Longrightarrow> r \<in> b"
    "find_set_hint ix (InTimestamp c is) = Some b \<Longrightarrow> row_3vl tx vs (InTimestamp c is) = TriTrue \<Longrightarrow> r \<in> b"
  unfolding leaf_true find_set_hint.simps keys_scan [OF ix c(1)]
  using c by (cases "vs ! c"; auto split: if_splits)+

lemma set_hint_covers:
  "find_set_hint ix (EqString c t) = Some b \<Longrightarrow> covers ix c" "find_set_hint ix (EqLong c i) = Some b \<Longrightarrow> covers ix c"
  "find_set_hint ix (EqDouble c x) = Some b \<Longrightarrow> covers ix c" "find_set_hint ix (EqBool c p) = Some b \<Longrightarrow> covers ix c"
  "find_set_hint ix (EqTimestamp c i) = Some b \<Longrightarrow> covers ix c" "find_set_hint ix (InString c ts) = Some b \<Longrightarrow> covers ix c"
  "find_set_hint ix (InLong c is) = Some b \<Longrightarrow> covers ix c" "find_set_hint ix (InDouble c xs) = Some b \<Longrightarrow> covers ix c"
  "find_set_hint ix (InBool c bs) = Some b \<Longrightarrow> covers ix c" "find_set_hint ix (InTimestamp c is) = Some b \<Longrightarrow> covers ix c"
  by (simp_all split: if_splits)

lemma set_hint_sound:
  assumes ix: "index_in_step ext ix T" and row: "\<And>c. covers ix c \<Longrightarrow> T c r = vs ! c"
    and hint: "find_set_hint ix p = Some b" "zero_safe p" "row_3vl tx vs p = TriTrue"
  shows "r \<in> b"
  using hint
proof (induction p arbitrary: b)
  case (PAnd p q)
  then show ?case by (cases "find_set_hint ix p"; cases "find_set_hint ix q") auto
next
  case (POr p q)
  then show ?case by (cases "find_set_hint ix p"; cases "find_set_hint ix q") auto
next
  case (EqString c t)
  note c = set_hint_covers(1) [OF EqString(1)]
  from set_leaf_sound(1) [OF ix c row [OF c]] EqString show ?case by blast
next
  case (EqLong c i)
  note c = set_hint_covers(2) [OF EqLong(1)]
  from set_leaf_sound(2) [OF ix c row [OF c]] EqLong show ?case by blast
next
  case (EqDouble c x)
  note c = set_hint_covers(3) [OF EqDouble(1)]
  from set_leaf_sound(3) [OF ix c row [OF c]] EqDouble show ?case by blast
next
  case (EqBool c x)
  note c = set_hint_covers(4) [OF EqBool(1)]
  from set_leaf_sound(4) [OF ix c row [OF c]] EqBool show ?case by blast
next
  case (EqTimestamp c x)
  note c = set_hint_covers(5) [OF EqTimestamp(1)]
  from set_leaf_sound(5) [OF ix c row [OF c]] EqTimestamp show ?case by blast
next
  case (InString c x)
  note c = set_hint_covers(6) [OF InString(1)]
  from in_leaf_sound(1) [OF ix c row [OF c]] InString show ?case by blast
next
  case (InLong c x)
  note c = set_hint_covers(7) [OF InLong(1)]
  from in_leaf_sound(2) [OF ix c row [OF c]] InLong show ?case by blast
next
  case (InDouble c x)
  note c = set_hint_covers(8) [OF InDouble(1)]
  from in_leaf_sound(3) [OF ix c row [OF c]] InDouble show ?case by blast
next
  case (InBool c x)
  note c = set_hint_covers(9) [OF InBool(1)]
  from in_leaf_sound(4) [OF ix c row [OF c]] InBool show ?case by blast
next
  case (InTimestamp c x)
  note c = set_hint_covers(10) [OF InTimestamp(1)]
  from in_leaf_sound(5) [OF ix c row [OF c]] InTimestamp show ?case by blast
qed (simp_all only: find_set_hint.simps range_hint_sound [OF ix row])

lemma key_not_null:
  "ix_key_from_value ext v = Some k \<Longrightarrow> \<not> value_is_null v" "range_key_from_value ext v = Some l \<Longrightarrow> \<not> value_is_null v"
  using no_key_iff [of ext v] by auto

lemma range_leaf_bound:
  assumes ix: "index_in_step ext ix T" and b: "find_range_hint ix p = Some b" and p: "\<forall>x y. p \<noteq> PAnd x y"
  shows "b \<subseteq> {r. \<exists>c. \<not> value_is_null (T c r)}"
proof -
  have "has_range ix c \<Longrightarrow> rows_in_range ix c lo hi = Some d \<Longrightarrow> d \<subseteq> {r. \<exists>c. \<not> value_is_null (T c r)}"
    "has_range ix c \<Longrightarrow> rows_greater_than ix c l = Some d \<Longrightarrow> d \<subseteq> {r. \<exists>c. \<not> value_is_null (T c r)}"
    "has_range ix c \<Longrightarrow> rows_less_than ix c l = Some d \<Longrightarrow> d \<subseteq> {r. \<exists>c. \<not> value_is_null (T c r)}" for c lo hi l d
    unfolding covers_has_range [OF ix] using rows_in_range_scan [OF ix, of c lo hi] rows_strict_scan [OF ix, of c l]
    by (auto dest!: key_not_null(2))
  then show ?thesis using b p
    by (cases p) (simp_all add: bind_eq_Some split: if_splits, blast+)
qed

lemma range_hint_bound:
  assumes ix: "index_in_step ext ix T"
  shows "find_range_hint ix p = Some b \<Longrightarrow> b \<subseteq> {r. \<exists>c. \<not> value_is_null (T c r)}"
proof (induction p arbitrary: b)
  case (PAnd p q)
  then show ?case by (cases "find_range_hint ix p") auto
qed (rule range_leaf_bound [OF ix], assumption, simp)+

lemma set_hint_bound:
  assumes ix: "index_in_step ext ix T"
  shows "find_set_hint ix p = Some b \<Longrightarrow> b \<subseteq> {r. \<exists>c. \<not> value_is_null (T c r)}"
proof -
  have *: "covers ix c \<Longrightarrow> rows_for_keys ix c ks \<subseteq> {r. \<exists>c. \<not> value_is_null (T c r)}"
    "covers ix c \<Longrightarrow> clone_or_empty (rows_for_key ix c k) \<subseteq> {r. \<exists>c. \<not> value_is_null (T c r)}" for c ks k
    by (auto simp: keys_scan [OF ix] rows_for_key_scan [OF ix] dest!: key_not_null(1))
  show "find_set_hint ix p = Some b \<Longrightarrow> b \<subseteq> {r. \<exists>c. \<not> value_is_null (T c r)}"
  proof (induction p arbitrary: b)
    case (PAnd p q)
    then show ?case by (cases "find_set_hint ix p"; cases "find_set_hint ix q") auto
  next
    case (POr p q)
    then show ?case by (cases "find_set_hint ix p"; cases "find_set_hint ix q") auto
  qed (simp_all only: find_set_hint.simps range_hint_bound [OF ix] option.inject split: if_splits, (use * in blast)+)
qed

lemma index_hint_covers: "find_index_hint ix p = Some (c, k) \<Longrightarrow> covers ix c"
proof (induction p)
  case (PAnd a b)
  then show ?case by (cases "find_index_hint ix a") auto
qed (simp_all split: if_splits)

lemma cells_bound: "\<not> value_is_null (cells (store_rows s) c r) \<Longrightarrow> r < row_count s"
  by (auto simp: cells_def split: if_splits)

lemma filter_sorted_list_of_set:
  assumes "B \<subseteq> {..<n}" "{r. r < n \<and> Q r} \<subseteq> B"
  shows "filter Q (sorted_list_of_set B) = filter Q [0..<n]"
proof (rule sorted_distinct_set_unique)
  have "finite B" using assms(1) finite_subset by blast
  then show "set (filter Q (sorted_list_of_set B)) = set (filter Q [0..<n])" using assms by auto
qed (simp_all add: sorted_wrt_filter)

text \<open>The index is in step with the store, as \<open>state_ok\<close> has it.\<close>

definition index_of_store :: "externals \<Rightarrow> sec_index \<Rightarrow> column_store \<Rightarrow> bool" where
  "index_of_store ext ix s \<longleftrightarrow>
     store_ok s \<and> index_in_step ext ix (cells (store_rows s)) \<and> (\<forall>c. covers ix c \<longrightarrow> c < length (row_kinds s))"

lemma state_ok_index: "state_ok ext st \<Longrightarrow> index_of_store ext (secondary_index st) (st_store st)"
  using state_okD [of ext st] by (simp add: index_of_store_def covers_def)

lemma plan_is_scan:
  fixes tx :: text_ops
  assumes ok: "index_of_store ext ix s" and zero: "zero_safe (predicate q)"
  defines "Q \<equiv> \<lambda>r. row_3vl tx (row_of s r) (predicate q) = TriTrue"
  shows "filter Q (candidate_list (plan_candidates q s (Some ix))) = filter Q [0..<row_count s]"
    "set (candidate_list (plan_candidates q s (Some ix))) \<subseteq> {..<row_count s}"
proof -
  let ?T = "cells (store_rows s)" and ?p = "predicate q"
  have ix: "index_in_step ext ix ?T" using ok by (simp add: index_of_store_def)
  have row: "?T c r = row_of s r ! c" if "covers ix c" "r < row_count s" for c r
    using ok that cell_of_row(2) [of s r c] by (simp add: index_of_store_def)
  have bound: "B \<subseteq> {..<row_count s}" if "B \<subseteq> {r. \<exists>c. \<not> value_is_null (?T c r)}" for B
    using that cells_bound by fastforce
  have "\<exists>B. B \<subseteq> {..<row_count s} \<and> {r. r < row_count s \<and> Q r} \<subseteq> B \<and>
      candidate_list (plan_candidates q s (Some ix)) = sorted_list_of_set B"
  proof (cases "find_index_hint ix ?p")
    case (Some ck)
    then obtain c k where ck: "find_index_hint ix ?p = Some (c, k)" by (cases ck) auto
    let ?B = "clone_or_empty (rows_for_key ix c k)"
    have c: "covers ix c" if "Q r" for r
      using index_hint_sound [OF ck zero] that unfolding Q_def by blast
    have m: "r \<in> ?B" if "r < row_count s" "Q r" for r
      using index_hint_sound [OF ck zero that(2) [unfolded Q_def], of ext] row [OF c [OF that(2)] that(1)]
        rows_for_key_scan [OF ix c [OF that(2)], of k] by simp
    have cov: "covers ix c" using index_hint_covers [OF ck] .
    have "?B \<subseteq> {..<row_count s}"
      by (rule bound) (auto simp: rows_for_key_scan [OF ix cov] dest: key_not_null(1))
    moreover have "candidate_list (plan_candidates q s (Some ix)) = sorted_list_of_set ?B"
      using ck by (auto simp: plan_candidates_def clone_or_empty_def split: option.splits)
    ultimately show ?thesis using m by blast
  next
    case None
    note no_eq = None
    show ?thesis
    proof (cases "find_range_hint ix ?p")
      case (Some b)
      have "r \<in> b" if "r < row_count s" "Q r" for r
        by (rule range_hint_sound [OF ix _ Some zero that(2) [unfolded Q_def]]) (rule row [OF _ that(1)])
      then show ?thesis using bound [OF range_hint_bound [OF ix Some]] no_eq Some
        by (intro exI [of _ b]) (auto simp: plan_candidates_def)
    next
      case None
      note no_range = None
      show ?thesis
      proof (cases "find_set_hint ix ?p")
        case (Some b)
        have "r \<in> b" if "r < row_count s" "Q r" for r
          by (rule set_hint_sound [OF ix _ Some zero that(2) [unfolded Q_def]]) (rule row [OF _ that(1)])
        then show ?thesis using bound [OF set_hint_bound [OF ix Some]] no_eq no_range Some
          by (intro exI [of _ b]) (auto simp: plan_candidates_def)
      next
        case None
        then show ?thesis using no_eq no_range
          by (intro exI [of _ "{..<row_count s}"]) (auto simp: plan_candidates_def lessThan_atLeast0)
      qed
    qed
  qed
  then obtain B where B: "B \<subseteq> {..<row_count s}" "{r. r < row_count s \<and> Q r} \<subseteq> B"
    "candidate_list (plan_candidates q s (Some ix)) = sorted_list_of_set B" by blast
  then show "filter Q (candidate_list (plan_candidates q s (Some ix))) = filter Q [0..<row_count s]"
    using filter_sorted_list_of_set by simp
  have "finite B" using B(1) finite_subset by blast
  with B show "set (candidate_list (plan_candidates q s (Some ix))) \<subseteq> {..<row_count s}" by simp
qed

lemma matches_row:
  assumes "store_ok s" "r < row_count s" "pred_typed (row_kinds s) p"
  shows "matches tx s r p = Some (row_3vl tx (row_of s r) p = TriTrue)"
  using matches_3vl_row [of s r p tx] store_ok_shape(3) [OF assms(1)] assms by (simp add: matches_def)

lemma candidate_list_full [simp]: "candidate_list (plan_candidates q s None) = [0..<row_count s]"
  by (simp add: plan_candidates_def)

lemma matching_rows_scan:
  assumes "store_ok s" "pred_typed (row_kinds s) (predicate q)"
  shows "matching_rows tx q s None =
     Some (filter (\<lambda>r. row_3vl tx (row_of s r) (predicate q) = TriTrue) [0..<row_count s])"
  unfolding matching_rows_def candidate_list_full
  by (rule filter_opt_Some) (simp add: matches_row [OF assms(1) _ assms(2)])

lemma matching_rows_indexed:
  assumes ok: "index_of_store ext ix s" and ty: "pred_typed (row_kinds s) (predicate q)" and zero: "zero_safe (predicate q)"
  shows "matching_rows tx q s (Some ix) = matching_rows tx q s None"
proof -
  have s: "store_ok s" using ok by (simp add: index_of_store_def)
  have "matches tx s r (predicate q) = Some (row_3vl tx (row_of s r) (predicate q) = TriTrue)"
    if "r \<in> set (candidate_list (plan_candidates q s (Some ix)))" for r
    using that plan_is_scan(2) [OF ok zero] matches_row [OF s _ ty] by blast
  then show ?thesis
    unfolding matching_rows_scan [OF s ty] unfolding matching_rows_def plan_is_scan(1) [OF ok zero, symmetric]
    by (rule filter_opt_Some)
qed

lemma scan_groups_filter:
  assumes "\<And>r. r \<in> set rows \<Longrightarrow> matches tx s r (predicate q) = Some (Q r)"
  shows "scan_groups ext tx q s tys live rows groups = scan_groups ext tx q s tys live (filter Q rows) groups"
  using assms
proof (induction rows arbitrary: groups)
  case Nil
  then show ?case by simp
next
  case (Cons r rows)
  then have "\<And>groups. scan_groups ext tx q s tys live rows groups = scan_groups ext tx q s tys live (filter Q rows) groups"
    by simp
  with Cons.prems [of r] show ?case by (auto split: option.splits)
qed

section \<open>Indexed queries\<close>


text \<open>The query \<open>SELECT * WHERE p\<close>.\<close>

definition select_where :: "compiled_predicate \<Rightarrow> parsed_query" where
  "select_where p =
     \<lparr>q_topic = ''/t'', projection = [], predicate = p, order_by = [], order_by_aliases = [], limit = None, offset = None,
      aggregates = [], group_by = [], pivot = None, unpivot = None, q_join = None, windows = [], having = None,
      computed = [], post_agg = []\<rparr>"

lemma select_where_simps [simp]:
  "projection (select_where p) = []" "predicate (select_where p) = p" "order_by (select_where p) = []"
  "limit (select_where p) = None" "offset (select_where p) = None" "aggregates (select_where p) = []"
  "group_by (select_where p) = []" "pivot (select_where p) = None" "unpivot (select_where p) = None"
  "q_join (select_where p) = None" "windows (select_where p) = []" "having (select_where p) = None"
  "computed (select_where p) = []" "post_agg (select_where p) = []"
  by (simp_all add: select_where_def)


text \<open>
  C29: The condition on zeros is needed: a row that holds negative zero in an indexed column is
  found by \<open>= 0.0\<close> when the table is scanned and is not found when the index is used.
\<close>

theorem indexed_zero_query_misses:
  assumes "index_of_store ext ix s" "covers ix c" "row_kinds s ! c = TDouble" "r < row_count s"
    "row_of s r ! c = VDouble 0x8000000000000000" "predicate q = EqDouble c 0"
  shows "\<exists>found. matching_rows tx q s None = Some found \<and> r \<in> set found \<and>
     (\<forall>found'. matching_rows tx q s (Some ix) = Some found' \<longrightarrow> r \<notin> set found')"
proof -
  have s: "store_ok s" and ix: "index_in_step ext ix (cells (store_rows s))" and c: "c < length (row_kinds s)"
    using assms(1,2) by (auto simp: index_of_store_def)
  have z: "\<not> f64_is_nan 0" "\<not> f64_is_nan 0x8000000000000000" "f64_eq 0x8000000000000000 0"
    by (simp_all add: f64_is_nan_def f64_mag_def f64_eq_def f64_key_def f64_neg_def)
  have ty: "pred_typed (row_kinds s) (predicate q)" using assms(3,6) c by (simp add: leaf_kind_def)
  have hit: "row_3vl tx (row_of s r) (predicate q) = TriTrue"
    unfolding assms(6) leaf_true using z assms(5) by simp
  have "clone_or_empty (rows_for_key ix c (IxDoubleBits 0)) = {r. ix_key_from_value ext (cells (store_rows s) c r) = Some (IxDoubleBits 0)}"
    by (rule rows_for_key_scan [OF ix assms(2)])
  moreover have "cells (store_rows s) c r = VDouble 0x8000000000000000"
    using cell_of_row(2) [OF s assms(4) c] assms(5) by simp
  ultimately have "r \<notin> clone_or_empty (rows_for_key ix c (IxDoubleBits 0))" by simp
  moreover have "finite (clone_or_empty (rows_for_key ix c (IxDoubleBits 0)))"
    using rows_for_key_scan [OF ix assms(2)] cells_bound [of s c]
    by (auto intro!: finite_subset [of _ "{..<row_count s}"] dest: key_not_null(1))
  ultimately have "r \<notin> set (candidate_list (plan_candidates q s (Some ix)))"
    using assms(2,6) z by (auto simp: plan_candidates_def clone_or_empty_def split: option.splits)
  moreover have "set found' \<subseteq> set xs" if "filter_opt P xs = Some found'" for found' P and xs :: "nat list"
    using that by (induction xs arbitrary: found') (auto simp: bind_eq_Some split: if_splits)
  ultimately show ?thesis
    using matching_rows_scan [OF s ty, of tx] hit assms(4) by (auto simp: matching_rows_def)
qed

lemma sample_zero_store:
  obtains s where "append_row sample_externals (column_store_new sample_schema 1) [VLong 1, VDouble 0x8000000000000000, VNull] = Some (s, 0)"
    "index_of_store sample_externals (index_add sample_externals 1 (VDouble 0x8000000000000000) 0 (sec_index_new [1])) s"
    "row_kinds s = [TLong, TDouble, TString]" "row_count s = 1" "row_of s 0 ! 1 = VDouble 0x8000000000000000"
proof -
  let ?v = "VDouble 0x8000000000000000"
  obtain s where s: "append_row sample_externals (column_store_new sample_schema 1) [VLong 1, ?v, VNull] = Some (s, 0)"
    "store_ok s" "row_kinds s = [TLong, TDouble, TString]" "row_count s = 1"
    "row_of s 0 = fresh_values sample_externals [TLong, TDouble, TString] [VLong 1, ?v, VNull]"
    using append_first_row [of 1 sample_externals sample_schema "[VLong 1, ?v, VNull]"] by (auto simp: sample_kinds)
  have row: "row_of s 0 ! 1 = ?v" using s(5) by (simp add: fresh_values_def overlay_def cell_after_def upt_rec)
  have T: "cells (store_rows s) 1 = (\<lambda>_. VNull)(0 := ?v)"
    using s(3,4) row by (auto simp: cells_def store_rows_def row_kinds_def fun_eq_iff)
  have "index_in_step sample_externals (index_add sample_externals 1 ?v 0 (sec_index_new [1])) (cells (store_rows s))"
  proof (rule index_in_step_cong [OF index_add_in_step [OF index_new_in_step]])
    show "same_keys sample_externals (indexed_cols (index_add sample_externals 1 ?v 0 (sec_index_new [1])))
        ((\<lambda>_ _. VNull)(1 := (\<lambda>_. VNull)(0 := ?v))) (cells (store_rows s))"
      using T by (simp add: same_keys_def index_add_def sec_index_new_def)
  qed simp
  then show thesis
    using s row by (intro that [of s]) (auto simp: index_of_store_def covers_def index_add_def sec_index_new_def)
qed

theorem indexed_zero_query_misses_witness:
  "\<exists>s found. append_row sample_externals (column_store_new sample_schema 1) [VLong 1, VDouble 0x8000000000000000, VNull] = Some (s, 0) \<and>
     matching_rows sample_text (select_where (EqDouble 1 0)) s None = Some found \<and> 0 \<in> set found \<and>
     (\<forall>found'. matching_rows sample_text (select_where (EqDouble 1 0)) s
        (Some (index_add sample_externals 1 (VDouble 0x8000000000000000) 0 (sec_index_new [1]))) = Some found' \<longrightarrow> 0 \<notin> set found')"
proof -
  obtain s where s: "append_row sample_externals (column_store_new sample_schema 1) [VLong 1, VDouble 0x8000000000000000, VNull] = Some (s, 0)"
    "index_of_store sample_externals (index_add sample_externals 1 (VDouble 0x8000000000000000) 0 (sec_index_new [1])) s"
    "row_kinds s = [TLong, TDouble, TString]" "row_count s = 1" "row_of s 0 ! 1 = VDouble 0x8000000000000000"
    by (rule sample_zero_store)
  show ?thesis
    using indexed_zero_query_misses [OF s(2), of 1 0 "select_where (EqDouble 1 0)" sample_text] s
    by (auto simp: covers_def index_add_def sec_index_new_def)
qed

end
