(* ===== verification/CQ_Query_Results.thy ===== *)
theory CQ_Query_Results
  imports CQ_Query_Plan "HOL-Library.Product_Lexorder"
begin

text \<open>
  What the executor of \<open>crates/cq-core/src/query.rs\<close> returns: groups and their recomputation, the
  order of rows, and the values of aggregates. The locale \<open>comparison\<close> states what a comparison
  function promises to the stable sort; the order of rows is an instance.
\<close>

section \<open>What a query reads\<close>

text \<open>All columns a grouped query reads exist.\<close>

definition agg_fits :: "nat \<Rightarrow> aggregate_spec \<Rightarrow> bool" where
  "agg_fits n a \<longleftrightarrow>
     (case agg_expr a of
        Some e \<Rightarrow> \<forall>c \<in> set (num_expr_columns e). c < n
      | None \<Rightarrow> (case agg_col a of Some c \<Rightarrow> c < n | None \<Rightarrow> True))"

definition groups_fit :: "nat \<Rightarrow> parsed_query \<Rightarrow> bool" where
  "groups_fit n q \<longleftrightarrow> (\<forall>c \<in> set (group_by q). c < n) \<and> (\<forall>a \<in> set (aggregates q). agg_fits n a)"

text \<open>Key, inputs and update of a row, as functions of its values.\<close>

definition key_of_row :: "externals \<Rightarrow> nat list \<Rightarrow> cq_value list \<Rightarrow> group_key_part list" where
  "key_of_row ext cols vs = map (\<lambda>c. group_key_from_value ext (vs ! c)) cols"

definition input_of_row :: "cq_value list \<Rightarrow> aggregate_spec \<Rightarrow> cq_value option" where
  "input_of_row vs a =
     (case agg_expr a of
        Some e \<Rightarrow> let v = num_meaning vs e in if f64_is_nan v then None else Some (VDouble v)
      | None \<Rightarrow> map_option (\<lambda>c. vs ! c) (agg_col a))"

definition update_of_row :: "externals \<Rightarrow> aggregate_spec list \<Rightarrow> cq_value list \<Rightarrow> agg_state list \<Rightarrow> agg_state list" where
  "update_of_row ext specs vs states = map (\<lambda>(v, st). agg_update ext v st) (zip (map (input_of_row vs) specs) states)"

lemma row_group_key_row:
  assumes "store_ok s" "r < row_count s" "\<forall>c \<in> set cols. c < length (mappings s)"
  shows "row_group_key ext s cols r = Some (key_of_row ext cols (row_of s r))"
proof -
  have "r < capacity s" using assms(1,2) store_ok_shape(3) [of s] by simp
  then show ?thesis unfolding row_group_key_def key_of_row_def
    by (intro those_map_total) (use assms in \<open>simp add: store_ok_cell\<close>)
qed

lemma agg_input_row:
  assumes "store_ok s" "r < row_count s" "agg_fits (length (mappings s)) a"
  shows "agg_input s r a = Some (input_of_row (row_of s r) a)"
proof -
  have "r < capacity s" using assms(1,2) store_ok_shape(3) [of s] by simp
  with assms show ?thesis
    by (auto simp: agg_input_def input_of_row_def agg_fits_def Let_def eval_num_row store_ok_cell split: option.splits)
qed

lemma update_states_row:
  assumes "store_ok s" "r < row_count s" "\<forall>a \<in> set specs. agg_fits (length (mappings s)) a"
  shows "update_states ext s specs r states = Some (update_of_row ext specs (row_of s r) states)"
proof -
  have "those (map (agg_input s r) specs) = Some (map (input_of_row (row_of s r)) specs)"
    by (rule those_map_total) (use assms agg_input_row in blast)
  then show ?thesis by (simp add: update_states_def update_of_row_def)
qed

lemma update_all_rows:
  assumes "store_ok s" "\<forall>a \<in> set specs. agg_fits (length (mappings s)) a"
  shows "\<forall>r \<in> set rs. r < row_count s \<Longrightarrow>
    update_all ext s specs rs states = Some (fold (\<lambda>r. update_of_row ext specs (row_of s r)) rs states)"
  using assms by (induction rs arbitrary: states) (simp_all add: update_states_row)

section \<open>The scan\<close>

definition first_seen :: "'a list \<Rightarrow> 'a list" where
  "first_seen xs = rev (remdups (rev xs))"

lemma first_seen_simps [simp]:
  "first_seen [] = []" "first_seen (xs @ [x]) = (if x \<in> set xs then first_seen xs else first_seen xs @ [x])"
  "set (first_seen xs) = set xs" "distinct (first_seen xs)"
  by (simp_all add: first_seen_def)

lemma keys_update: "map fst (AList.update k v m) = (if k \<in> set (map fst m) then map fst m else map fst m @ [k])"
  by (induction m) auto

lemma scan_groups_append:
  "scan_groups ext tx q s tys live (xs @ ys) g =
     Option.bind (scan_groups ext tx q s tys live xs g) (scan_groups ext tx q s tys live ys)"
  by (induction xs arbitrary: g) (auto split: bind_splits)

text \<open>The rows that take part, and the states of a group: the updates by its rows in order.\<close>

definition taking_part :: "text_ops \<Rightarrow> parsed_query \<Rightarrow> column_store \<Rightarrow> nat set option \<Rightarrow> nat list" where
  "taking_part tx q s live =
     filter (\<lambda>r. (case live of Some l \<Rightarrow> r \<in> l | None \<Rightarrow> True) \<and> row_3vl tx (row_of s r) (predicate q) = TriTrue)
       [0..<row_count s]"

definition group_states ::
  "externals \<Rightarrow> parsed_query \<Rightarrow> column_store \<Rightarrow> agg_state list \<Rightarrow> nat list \<Rightarrow> group_key_part list \<Rightarrow> agg_state list" where
  "group_states ext q s init rs k =
     fold (\<lambda>r. update_of_row ext (aggregates q) (row_of s r))
       (filter (\<lambda>r. key_of_row ext (group_by q) (row_of s r) = k) rs) init"

lemma scan_groups_states:
  assumes ok: "store_ok s" "groups_fit (length (mappings s)) q" "pred_typed (row_kinds s) (predicate q)"
  shows "\<forall>r \<in> set rs. r < row_count s \<and> (case live of Some l \<Rightarrow> r \<in> l | None \<Rightarrow> True) \<and>
      row_3vl tx (row_of s r) (predicate q) = TriTrue \<Longrightarrow>
    \<exists>g. scan_groups ext tx q s tys live rs [] = Some g \<and>
      map fst g = first_seen (map (\<lambda>r. key_of_row ext (group_by q) (row_of s r)) rs) \<and>
      (\<forall>k \<in> set (map fst g). map_of g k = Some (group_states ext q s (agg_inits (aggregates q) tys) rs k))"
proof (induction rs rule: rev_induct)
  case Nil
  then show ?case by simp
next
  case (snoc r rs)
  let ?key = "\<lambda>r. key_of_row ext (group_by q) (row_of s r)" and ?i = "agg_inits (aggregates q) tys"
  have "\<forall>r \<in> set rs. r < row_count s \<and> (case live of Some l \<Rightarrow> r \<in> l | None \<Rightarrow> True) \<and>
      row_3vl tx (row_of s r) (predicate q) = TriTrue" using snoc.prems by simp
  then obtain g where g: "scan_groups ext tx q s tys live rs [] = Some g" "map fst g = first_seen (map ?key rs)"
    "\<forall>k \<in> set (map fst g). map_of g k = Some (group_states ext q s ?i rs k)" using snoc.IH by blast
  have keys: "set (map fst g) = ?key ` set rs" unfolding g(2) by simp
  have r: "r < row_count s" "matches tx s r (predicate q) = Some True" "\<not> (case live of Some l \<Rightarrow> r \<notin> l | None \<Rightarrow> False)"
    using snoc.prems matches_row [OF ok(1) _ ok(3), of r tx] by (auto split: option.splits)
  let ?st = "case map_of g (?key r) of Some st \<Rightarrow> st | None \<Rightarrow> ?i"
  have st: "?st = group_states ext q s ?i rs (?key r)"
  proof (cases "?key r \<in> set (map fst g)")
    case True
    then have "map_of g (?key r) = Some (group_states ext q s ?i rs (?key r))" using g(3) by blast
    then show ?thesis by simp
  next
    case False
    then have "map_of g (?key r) = None" by (simp add: map_of_eq_None_iff)
    moreover have "?key r \<notin> ?key ` set rs" using False keys by simp
    then have "filter (\<lambda>x. ?key x = ?key r) rs = []" unfolding filter_empty_conv by (metis imageI)
    ultimately show ?thesis by (simp add: group_states_def)
  qed
  let ?new = "update_of_row ext (aggregates q) (row_of s r) ?st"
  have scan: "scan_groups ext tx q s tys live (rs @ [r]) [] = Some (AList.update (?key r) ?new g)"
    using g(1) r ok(2) row_group_key_row [OF ok(1) r(1), of "group_by q" ext] update_states_row [OF ok(1) r(1), of "aggregates q" ext ?st]
    by (simp add: scan_groups_append groups_fit_def)
  have new: "?new = group_states ext q s ?i (rs @ [r]) (?key r)" unfolding st by (simp add: group_states_def)
  show ?case
  proof (intro exI conjI ballI)
    show "scan_groups ext tx q s tys live (rs @ [r]) [] = Some (AList.update (?key r) ?new g)" by (rule scan)
    show "map fst (AList.update (?key r) ?new g) = first_seen (map ?key (rs @ [r]))"
      unfolding keys_update g(2) using keys by simp
    fix k assume "k \<in> set (map fst (AList.update (?key r) ?new g))"
    then show "map_of (AList.update (?key r) ?new g) k = Some (group_states ext q s ?i (rs @ [r]) k)"
      using g(3) new by (cases "k = ?key r") (auto simp: update_conv' keys_update group_states_def split: if_splits)
  qed
qed

definition members_of :: "externals \<Rightarrow> parsed_query \<Rightarrow> column_store \<Rightarrow> nat list \<Rightarrow> group_key_part list \<Rightarrow> nat set" where
  "members_of ext q s rs k = {r \<in> set rs. key_of_row ext (group_by q) (row_of s r) = k}"

lemma groups_as_map:
  assumes "map fst g = first_seen ks" "\<forall>k \<in> set (map fst g). map_of g k = Some (f k)"
  shows "g = map (\<lambda>k. (k, f k)) (first_seen ks)"
proof -
  have d: "distinct (map fst g)" unfolding assms(1) by simp
  have "g = map (\<lambda>p. (fst p, f (fst p))) g"
    using d assms(2) by (intro map_idI [symmetric]) (metis fst_conv map_of_eq_Some_iff imageI image_set option.inject prod.collapse)
  also have "\<dots> = map (\<lambda>k. (k, f k)) (map fst g)" by simp
  finally show ?thesis unfolding assms(1) .
qed

lemma one_group_states:
  assumes ok: "store_ok s" "groups_fit (length (mappings s)) q"
    and rs: "sorted rs" "distinct rs" "\<forall>r \<in> set rs. r < row_count s"
    and k: "k \<in> set (map (\<lambda>r. key_of_row ext (group_by q) (row_of s r)) rs)"
    and tys: "agg_types (cs_schema s) (aggregates q) = Some tys"
    and names: "those (map (column_name_at (cs_schema s)) (group_by q)) = Some names"
  shows "aggregate_one_group ext q s (members_of ext q s rs k) =
    group_output ext q (cs_schema s) k (group_states ext q s (agg_inits (aggregates q) tys) rs k)"
proof -
  let ?ms = "filter (\<lambda>r. key_of_row ext (group_by q) (row_of s r) = k) rs"
  have ms: "sorted_list_of_set (members_of ext q s rs k) = ?ms"
  proof -
    have "members_of ext q s rs k = set ?ms" by (auto simp: members_of_def)
    moreover have "sorted ?ms" "distinct ?ms" using rs(1,2) by (simp_all add: sorted_wrt_filter)
    ultimately show ?thesis by (metis sorted_list_of_set_sort_remdups sorted_sort_id distinct_remdups_id)
  qed
  obtain a where a: "nth_opt ?ms 0 = Some a" "a \<in> set ?ms"
    using k by (cases ?ms) (auto simp: nth_opt_def filter_empty_conv)
  have "row_group_key ext s (group_by q) a = Some k"
    using a(2) ok rs(3) by (simp add: row_group_key_row groups_fit_def)
  moreover have "update_all ext s (aggregates q) ?ms st =
      Some (fold (\<lambda>r. update_of_row ext (aggregates q) (row_of s r)) ?ms st)" for st
    using ok rs(3) by (intro update_all_rows) (simp_all add: groups_fit_def)
  ultimately show ?thesis using a(1) tys names
    by (simp add: aggregate_one_group_def ms group_states_def Let_def)
qed

lemma agg_types_fit:
  assumes "store_ok s" "groups_fit (length (mappings s)) q"
  shows "\<exists>tys. agg_types (cs_schema s) (aggregates q) = Some tys"
    and "\<exists>names. those (map (column_name_at (cs_schema s)) (group_by q)) = Some names"
proof -
  have n: "length (columns (cs_schema s)) = length (mappings s)"
    using store_ok_shape(1) [OF assms(1)] by (simp add: store_layout_def)
  let ?ty = "\<lambda>a. if agg_expr a \<noteq> None then Some (Some TDouble)
      else case agg_col a of None \<Rightarrow> Some None | Some c \<Rightarrow> map_option Some (column_type_at (cs_schema s) c)"
  have "?ty a = Some (the (?ty a))" if "a \<in> set (aggregates q)" for a
    using assms(2) that n
    by (auto simp: groups_fit_def agg_fits_def column_type_at_def column_at_def split: option.splits)
  then show "\<exists>tys. agg_types (cs_schema s) (aggregates q) = Some tys"
    unfolding agg_types_def by (intro exI, rule those_map_total)
  have "column_name_at (cs_schema s) c = Some (the (column_name_at (cs_schema s) c))" if "c \<in> set (group_by q)" for c
    using assms(2) that n by (simp add: groups_fit_def column_name_at_def column_at_def)
  then show "\<exists>names. those (map (column_name_at (cs_schema s)) (group_by q)) = Some names"
    by (intro exI, rule those_map_total)
qed

lemma scan_groups_live:
  "scan_groups ext tx q s tys live rs g =
   scan_groups ext tx q s tys live (filter (\<lambda>r. case live of Some l \<Rightarrow> r \<in> l | None \<Rightarrow> True) rs) g"
  by (induction rs arbitrary: g) (auto split: option.splits bind_splits)

lemma scan_groups_taking_part:
  assumes "store_ok s" "pred_typed (row_kinds s) (predicate q)"
  shows "scan_groups ext tx q s tys live [0..<row_count s] g = scan_groups ext tx q s tys live (taking_part tx q s live) g"
proof -
  let ?P = "\<lambda>r. row_3vl tx (row_of s r) (predicate q) = TriTrue"
    and ?L = "\<lambda>r. case live of Some l \<Rightarrow> r \<in> l | None \<Rightarrow> True"
  have "scan_groups ext tx q s tys live [0..<row_count s] g = scan_groups ext tx q s tys live (filter ?P [0..<row_count s]) g"
    by (rule scan_groups_filter) (simp add: matches_row [OF assms(1) _ assms(2)])
  also have "\<dots> = scan_groups ext tx q s tys live (filter ?L (filter ?P [0..<row_count s])) g" by (rule scan_groups_live)
  finally show ?thesis by (simp add: taking_part_def conj_commute)
qed

text \<open>
  C10: Grouping is recomputation. A grouped query over the matching live rows returns, for the
  group keys in the order they are first seen, what \<open>aggregate_one_group\<close> returns for the rows of
  that key: the function that live aggregate subscriptions call for one changed group and the
  full executor agree, HAVING and computed columns included, and fail alike.
\<close>

theorem grouping_is_recomputation:
  assumes "store_ok s" "pred_typed (row_kinds s) (predicate q)" "groups_fit (length (mappings s)) q"
    "order_by q = []" "limit q = None" "group_by q \<noteq> [] \<or> taking_part tx q s live \<noteq> []"
  shows "execute_aggregate_query ext tx q s None live = do {
    outs \<leftarrow> those (map (\<lambda>k. aggregate_one_group ext q s (members_of ext q s (taking_part tx q s live) k))
              (first_seen (map (\<lambda>r. key_of_row ext (group_by q) (row_of s r)) (taking_part tx q s live))));
    Some \<lparr>qr_rows = List.map_filter id outs, total_matches = length (List.map_filter id outs), source_rows = []\<rparr> }"
proof -
  let ?rs = "taking_part tx q s live" and ?key = "\<lambda>r. key_of_row ext (group_by q) (row_of s r)"
  obtain tys names where t: "agg_types (cs_schema s) (aggregates q) = Some tys"
    "those (map (column_name_at (cs_schema s)) (group_by q)) = Some names" using agg_types_fit [OF assms(1,3)] by blast
  have "\<forall>r \<in> set ?rs. r < row_count s \<and> (case live of Some l \<Rightarrow> r \<in> l | None \<Rightarrow> True) \<and>
      row_3vl tx (row_of s r) (predicate q) = TriTrue" by (simp add: taking_part_def)
  then obtain g where g: "scan_groups ext tx q s tys live ?rs [] = Some g" "map fst g = first_seen (map ?key ?rs)"
    "\<forall>k \<in> set (map fst g). map_of g k = Some (group_states ext q s (agg_inits (aggregates q) tys) ?rs k)"
    using scan_groups_states [OF assms(1,3,2), of ?rs live tx ext tys] by blast
  have "map (\<lambda>(key, states). group_output ext q (cs_schema s) key states) g =
      map (\<lambda>k. aggregate_one_group ext q s (members_of ext q s ?rs k)) (first_seen (map ?key ?rs))"
    unfolding groups_as_map [OF g(2,3)]
    by (simp, intro ballI one_group_states [OF assms(1,3) _ _ _ _ t, symmetric])
       (auto simp: taking_part_def sorted_wrt_filter)
  moreover have "\<not> (g = [] \<and> group_by q = [] \<and> aggregates q \<noteq> [])" using assms(6) g(2) by (auto simp: first_seen_def)
  moreover have "scan_groups ext tx q s tys live [0..<row_count s] [] = Some g"
    using g(1) scan_groups_taking_part [OF assms(1,2)] by metis
  ultimately show ?thesis
    unfolding execute_aggregate_query_def Let_def candidate_list_full t assms(4,5) by (simp only: bind.simps if_False option.simps) simp
qed

definition count_by :: "nat \<Rightarrow> nat \<Rightarrow> compiled_predicate \<Rightarrow> parsed_query" where
  "count_by g c p = (select_where p)\<lparr>group_by := [g],
     aggregates := [\<lparr>agg_func = AggSum, agg_col = Some c, agg_expr = None, agg_alias = ''total'', percentile_q = None\<rparr>]\<rparr>"

lemma count_by_simps [simp]:
  "predicate (count_by g c p) = p" "order_by (count_by g c p) = []" "limit (count_by g c p) = None" "group_by (count_by g c p) = [g]"
  "aggregates (count_by g c p) =
     [\<lparr>agg_func = AggSum, agg_col = Some c, agg_expr = None, agg_alias = ''total'', percentile_q = None\<rparr>]"
  by (simp_all add: count_by_def)

theorem grouping_is_recomputation_witness:
  "\<exists>s. append_row sample_externals (column_store_new sample_schema 1) [VLong 1, VNull, VString (Some ''a'')] = Some (s, 0) \<and>
     taking_part sample_text (count_by 2 0 (EqLong 0 1)) s None = [0] \<and>
     execute_aggregate_query sample_externals sample_text (count_by 2 0 (EqLong 0 1)) s None None =
     Option.bind (those [aggregate_one_group sample_externals (count_by 2 0 (EqLong 0 1)) s {0}]) (\<lambda>outs.
       Some \<lparr>qr_rows = List.map_filter id outs, total_matches = length (List.map_filter id outs), source_rows = []\<rparr>)"
proof -
  let ?q = "count_by 2 0 (EqLong 0 1)"
  obtain s where s: "append_row sample_externals (column_store_new sample_schema 1) [VLong 1, VNull, VString (Some ''a'')] = Some (s, 0)"
    "store_ok s" "row_kinds s = [TLong, TDouble, TString]" "row_count s = 1"
    "row_of s 0 = fresh_values sample_externals [TLong, TDouble, TString] [VLong 1, VNull, VString (Some ''a'')]"
    using append_first_row [of 1 sample_externals sample_schema "[VLong 1, VNull, VString (Some ''a'')]"] by (auto simp: sample_kinds)
  have v: "row_of s 0 ! 0 = VLong 1" using s(5) by (simp add: fresh_values_def overlay_def cell_after_def upt_rec)
  have n: "length (mappings s) = 3" using s(3) by (metis length_map row_kinds_def length_Cons list.size(3) numeral_3_eq_3)
  have part: "taking_part sample_text ?q s None = [0]"
    using v s(4) by (simp add: taking_part_def upt_rec unless_null_def tri_def i64_min_def)
  have "members_of sample_externals ?q s [0] (key_of_row sample_externals [2] (row_of s 0)) = {0}"
    by (auto simp: members_of_def)
  then show ?thesis
    using grouping_is_recomputation [of s ?q sample_text None sample_externals] s n part
    by (auto simp: groups_fit_def agg_fits_def leaf_kind_def first_seen_def)
qed

section \<open>Sorting\<close>

lemma ord_reverse_simps [simp]:
  "ord_reverse c = OrdLess \<longleftrightarrow> c = OrdGreater" "ord_reverse c = OrdEqual \<longleftrightarrow> c = OrdEqual"
  "ord_reverse c = OrdGreater \<longleftrightarrow> c = OrdLess" "ord_reverse (ord_reverse c) = c"
  by (cases c; simp)+

text \<open>What a comparison promises, and what a stable sort makes of it.\<close>

locale comparison =
  fixes cmp :: "'a \<Rightarrow> 'a \<Rightarrow> ordering"
  assumes cmp_sym: "cmp b a = ord_reverse (cmp a b)"
    and cmp_trans: "cmp a b \<noteq> OrdGreater \<Longrightarrow> cmp b c \<noteq> OrdGreater \<Longrightarrow> cmp a c \<noteq> OrdGreater"
begin

abbreviation at_most :: "'a \<Rightarrow> 'a \<Rightarrow> bool" where
  "at_most a b \<equiv> cmp a b \<noteq> OrdGreater"

lemma cmp_total: "\<not> at_most a b \<Longrightarrow> at_most b a"
  using cmp_sym [of b a] by simp

lemma equal_trans:
  assumes "cmp x a = OrdEqual" "cmp x b = OrdEqual"
  shows "cmp a b = OrdEqual"
proof -
  have "cmp a x = OrdEqual" "cmp b x = OrdEqual" using assms cmp_sym [of a x] cmp_sym [of b x] by simp_all
  then have "at_most a b" "at_most b a" using assms cmp_trans [of a x b] cmp_trans [of b x a] by simp_all
  then show ?thesis using cmp_sym [of b a] by (cases "cmp a b") simp_all
qed

lemma insert_by_sorted:
  assumes "sorted_wrt at_most ys"
  shows "\<exists>zs. insert_by (\<lambda>a b. Some (cmp a b)) x ys = Some zs \<and> mset zs = mset (x # ys) \<and> sorted_wrt at_most zs \<and>
    (\<forall>a. filter (\<lambda>b. cmp a b = OrdEqual) zs = filter (\<lambda>b. cmp a b = OrdEqual) (x # ys))"
  using assms
proof (induction ys)
  case Nil
  then show ?case by simp
next
  case (Cons y ys)
  show ?case
  proof (cases "cmp x y = OrdGreater")
    case True
    obtain zs where zs: "insert_by (\<lambda>a b. Some (cmp a b)) x ys = Some zs" "mset zs = mset (x # ys)" "sorted_wrt at_most zs"
      "\<forall>a. filter (\<lambda>b. cmp a b = OrdEqual) zs = filter (\<lambda>b. cmp a b = OrdEqual) (x # ys)" using Cons by auto
    have "set zs = insert x (set ys)" using zs(2) by (metis list.simps(15) set_mset_mset)
    moreover have "at_most y x" using True cmp_total by blast
    ultimately have "sorted_wrt at_most (y # zs)" using zs(3) Cons.prems by auto
    moreover have "\<not> (cmp a x = OrdEqual \<and> cmp a y = OrdEqual)" for a using True equal_trans [of a x y] by auto
    then have "\<forall>a. filter (\<lambda>b. cmp a b = OrdEqual) (y # zs) = filter (\<lambda>b. cmp a b = OrdEqual) (x # y # ys)" using zs(4) by auto
    ultimately show ?thesis using True zs(1,2) by (intro exI [of _ "y # zs"]) simp
  next
    case False
    then have "sorted_wrt at_most (x # y # ys)" using Cons.prems cmp_trans [of x y] by auto
    then show ?thesis using False by (intro exI [of _ "x # y # ys"]) simp
  qed
qed

lemma sort_by_sorts:
  "\<exists>ys. sort_by (\<lambda>a b. Some (cmp a b)) xs = Some ys \<and> mset ys = mset xs \<and> sorted_wrt at_most ys \<and>
    (\<forall>a. filter (\<lambda>b. cmp a b = OrdEqual) ys = filter (\<lambda>b. cmp a b = OrdEqual) xs)"
proof (induction xs)
  case Nil
  then show ?case by simp
next
  case (Cons x xs)
  then obtain ys where ys: "sort_by (\<lambda>a b. Some (cmp a b)) xs = Some ys" "mset ys = mset xs" "sorted_wrt at_most ys"
    "\<forall>a. filter (\<lambda>b. cmp a b = OrdEqual) ys = filter (\<lambda>b. cmp a b = OrdEqual) xs" by blast
  then show ?case using insert_by_sorted [OF ys(3), of x] by auto
qed

end

lemma insert_by_cong: "\<forall>y \<in> set ys. f x y = g x y \<Longrightarrow> insert_by f x ys = insert_by g x ys"
  by (induction ys) (simp_all split: bind_splits)

lemma insert_by_mset: "insert_by f x ys = Some zs \<Longrightarrow> mset zs = mset (x # ys)"
  by (induction ys arbitrary: zs) (auto simp: bind_eq_Some split: if_splits)

lemma sort_by_mset: "sort_by f xs = Some ys \<Longrightarrow> mset ys = mset xs"
  by (induction xs arbitrary: ys) (auto simp: bind_eq_Some dest: insert_by_mset)

lemma sort_by_cong:
  assumes "\<forall>x \<in> set xs. \<forall>y \<in> set xs. f x y = g x y"
  shows "sort_by f xs = sort_by g xs"
  using assms
proof (induction xs)
  case Nil
  then show ?case by simp
next
  case (Cons x xs)
  then have "sort_by f xs = sort_by g xs" by simp
  moreover have "insert_by f x ys = insert_by g x ys" if "sort_by g xs = Some ys" for ys
    using Cons.prems sort_by_mset [OF that] by (intro insert_by_cong) (metis insert_iff list.simps(15) set_mset_mset)
  ultimately show ?case by (simp split: bind_splits)
qed

text \<open>The place of a value in the order of its column: nulls first, then by value.\<close>

fun rank_key :: "cq_value \<Rightarrow> nat \<times> int \<times> string" where
  "rank_key (VDouble x) = (if f64_is_nan x then (0, 0, []) else (1, f64_key x, []))"
| "rank_key (VLong x) = (1, sint x, [])"
| "rank_key (VInt x) = (1, sint x, [])"
| "rank_key (VTimestamp x) = (1, sint x, [])"
| "rank_key (VString x) = (case x of None \<Rightarrow> (0, 0, []) | Some t \<Rightarrow> (1, 0, t))"
| "rank_key (VBool x) = (case x of None \<Rightarrow> (0, 0, []) | Some b \<Rightarrow> (1, of_bool b, []))"
| "rank_key _ = (0, 0, [])"

text \<open>The lexicographic order of rows by some key of the values, each column in its direction.\<close>

fun lex_cmp :: "(cq_value \<Rightarrow> 'k :: linorder) \<Rightarrow> (nat \<times> bool) list \<Rightarrow> cq_value list \<Rightarrow> cq_value list \<Rightarrow> ordering" where
  "lex_cmp key [] v w = OrdEqual"
| "lex_cmp key ((c, asc) # cols) v w =
     (let o' = ord_directed asc (ord_cmp (key (v ! c)) (key (w ! c))) in
      if o' \<noteq> OrdEqual then o' else lex_cmp key cols v w)"

abbreviation row_cmp :: "(nat \<times> bool) list \<Rightarrow> cq_value list \<Rightarrow> cq_value list \<Rightarrow> ordering" where
  "row_cmp \<equiv> lex_cmp rank_key"

lemma ord_cmp_simps [simp]:
  "ord_cmp a b = OrdLess \<longleftrightarrow> a < b" "ord_cmp a b = OrdEqual \<longleftrightarrow> a = b" "ord_cmp a b = OrdGreater \<longleftrightarrow> b < a"
  by (auto simp: ord_cmp_def)

lemma ord_cmp_sym: "ord_cmp b a = ord_reverse (ord_cmp a b)"
  by (auto simp: ord_cmp_def)

lemma lex_cmp_sym: "lex_cmp key cols w v = ord_reverse (lex_cmp key cols v w)"
proof (induction cols)
  case (Cons p cols)
  obtain c asc where "p = (c, asc)" by fastforce
  then show ?case using Cons ord_cmp_sym [of "key (w ! c)" "key (v ! c)"]
    by (simp add: Let_def ord_directed_def)
qed simp

lemma lex_cmp_trans: "lex_cmp key cols u v \<noteq> OrdGreater \<Longrightarrow> lex_cmp key cols v w \<noteq> OrdGreater \<Longrightarrow> lex_cmp key cols u w \<noteq> OrdGreater"
proof (induction cols)
  case (Cons p cols)
  obtain c asc where "p = (c, asc)" by fastforce
  then show ?case using Cons
    by (cases asc) (simp_all add: Let_def ord_directed_def split: if_splits, (meson less_trans not_less_iff_gr_or_eq | metis less_trans not_less_iff_gr_or_eq)+)
qed simp

interpretation rows: comparison "lex_cmp key cols" for key cols
  by unfold_locales (rule lex_cmp_sym, rule lex_cmp_trans)

lemma compare_values_row:
  assumes "store_ok s" "c < length (mappings s)" "a < row_count s" "b < row_count s"
  shows "compare_values s c a b = Some (ord_cmp (rank_key (row_of s a ! c)) (rank_key (row_of s b ! c)))"
proof -
  have r: "a < capacity s" "b < capacity s" using assms(1,3,4) store_ok_shape(3) [of s] by simp_all
  note reads = typed_read [OF assms(1,2) r(1)] typed_read [OF assms(1,2) r(2)]
  show ?thesis
  proof (cases "row_kinds s ! c")
    case TDouble
    with reads obtain x y where "get_double s c a = Some x" "row_of s a ! c = VDouble x"
      "get_double s c b = Some y" "row_of s b ! c = VDouble y" by blast
    with TDouble show ?thesis
      by (cases "f64_is_nan x"; cases "f64_is_nan y")
        (simp_all add: compare_values_def schema_kind [OF assms(1,2)] cmp_with_def nulls_first_cmp_def cmp_or_equal_def f64_partial_cmp_def ord_cmp_def)
  next
    case TString
    with reads obtain x y where "get_string s c a = Some x" "row_of s a ! c = VString x"
      "get_string s c b = Some y" "row_of s b ! c = VString y" by blast
    with TString show ?thesis
      by (cases x; cases y) (simp_all add: compare_values_def schema_kind [OF assms(1,2)] cmp_with_def ord_cmp_def)
  next
    case TBool
    with reads obtain x y where "get_bool s c a = Some x" "row_of s a ! c = VBool x"
      "get_bool s c b = Some y" "row_of s b ! c = VBool y" by blast
    with TBool show ?thesis
      by (cases x; cases y) (auto simp: compare_values_def schema_kind [OF assms(1,2)] cmp_with_def ord_cmp_def)
  next
    case TBytes
    have "\<exists>x y. row_of s a ! c = VBytes x \<and> row_of s b ! c = VBytes y"
      using row_of_typed [OF assms(1,2) r(1)] row_of_typed [OF assms(1,2) r(2)] TBytes by (auto split: cq_value.splits)
    with TBytes show ?thesis by (auto simp: compare_values_def schema_kind [OF assms(1,2)] ord_cmp_def)
  next
    case TLong
    with reads obtain x y where "get_long s c a = Some x" "row_of s a ! c = VLong x"
      "get_long s c b = Some y" "row_of s b ! c = VLong y" by blast
    with TLong show ?thesis by (simp add: compare_values_def schema_kind [OF assms(1,2)] cmp_with_def ord_cmp_def)
  next
    case TInt
    with reads obtain x y where "get_int s c a = Some x" "row_of s a ! c = VInt x"
      "get_int s c b = Some y" "row_of s b ! c = VInt y" by blast
    with TInt show ?thesis by (simp add: compare_values_def schema_kind [OF assms(1,2)] cmp_with_def ord_cmp_def)
  next
    case TTimestamp
    with reads obtain x y where "get_timestamp s c a = Some x" "row_of s a ! c = VTimestamp x"
      "get_timestamp s c b = Some y" "row_of s b ! c = VTimestamp y" by blast
    with TTimestamp show ?thesis by (simp add: compare_values_def schema_kind [OF assms(1,2)] cmp_with_def ord_cmp_def)
  qed
qed

lemma compare_rows_row:
  assumes "store_ok s" "\<forall>p \<in> set cols. fst p < length (mappings s)" "a < row_count s" "b < row_count s"
  shows "compare_rows s cols a b = Some (row_cmp cols (row_of s a) (row_of s b))"
  using assms(2)
proof (induction cols)
  case (Cons p cols)
  obtain c asc where "p = (c, asc)" by fastforce
  then show ?case using Cons compare_values_row [OF assms(1) _ assms(3,4), of c] by (simp add: Let_def)
qed simp

text \<open>The order of a query on rows of a store; it has the laws because the order of row values has them.\<close>

lemma store_comparison: "comparison (\<lambda>a b. row_cmp cols (row_of s a) (row_of s b))"
  by unfold_locales (rule rows.cmp_sym, rule rows.cmp_trans)

lemma sort_rows:
  assumes "store_ok s" "\<forall>p \<in> set cols. fst p < length (mappings s)" "\<forall>r \<in> set xs. r < row_count s"
  shows "\<exists>ys. sort_by (compare_rows s cols) xs = Some ys \<and> mset ys = mset xs \<and>
    sorted_wrt (\<lambda>a b. row_cmp cols (row_of s a) (row_of s b) \<noteq> OrdGreater) ys \<and>
    (\<forall>a. filter (\<lambda>b. row_cmp cols (row_of s a) (row_of s b) = OrdEqual) ys =
         filter (\<lambda>b. row_cmp cols (row_of s a) (row_of s b) = OrdEqual) xs)"
proof -
  have "sort_by (compare_rows s cols) xs = sort_by (\<lambda>a b. Some (row_cmp cols (row_of s a) (row_of s b))) xs"
    using assms by (intro sort_by_cong) (simp add: compare_rows_row)
  then show ?thesis using comparison.sort_by_sorts [OF store_comparison, of cols s xs] by simp
qed

lemma insert_fields_total:
  assumes "store_ok s" "r < row_count s"
  shows "\<forall>c \<in> set cs. c < length (mappings s) \<Longrightarrow> \<exists>m'. insert_fields ext (column_name_at (cs_schema s)) s r cs m = Some m'"
proof (induction cs arbitrary: m)
  case (Cons c cs)
  have "length (columns (cs_schema s)) = length (mappings s)"
    using store_ok_shape(1) [OF assms(1)] by (simp add: store_layout_def)
  then have "\<exists>n. column_name_at (cs_schema s) c = Some n" "\<exists>v. get_value s c r = Some v"
    using Cons.prems assms store_ok_shape(3) [OF assms(1)] by (auto simp: column_name_at_def column_at_def store_ok_cell)
  with Cons show ?case by (auto simp: Let_def)
qed simp

lemma output_row_total:
  assumes "store_ok s" "r < row_count s" "\<forall>c \<in> set cs. c < length (mappings s)"
  shows "\<exists>m. output_row ext q s cs r = Some m"
proof -
  have "column_count (cs_schema s) = length (mappings s)"
    using store_ok_shape(1) [OF assms(1)] by (simp add: store_layout_def column_count_def)
  then have "those (map (\<lambda>c. get_value s c r) [0..<column_count (cs_schema s)]) = Some (map (\<lambda>c. row_of s r ! c) [0..<length (mappings s)])"
    using assms(1,2) store_ok_shape(3) [OF assms(1)] by (simp only:) (rule those_map_total, simp add: store_ok_cell)
  then show ?thesis using insert_fields_total [OF assms, of ext "[]"]
    by (auto simp: output_row_def get_row_map_projected_def)
qed

text \<open>A plain SELECT whose columns exist.\<close>

definition plain_query :: "nat \<Rightarrow> parsed_query \<Rightarrow> bool" where
  "plain_query n q \<longleftrightarrow> pivot q = None \<and> unpivot q = None \<and> aggregates q = [] \<and> group_by q = [] \<and> windows q = [] \<and>
     (\<forall>c \<in> set (projection q). c < n) \<and> (\<forall>p \<in> set (order_by q). fst p < n)"

lemma plain_query_answers:
  assumes "store_ok s" "pred_typed (row_kinds s) (predicate q)" "plain_query (length (mappings s)) q"
  shows "\<exists>ranked rows.
    execute_query ext tx q s = Some \<lparr>qr_rows = rows, total_matches = length ranked, source_rows = row_window q ranked\<rparr> \<and>
    mset ranked = mset (taking_part tx q s None) \<and>
    sorted_wrt (\<lambda>a b. row_cmp (order_by q) (row_of s a) (row_of s b) \<noteq> OrdGreater) ranked \<and>
    (\<forall>a. filter (\<lambda>b. row_cmp (order_by q) (row_of s a) (row_of s b) = OrdEqual) ranked =
         filter (\<lambda>b. row_cmp (order_by q) (row_of s a) (row_of s b) = OrdEqual) (taking_part tx q s None)) \<and>
    map Some rows = map (output_row ext q s (effective_projection q (length (mappings s)))) (row_window q ranked)"
proof -
  let ?le = "\<lambda>a b. row_cmp (order_by q) (row_of s a) (row_of s b)" and ?found = "taking_part tx q s None"
  have n: "column_count (cs_schema s) = length (mappings s)"
    using store_ok_shape(1) [OF assms(1)] by (simp add: store_layout_def column_count_def)
  have found: "matching_rows tx q s None = Some ?found"
    unfolding matching_rows_scan [OF assms(1,2)] by (simp add: taking_part_def)
  have in_range: "\<forall>r \<in> set ?found. r < row_count s" by (simp add: taking_part_def)
  have "\<exists>ranked. (if order_by q = [] then Some ?found else sort_by (compare_rows s (order_by q)) ?found) = Some ranked \<and>
      mset ranked = mset ?found \<and> sorted_wrt (\<lambda>a b. ?le a b \<noteq> OrdGreater) ranked \<and>
      (\<forall>a. filter (\<lambda>b. ?le a b = OrdEqual) ranked = filter (\<lambda>b. ?le a b = OrdEqual) ?found)"
    using sort_rows [OF assms(1) _ in_range, of "order_by q"] assms(3)
    by (cases "order_by q = []") (simp_all add: plain_query_def sorted_wrt_true)
  then obtain ranked where ranked: "(if order_by q = [] then Some ?found else sort_by (compare_rows s (order_by q)) ?found) = Some ranked"
    "mset ranked = mset ?found" "sorted_wrt (\<lambda>a b. ?le a b \<noteq> OrdGreater) ranked"
    "\<forall>a. filter (\<lambda>b. ?le a b = OrdEqual) ranked = filter (\<lambda>b. ?le a b = OrdEqual) ?found" by blast
  let ?out = "output_row ext q s (effective_projection q (length (mappings s)))"
  have "set (row_window q ranked) \<subseteq> set ranked"
    by (auto simp: row_window_def Let_def dest: in_set_takeD in_set_dropD split: option.splits if_splits)
  then have "\<exists>m. ?out r = Some m" if "r \<in> set (row_window q ranked)" for r
    using that in_range assms(3) arg_cong [OF ranked(2), of set_mset]
    by (intro output_row_total [OF assms(1)]) (auto simp: plain_query_def effective_projection_def)
  then have out: "?out r = Some (the (?out r))" if "r \<in> set (row_window q ranked)" for r using that by fastforce
  then have "those (map ?out (row_window q ranked)) = Some (map (\<lambda>r. the (?out r)) (row_window q ranked))" by (rule those_map_total)
  moreover have "map Some (map (\<lambda>r. the (?out r)) (row_window q ranked)) = map ?out (row_window q ranked)" using out by simp
  moreover have "length ranked = length ?found" using ranked(2) by (metis size_mset)
  ultimately show ?thesis using ranked assms(3) found
    by (intro exI [of _ ranked] exI [of _ "map (\<lambda>r. the (?out r)) (row_window q ranked)"])
       (simp add: execute_query_with_index_filtered_def plain_query_def is_aggregate_def n Let_def)
qed

text \<open>
  C11: ORDER BY, OFFSET and LIMIT. A plain SELECT returns without panic; its rows are the projected
  rows of the stated window of a list that holds every matching row once, is sorted by the ORDER
  BY columns in their directions with nulls lowest, and keeps rows that tie in the order of the
  scan.
\<close>

theorem ordered_query_answers:
  assumes "store_ok s" "pred_typed (row_kinds s) (predicate q)" "plain_query (length (mappings s)) q"
  shows "\<exists>ranked rows.
    execute_query ext tx q s = Some \<lparr>qr_rows = rows, total_matches = length ranked, source_rows = row_window q ranked\<rparr> \<and>
    mset ranked = mset (taking_part tx q s None) \<and>
    sorted_wrt (\<lambda>a b. row_cmp (order_by q) (row_of s a) (row_of s b) \<noteq> OrdGreater) ranked \<and>
    (\<forall>a. filter (\<lambda>b. row_cmp (order_by q) (row_of s a) (row_of s b) = OrdEqual) ranked =
         filter (\<lambda>b. row_cmp (order_by q) (row_of s a) (row_of s b) = OrdEqual) (taking_part tx q s None)) \<and>
    map Some rows = map (output_row ext q s (effective_projection q (length (mappings s)))) (row_window q ranked)"
  by (rule plain_query_answers [OF assms])

theorem ordered_query_answers_witness:
  "\<exists>s ranked rows. append_row sample_externals (column_store_new sample_schema 1) [VLong 1, VNull, VString (Some ''a'')] = Some (s, 0) \<and>
     execute_query sample_externals sample_text ((select_where (EqLong 0 1))\<lparr>order_by := [(2, False)], limit := Some 1\<rparr>) s =
       Some \<lparr>qr_rows = rows, total_matches = length ranked, source_rows = take 1 ranked\<rparr> \<and> mset ranked = {#0#}"
proof -
  let ?q = "(select_where (EqLong 0 1))\<lparr>order_by := [(2, False)], limit := Some 1\<rparr>"
  obtain s where s: "append_row sample_externals (column_store_new sample_schema 1) [VLong 1, VNull, VString (Some ''a'')] = Some (s, 0)"
    "store_ok s" "row_kinds s = [TLong, TDouble, TString]" "row_count s = 1"
    "row_of s 0 = fresh_values sample_externals [TLong, TDouble, TString] [VLong 1, VNull, VString (Some ''a'')]"
    using append_first_row [of 1 sample_externals sample_schema "[VLong 1, VNull, VString (Some ''a'')]"] by (auto simp: sample_kinds)
  have v: "row_of s 0 ! 0 = VLong 1" using s(5) by (simp add: fresh_values_def overlay_def cell_after_def upt_rec)
  have n: "length (mappings s) = 3" using s(3) by (metis length_map row_kinds_def length_Cons list.size(3) numeral_3_eq_3)
  have part: "taking_part sample_text ?q s None = [0]"
    using v s(4) by (simp add: taking_part_def upt_rec unless_null_def tri_def i64_min_def)
  have "row_window ?q xs = take 1 xs" for xs :: "nat list" by (simp add: row_window_def)
  then show ?thesis
    using ordered_query_answers [of s ?q sample_externals sample_text] s n part
    by (auto simp: plain_query_def leaf_kind_def)
qed

section \<open>What the aggregates compute\<close>

text \<open>The state of an aggregate over a column after the values of a group.\<close>

definition agg_over :: "externals \<Rightarrow> agg_fn \<Rightarrow> column_type \<Rightarrow> cq_value list \<Rightarrow> agg_state" where
  "agg_over ext f ty vs = fold (\<lambda>v. agg_update ext (Some v)) vs (agg_init f (Some ty) None)"

abbreviation integers :: "cq_value list \<Rightarrow> int list" where
  "integers vs \<equiv> map sint (List.map_filter as_i64 vs)"

lemma map_filter_snoc: "List.map_filter f (xs @ [x]) = List.map_filter f xs @ (case f x of Some y \<Rightarrow> [y] | None \<Rightarrow> [])"
  by (induction xs) (auto simp: List.map_filter_simps split: option.splits)

lemma agg_over_snoc: "agg_over ext f ty (vs @ [v]) = agg_update ext (Some v) (agg_over ext f ty vs)"
  by (simp add: agg_over_def)

lemma count_over: "agg_over ext AggCount ty vs = ACount (length (filter (\<lambda>v. \<not> value_is_null v) vs))"
  by (induction vs rule: rev_induct) (simp_all add: agg_over_snoc, simp add: agg_over_def agg_init_def)

lemma sum_over: "ty \<in> {TLong, TInt} \<Longrightarrow> agg_over ext AggSum ty vs = ASumI (sum_list (integers vs)) (integers vs \<noteq> [])"
proof (induction vs rule: rev_induct)
  case Nil
  then show ?case by (auto simp: agg_over_def agg_init_def List.map_filter_simps)
next
  case (snoc v vs)
  then show ?case by (simp add: agg_over_snoc map_filter_snoc split: option.splits)
qed

lemma min_over:
  assumes "ty \<in> {TLong, TInt}"
  shows "\<exists>m. agg_over ext AggMin ty vs = AMinI m (integers vs \<noteq> []) \<and> (integers vs \<noteq> [] \<longrightarrow> sint m = Min (set (integers vs)))"
proof (induction vs rule: rev_induct)
  case Nil
  then show ?case using assms by (auto simp: agg_over_def agg_init_def List.map_filter_simps)
next
  case (snoc v vs)
  then obtain m where m: "agg_over ext AggMin ty vs = AMinI m (integers vs \<noteq> [])"
    "integers vs \<noteq> [] \<Longrightarrow> Min (set (integers vs)) = sint m" by auto
  show ?case
  proof (cases "as_i64 v")
    case None
    then show ?thesis using m by (auto simp: agg_over_snoc map_filter_snoc)
  next
    case (Some x)
    show ?thesis
    proof (cases "integers vs = []")
      case True
      then show ?thesis using m Some by (simp add: agg_over_snoc map_filter_snoc)
    next
      case False
      then have "Min (set (integers (vs @ [v]))) = min (sint x) (sint m)" using m(2) Some by (simp add: map_filter_snoc)
      then show ?thesis using m(1) Some False by (simp add: agg_over_snoc map_filter_snoc min_def del: Min_insert)
    qed
  qed
qed

lemma max_over:
  assumes "ty \<in> {TLong, TInt}"
  shows "\<exists>m. agg_over ext AggMax ty vs = AMaxI m (integers vs \<noteq> []) \<and> (integers vs \<noteq> [] \<longrightarrow> sint m = Max (set (integers vs)))"
proof (induction vs rule: rev_induct)
  case Nil
  then show ?case using assms by (auto simp: agg_over_def agg_init_def List.map_filter_simps)
next
  case (snoc v vs)
  then obtain m where m: "agg_over ext AggMax ty vs = AMaxI m (integers vs \<noteq> [])"
    "integers vs \<noteq> [] \<Longrightarrow> Max (set (integers vs)) = sint m" by auto
  show ?case
  proof (cases "as_i64 v")
    case None
    then show ?thesis using m by (auto simp: agg_over_snoc map_filter_snoc)
  next
    case (Some x)
    show ?thesis
    proof (cases "integers vs = []")
      case True
      then show ?thesis using m Some by (simp add: agg_over_snoc map_filter_snoc)
    next
      case False
      then have "Max (set (integers (vs @ [v]))) = max (sint x) (sint m)" using m(2) Some by (simp add: map_filter_snoc)
      then show ?thesis using m(1) Some False by (simp add: agg_over_snoc map_filter_snoc max_def del: Max_insert)
    qed
  qed
qed

lemma min_final:
  assumes "ty \<in> {TLong, TInt}"
  shows "agg_finalize ext (agg_over ext AggMin ty vs) =
    Some (if integers vs = [] then JNull else json_of_i64 ext (word_of_int (Min (set (integers vs)))))"
proof -
  obtain m where m: "agg_over ext AggMin ty vs = AMinI m (integers vs \<noteq> [])"
    "integers vs \<noteq> [] \<Longrightarrow> sint m = Min (set (integers vs))" using min_over [OF assms, of ext vs] by blast
  have "word_of_int (Min (set (integers vs))) = m" if "integers vs \<noteq> []"
    by (simp only: m(2) [OF that, symmetric]) simp
  then show ?thesis unfolding m(1) by (simp del: set_map)
qed

lemma max_final:
  assumes "ty \<in> {TLong, TInt}"
  shows "agg_finalize ext (agg_over ext AggMax ty vs) =
    Some (if integers vs = [] then JNull else json_of_i64 ext (word_of_int (Max (set (integers vs)))))"
proof -
  obtain m where m: "agg_over ext AggMax ty vs = AMaxI m (integers vs \<noteq> [])"
    "integers vs \<noteq> [] \<Longrightarrow> sint m = Max (set (integers vs))" using max_over [OF assms, of ext vs] by blast
  have "word_of_int (Max (set (integers vs))) = m" if "integers vs \<noteq> []"
    by (simp only: m(2) [OF that, symmetric]) simp
  then show ?thesis unfolding m(1) by (simp del: set_map)
qed

lemma distinct_over:
  "\<exists>ks. agg_over ext AggCountDistinct ty vs = ACountDistinct ks \<and> distinct ks \<and>
     set ks = group_key_from_value ext ` {v \<in> set vs. \<not> value_is_null v}"
proof (induction vs rule: rev_induct)
  case Nil
  then show ?case by (simp add: agg_over_def agg_init_def)
next
  case (snoc v vs)
  then show ?case by (auto simp: agg_over_snoc)
qed

lemma card_keys:
  assumes "ty = TLong \<or> ty = TInt" "\<forall>v \<in> set vs. typed ty v"
  shows "card (group_key_from_value ext ` {v \<in> set vs. \<not> value_is_null v}) = card (set (integers vs))"
proof -
  let ?A = "{v \<in> set vs. \<not> value_is_null v}" and ?f = "\<lambda>v. sint (the (as_i64 v))"
  have cases: "\<exists>x. (ty = TLong \<and> v = VLong x \<and> x \<noteq> NULL_LONG) \<or> (\<exists>y. ty = TInt \<and> v = VInt y \<and> y \<noteq> NULL_INT)" if "v \<in> ?A" for v
    using assms that by (auto split: cq_value.splits)
  have "set (integers vs) = ?f ` ?A"
  proof -
    have "set (List.map_filter as_i64 vs) = (\<lambda>v. the (as_i64 v)) ` {v \<in> set vs. as_i64 v \<noteq> None}"
      by (auto simp: List.map_filter_def)
    moreover have "{v \<in> set vs. as_i64 v \<noteq> None} = ?A" using assms by (auto split: cq_value.splits if_splits)
    ultimately show ?thesis by (simp add: image_image)
  qed
  moreover have "inj_on ?f ?A"
  proof (rule inj_onI)
    fix v w assume "v \<in> ?A" "w \<in> ?A" "?f v = ?f w"
    then show "v = w" using cases [of v] cases [of w] assms(1)
      by (auto simp flip: word_eq_iff_signed dest: arg_cong [of _ _ i64_as_i32])
  qed
  moreover have "inj_on (group_key_from_value ext) ?A"
  proof (rule inj_onI)
    fix v w assume "v \<in> ?A" "w \<in> ?A" "group_key_from_value ext v = group_key_from_value ext w"
    then show "v = w" using cases [of v] cases [of w] assms(1) by auto
  qed
  ultimately show ?thesis by (simp add: card_image)
qed



text \<open>
  C30: COUNT of an expression is COUNT(*): the rows on which the expression is null are counted as
  well, because a null is handed to the counter in the form that stands for the star.
\<close>

theorem count_of_expression_counts_nulls:
  assumes "store_ok s" "agg_fits (length (mappings s)) a" "agg_expr a = Some e" "\<forall>r \<in> set rs. r < row_count s"
  shows "update_all ext s [a] rs (agg_inits [a\<lparr>agg_func := AggCount\<rparr>] [Some TDouble]) = Some [ACount (length rs)]"
proof -
  have "fold (\<lambda>r. update_of_row ext [a] (row_of s r)) rs [ACount n] = [ACount (n + length rs)]" for n
    using assms(3) by (induction rs arbitrary: n) (simp_all add: update_of_row_def input_of_row_def Let_def)
  then show ?thesis using assms by (subst update_all_rows) (simp_all add: agg_inits_def agg_init_def)
qed

theorem count_of_expression_counts_nulls_witness:
  "\<exists>s. append_row sample_externals (column_store_new sample_schema 1) [VLong 1, VNull, VNull] = Some (s, 0) \<and>
     value_is_null (row_of s 0 ! 1) \<and> eval_num s 0 (NCol 1) = Some NULL_DOUBLE \<and>
     update_all sample_externals s [\<lparr>agg_func = AggCount, agg_col = None, agg_expr = Some (NCol 1), agg_alias = ''n'', percentile_q = None\<rparr>]
       [0] [ACount 0] = Some [ACount 1]"
proof -
  let ?a = "\<lparr>agg_func = AggCount, agg_col = None, agg_expr = Some (NCol 1), agg_alias = ''n'', percentile_q = None\<rparr>"
  obtain s where s: "append_row sample_externals (column_store_new sample_schema 1) [VLong 1, VNull, VNull] = Some (s, 0)"
    "store_ok s" "row_kinds s = [TLong, TDouble, TString]" "row_count s = 1"
    "row_of s 0 = fresh_values sample_externals [TLong, TDouble, TString] [VLong 1, VNull, VNull]"
    using append_first_row [of 1 sample_externals sample_schema "[VLong 1, VNull, VNull]"] by (auto simp: sample_kinds)
  have v: "row_of s 0 ! 1 = VDouble NULL_DOUBLE" using s(5) by (simp add: fresh_values_def overlay_def cell_after_def upt_rec)
  have n: "length (mappings s) = 3" using s(3) by (metis length_map row_kinds_def length_Cons list.size(3) numeral_3_eq_3)
  have "eval_num s 0 (NCol 1) = Some NULL_DOUBLE"
    using eval_num_row [of s 0 "NCol 1"] s n v store_ok_shape(3) [OF s(2)] by simp
  then show ?thesis
    using count_of_expression_counts_nulls [of s ?a "NCol 1" "[0]" sample_externals] s n v
    by (simp add: agg_fits_def agg_inits_def agg_init_def)
qed

end
