(* ===== verification/CQ_Live_Query.thy ===== *)
theory CQ_Live_Query
  imports CQ_Topic_Query CQ_Query_Results CQ_Topic_Effects
begin

text \<open>
  Continuous queries against the table they follow. Writers change a topic and queue events; the
  evaluator takes them later, against the store as it is then. The step relation \<open>live_step\<close>
  interleaves both; its invariant says which rows of the consumer may still lag.
\<close>

section \<open>What a row contributes\<close>

lemma insert_fields_cong:
  "(\<And>c. c \<in> set cs \<Longrightarrow> get_value s c r = get_value t c r) \<Longrightarrow>
   insert_fields ext name s r cs m = insert_fields ext name t r cs m"
proof (induction cs arbitrary: m)
  case (Cons c cs)
  have "get_value s c r = get_value t c r" using Cons.prems [of c] by simp
  moreover have "insert_fields ext name s r cs m' = insert_fields ext name t r cs m'" for m'
    using Cons.prems by (intro Cons.IH) simp
  ultimately show ?case by (simp split: bind_splits)
qed simp

lemma get_value_same_row:
  assumes "store_ok s" "store_ok t" "cs_schema s = cs_schema t" "r < row_count s" "r < row_count t" "row_of s r = row_of t r"
  shows "get_value s c r = get_value t c r"
proof (cases "c < length (mappings s)")
  case True
  have "length (mappings t) = length (mappings s)"
    using store_ok_shape(1) [OF assms(1)] store_ok_shape(1) [OF assms(2)] assms(3) by (simp add: store_layout_def)
  with True show ?thesis using assms store_ok_shape(3) [OF assms(1)] store_ok_shape(3) [OF assms(2)] by (simp add: store_ok_cell)
next
  case False
  have "length (mappings t) = length (mappings s)"
    using store_ok_shape(1) [OF assms(1)] store_ok_shape(1) [OF assms(2)] assms(3) by (simp add: store_layout_def)
  with False show ?thesis by (simp add: get_value_def)
qed

lemma project_row_cong:
  assumes "store_ok s" "store_ok t" "cs_schema s = cs_schema t" "r < row_count s" "r < row_count t" "row_of s r = row_of t r"
  shows "project_row ext q s r = project_row ext q t r"
proof -
  have "insert_fields ext name s r cs m = insert_fields ext name t r cs m" for name cs m
    by (rule insert_fields_cong) (rule get_value_same_row [OF assms])
  then show ?thesis using assms(3) by (simp add: project_row_def get_row_map_def get_row_map_projected_def)
qed

lemma project_row_total:
  assumes "store_ok s" "r < row_count s" "\<forall>c \<in> set (projection q). c < length (mappings s)"
    "map col_index (columns (cs_schema s)) = [0..<length (columns (cs_schema s))]"
  shows "\<exists>d. project_row ext q s r = Some d"
proof -
  have "length (columns (cs_schema s)) = length (mappings s)"
    using store_ok_shape(1) [OF assms(1)] by (simp add: store_layout_def)
  then show ?thesis
    using insert_fields_total [OF assms(1,2)] assms(3,4) by (simp add: project_row_def get_row_map_def get_row_map_projected_def)
qed

section \<open>The view of a subscriber\<close>

text \<open>The rows of a query over the live rows \<open>L\<close> of a store, with what they are projected to.\<close>

definition selects :: "text_ops \<Rightarrow> parsed_query \<Rightarrow> column_store \<Rightarrow> nat \<Rightarrow> bool" where
  "selects tx q s r \<longleftrightarrow> row_3vl tx (row_of s r) (predicate q) = TriTrue"

definition query_view :: "externals \<Rightarrow> text_ops \<Rightarrow> parsed_query \<Rightarrow> column_store \<Rightarrow> nat set \<Rightarrow> row_view" where
  "query_view ext tx q s L r = (if r \<in> L \<and> selects tx q s r then project_row ext q s r else None)"

text \<open>A subscription without the special modes.\<close>

definition plain_sub :: "subscription \<Rightarrow> bool" where
  "plain_sub sub \<longleftrightarrow> \<not> sub_closed sub \<and> \<not> sub_sparse sub \<and> sub_aggregate sub = None \<and> sub_topn sub = None \<and> max_active sub = None"

text \<open>What a query needs of the store: typed filter, existing columns, numbered columns.\<close>

definition query_fits :: "column_store \<Rightarrow> parsed_query \<Rightarrow> bool" where
  "query_fits s q \<longleftrightarrow> pred_typed (row_kinds s) (predicate q) \<and> (\<forall>c \<in> set (projection q). c < length (mappings s)) \<and>
     map col_index (columns (cs_schema s)) = [0..<length (columns (cs_schema s))]"

lemma query_fits_schema:
  "store_ok s \<Longrightarrow> store_ok t \<Longrightarrow> cs_schema t = cs_schema s \<Longrightarrow> query_fits s q \<Longrightarrow> query_fits t q"
  using store_ok_shape(1) [of s] store_ok_shape(1) [of t] row_kinds_schema [of s] row_kinds_schema [of t]
  by (simp add: query_fits_def store_layout_def)

text \<open>
  A mutation of row \<open>r\<close> evaluated against whatever the store holds then: the consumer's row \<open>r\<close>
  becomes what the query selects, or nothing after a delete, and no other row is touched.
\<close>

lemma evaluate_row_effect:
  fixes tx :: text_ops and mk :: mutation_kind
  assumes sub: "plain_sub sub" "live_start_sequence sub \<le> seq"
    and s: "store_ok s" "r < row_count s" "query_fits s (sub_query sub)"
  defines "hit \<equiv> mk \<noteq> MutDelete \<and> selects tx (sub_query sub) s r"
  shows "\<exists>ds. evaluate_sub ext tx sub r seq mk s =
      Some (sub\<lparr>active_set := (if hit then insert r (active_set sub) else active_set sub - {r})\<rparr>, ds) \<and>
    (\<forall>V. (V r \<noteq> None \<longrightarrow> r \<in> active_set sub) \<longrightarrow>
       fold apply_delta ds V = V(r := if hit then project_row ext (sub_query sub) s r else None))"
proof -
  let ?q = "sub_query sub"
  have ev: "evaluate_sub ext tx sub r seq mk s = evaluate_plain ext tx sub r seq mk s"
    using sub by (simp add: evaluate_sub_def plain_sub_def)
  have m: "(if mk = MutDelete then Some False else matches tx s r (predicate ?q)) = Some hit"
    using matches_row [OF s(1,2), of "predicate ?q" tx] s(3) by (simp add: query_fits_def selects_def hit_def)
  obtain d where d: "project_row ext ?q s r = Some d"
    using project_row_total [OF s(1,2), of ?q ext] s(3) by (auto simp: query_fits_def)
  note effect = apply_delta_def make_delta_def delta_effect_def
  show ?thesis
  proof (cases hit)
    case True
    then obtain ty where "evaluate_plain ext tx sub r seq mk s =
        Some (sub\<lparr>active_set := insert r (active_set sub)\<rparr>, [make_delta sub ty r seq d])" "ty \<in> {DAdd, DUpdate}"
      using sub(1) m d by (cases "r \<in> active_set sub") (auto simp: evaluate_plain_def plain_sub_def insert_absorb)
    then show ?thesis using ev d True by (auto simp: effect)
  next
    case False
    show ?thesis
    proof (cases "r \<in> active_set sub")
      case True
      then obtain ty d' where "evaluate_plain ext tx sub r seq mk s =
          Some (sub\<lparr>active_set := active_set sub - {r}\<rparr>, [make_delta sub ty r seq d'])" "ty \<in> {DRemove, DOof}"
        using sub(1) m d False by (cases "mk = MutDelete") (auto simp: evaluate_plain_def plain_sub_def)
      then show ?thesis using ev False by (auto simp: effect)
    next
      case inactive: False
      then have "evaluate_plain ext tx sub r seq mk s = Some (sub\<lparr>active_set := active_set sub - {r}\<rparr>, [])"
        using sub(1) m d False by (auto simp: evaluate_plain_def plain_sub_def)
      then show ?thesis using ev False inactive by (auto simp: fun_eq_iff)
    qed
  qed
qed

section \<open>Mutations of a topic\<close>

definition live_rows :: "store_state \<Rightarrow> nat set" where
  "live_rows st = snd ` set (key_to_row st)"

text \<open>Only row \<open>r\<close> may differ among the rows that stay live, and no row index goes away.\<close>

definition row_change :: "store_state \<Rightarrow> nat \<Rightarrow> store_state \<Rightarrow> bool" where
  "row_change st r st' \<longleftrightarrow>
     st_schema st' = st_schema st \<and> row_count (st_store st) \<le> row_count (st_store st') \<and> r < row_count (st_store st') \<and>
     (\<forall>r'. r' \<noteq> r \<longrightarrow> (r' \<in> live_rows st' \<longleftrightarrow> r' \<in> live_rows st) \<and>
        (r' \<in> live_rows st \<longrightarrow> row_of (st_store st') r' = row_of (st_store st) r'))"

lemma live_rows_ran: "state_ok ext st \<Longrightarrow> live_rows st = ran (map_of (key_to_row st))"
  by (simp add: live_rows_def ran_distinct state_okD)

lemma row_of_key: "map_of (key_to_row st) k = Some r \<Longrightarrow> topic_table st k = Some (row_of (st_store st) r)"
  by (simp add: topic_table_def)

lemma row_changeI:
  assumes ok: "state_ok ext st" "state_ok ext st'" and fr: "st_schema st' = st_schema st"
    and rows: "row_count (st_store st) \<le> row_count (st_store st')" "r < row_count (st_store st')"
    and keys: "\<And>k'. k' \<noteq> k \<Longrightarrow> map_of (key_to_row st') k' = map_of (key_to_row st) k'"
      "\<And>k'. k' \<noteq> k \<Longrightarrow> topic_table st' k' = topic_table st k'"
      "map_of (key_to_row st) k \<in> {None, Some r}" "map_of (key_to_row st') k \<in> {None, Some r}"
  shows "row_change st r st'"
proof -
  have live: "r' \<in> live_rows x \<longleftrightarrow> (\<exists>k'. map_of (key_to_row x) k' = Some r')" if "state_ok ext x" for x r'
    using live_rows_ran [OF that] by (auto simp: ran_def)
  have key: "k' \<noteq> k" if "map_of (key_to_row st) k' = Some r' \<or> map_of (key_to_row st') k' = Some r'" "r' \<noteq> r" for k' r'
    using that keys(3,4) by auto
  have "row_of (st_store st') r' = row_of (st_store st) r'" if l: "r' \<in> live_rows st" "r' \<noteq> r" for r'
  proof -
    obtain k' where k': "map_of (key_to_row st) k' = Some r'" using l live [OF ok(1)] by blast
    then show ?thesis using key [of k' r'] l(2) keys(1,2) [of k'] row_of_key [of st k' r'] row_of_key [of st' k' r'] by simp
  qed
  moreover have "r' \<in> live_rows st' \<longleftrightarrow> r' \<in> live_rows st" if "r' \<noteq> r" for r'
    using live [OF ok(1)] live [OF ok(2)] key [OF _ that] keys(1) by metis
  ultimately show ?thesis using fr rows by (simp add: row_change_def)
qed

lemma commit_changes:
  assumes "state_ok ext st" "row_typed (row_kinds (st_store st)) vs" "compute_key_with ext vs (key_col_indices st) = Some k"
  shows "\<exists>st' r. commit_values_locked ext now st vs = Some (st', r) \<and> state_ok ext st' \<and> row_change st r st' \<and>
    r \<in> live_rows st' \<and> key_col_indices st' = key_col_indices st"
proof -
  obtain st' r where c: "commit_values_locked ext now st vs = Some (st', r)" "state_ok ext st'" "same_frame st st'"
    "topic_table st' = (topic_table st)(k \<mapsto>
       merge_row (case topic_table st k of Some old \<Rightarrow> old | None \<Rightarrow> null_row (row_kinds (st_store st))) vs)"
    "row_count (st_store st') = rows_after st k" "map_of (key_to_row st') k = Some r"
    "map_of (key_to_row st') = (map_of (key_to_row st))(k \<mapsto> r)"
    by (rule commit_ok [OF assms, of now])
  have same: "r = r0" if "map_of (key_to_row st) k = Some r0" for r0
    using c(1) assms(3) that update_existing_ok [OF assms that, of now] by (auto simp: commit_values_locked_def)
  have "row_change st r st'"
  proof (rule row_changeI [OF assms(1) c(2)])
    show "map_of (key_to_row st) k \<in> {None, Some r}" using same by (cases "map_of (key_to_row st) k") auto
    show "r < row_count (st_store st')" using key_row_bound [OF c(2,6)] .
  qed (use c in \<open>simp_all add: same_frame_def rows_after_def\<close>)
  moreover have "r \<in> live_rows st'" using c(6) by (force simp: live_rows_def dest: map_of_SomeD)
  ultimately show ?thesis using c(1-3) by (auto simp: same_frame_def)
qed

lemma free_changes:
  assumes "state_ok ext st" "map_of (key_to_row st) k = Some r"
  shows "\<exists>st'. free_row ext st k r = Some st' \<and> state_ok ext st' \<and> row_change st r st' \<and>
    r \<notin> live_rows st' \<and> key_col_indices st' = key_col_indices st"
proof -
  obtain st' where f: "free_row ext st k r = Some st'" "state_ok ext st'" "same_frame st st'"
    "topic_table st' = (topic_table st)(k := None)" "free_slots st' = free_slots st @ [r]"
    "row_count (st_store st') = row_count (st_store st)" "key_to_row st' = AList.delete k (key_to_row st)"
    by (rule free_row_ok [OF assms])
  have "row_change st r st'"
    by (rule row_changeI [OF assms(1) f(2), where k = k])
      (use f assms key_row_bound [OF assms] in \<open>simp_all add: same_frame_def delete_conv'\<close>)
  moreover have "r \<notin> live_rows st'" using state_okD(6) [OF f(2)] f(5) by (auto simp: live_rows_def)
  ultimately show ?thesis using f by (auto simp: same_frame_def)
qed

section \<open>A topic and one of its subscriptions\<close>

text \<open>
  Writers change the topic and queue events; the evaluator takes the oldest event at any later
  time and evaluates it against the store as it is then. \<open>V\<close> is what the consumer holds.
\<close>

inductive live_step ::
  "externals \<Rightarrow> text_ops \<Rightarrow> json_io \<Rightarrow> topic \<times> subscription \<times> row_view \<Rightarrow> topic \<times> subscription \<times> row_view \<Rightarrow> bool"
  for ext tx io where
  live_publish:
    "upsert_map ext io env t m = Some (res, t') \<Longrightarrow>
     compute_key_with ext (map_values ext (st_schema (tp_state t)) (flat_map m)) (key_col_indices (tp_state t)) = Some k \<Longrightarrow>
     live_step ext tx io (t, sub, V) (t', sub, V)"
| live_delete:
    "delete_key ext env t k = Some (Inr res, t') \<Longrightarrow> live_step ext tx io (t, sub, V) (t', sub, V)"
| live_expire:
    "delete_if_still_expired ext env t k ttl observed = Some (Inr res, t') \<Longrightarrow> live_step ext tx io (t, sub, V) (t', sub, V)"
| live_evaluate:
    "mutation_tx t = e # es \<Longrightarrow>
     evaluate_sub ext tx sub (ev_row e) (ev_sequence e) (ev_kind e) (st_store (tp_state t)) = Some (sub', ds) \<Longrightarrow>
     live_step ext tx io (t, sub, V) (t\<lparr>mutation_tx := es\<rparr>, sub', fold apply_delta ds V)"

inductive_cases live_stepE: "live_step ext tx io x y"

text \<open>The events the subscription still has to see, and the last one of a row.\<close>

definition unseen :: "subscription \<Rightarrow> topic \<Rightarrow> mutation_event list" where
  "unseen sub t = filter (\<lambda>e. live_start_sequence sub \<le> ev_sequence e) (mutation_tx t)"

definition last_event :: "nat \<Rightarrow> mutation_event list \<Rightarrow> mutation_event option" where
  "last_event r es = find (\<lambda>e. ev_row e = r) (rev es)"

text \<open>
  The invariant: a row without unseen events is as the query has it; the last unseen event of a
  row says whether the row is live; and the consumer has no row that is not active.
\<close>

definition row_in_step :: "externals \<Rightarrow> text_ops \<Rightarrow> store_state \<Rightarrow> subscription \<Rightarrow> row_view \<Rightarrow> nat \<Rightarrow> bool" where
  "row_in_step ext tx st sub V r \<longleftrightarrow>
     V r = query_view ext tx (sub_query sub) (st_store st) (live_rows st) r"

definition catching_up :: "externals \<Rightarrow> text_ops \<Rightarrow> topic \<times> subscription \<times> row_view \<Rightarrow> bool" where
  "catching_up ext tx = (\<lambda>(t, sub, V).
     let st = tp_state t in
     state_ok ext st \<and> \<not> is_placeholder_schema (st_schema st) \<and> plain_sub sub \<and> query_fits (st_store st) (sub_query sub) \<and>
     live_start_sequence sub \<le> next_sequence t + 1 \<and>
     (\<forall>e \<in> set (mutation_tx t). ev_row e < row_count (st_store st)) \<and>
     (\<forall>r. V r \<noteq> None \<longrightarrow> r \<in> active_set sub) \<and>
     (\<forall>r. case last_event r (unseen sub t) of
            None \<Rightarrow> row_in_step ext tx st sub V r
          | Some e \<Rightarrow> (ev_kind e \<noteq> MutDelete) = (r \<in> live_rows st)))"

lemma find_append: "find P (xs @ ys) = (case find P xs of Some x \<Rightarrow> Some x | None \<Rightarrow> find P ys)"
  by (induction xs) auto

lemma last_event_simps [simp]:
  "last_event r [] = None"
  "last_event r (es @ [e]) = (if ev_row e = r then Some e else last_event r es)"
  "last_event r (e # es) = (case last_event r es of Some x \<Rightarrow> Some x | None \<Rightarrow> if ev_row e = r then Some e else None)"
  by (auto simp: last_event_def find_append split: option.splits)

lemma query_fits_frame:
  assumes "store_ok s" "store_ok t" "cs_schema t = cs_schema s"
  shows "query_fits t q = query_fits s q"
  using query_fits_schema [OF assms] query_fits_schema [OF assms(2,1) assms(3) [symmetric]] by blast

lemma view_unchanged:
  assumes "state_ok ext st" "state_ok ext st'" "row_change st r st'" "x \<noteq> r"
  shows "query_view ext tx q (st_store st') (live_rows st') x = query_view ext tx q (st_store st) (live_rows st) x"
proof (cases "x \<in> live_rows st")
  case True
  then have "x < row_count (st_store st)" using state_okD(7) [OF assms(1)] by (auto simp: live_rows_def)
  moreover from this have "x < row_count (st_store st')" using assms(3) by (simp add: row_change_def)
  moreover have "row_of (st_store st') x = row_of (st_store st) x" "x \<in> live_rows st'"
    using assms(3,4) True by (simp_all add: row_change_def)
  ultimately show ?thesis
    using True assms(3) state_okD(1,2) [OF assms(1)] state_okD(1,2) [OF assms(2)] project_row_cong [of "st_store st'" "st_store st" x ext q]
    by (simp add: query_view_def selects_def row_change_def)
next
  case False
  then show ?thesis using assms(3,4) by (simp add: query_view_def row_change_def)
qed

lemma catching_up_mutation:
  assumes inv: "catching_up ext tx (t, sub, V)"
    and st': "state_ok ext (tp_state t')" "row_change (tp_state t) (ev_row e) (tp_state t')"
    and e: "mutation_tx t' = mutation_tx t @ [e]" "ev_sequence e = next_sequence t + 1" "next_sequence t' = next_sequence t + 1"
      "(ev_kind e \<noteq> MutDelete) = (ev_row e \<in> live_rows (tp_state t'))"
  shows "catching_up ext tx (t', sub, V)"
proof -
  have i: "state_ok ext (tp_state t)" "\<not> is_placeholder_schema (st_schema (tp_state t))" "plain_sub sub"
    "query_fits (st_store (tp_state t)) (sub_query sub)" "live_start_sequence sub \<le> next_sequence t + 1"
    "\<forall>e \<in> set (mutation_tx t). ev_row e < row_count (st_store (tp_state t))" "\<forall>r. V r \<noteq> None \<longrightarrow> r \<in> active_set sub"
    "\<And>r. case last_event r (unseen sub t) of None \<Rightarrow> row_in_step ext tx (tp_state t) sub V r
          | Some e \<Rightarrow> (ev_kind e \<noteq> MutDelete) = (r \<in> live_rows (tp_state t))"
    using inv by (simp_all add: catching_up_def Let_def)
  have u: "unseen sub t' = unseen sub t @ [e]" using e i(5) by (simp add: unseen_def)
  have "case last_event r (unseen sub t') of None \<Rightarrow> row_in_step ext tx (tp_state t') sub V r
          | Some e \<Rightarrow> (ev_kind e \<noteq> MutDelete) = (r \<in> live_rows (tp_state t'))" for r
  proof (cases "r = ev_row e")
    case False
    then have "last_event r (unseen sub t') = last_event r (unseen sub t)" using u by simp
    moreover have "r \<in> live_rows (tp_state t') \<longleftrightarrow> r \<in> live_rows (tp_state t)" using st'(2) False by (simp add: row_change_def)
    ultimately show ?thesis
      using i(8) [of r] view_unchanged [OF i(1) st' False] by (simp add: row_in_step_def split: option.splits)
  qed (use u e(4) in simp)
  moreover have "query_fits (st_store (tp_state t')) (sub_query sub)"
    using i(1,4) st' state_okD(1,2) [OF i(1)] state_okD(1,2) [OF st'(1)]
      query_fits_frame [of "st_store (tp_state t)" "st_store (tp_state t')" "sub_query sub"] by (simp add: row_change_def)
  ultimately show ?thesis
    using i st' e by (auto simp: catching_up_def Let_def row_change_def)
qed

lemma catching_up_evaluate:
  assumes inv: "catching_up ext tx (t, sub, V)" and tx: "mutation_tx t = e # es"
  shows "\<exists>sub' ds. evaluate_sub ext tx sub (ev_row e) (ev_sequence e) (ev_kind e) (st_store (tp_state t)) = Some (sub', ds) \<and>
    catching_up ext tx (t\<lparr>mutation_tx := es\<rparr>, sub', fold apply_delta ds V) \<and> sub_query sub' = sub_query sub"
proof -
  let ?r = "ev_row e" and ?s = "st_store (tp_state t)" and ?q = "sub_query sub"
  have i: "state_ok ext (tp_state t)" "plain_sub sub" "query_fits ?s ?q" "?r < row_count ?s" "V ?r \<noteq> None \<longrightarrow> ?r \<in> active_set sub"
    "\<And>r. case last_event r (unseen sub t) of None \<Rightarrow> row_in_step ext tx (tp_state t) sub V r
          | Some e \<Rightarrow> (ev_kind e \<noteq> MutDelete) = (r \<in> live_rows (tp_state t))"
    using inv tx by (simp_all add: catching_up_def Let_def)
  show ?thesis
  proof (cases "live_start_sequence sub \<le> ev_sequence e")
    case True
    define hit where "hit = (ev_kind e \<noteq> MutDelete \<and> selects tx ?q ?s ?r)"
    define sub' where "sub' = sub\<lparr>active_set := (if hit then insert ?r (active_set sub) else active_set sub - {?r})\<rparr>"
    define t' where "t' = t\<lparr>mutation_tx := es\<rparr>"
    obtain ds where ds: "evaluate_sub ext tx sub ?r (ev_sequence e) (ev_kind e) ?s = Some (sub', ds)"
      "\<forall>V. (V ?r \<noteq> None \<longrightarrow> ?r \<in> active_set sub) \<longrightarrow>
         fold apply_delta ds V = V(?r := if hit then project_row ext ?q ?s ?r else None)"
      using evaluate_row_effect [OF i(2) True state_okD(1) [OF i(1)] i(4,3), where tx = tx and mk = "ev_kind e" and ext = ext]
      unfolding hit_def sub'_def by blast
    have V': "fold apply_delta ds V = V(?r := if hit then project_row ext ?q ?s ?r else None)" using ds(2) i(5) by blast
    have f: "sub_query sub' = ?q" "plain_sub sub'" "live_start_sequence sub' = live_start_sequence sub" "unseen sub' = unseen sub"
      "unseen sub t = e # unseen sub t'" "tp_state t' = tp_state t" "mutation_tx t' = es" "next_sequence t' = next_sequence t"
      using i(2) tx True by (simp_all add: sub'_def t'_def unseen_def plain_sub_def fun_eq_iff)
    have "case last_event r (unseen sub t') of
          None \<Rightarrow> row_in_step ext tx (tp_state t) sub' (fold apply_delta ds V) r
        | Some e \<Rightarrow> (ev_kind e \<noteq> MutDelete) = (r \<in> live_rows (tp_state t))" for r
      using i(6) [of r] V' f(1,5) by (cases "r = ?r") (auto simp: row_in_step_def query_view_def hit_def split: option.splits)
    moreover have "\<forall>r. (fold apply_delta ds V) r \<noteq> None \<longrightarrow> r \<in> active_set sub'"
      using inv by (auto simp: V' catching_up_def Let_def sub'_def)
    ultimately have "catching_up ext tx (t', sub', fold apply_delta ds V)"
      unfolding catching_up_def Let_def case_prod_conv f using inv tx by (simp add: catching_up_def Let_def f)
    then show ?thesis using ds(1) f(1) unfolding t'_def by auto
  next
    case False
    then have "evaluate_sub ext tx sub ?r (ev_sequence e) (ev_kind e) ?s = Some (sub, [])" by (simp add: evaluate_sub_def)
    moreover define t' where "t' = t\<lparr>mutation_tx := es\<rparr>"
    moreover have f: "unseen sub t' = unseen sub t" "tp_state t' = tp_state t" "mutation_tx t' = es" "next_sequence t' = next_sequence t"
      using tx False by (simp_all add: t'_def unseen_def)
    moreover have "catching_up ext tx (t', sub, V)"
      unfolding catching_up_def Let_def case_prod_conv f using inv tx by (simp add: catching_up_def Let_def f)
    ultimately show ?thesis by simp
  qed
qed

lemma delete_row_ok:
  assumes "state_ok ext (tp_state t)" "map_of (key_to_row (tp_state t)) k = Some r" "delete_row ext env t k r = Some (Inr x, t')"
  shows "state_ok ext (tp_state t') \<and> row_change (tp_state t) r (tp_state t') \<and> r \<notin> live_rows (tp_state t') \<and>
    mutation_tx t' = mutation_tx t @ [\<lparr>ev_row = r, ev_sequence = next_sequence t + 1, ev_kind = MutDelete, ev_changed_cols = None\<rparr>] \<and>
    next_sequence t' = next_sequence t + 1"
proof -
  obtain st where st: "free_row ext (tp_state t) k r = Some st" "state_ok ext st" "row_change (tp_state t) r st" "r \<notin> live_rows st"
    using free_changes [OF assms(1,2)] by blast
  let ?t = "t\<lparr>tp_state := st, next_sequence := next_sequence t + 1\<rparr>"
  obtain err t2 where a: "topic_append env ?t (next_sequence t + 1) k [] PJson = (err, t2)" by force
  with assms(3) st(1) have "err = None" "t' = emit_event r (next_sequence t + 1) MutDelete None t2"
    by (auto simp: delete_row_def Let_def split: option.splits)
  then show ?thesis using st topic_append_fields [OF a] by (simp add: emit_event_def)
qed

lemma publish_flat_cases:
  assumes "publish_flat ext io env t flat = Some (res, t')"
  shows "res = Inl TopicSerialize \<and> t' = t \<or>
    (\<exists>log. Option.bind (write_store_with_changed ext env t (map_values ext (st_schema (tp_state t)) flat) log True None)
       (\<lambda>(r, t2). Some (res_bind r (\<lambda>(row, seq). Inr seq), t2)) = Some (res, t'))"
proof (cases "if txlog t = None then Some None else map_option Some (to_vec io (JObject flat))")
  case None
  then have "publish_flat ext io env t flat = Some (Inl TopicSerialize, t)" unfolding publish_flat_def by (simp only: option.case)
  then show ?thesis using assms by simp
next
  case (Some payload)
  show ?thesis using assms unfolding publish_flat_def Some option.case by blast
qed

lemma live_publish_ok:
  assumes "state_ok ext (tp_state t)" "\<not> is_placeholder_schema (st_schema (tp_state t))" "upsert_map ext io env t m = Some (res, t')"
    "compute_key_with ext (map_values ext (st_schema (tp_state t)) (flat_map m)) (key_col_indices (tp_state t)) = Some k"
  shows "tp_state t' = tp_state t \<and> mutation_tx t' = mutation_tx t \<and> next_sequence t \<le> next_sequence t' \<or>
    (\<exists>r. state_ok ext (tp_state t') \<and> row_change (tp_state t) r (tp_state t') \<and> r \<in> live_rows (tp_state t') \<and>
      mutation_tx t' = mutation_tx t @ [\<lparr>ev_row = r, ev_sequence = next_sequence t + 1, ev_kind = MutUpsert, ev_changed_cols = None\<rparr>] \<and>
      next_sequence t' = next_sequence t + 1)"
proof -
  let ?vs = "map_values ext (st_schema (tp_state t)) (flat_map m)"
  have "row_kinds (st_store (tp_state t)) = map col_type (columns (st_schema (tp_state t)))"
    unfolding state_okD(2) [OF assms(1), symmetric] by (rule row_kinds_schema [OF state_okD(1) [OF assms(1)]])
  then have "row_typed (row_kinds (st_store (tp_state t))) ?vs" by (simp only: map_values_typed)
  then obtain st r where c: "commit_values_locked ext (env_now env) (tp_state t) ?vs = Some (st, r)" "state_ok ext st"
    "row_change (tp_state t) r st" "r \<in> live_rows st" using commit_changes [OF assms(1) _ assms(4)] by blast
  have "publish_flat ext io env t (flat_map m) = Some (res, t')"
    using assms(3) by (simp add: upsert_map_flat no_discovery [OF assms(2)])
  from publish_flat_cases [OF this]
  consider "res = Inl TopicSerialize" "t' = t"
    | log where "Option.bind (write_store_with_changed ext env t ?vs log True None) (\<lambda>(r, t2). Some (res_bind r (\<lambda>(row, seq). Inr seq), t2)) = Some (res, t')"
    by blast
  then show ?thesis
  proof cases
    case 1
    then show ?thesis by simp
  next
    case 2
    obtain err t2 where j: "journal_result env t log = (err, t2)" by force
    show ?thesis
    proof (cases err)
      case None
      then show ?thesis using 2 j c journal_result_fields [OF j] by (auto simp: write_store_unfold emit_event_def Let_def)
    next
      case (Some x)
      then show ?thesis using 2 j journal_result_fields [OF j] by (auto simp: write_store_unfold)
    qed
  qed
qed

lemma catching_up_idle:
  assumes "catching_up ext tx (t, sub, V)" "tp_state t' = tp_state t" "mutation_tx t' = mutation_tx t" "next_sequence t \<le> next_sequence t'"
  shows "catching_up ext tx (t', sub, V)"
proof -
  have "unseen sub t' = unseen sub t" using assms(3) by (simp add: unseen_def)
  then show ?thesis unfolding catching_up_def Let_def case_prod_conv assms(2,3)
    using assms(1,4) by (simp add: catching_up_def Let_def)
qed

lemma live_step_catching_up:
  assumes "live_step ext tx io x y" "catching_up ext tx x"
  shows "catching_up ext tx y \<and> sub_query (fst (snd y)) = sub_query (fst (snd x))"
  using assms
proof cases
  case (live_publish env t m res t' k sub V)
  then have "state_ok ext (tp_state t)" "\<not> is_placeholder_schema (st_schema (tp_state t))"
    using assms(2) by (simp_all add: catching_up_def Let_def)
  from live_publish_ok [OF this live_publish(3,4)] show ?thesis
    using live_publish(1,2) assms(2) catching_up_idle [of ext tx t sub V t'] catching_up_mutation [of ext tx t sub V t'] by force
next
  case (live_delete env t k res t' sub V)
  have ok: "state_ok ext (tp_state t)" using assms(2) live_delete(1) by (simp add: catching_up_def Let_def)
  show ?thesis
  proof (cases "map_of (key_to_row (tp_state t)) k")
    case None
    then show ?thesis using live_delete assms(2) by (simp add: delete_key_def)
  next
    case (Some r)
    then obtain x where "delete_row ext env t k r = Some (Inr x, t')"
      using live_delete(3) by (auto simp: delete_key_def elim: res_bind.elims)
    from delete_row_ok [OF ok Some this] show ?thesis
      using live_delete(1,2) assms(2) catching_up_mutation [of ext tx t sub V t'] by force
  qed
next
  case (live_expire env t k ttl observed res t' sub V)
  have ok: "state_ok ext (tp_state t)" using assms(2) live_expire(1) by (simp add: catching_up_def Let_def)
  show ?thesis
  proof (cases "t' = t")
    case True
    then show ?thesis using live_expire(1,2) assms(2) by simp
  next
    case False
    then obtain r x where "map_of (key_to_row (tp_state t)) k = Some r" "delete_row ext env t k r = Some (Inr x, t')"
      using live_expire(3) by (auto simp: delete_if_still_expired_def Let_def elim: res_bind.elims split: option.splits if_splits)
    from delete_row_ok [OF ok this] show ?thesis
      using live_expire(1,2) assms(2) catching_up_mutation [of ext tx t sub V t'] by force
  qed
next
  case (live_evaluate t e es sub sub' ds V)
  then show ?thesis using assms(2) catching_up_evaluate [of ext tx t sub V e es] by auto
qed

lemma reachable_catching_up:
  assumes "(live_step ext tx io)\<^sup>*\<^sup>* x y" "catching_up ext tx x"
  shows "catching_up ext tx y \<and> sub_query (fst (snd y)) = sub_query (fst (snd x))"
  using assms by (induction rule: rtranclp_induct) (auto dest: live_step_catching_up)

lemma drained:
  assumes "catching_up ext tx (t, sub, V)" "mutation_tx t = []"
  shows "V = query_view ext tx (sub_query sub) (st_store (tp_state t)) (live_rows (tp_state t))"
  using assms by (auto simp: catching_up_def Let_def unseen_def row_in_step_def)

lemma drains:
  assumes "catching_up ext tx (t, sub, V)"
  shows "\<exists>sub' V'. (live_step ext tx io)\<^sup>*\<^sup>* (t, sub, V) (t\<lparr>mutation_tx := []\<rparr>, sub', V')"
  using assms
proof (induction "mutation_tx t" arbitrary: t sub V)
  case Nil
  then have "t\<lparr>mutation_tx := []\<rparr> = t" by simp
  then show ?case by (metis rtranclp.rtrancl_refl)
next
  case (Cons e es)
  obtain sub' ds where e: "evaluate_sub ext tx sub (ev_row e) (ev_sequence e) (ev_kind e) (st_store (tp_state t)) = Some (sub', ds)"
    "catching_up ext tx (t\<lparr>mutation_tx := es\<rparr>, sub', fold apply_delta ds V)"
    using catching_up_evaluate [OF Cons.prems Cons.hyps(2) [symmetric]] by blast
  have "live_step ext tx io (t, sub, V) (t\<lparr>mutation_tx := es\<rparr>, sub', fold apply_delta ds V)"
    by (rule live_evaluate [OF Cons.hyps(2) [symmetric] e(1)])
  moreover have "\<exists>sub'' V'. (live_step ext tx io)\<^sup>*\<^sup>* (t\<lparr>mutation_tx := es\<rparr>, sub', fold apply_delta ds V) (t\<lparr>mutation_tx := []\<rparr>, sub'', V')"
    using Cons.hyps(1) [of "t\<lparr>mutation_tx := es\<rparr>", OF _ e(2)] by simp
  ultimately show ?case by (meson converse_rtranclp_into_rtranclp)
qed

section \<open>Subscribing\<close>

lemma seed_rows_plain:
  assumes "store_ok s" "pred_typed (row_kinds s) (predicate (sub_query sub))"
    "\<not> sub_sparse sub" "sub_topn sub = None" "max_active sub = None"
  shows "\<forall>r \<in> set rs. r < row_count s \<Longrightarrow>
    seed_rows tx s proj rs sub = Some (sub\<lparr>active_set := active_set sub \<union> {r \<in> set rs. selects tx (sub_query sub) s r}\<rparr>, True)"
  using assms
proof (induction rs arbitrary: sub)
  case Nil
  then show ?case by simp
next
  case (Cons r rs)
  have m: "matches tx s r (predicate (sub_query sub)) = Some (selects tx (sub_query sub) s r)"
    using Cons.prems(1) matches_row [OF Cons.prems(2) _ Cons.prems(3), of r tx] by (simp add: selects_def)
  show ?case
  proof (cases "selects tx (sub_query sub) s r")
    case True
    let ?sub = "sub\<lparr>active_set := insert r (active_set sub)\<rparr>"
    have "seed_rows tx s proj rs ?sub = Some (?sub\<lparr>active_set := active_set ?sub \<union> {r \<in> set rs. selects tx (sub_query ?sub) s r}\<rparr>, True)"
      using Cons.prems by (intro Cons.IH) simp_all
    moreover have "insert r (active_set sub \<union> {r \<in> set rs. selects tx (sub_query sub) s r}) =
        active_set sub \<union> {x. (x = r \<or> x \<in> set rs) \<and> selects tx (sub_query sub) s x}" using True by auto
    ultimately show ?thesis using m True Cons.prems by simp
  next
    case False
    have "seed_rows tx s proj rs sub = Some (sub\<lparr>active_set := active_set sub \<union> {r \<in> set rs. selects tx (sub_query sub) s r}\<rparr>, True)"
      using Cons.prems by (intro Cons.IH) simp_all
    moreover have "{x. (x = r \<or> x \<in> set rs) \<and> selects tx (sub_query sub) s x} = {r \<in> set rs. selects tx (sub_query sub) s r}"
      using False by auto
    ultimately show ?thesis using m False by simp
  qed
qed

text \<open>A query whose subscription has no special mode and whose rows are stored cells.\<close>

definition row_query :: "parsed_query \<Rightarrow> bool" where
  "row_query q \<longleftrightarrow> limit q = None \<and> offset q = None \<and> aggregates q = [] \<and> group_by q = [] \<and> pivot q = None \<and> unpivot q = None \<and>
     windows q = [] \<and> computed q = []"

lemma seed_new_sub:
  assumes "store_ok s" "query_fits s q" "row_query q" "s = st_store (tp_state t)"
  shows "seed_subscription tx s (new_sub t sid q False) =
    Some ((new_sub t sid q False)\<lparr>active_set := {r. r < row_count s \<and> selects tx q s r}\<rparr>)"
proof -
  let ?sub = "new_sub t sid q False"
  have f: "\<not> sub_sparse ?sub" "sub_topn ?sub = None" "max_active ?sub = None" "sub_query ?sub = q" "active_set ?sub = {}"
    using assms(3) by (simp_all add: new_sub_def with_live_start_def subscription_new_def row_query_def)
  have "seed_rows tx s proj [0..<row_count s] ?sub =
      Some (?sub\<lparr>active_set := active_set ?sub \<union> {r \<in> set [0..<row_count s]. selects tx (sub_query ?sub) s r}\<rparr>, True)" for proj
    by (rule seed_rows_plain) (use assms f in \<open>simp_all add: query_fits_def\<close>)
  then show ?thesis using f by (simp add: seed_subscription_def)
qed

lemma output_is_project:
  assumes "computed q = []" "map col_index (columns (cs_schema s)) = [0..<length (columns (cs_schema s))]"
  shows "output_row ext q s (effective_projection q (column_count (cs_schema s))) r = project_row ext q s r"
  using assms by (simp add: output_row_def project_row_def effective_projection_def get_row_map_def get_row_map_projected_def column_count_def)

text \<open>The subscription of an id in its lane.\<close>

definition registered_sub :: "(string \<Rightarrow> nat) \<Rightarrow> live_topic \<Rightarrow> string \<Rightarrow> subscription option" where
  "registered_sub hash lt sid =
     Option.bind (nth_opt (sub_engines lt) (engine_for hash lt sid)) (\<lambda>e. map_of (subscriptions e) sid)"

lemma row_query_result:
  assumes "store_ok s" "query_fits s q" "row_query q" "\<forall>p \<in> set (order_by q). fst p < length (mappings s)"
  shows "\<exists>srcs rows n. execute_query ext tx q s = Some \<lparr>qr_rows = rows, total_matches = n, source_rows = srcs\<rparr> \<and>
    distinct srcs \<and> set srcs = {r. r < row_count s \<and> selects tx q s r} \<and> map Some rows = map (project_row ext q s) srcs"
proof -
  have n: "column_count (cs_schema s) = length (mappings s)"
    using store_ok_shape(1) [OF assms(1)] by (simp add: store_layout_def column_count_def)
  have "plain_query (length (mappings s)) q" using assms(2-4) by (simp add: plain_query_def row_query_def query_fits_def)
  then obtain ranked rows where a: "execute_query ext tx q s = Some \<lparr>qr_rows = rows, total_matches = length ranked, source_rows = row_window q ranked\<rparr>"
    "mset ranked = mset (taking_part tx q s None)"
    "map Some rows = map (output_row ext q s (effective_projection q (length (mappings s)))) (row_window q ranked)"
    using plain_query_answers [OF assms(1), of q ext tx] assms(2) by (auto simp: query_fits_def)
  have "distinct (taking_part tx q s None)" "set (taking_part tx q s None) = {r. r < row_count s \<and> selects tx q s r}"
    by (auto simp: taking_part_def selects_def)
  then have "distinct ranked" "set ranked = {r. r < row_count s \<and> selects tx q s r}"
    using a(2) by (metis mset_eq_imp_distinct_iff, metis set_mset_mset)
  moreover have "row_window q ranked = ranked" using assms(3) by (simp add: row_window_def row_query_def)
  moreover have "output_row ext q s (effective_projection q (length (mappings s))) = project_row ext q s"
    using output_is_project [of q s ext] assms(2,3) n by (simp add: fun_eq_iff query_fits_def row_query_def)
  ultimately show ?thesis using a(1,3) by auto
qed

lemma keep_live_rows:
  assumes "map Some rows = map f srcs"
  shows "map Some (map fst (filter (\<lambda>(_, src). src \<in> L) (zip rows srcs))) = map f (filter (\<lambda>r. r \<in> L) srcs)"
  using assms by (induction rows srcs rule: list_induct2') auto

lemma new_sub_fields:
  "row_query q \<Longrightarrow> plain_sub (new_sub t sid q False)" "sub_query (new_sub t sid q b) = q"
  "live_start_sequence (new_sub t sid q b) = next_sequence t + 1" "sub_id (new_sub t sid q b) = sid"
  by (simp_all add: new_sub_def with_live_start_def into_sparse_def subscription_new_def plain_sub_def row_query_def Let_def)

lemma seeded_catches_up:
  assumes "state_ok ext (tp_state t)" "\<not> is_placeholder_schema (st_schema (tp_state t))"
    "query_fits (st_store (tp_state t)) q" "row_query q"
    "\<forall>e \<in> set (mutation_tx t). ev_sequence e \<le> next_sequence t \<and> ev_row e < row_count (st_store (tp_state t))"
  shows "catching_up ext tx (t, (new_sub t sid q False)\<lparr>active_set := {r. r < row_count (st_store (tp_state t)) \<and> selects tx q (st_store (tp_state t)) r}\<rparr>,
    query_view ext tx q (st_store (tp_state t)) (live_rows (tp_state t)))"
proof -
  define sub where "sub = (new_sub t sid q False)\<lparr>active_set := {r. r < row_count (st_store (tp_state t)) \<and> selects tx q (st_store (tp_state t)) r}\<rparr>"
  have f: "plain_sub sub" "sub_query sub = q" "live_start_sequence sub = next_sequence t + 1"
    using new_sub_fields(1) [OF assms(4), of t sid] new_sub_fields(2,3) [of t sid q False] by (simp_all add: sub_def plain_sub_def)
  have "unseen sub t = []" using assms(5) f(3) by (auto simp: unseen_def filter_empty_conv)
  moreover have "r \<in> active_set sub" if "query_view ext tx q (st_store (tp_state t)) (live_rows (tp_state t)) r \<noteq> None" for r
    using that state_okD(7) [OF assms(1)] by (auto simp: query_view_def sub_def live_rows_def split: if_splits)
  ultimately show ?thesis using assms f unfolding sub_def [symmetric]
    by (simp add: catching_up_def Let_def row_in_step_def)
qed


lemma sample_query:
  "query_fits (st_store (tp_state sample_topic)) (select_where PTrue)" "row_query (select_where PTrue)"
proof -
  have "cs_schema (st_store (tp_state sample_topic)) = sample_schema"
    using state_okD(2) [OF sample_topic_ok(1)] sample_topic_ok(4) by simp
  moreover have "map col_index (columns sample_schema) = [0..<length (columns sample_schema)]" by code_simp
  ultimately show "query_fits (st_store (tp_state sample_topic)) (select_where PTrue)" by (simp add: query_fits_def)
qed (simp add: row_query_def)

lemma sample_not_placeholder: "\<not> is_placeholder_schema (st_schema (tp_state sample_topic))"
  using sample_schema_columns(3) sample_topic_ok(4) by simp


text \<open>
  C5: Catching up is exact. However publishes, deletes and expiries interleave with the evaluation
  of their events, and however late an event is evaluated, once the queue is empty the rows the
  consumer has built from the deltas are those the query selects among the live rows of the
  topic, with their current values.
\<close>

theorem drained_view_is_query:
  assumes "catching_up ext tx (t, sub, V)" "(live_step ext tx io)\<^sup>*\<^sup>* (t, sub, V) (t', sub', V')" "mutation_tx t' = []"
  shows "V' = query_view ext tx (sub_query sub) (st_store (tp_state t')) (live_rows (tp_state t'))"
  using reachable_catching_up [OF assms(2,1)] drained [OF _ assms(3)] by force

text \<open>
  C18: The evaluator always catches up. From every state a topic and its subscription can reach,
  evaluating the queued events alone, none of which panics, empties the queue and leaves the
  consumer with the rows of the query.
\<close>

theorem evaluator_catches_up:
  assumes "catching_up ext tx (t, sub, V)" "(live_step ext tx io)\<^sup>*\<^sup>* (t, sub, V) (t', sub', V')"
  shows "\<exists>sub'' V''. (live_step ext tx io)\<^sup>*\<^sup>* (t', sub', V') (t'\<lparr>mutation_tx := []\<rparr>, sub'', V'') \<and>
    V'' = query_view ext tx (sub_query sub) (st_store (tp_state t')) (live_rows (tp_state t'))"
proof -
  have c: "catching_up ext tx (t', sub', V')" "sub_query sub' = sub_query sub" using reachable_catching_up [OF assms(2,1)] by simp_all
  obtain sub'' V'' where d: "(live_step ext tx io)\<^sup>*\<^sup>* (t', sub', V') (t'\<lparr>mutation_tx := []\<rparr>, sub'', V'')"
    using drains [OF c(1), of io] by blast
  have "V'' = query_view ext tx (sub_query sub'') (st_store (tp_state t')) (live_rows (tp_state t'))"
    using drained [of ext tx "t'\<lparr>mutation_tx := []\<rparr>" sub'' V''] reachable_catching_up [OF d c(1)] by simp
  then show ?thesis using d c(2) reachable_catching_up [OF d c(1)] by auto
qed

lemma sample_run:
  obtains t' sub V where
    "catching_up sample_externals sample_text (sample_topic, sub, V)" "sub_query sub = select_where PTrue"
    "(live_step sample_externals sample_text sample_io)\<^sup>*\<^sup>* (sample_topic, sub, V) (t', sub, V)"
    "\<exists>r. mutation_tx t' = [\<lparr>ev_row = r, ev_sequence = 1, ev_kind = MutUpsert, ev_changed_cols = None\<rparr>]"
proof -
  define sub where "sub = (new_sub sample_topic ''s'' (select_where PTrue) False)
    \<lparr>active_set := {r. r < row_count (st_store (tp_state sample_topic)) \<and> selects sample_text (select_where PTrue) (st_store (tp_state sample_topic)) r}\<rparr>"
  let ?V = "query_view sample_externals sample_text (select_where PTrue) (st_store (tp_state sample_topic)) (live_rows (tp_state sample_topic))"
  have c: "catching_up sample_externals sample_text (sample_topic, sub, ?V)"
    unfolding sub_def by (rule seeded_catches_up [OF sample_topic_ok(1) sample_not_placeholder sample_query]) (simp add: sample_topic_ok(8))
  let ?vs = "map_values sample_externals (st_schema (tp_state sample_topic)) sample_doc"
  have key: "compute_key_with sample_externals ?vs (key_col_indices (tp_state sample_topic)) = Some ''1''"
    unfolding sample_topic_ok(4,5) sample_doc_values sample_show(1) [symmetric] by (rule sample_key)
  have "row_kinds (st_store (tp_state sample_topic)) = map col_type (columns (st_schema (tp_state sample_topic)))"
    unfolding state_okD(2) [OF sample_topic_ok(1), symmetric] by (rule row_kinds_schema [OF state_okD(1) [OF sample_topic_ok(1)]])
  then have "row_typed (row_kinds (st_store (tp_state sample_topic))) ?vs" by (simp only: map_values_typed)
  then obtain st r where "commit_values_locked sample_externals (env_now sample_env) (tp_state sample_topic) ?vs = Some (st, r)"
    using commit_changes [OF sample_topic_ok(1) _ key] by blast
  moreover have "journal_result sample_env sample_topic None = (None, sample_topic\<lparr>next_sequence := 1\<rparr>)"
    by (simp add: journal_result_def sample_topic_ok)
  ultimately obtain t' where up: "upsert_map sample_externals sample_io sample_env sample_topic sample_doc = Some (Inr 1, t')"
    "mutation_tx t' = [\<lparr>ev_row = r, ev_sequence = 1, ev_kind = MutUpsert, ev_changed_cols = None\<rparr>]"
    by (simp add: upsert_map_flat no_discovery [OF sample_not_placeholder] publish_flat_def sample_doc_flat sample_topic_ok write_store_unfold emit_event_def)
  have "live_step sample_externals sample_text sample_io (sample_topic, sub, ?V) (t', sub, ?V)"
    by (rule live_publish [OF up(1)]) (use key in \<open>simp add: sample_doc_flat\<close>)
  moreover have "sub_query sub = select_where PTrue" by (simp add: sub_def new_sub_fields(2))
  ultimately show thesis using c up(2) that by blast
qed

theorem evaluator_catches_up_witness:
  "\<exists>t' sub V sub'' V''. mutation_tx t' \<noteq> [] \<and>
     (live_step sample_externals sample_text sample_io)\<^sup>*\<^sup>* (t', sub, V) (t'\<lparr>mutation_tx := []\<rparr>, sub'', V'') \<and>
     V'' = query_view sample_externals sample_text (select_where PTrue) (st_store (tp_state t')) (live_rows (tp_state t'))"
proof -
  obtain t' sub V where r: "catching_up sample_externals sample_text (sample_topic, sub, V)" "sub_query sub = select_where PTrue"
    "(live_step sample_externals sample_text sample_io)\<^sup>*\<^sup>* (sample_topic, sub, V) (t', sub, V)"
    "\<exists>r. mutation_tx t' = [\<lparr>ev_row = r, ev_sequence = 1, ev_kind = MutUpsert, ev_changed_cols = None\<rparr>]" by (rule sample_run)
  then show ?thesis using evaluator_catches_up [OF r(1,3)] by force
qed

theorem drained_view_is_query_witness:
  "\<exists>t' sub V. mutation_tx t' \<noteq> [] \<and>
     (\<exists>sub'' V''. (live_step sample_externals sample_text sample_io)\<^sup>*\<^sup>* (t', sub, V) (t'\<lparr>mutation_tx := []\<rparr>, sub'', V'') \<and>
       V'' = query_view sample_externals sample_text (select_where PTrue) (st_store (tp_state t')) (live_rows (tp_state t')))"
proof -
  obtain t' sub V where r: "catching_up sample_externals sample_text (sample_topic, sub, V)" "sub_query sub = select_where PTrue"
    "(live_step sample_externals sample_text sample_io)\<^sup>*\<^sup>* (sample_topic, sub, V) (t', sub, V)"
    "\<exists>r. mutation_tx t' = [\<lparr>ev_row = r, ev_sequence = 1, ev_kind = MutUpsert, ev_changed_cols = None\<rparr>]" by (rule sample_run)
  have "catching_up sample_externals sample_text (t', sub, V)" using reachable_catching_up [OF r(3,1)] by simp
  then obtain sub'' V'' where d: "(live_step sample_externals sample_text sample_io)\<^sup>*\<^sup>* (t', sub, V) (t'\<lparr>mutation_tx := []\<rparr>, sub'', V'')"
    using drains by blast
  then have "V'' = query_view sample_externals sample_text (select_where PTrue) (st_store (tp_state t')) (live_rows (tp_state t'))"
    using drained_view_is_query [OF r(1) rtranclp_trans [OF r(3) d]] r(2) by simp
  then show ?thesis using d r(4) by force
qed

section \<open>Mutations that report their columns\<close>

lemma affected_new:
  assumes "referenced_columns p \<noteq> []" "set (referenced_columns p) \<inter> set changed = {}"
  shows "affected (pi_add sid p pi_new) (Some changed) = []"
proof -
  have "pi_ok pi_new" "registered pi_new = Map.empty" by (simp_all add: pi_ok_def pi_new_def registered_def subs_at_def)
  then have "pi_ok (pi_add sid p pi_new)" "registered (pi_add sid p pi_new) = [sid \<mapsto> referenced_columns p]"
    using pi_add_ok by auto
  then have "set (affected (pi_add sid p pi_new) (Some changed)) = {}"
    using affected_set [of "pi_add sid p pi_new" "Some changed"] assms by (auto simp del: set_referenced_columns)
  then show ?thesis by simp
qed

text \<open>
  C32: A delta publish is lost on subscribers whose filter does not read a changed column. Such a
  change cannot alter whether the row is selected; but when the row is and stays selected, the
  subscriber is not sent its new values, which it is sent when the columns are not reported.
\<close>

theorem delta_publish_not_delivered:
  assumes sub: "plain_sub sub" "live_start_sequence sub \<le> seq" "r \<in> active_set sub" "selects tx (sub_query sub) s r"
    and st: "store_ok s" "store_ok t" "cs_schema t = cs_schema s" "r < row_count s" "r < row_count t" "query_fits s (sub_query sub)"
    and cols: "referenced_columns (predicate (sub_query sub)) \<noteq> []"
      "\<forall>c \<in> set (referenced_columns (predicate (sub_query sub))). c \<notin> set changed \<and> row_of t r ! c = row_of s r ! c"
  shows "selects tx (sub_query sub) t r \<and>
    evaluate_row_kind_indexed ext tx r seq t MutUpsert (Some changed) (engine_add sub engine_new) = Some (engine_add sub engine_new, []) \<and>
    (\<exists>d e. project_row ext (sub_query sub) t r = Some d \<and>
      evaluate_row_kind_indexed ext tx r seq t MutUpsert None (engine_add sub engine_new) = Some (e, [make_delta sub DUpdate r seq d]))"
proof -
  let ?q = "sub_query sub"
  have fits: "query_fits t ?q" using query_fits_schema [OF st(1-3,6)] .
  have "agree (set (collect_referenced (predicate ?q))) (row_of t r) (row_of s r)"
    using cols(2) by (simp add: agree_def same_value_def)
  then have sel: "selects tx ?q t r" using sub(4) row_3vl_agree [of "predicate ?q"] by (simp add: selects_def)
  have "affected (pi_add (sub_id sub) (predicate ?q) pi_new) (Some changed) = []"
    using affected_new [of "predicate ?q" changed] cols by (auto simp del: set_referenced_columns)
  then have skip: "evaluate_row_kind_indexed ext tx r seq t MutUpsert (Some changed) (engine_add sub engine_new) = Some (engine_add sub engine_new, [])"
    by (simp add: evaluate_row_kind_indexed_def engine_add_def engine_new_def)
  obtain d where d: "project_row ext ?q t r = Some d"
    using project_row_total [OF st(2,5), of ?q ext] fits by (auto simp: query_fits_def)
  have m: "matches tx t r (predicate ?q) = Some True"
    using matches_row [OF st(2,5), of "predicate ?q" tx] fits sel by (simp add: query_fits_def selects_def)
  have "evaluate_sub ext tx sub r seq MutUpsert t = Some (sub, [make_delta sub DUpdate r seq d])"
    using sub d m by (simp add: evaluate_sub_def evaluate_plain_def plain_sub_def)
  then have "evaluate_row_kind_indexed ext tx r seq t MutUpsert None (engine_add sub engine_new) =
      Some (engine_add sub engine_new, [make_delta sub DUpdate r seq d])"
    by (simp add: evaluate_row_kind_indexed_def engine_add_def engine_new_def)
  then show ?thesis using sel skip d by blast
qed

lemma sample_row_store:
  obtains s where "append_row sample_externals (column_store_new sample_schema 1) [VLong 1, px, VNull] = Some (s, 0)"
    "store_ok s" "cs_schema s = sample_schema" "row_count s = 1" "row_of s 0 ! 0 = VLong 1"
    "query_fits s (select_where (EqLong 0 1))" "selects sample_text (select_where (EqLong 0 1)) s 0"
proof -
  obtain s where s: "append_row sample_externals (column_store_new sample_schema 1) [VLong 1, px, VNull] = Some (s, 0)"
    "store_ok s" "row_kinds s = [TLong, TDouble, TString]" "row_count s = 1" "cs_schema s = sample_schema"
    "row_of s 0 = fresh_values sample_externals [TLong, TDouble, TString] [VLong 1, px, VNull]"
    using append_first_row [of 1 sample_externals sample_schema "[VLong 1, px, VNull]"] by (auto simp: sample_kinds)
  have v: "row_of s 0 ! 0 = VLong 1" using s(6) by (simp add: fresh_values_def overlay_def cell_after_def upt_rec)
  have "map col_index (columns sample_schema) = [0..<length (columns sample_schema)]" by code_simp
  then have "query_fits s (select_where (EqLong 0 1))" using s(3,5) by (simp add: query_fits_def leaf_kind_def)
  moreover have "selects sample_text (select_where (EqLong 0 1)) s 0"
    using v by (simp add: selects_def unless_null_def tri_def i64_min_def)
  ultimately show thesis using that s v by blast
qed

theorem delta_publish_not_delivered_witness:
  "\<exists>t sub d e. append_row sample_externals (column_store_new sample_schema 1) [VLong 1, VDouble 0, VNull] = Some (t, 0) \<and>
     evaluate_row_kind_indexed sample_externals sample_text 0 1 t MutUpsert (Some [1]) (engine_add sub engine_new) = Some (engine_add sub engine_new, []) \<and>
     evaluate_row_kind_indexed sample_externals sample_text 0 1 t MutUpsert None (engine_add sub engine_new) = Some (e, [make_delta sub DUpdate 0 1 d])"
proof -
  obtain s where s: "append_row sample_externals (column_store_new sample_schema 1) [VLong 1, VNull, VNull] = Some (s, 0)"
    "store_ok s" "cs_schema s = sample_schema" "row_count s = 1" "row_of s 0 ! 0 = VLong 1"
    "query_fits s (select_where (EqLong 0 1))" "selects sample_text (select_where (EqLong 0 1)) s 0" by (rule sample_row_store)
  obtain t where t: "append_row sample_externals (column_store_new sample_schema 1) [VLong 1, VDouble 0, VNull] = Some (t, 0)"
    "store_ok t" "cs_schema t = sample_schema" "row_count t = 1" "row_of t 0 ! 0 = VLong 1" by (rule sample_row_store)
  let ?sub = "(subscription_new ''s'' (select_where (EqLong 0 1)))\<lparr>active_set := {0}\<rparr>"
  have "plain_sub ?sub" "live_start_sequence ?sub \<le> 1" "0 \<in> active_set ?sub" "sub_query ?sub = select_where (EqLong 0 1)"
    by (simp_all add: subscription_new_def plain_sub_def)
  moreover have "referenced_columns (EqLong 0 1) = [0]" by code_simp
  ultimately show ?thesis
    using delta_publish_not_delivered [of ?sub 1 0 sample_text s t "[1]" sample_externals] s t by (auto simp del: set_referenced_columns)
qed

section \<open>Capped subscriptions\<close>



end
