(* ===== verification/CQ_Live_Window.thy ===== *)
theory CQ_Live_Window
  imports CQ_Live_Query
begin

text \<open>
  Top-n subscriptions (\<open>evaluate_topn\<close> of \<open>crates/cq-core/src/subscription.rs\<close>): the ranked set is the
  selected rows in the order of their sort keys, and the deltas of an evaluation move the consumer
  from one window of the first n rows to the next.
\<close>

section \<open>Ranking\<close>

text \<open>The order of sort keys is that of a key of the values, for values of one column type.\<close>

fun sort_rank :: "cq_value \<Rightarrow> nat \<times> int \<times> string" where
  "sort_rank (VDouble x) = (1, f64_total_key x, [])"
| "sort_rank (VLong x) = (1, sint x, [])"
| "sort_rank (VInt x) = (1, sint x, [])"
| "sort_rank (VString x) = (case x of None \<Rightarrow> (1, 0, []) | Some t \<Rightarrow> (1, 1, t))"
| "sort_rank VNull = (0, 0, [])"
| "sort_rank _ = (1, 0, [])"

lemma sort_compare_typed:
  "v = VNull \<or> typed k v \<Longrightarrow> w = VNull \<or> typed k w \<Longrightarrow> sort_compare_values v w = ord_cmp (sort_rank v) (sort_rank w)"
  by (cases k) (auto simp: sort_compare_values_def ord_cmp_def split: cq_value.splits option.splits)

definition sort_key_of :: "(nat \<times> bool) list \<Rightarrow> cq_value list \<Rightarrow> sort_key" where
  "sort_key_of cols vs = map (\<lambda>(c, asc). (vs ! c, asc)) cols"

lemma sort_key_cmp_typed:
  assumes "row_typed ks v" "row_typed ks w" "\<forall>p \<in> set cols. fst p < length ks"
  shows "sort_key_cmp (sort_key_of cols v) (sort_key_of cols w) = lex_cmp sort_rank cols v w"
  using assms(3)
proof (induction cols)
  case (Cons p cols)
  obtain c asc where p: "p = (c, asc)" by fastforce
  have "sort_compare_values (v ! c) (w ! c) = ord_cmp (sort_rank (v ! c)) (sort_rank (w ! c))"
    using assms(1,2) Cons.prems p by (intro sort_compare_typed [where k = "ks ! c"]) (auto simp: row_typed_def)
  then show ?case using Cons p by (simp add: sort_key_of_def sort_element_cmp_def Let_def)
qed (simp add: sort_key_of_def)

text \<open>The rank of a row among rows with given values: the sort key, then the row number.\<close>

definition row_before :: "(nat \<times> bool) list \<Rightarrow> (nat \<Rightarrow> cq_value list) \<Rightarrow> nat \<Rightarrow> nat \<Rightarrow> bool" where
  "row_before cols val a b \<longleftrightarrow>
     lex_cmp sort_rank cols (val a) (val b) = OrdLess \<or> lex_cmp sort_rank cols (val a) (val b) = OrdEqual \<and> a < b"

definition ranked_entry :: "(nat \<times> bool) list \<Rightarrow> (nat \<Rightarrow> cq_value list) \<Rightarrow> nat \<Rightarrow> sort_key \<times> nat" where
  "ranked_entry cols val r = (sort_key_of cols (val r), r)"

lemma ranked_cmp_entry:
  assumes "row_typed ks (val a)" "row_typed ks (val b)" "\<forall>p \<in> set cols. fst p < length ks"
  shows "ranked_cmp (ranked_entry cols val a) (ranked_entry cols val b) =
    (if a = b then OrdEqual else if row_before cols val a b then OrdLess else OrdGreater)"
proof -
  have refl: "lex_cmp sort_rank cols (val a) (val a) = OrdEqual"
    using rows.cmp_sym [of sort_rank cols "val a" "val a"] by (cases "lex_cmp sort_rank cols (val a) (val a)") simp_all
  show ?thesis
    using sort_key_cmp_typed [OF assms] refl
    by (cases "lex_cmp sort_rank cols (val a) (val b)") (auto simp: ranked_cmp_def ranked_entry_def row_before_def Let_def ord_cmp_def)
qed

lemma before_trans: "row_before cols val a b \<Longrightarrow> row_before cols val b c \<Longrightarrow> row_before cols val a c"
proof -
  let ?c = "lex_cmp sort_rank cols"
  assume ab: "row_before cols val a b" and bc: "row_before cols val b c"
  have le: "?c (val a) (val c) \<noteq> OrdGreater"
    using ab bc rows.cmp_trans [of sort_rank cols "val a" "val b" "val c"] by (auto simp: row_before_def)
  show ?thesis
  proof (cases "?c (val a) (val c) = OrdEqual")
    case True
    then have ca: "?c (val c) (val a) = OrdEqual" using rows.cmp_sym [of sort_rank cols "val c" "val a"] by simp
    have "?c (val c) (val b) \<noteq> OrdGreater" using ca ab rows.cmp_trans [of sort_rank cols "val c" "val a" "val b"] by (auto simp: row_before_def)
    then have "?c (val b) (val c) \<noteq> OrdLess" using rows.cmp_sym [of sort_rank cols "val b" "val c"] by auto
    then have b: "?c (val b) (val c) = OrdEqual" "b < c" using bc by (auto simp: row_before_def)
    have "?c (val b) (val a) \<noteq> OrdGreater" using b ca rows.cmp_trans [of sort_rank cols "val b" "val c" "val a"] by simp
    then have "?c (val a) (val b) \<noteq> OrdLess" using rows.cmp_sym [of sort_rank cols "val a" "val b"] by auto
    then show ?thesis using ab b True by (auto simp: row_before_def)
  next
    case False
    then show ?thesis using le by (cases "?c (val a) (val c)") (simp_all add: row_before_def)
  qed
qed

lemma before_total: "a \<noteq> b \<Longrightarrow> row_before cols val a b \<noteq> row_before cols val b a"
  using rows.cmp_sym [of sort_rank cols "val b" "val a"]
  by (cases "lex_cmp sort_rank cols (val a) (val b)") (auto simp: row_before_def)

fun rank_insert :: "(nat \<times> bool) list \<Rightarrow> (nat \<Rightarrow> cq_value list) \<Rightarrow> nat \<Rightarrow> nat list \<Rightarrow> nat list" where
  "rank_insert cols val r [] = [r]"
| "rank_insert cols val r (x # xs) = (if row_before cols val r x then r # x # xs else x # rank_insert cols val r xs)"

lemma set_rank_insert [simp]: "set (rank_insert cols val r rs) = insert r (set rs)"
  by (induction rs) auto

lemma sorted_rank_insert:
  "sorted_wrt (row_before cols val) rs \<Longrightarrow> r \<notin> set rs \<Longrightarrow> sorted_wrt (row_before cols val) (rank_insert cols val r rs)"
  by (induction rs) (auto dest: before_total intro: before_trans)

lemma ranked_insert_entries:
  assumes "\<forall>x \<in> insert r (set rs). row_typed ks (val x)" "\<forall>p \<in> set cols. fst p < length ks" "r \<notin> set rs"
  shows "ranked_insert (ranked_entry cols val r) (map (ranked_entry cols val) rs) = map (ranked_entry cols val) (rank_insert cols val r rs)"
  using assms by (induction rs) (auto simp: ranked_cmp_entry)

lemma ranked_remove_entries:
  assumes "\<forall>x \<in> insert r (set rs). row_typed ks (val x)" "\<forall>p \<in> set cols. fst p < length ks"
  shows "ranked_remove (ranked_entry cols val r) (map (ranked_entry cols val) rs) = map (ranked_entry cols val) (filter (\<lambda>x. x \<noteq> r) rs)"
  using assms by (induction rs) (auto simp: ranked_remove_def ranked_cmp_entry split: if_splits)

section \<open>Top-n subscriptions\<close>

text \<open>
  The state of a top-n subscription whose filter selects the rows \<open>rs\<close>: all of them in rank order,
  the window the first \<open>n\<close>, and the consumer holding the rows of the window.
\<close>

definition ranking :: "parsed_query \<Rightarrow> column_store \<Rightarrow> nat list \<Rightarrow> topn_state \<Rightarrow> bool" where
  "ranking q s rs tn \<longleftrightarrow>
     sorted_wrt (row_before (order_by q) (row_of s)) rs \<and> ranked tn = map (ranked_entry (order_by q) (row_of s)) rs \<and>
     row_to_key tn = (\<lambda>r. if r \<in> set rs then Some (sort_key_of (order_by q) (row_of s r)) else None)"

definition window_view :: "externals \<Rightarrow> parsed_query \<Rightarrow> nat \<Rightarrow> column_store \<Rightarrow> nat list \<Rightarrow> row_view" where
  "window_view ext q n s rs r = (if r \<in> set (take n rs) then project_row ext q s r else None)"

definition topn_in_step ::
  "externals \<Rightarrow> parsed_query \<Rightarrow> nat \<Rightarrow> column_store \<Rightarrow> nat list \<Rightarrow> topn_state \<Rightarrow> row_view \<Rightarrow> bool" where
  "topn_in_step ext q n s rs tn V \<longleftrightarrow> ranking q s rs tn \<and> current_topn tn = take n rs \<and> V = window_view ext q n s rs"

text \<open>One row of a store changes, or is added.\<close>

definition one_row_changes :: "column_store \<Rightarrow> nat \<Rightarrow> column_store \<Rightarrow> bool" where
  "one_row_changes s r t \<longleftrightarrow>
     store_ok s \<and> store_ok t \<and> cs_schema t = cs_schema s \<and> {..<row_count t} = insert r {..<row_count s} \<and>
     (\<forall>x < row_count s. x \<noteq> r \<longrightarrow> row_of t x = row_of s x)"

lemma row_of_row_typed: "store_ok s \<Longrightarrow> r < row_count s \<Longrightarrow> row_typed (row_kinds s) (row_of s r)"
  using row_of_typed [of s _ r] store_ok_shape(3) [of s] by (auto simp: row_typed_def row_of_def row_kinds_def)

lemma build_sort_key_row:
  assumes "store_ok s" "r < row_count s" "\<forall>p \<in> set cols. fst p < length (mappings s)"
  shows "build_sort_key s r cols = Some (sort_key_of cols (row_of s r))"
  unfolding build_sort_key_def sort_key_of_def
  by (rule those_map_total) (use assms store_ok_shape(3) [OF assms(1)] in \<open>auto simp: store_ok_cell split: prod.splits\<close>)

lemma entries_cong: "(\<And>x. x \<in> set rs \<Longrightarrow> val x = val' x) \<Longrightarrow> map (ranked_entry cols val) rs = map (ranked_entry cols val') rs"
  by (simp add: ranked_entry_def)

lemma sorted_cong:
  "(\<And>x. x \<in> set rs \<Longrightarrow> val x = val' x) \<Longrightarrow> sorted_wrt (row_before cols val) rs \<longleftrightarrow> sorted_wrt (row_before cols val') rs"
  by (induction rs) (auto simp: row_before_def)

text \<open>What \<open>rerank\<close> makes of the ranking when row \<open>r\<close> has changed.\<close>

lemma rerank_in_step:
  fixes tx :: text_ops
  assumes step: "one_row_changes s r t" and rs: "set rs \<subseteq> {..<row_count s}" "ranking q s rs tn"
    and q: "pred_typed (row_kinds t) (predicate q)" "\<forall>p \<in> set (order_by q). fst p < length (mappings t)"
  defines "rest \<equiv> filter (\<lambda>x. x \<noteq> r) rs"
  defines "rs' \<equiv> (if selects tx q t r then rank_insert (order_by q) (row_of t) r rest else rest)"
  shows "\<exists>tn'. rerank tx t q r tn = Some (tn', selects tx q t r) \<and>
    ranking q t rs' tn' \<and> current_topn tn' = current_topn tn"
proof -
  let ?c = "order_by q" and ?b = "\<lambda>s. row_before (order_by q) (row_of s)" and ?e = "\<lambda>s. ranked_entry (order_by q) (row_of s)"
  have ok: "store_ok s" "store_ok t" "r < row_count t" using step by (auto simp: one_row_changes_def)
  have kinds: "row_kinds s = row_kinds t" using step row_kinds_schema [of s] row_kinds_schema [of t] by (simp add: one_row_changes_def)
  have n: "length (row_kinds t) = length (mappings t)" by (simp add: row_kinds_def)
  note inv = rs(2) [unfolded ranking_def]
  have same: "row_of t x = row_of s x" "x < row_count t" if "x \<in> set rest" for x
    using that step rs(1) by (auto simp: one_row_changes_def rest_def)
  have old: "(case row_to_key tn r of Some k \<Rightarrow> ranked_remove (k, r) (ranked tn) | None \<Rightarrow> ranked tn) = map (?e t) rest"
  proof -
    have "(case row_to_key tn r of Some k \<Rightarrow> ranked_remove (k, r) (ranked tn) | None \<Rightarrow> ranked tn) = map (?e s) rest"
    proof (cases "r \<in> set rs")
      case True
      then have "\<forall>x \<in> insert r (set rs). row_typed (row_kinds s) (row_of s x)"
        using rs(1) row_of_row_typed [OF ok(1)] by auto
      then have "ranked_remove (?e s r) (map (?e s) rs) = map (?e s) rest"
        unfolding rest_def by (rule ranked_remove_entries) (use q(2) n kinds in simp)
      then show ?thesis using True inv by (simp add: ranked_entry_def)
    next
      case False
      moreover have "rest = rs" using False by (auto simp: rest_def intro: filter_True)
      ultimately show ?thesis using inv by simp
    qed
    then show ?thesis using entries_cong [of rest "row_of s" "row_of t"] same(1) by simp
  qed
  have m: "matches tx t r (predicate q) = Some (selects tx q t r)"
    using matches_row [OF ok(2,3) q(1)] by (simp add: selects_def)
  have sorted: "sorted_wrt (?b t) rest"
  proof -
    have "sorted_wrt (?b s) rest" using inv by (simp add: rest_def sorted_wrt_filter)
    then show ?thesis using sorted_cong [of rest "row_of s" "row_of t" ?c] same(1) by simp
  qed
  show ?thesis
  proof (cases "selects tx q t r")
    case True
    have "ranked_insert (?e t r) (map (?e t) rest) = map (?e t) rs'"
      unfolding rs'_def using True same(2) ok row_of_row_typed [OF ok(2)] q(2) n
      by (simp, intro ranked_insert_entries [where ks = "row_kinds t"]) (auto simp: rest_def)
    moreover have "sorted_wrt (?b t) rs'" using True sorted by (simp add: rs'_def sorted_rank_insert rest_def)
    moreover have "set rs' = insert r (set rs)" using True by (auto simp: rs'_def rest_def)
    moreover have "(row_to_key tn)(r \<mapsto> sort_key_of ?c (row_of t r)) = (\<lambda>x. if x \<in> set rs' then Some (sort_key_of ?c (row_of t x)) else None)"
      using inv same(1) True by (auto simp: fun_eq_iff rs'_def rest_def)
    ultimately show ?thesis
      using True m old build_sort_key_row [OF ok(2,3) q(2)] by (simp add: rerank_def ranked_entry_def ranking_def)
  next
    case False
    then have "(row_to_key tn)(r := None) = (\<lambda>x. if x \<in> set rs' then Some (sort_key_of ?c (row_of t x)) else None)"
      using inv same(1) by (auto simp: fun_eq_iff rs'_def rest_def)
    then show ?thesis using False m old sorted by (simp add: rerank_def rs'_def ranking_def)
  qed
qed

lemma apply_delta_at: "apply_delta d V x = (if d_row d = x then delta_effect d else V x)"
  by (simp add: apply_delta_def)

lemma fold_deltas_other: "\<forall>d \<in> set ds. d_row d \<noteq> x \<Longrightarrow> fold apply_delta ds V x = V x"
  by (induction ds arbitrary: V) (auto simp: apply_delta_at)

lemma fold_deltas_here:
  assumes "d \<in> set ds" "d_row d = x" "\<forall>d' \<in> set ds. d_row d' = x \<longrightarrow> delta_effect d' = delta_effect d"
  shows "fold apply_delta ds V x = delta_effect d"
  using assms
proof (induction ds rule: rev_induct)
  case (snoc d' ds)
  show ?case
  proof (cases "d_row d' = x")
    case True
    then show ?thesis using snoc.prems(3) by (simp add: apply_delta_at [of _ "fold apply_delta ds V"])
  next
    case False
    have "d \<in> set ds" using snoc.prems(1,2) False by auto
    moreover have "\<forall>d' \<in> set ds. d_row d' = x \<longrightarrow> delta_effect d' = delta_effect d"
      using snoc.prems(3) unfolding set_append by blast
    ultimately have "fold apply_delta ds V x = delta_effect d" by (intro snoc.IH snoc.prems(2))
    then show ?thesis using False by (simp add: apply_delta_at [of _ "fold apply_delta ds V"])
  qed
qed simp

lemma make_delta_simps [simp]:
  "d_row (make_delta sub ty r seq d) = r" "delta_type (make_delta sub ty r seq d) = ty" "row_data (make_delta sub ty r seq d) = d"
  by (simp_all add: make_delta_def)

text \<open>The effect of the three groups of deltas a change of the window sends.\<close>

lemma window_deltas:
  assumes "added = map (\<lambda>r. make_delta sub DAdd r seq (P r)) (filter (\<lambda>r. r \<notin> set old) new)"
    "left = map (\<lambda>r. make_delta sub (if K r then DOof else DRemove) r seq (P r)) (filter (\<lambda>r. r \<notin> set new) old)"
    "kept = (if row \<in> set old \<and> row \<in> set new then [make_delta sub DUpdate row seq (P row)] else [])"
    "\<And>x. x \<in> set old \<Longrightarrow> x \<noteq> row \<Longrightarrow> V x = Some (P x)" "\<And>x. x \<notin> set old \<Longrightarrow> V x = None"
  shows "fold apply_delta (added @ left @ kept) V x = (if x \<in> set new then Some (P x) else None)"
proof -
  let ?ds = "added @ left @ kept"
  have eff: "delta_effect d = (if x \<in> set new then Some (P x) else None)" if "d \<in> set ?ds" "d_row d = x" for d
    using that assms(1-3) by (auto simp: delta_effect_def split: if_splits)
  show ?thesis
  proof (cases "\<exists>d \<in> set ?ds. d_row d = x")
    case True
    then obtain d where "d \<in> set ?ds" "d_row d = x" by blast
    then show ?thesis using fold_deltas_here [of d ?ds x V] eff by (metis (no_types, lifting))
  next
    case False
    have "d_row ` set added = set new - set old" "d_row ` set left = set old - set new"
      "d_row ` set kept = (if row \<in> set old \<and> row \<in> set new then {row} else {})"
      unfolding assms(1-3) by (auto simp: image_image)
    then have "x \<notin> set new - set old" "x \<notin> set old - set new" "x \<notin> (if row \<in> set old \<and> row \<in> set new then {row} else {})"
      using False by (metis (no_types, lifting) imageE Un_iff set_append)+
    then have "x \<in> set new \<longleftrightarrow> x \<in> set old" "x \<in> set new \<Longrightarrow> x \<noteq> row" by (auto split: if_splits)
    then show ?thesis using False fold_deltas_other [of ?ds x V] assms(4,5) by (cases "x \<in> set new") auto
  qed
qed

text \<open>One evaluation of a changed row.\<close>

lemma topn_step:
  assumes step: "one_row_changes s r t" and q: "query_fits t q" "\<forall>p \<in> set (order_by q). fst p < length (mappings t)" "limit q = Some n" "0 < n"
    and sub: "sub_query sub = q" "\<not> sub_closed sub" "live_start_sequence sub \<le> seq" "sub_aggregate sub = None" "sub_topn sub = Some tn"
    and inv: "topn_in_step ext q n s rs tn V" "set rs = {x. x < row_count s \<and> selects tx q s x}"
  shows "\<exists>tn' A ds rs'. evaluate_sub ext tx sub r seq mk t = Some (sub\<lparr>sub_topn := Some tn', active_set := A\<rparr>, ds) \<and>
    set rs' = {x. x < row_count t \<and> selects tx q t x} \<and> topn_in_step ext q n t rs' tn' (fold apply_delta ds V)"
proof -
  have ok: "store_ok s" "store_ok t" "r < row_count t" using step by (auto simp: one_row_changes_def)
  define rs' where "rs' = (if selects tx q t r then rank_insert (order_by q) (row_of t) r (filter (\<lambda>x. x \<noteq> r) rs) else filter (\<lambda>x. x \<noteq> r) rs)"
  have "set rs \<subseteq> {..<row_count s}" "pred_typed (row_kinds t) (predicate q)" using inv(2) q(1) by (auto simp: query_fits_def)
  moreover have "ranking q s rs tn" using inv(1) by (simp add: topn_in_step_def)
  ultimately obtain tn' where tn': "rerank tx t q r tn = Some (tn', selects tx q t r)" "ranking q t rs' tn'"
    unfolding rs'_def using rerank_in_step [OF step _ _ _ q(2), of rs tn tx] by blast
  have same: "selects tx q t x = selects tx q s x" "x < row_count t \<longleftrightarrow> x < row_count s" if "x < row_count s \<or> x < row_count t" "x \<noteq> r" for x
    using that step by (auto simp: one_row_changes_def selects_def set_eq_iff)
  have set': "set rs' = {x. x < row_count t \<and> selects tx q t x}"
    using inv(2) same ok(3) by (auto simp: rs'_def)
  obtain P where P: "\<And>x. x < row_count t \<Longrightarrow> project_row ext q t x = Some (P x)"
    using project_row_total [OF ok(2), of _ q ext] q(1) unfolding query_fits_def by metis
  let ?old = "take n rs" and ?new = "take n rs'"
  have bound: "x < row_count t" if "x \<in> set ?new \<or> x \<in> set ?old" for x
    using that set' inv(2) same(2) [of x] ok(3) by (cases "x = r") (auto dest!: in_set_takeD)
  have rows: "topn_rows n (ranked tn') = ?new" "current_topn tn = ?old"
    using tn'(2) inv(1) by (simp_all add: topn_rows_def topn_in_step_def ranking_def take_map ranked_entry_def comp_def)
  define added where "added = map (\<lambda>r. make_delta sub DAdd r seq (P r)) (filter (\<lambda>r. r \<notin> set ?old) ?new)"
  define left where "left = map (\<lambda>r. make_delta sub (if row_to_key tn' r \<noteq> None then DOof else DRemove) r seq (P r)) (filter (\<lambda>r. r \<notin> set ?new) ?old)"
  define kept where "kept = (if r \<in> set ?old \<and> r \<in> set ?new then [make_delta sub DUpdate r seq (P r)] else [])"
  have "those (map (\<lambda>r. map_option (make_delta sub DAdd r seq) (project_row ext q t r)) (filter (\<lambda>r. r \<notin> set ?old) ?new)) = Some added"
    unfolding added_def by (rule those_map_total) (use bound P in simp)
  moreover have "those (map (\<lambda>r. map_option (make_delta sub (if row_to_key tn' r \<noteq> None then DOof else DRemove) r seq) (project_row ext q t r))
      (filter (\<lambda>r. r \<notin> set ?new) ?old)) = Some left"
    unfolding left_def by (rule those_map_total) (use bound P in simp)
  ultimately have ev: "evaluate_sub ext tx sub r seq mk t = Some (sub\<lparr>sub_topn := Some (tn'\<lparr>current_topn := ?new\<rparr>),
      active_set := (if selects tx q t r then insert r (active_set sub) else active_set sub - {r})\<rparr>, added @ left @ kept)"
    using sub q(3,4) tn'(1) rows P [OF ok(3)] by (simp add: evaluate_sub_def evaluate_topn_def Let_def kept_def)
  have V: "V x = Some (P x)" if "x \<in> set ?old" "x \<noteq> r" for x
  proof -
    have "x < row_count s" using that inv(2) by (auto dest!: in_set_takeD)
    then have "project_row ext q s x = project_row ext q t x"
      using that(2) step same(2) [of x] by (intro project_row_cong) (auto simp: one_row_changes_def)
    then show ?thesis using that inv(1) P [of x] bound [of x] by (simp add: topn_in_step_def window_view_def)
  qed
  have gone: "V x = None" if "x \<notin> set ?old" for x
    using that inv(1) by (simp add: topn_in_step_def window_view_def)
  have "fold apply_delta (added @ left @ kept) V = window_view ext q n t rs'"
  proof
    fix x
    have "fold apply_delta (added @ left @ kept) V x = (if x \<in> set ?new then Some (P x) else None)"
      by (rule window_deltas [OF added_def left_def kept_def]) (erule (1) V, erule gone)
    then show "fold apply_delta (added @ left @ kept) V x = window_view ext q n t rs' x"
      using bound P by (simp add: window_view_def)
  qed
  then have "topn_in_step ext q n t rs' (tn'\<lparr>current_topn := ?new\<rparr>) (fold apply_delta (added @ left @ kept) V)"
    using tn'(2) by (simp add: topn_in_step_def ranking_def)
  then show ?thesis using ev set' by blast
qed

section \<open>Seeding the window\<close>

lemma ranking_insert:
  assumes s: "store_ok s" "r < row_count s" "\<forall>p \<in> set (order_by q). fst p < length (mappings s)"
    and rs: "ranking q s rs tn" "set rs \<subseteq> {..<row_count s}" "r \<notin> set rs"
  shows "ranking q s (rank_insert (order_by q) (row_of s) r rs)
    (tn\<lparr>ranked := ranked_insert (sort_key_of (order_by q) (row_of s r), r) (ranked tn),
        row_to_key := (row_to_key tn)(r \<mapsto> sort_key_of (order_by q) (row_of s r))\<rparr>)"
proof -
  have "\<forall>x \<in> insert r (set rs). row_typed (row_kinds s) (row_of s x)" using s(2) rs(2) row_of_row_typed [OF s(1)] by auto
  then have "ranked_insert (ranked_entry (order_by q) (row_of s) r) (map (ranked_entry (order_by q) (row_of s)) rs) =
      map (ranked_entry (order_by q) (row_of s)) (rank_insert (order_by q) (row_of s) r rs)"
    by (rule ranked_insert_entries) (use s(3) rs(3) in \<open>simp_all add: row_kinds_def\<close>)
  then show ?thesis using rs by (auto simp: ranking_def ranked_entry_def sorted_rank_insert fun_eq_iff)
qed

lemma seed_rows_topn:
  assumes s: "store_ok s" "query_fits s q" "\<forall>p \<in> set (order_by q). fst p < length (mappings s)"
    and rows: "set rows \<subseteq> {..<row_count s}" "distinct rows" "set rs \<inter> set rows = {}" "set rs \<subseteq> {..<row_count s}"
    and sub: "sub_query sub = q" "max_active sub = None" "\<not> sub_sparse sub" "sub_topn sub = Some tn" "ranking q s rs tn"
  shows "\<exists>A tn' rs'. seed_rows tx s proj rows sub = Some (sub\<lparr>active_set := A, sub_topn := Some tn'\<rparr>, True) \<and>
    ranking q s rs' tn' \<and> set rs' = set rs \<union> {x \<in> set rows. selects tx q s x}"
  using rows sub
proof (induction rows arbitrary: rs sub tn)
  case Nil
  have "sub = sub\<lparr>active_set := active_set sub, sub_topn := Some tn\<rparr>" using Nil(8) by simp
  then have "seed_rows tx s proj [] sub = Some (sub\<lparr>active_set := active_set sub, sub_topn := Some tn\<rparr>, True)"
    by (simp only: seed_rows.simps)
  moreover have "set rs = set rs \<union> {x \<in> set []. selects tx q s x}" by simp
  ultimately show ?case using Nil(9) by blast
next
  case (Cons r rows)
  have r: "r < row_count s" "r \<notin> set rs" "r \<notin> set rows" using Cons.prems(1-3) by auto
  have m: "matches tx s r (predicate q) = Some (selects tx q s r)"
    using matches_row [OF s(1) r(1), of "predicate q" tx] s(2) by (simp add: query_fits_def selects_def)
  show ?case
  proof (cases "selects tx q s r")
    case False
    then have "seed_rows tx s proj (r # rows) sub = seed_rows tx s proj rows sub" using m Cons.prems(5) by simp
    moreover obtain A tn' rs' where "seed_rows tx s proj rows sub = Some (sub\<lparr>active_set := A, sub_topn := Some tn'\<rparr>, True)"
      "ranking q s rs' tn'" "set rs' = set rs \<union> {x \<in> set rows. selects tx q s x}"
      using Cons.IH [of rs sub tn] Cons.prems by auto
    moreover have "{x \<in> set (r # rows). selects tx q s x} = {x \<in> set rows. selects tx q s x}" using False by auto
    ultimately show ?thesis by metis
  next
    case True
    let ?key = "sort_key_of (order_by q) (row_of s r)"
    define tn1 where "tn1 = tn\<lparr>ranked := ranked_insert (?key, r) (ranked tn), row_to_key := (row_to_key tn)(r \<mapsto> ?key)\<rparr>"
    define rs1 where "rs1 = rank_insert (order_by q) (row_of s) r rs"
    define sub1 where "sub1 = sub\<lparr>active_set := insert r (active_set sub), sub_topn := Some tn1\<rparr>"
    have rank: "ranking q s rs1 tn1"
      unfolding rs1_def tn1_def by (rule ranking_insert [OF s(1) r(1) s(3) Cons.prems(9,4) r(2)])
    have "seed_rows tx s proj (r # rows) sub = seed_rows tx s proj rows sub1"
      using m True Cons.prems(5-8) build_sort_key_row [OF s(1) r(1) s(3)] by (simp add: sub1_def tn1_def)
    moreover have "\<exists>A tn' rs'. seed_rows tx s proj rows sub1 = Some (sub1\<lparr>active_set := A, sub_topn := Some tn'\<rparr>, True) \<and>
      ranking q s rs' tn' \<and> set rs' = set rs1 \<union> {x \<in> set rows. selects tx q s x}"
      by (rule Cons.IH) (use Cons.prems r rank in \<open>auto simp: rs1_def sub1_def\<close>)
    moreover have "sub1\<lparr>active_set := A, sub_topn := tn'\<rparr> = sub\<lparr>active_set := A, sub_topn := tn'\<rparr>" for A tn'
      by (simp add: sub1_def)
    moreover have "set rs1 \<union> {x \<in> set rows. selects tx q s x} = set rs \<union> {x \<in> set (r # rows). selects tx q s x}"
      using True by (auto simp: rs1_def)
    ultimately show ?thesis by metis
  qed
qed

lemma topn_seeded:
  assumes s: "store_ok s" "query_fits s q" "\<forall>p \<in> set (order_by q). fst p < length (mappings s)"
    and q: "limit q = Some n" "0 < n"
  shows "\<exists>A tn rs. seed_subscription tx s (with_live_start from (subscription_new sid q)) =
      Some ((with_live_start from (subscription_new sid q))\<lparr>active_set := A, sub_topn := Some tn\<rparr>) \<and>
    topn_in_step ext q n s rs tn (window_view ext q n s rs) \<and> set rs = {x. x < row_count s \<and> selects tx q s x}"
proof -
  let ?sub = "with_live_start from (subscription_new sid q)"
  have f: "sub_query ?sub = q" "max_active ?sub = None" "\<not> sub_sparse ?sub" "sub_topn ?sub = Some topn_default" "ranking q s [] topn_default"
    using q by (simp_all add: with_live_start_def subscription_new_def ranking_def topn_default_def)
  obtain A tn rs where r: "seed_rows tx s (effective_projection q (column_count (cs_schema s))) [0..<row_count s] ?sub =
      Some (?sub\<lparr>active_set := A, sub_topn := Some tn\<rparr>, True)" "ranking q s rs tn"
    "set rs = set [] \<union> {x \<in> set [0..<row_count s]. selects tx q s x}"
    using seed_rows_topn [OF s, of "[0..<row_count s]" "[]" ?sub topn_default tx "effective_projection q (column_count (cs_schema s))"] f by (auto simp: lessThan_atLeast0)
  have "topn_rows n (ranked tn) = take n rs"
    using r(2) by (simp add: topn_rows_def ranking_def take_map ranked_entry_def comp_def)
  then have "topn_in_step ext q n s rs (tn\<lparr>current_topn := topn_rows n (ranked tn)\<rparr>) (window_view ext q n s rs)"
    using r(2) by (simp add: topn_in_step_def ranking_def)
  moreover have "seed_subscription tx s ?sub = Some (?sub\<lparr>active_set := A, sub_topn := Some (tn\<lparr>current_topn := topn_rows n (ranked tn)\<rparr>)\<rparr>)"
    using r(1) f(1) q(1) by (simp add: seed_subscription_def)
  ultimately show ?thesis using r(3) by auto
qed

section \<open>A run of changes\<close>

text \<open>
  Mutations \<open>(row, sequence, kind, store afterwards)\<close>, each evaluated before the next one, with the
  consumer that applies the deltas.
\<close>

type_synonym change = "nat \<times> nat \<times> mutation_kind \<times> column_store"

fun changes_from :: "column_store \<Rightarrow> change list \<Rightarrow> bool" where
  "changes_from s [] \<longleftrightarrow> True"
| "changes_from s ((r, _, _, t) # es) \<longleftrightarrow> one_row_changes s r t \<and> changes_from t es"

fun store_after :: "column_store \<Rightarrow> change list \<Rightarrow> column_store" where
  "store_after s [] = s"
| "store_after s ((_, _, _, t) # es) = store_after t es"

fun evaluate_changes :: "externals \<Rightarrow> text_ops \<Rightarrow> change list \<Rightarrow> subscription \<times> row_view \<Rightarrow> (subscription \<times> row_view) option" where
  "evaluate_changes ext tx [] x = Some x"
| "evaluate_changes ext tx ((r, seq, mk, t) # es) (sub, V) = do {
     (sub', ds) \<leftarrow> evaluate_sub ext tx sub r seq mk t;
     evaluate_changes ext tx es (sub', fold apply_delta ds V)
   }"

lemma topn_run:
  assumes "changes_from s es" "store_ok s" "query_fits s q" "\<forall>p \<in> set (order_by q). fst p < length (mappings s)" "limit q = Some n" "0 < n"
    and "\<forall>e \<in> set es. live_start_sequence sub \<le> fst (snd e)"
    and "sub_query sub = q" "\<not> sub_closed sub" "sub_aggregate sub = None" "sub_topn sub = Some tn"
    and "topn_in_step ext q n s rs tn V" "set rs = {x. x < row_count s \<and> selects tx q s x}"
  shows "\<exists>sub' tn' rs' V'. evaluate_changes ext tx es (sub, V) = Some (sub', V') \<and> sub_topn sub' = Some tn' \<and>
    topn_in_step ext q n (store_after s es) rs' tn' V' \<and> set rs' = {x. x < row_count (store_after s es) \<and> selects tx q (store_after s es) x}"
  using assms
proof (induction es arbitrary: s sub tn rs V)
  case Nil
  then show ?case by auto
next
  case (Cons e es)
  obtain r seq mk t where e: "e = (r, seq, mk, t)" by (cases e)
  have step: "one_row_changes s r t" "changes_from t es" using Cons.prems(1) e by auto
  then have t: "store_ok t" "cs_schema t = cs_schema s" by (auto simp: one_row_changes_def)
  have fits: "query_fits t q" "\<forall>p \<in> set (order_by q). fst p < length (mappings t)"
    using query_fits_schema [OF Cons.prems(2) t(1,2) Cons.prems(3)] Cons.prems(4) store_ok_shape(1) [OF Cons.prems(2)] store_ok_shape(1) [OF t(1)] t(2)
    by (simp_all add: store_layout_def)
  have seq: "live_start_sequence sub \<le> seq" "\<forall>e \<in> set es. live_start_sequence sub \<le> fst (snd e)" using Cons.prems(7) e by auto
  obtain tn' A ds rs' where ev: "evaluate_sub ext tx sub r seq mk t = Some (sub\<lparr>sub_topn := Some tn', active_set := A\<rparr>, ds)"
    "set rs' = {x. x < row_count t \<and> selects tx q t x}" "topn_in_step ext q n t rs' tn' (fold apply_delta ds V)"
    using topn_step [OF step(1) fits Cons.prems(5,6,8,9) seq(1) Cons.prems(10-13), of mk] by blast
  have "\<exists>sub' tn'' rs'' V'. evaluate_changes ext tx es (sub\<lparr>sub_topn := Some tn', active_set := A\<rparr>, fold apply_delta ds V) = Some (sub', V') \<and>
    sub_topn sub' = Some tn'' \<and> topn_in_step ext q n (store_after t es) rs'' tn'' V' \<and>
    set rs'' = {x. x < row_count (store_after t es) \<and> selects tx q (store_after t es) x}"
    by (rule Cons.IH [OF step(2) t(1) fits Cons.prems(5,6) _ _ _ _ _ ev(3,2)]) (use Cons.prems(8-10) seq(2) in simp_all)
  then show ?case using e ev(1) by simp
qed


lemma two_rows_ranked:
  assumes "sorted_wrt (row_before cols val) rs" "set rs = {0, 1}" "row_before cols val 1 0"
  shows "rs = [1, 0]"
proof -
  have asym: "\<not> row_before cols val a a" for a using before_trans [of cols val a a a] rows.cmp_sym [of sort_rank cols "val a" "val a"]
    by (cases "lex_cmp sort_rank cols (val a) (val a)") (auto simp: row_before_def)
  then have "\<not> row_before cols val 0 1" using assms(3) before_total [of 0 1 cols val] by auto
  moreover have "distinct rs" using assms(1) asym by (induction rs) auto
  then have "length rs = 2" using assms(2) distinct_card [of rs] by simp
  then obtain a b where "rs = [a, b]" by (auto simp: length_Suc_conv numeral_2_eq_2)
  ultimately show ?thesis using assms(1,2) by (auto simp: doubleton_eq_iff)
qed


end
