(* ===== verification/CQ_Live_Groups.thy ===== *)
theory CQ_Live_Groups
  imports CQ_Live_Window
begin

text \<open>
  Aggregating subscriptions (\<open>evaluate_aggregating_incremental\<close> of
  \<open>crates/cq-core/src/subscription.rs\<close>): group membership as a function of the store, and the
  recomputation of only those groups that a changed row leaves or joins.
\<close>

section \<open>Groups of a store\<close>

text \<open>The canonical text of a row's group key, from the values of the row.\<close>

definition group_text :: "externals \<Rightarrow> parsed_query \<Rightarrow> schema \<Rightarrow> cq_value list \<Rightarrow> string" where
  "group_text ext q sch vs =
     (let names = the (those (map (column_name_at sch) (group_by q))) in
      group_key_canonical ext (fold (\<lambda>(n, part). obj_insert n (group_key_to_json ext part)) (zip names (key_of_row ext (group_by q) vs)) []) names)"

lemma group_text_row:
  assumes "store_ok s" "r < row_count s" "groups_fit (length (mappings s)) q"
  shows "group_key_canonical_from_store ext s r (group_by q) = Some (group_text ext q (cs_schema s) (row_of s r))"
  using row_group_key_row [OF assms(1,2), of "group_by q" ext] agg_types_fit(2) [OF assms(1,3)] assms(3)
  by (auto simp: group_key_canonical_from_store_def group_text_def groups_fit_def Let_def)

text \<open>The rows among \<open>M\<close> of a group, the membership map, and the row the group is reported as.\<close>

definition group_of :: "externals \<Rightarrow> parsed_query \<Rightarrow> column_store \<Rightarrow> nat set \<Rightarrow> string \<Rightarrow> nat set" where
  "group_of ext q s M k = {r \<in> M. group_text ext q (cs_schema s) (row_of s r) = k}"

definition membership :: "externals \<Rightarrow> parsed_query \<Rightarrow> column_store \<Rightarrow> nat set \<Rightarrow> string \<Rightarrow> nat set option" where
  "membership ext q s M k = (if group_of ext q s M k = {} then None else Some (group_of ext q s M k))"

definition group_report :: "externals \<Rightarrow> parsed_query \<Rightarrow> column_store \<Rightarrow> nat set \<Rightarrow> string \<Rightarrow> json_map option option" where
  "group_report ext q s M k =
     (if group_of ext q s M k = {} then Some None else aggregate_one_group ext q s (group_of ext q s M k))"

text \<open>What was sent for a group and what it is now, up to the equality of JSON numbers.\<close>

fun same_report :: "json_map option \<Rightarrow> json_map option \<Rightarrow> bool" where
  "same_report None None \<longleftrightarrow> True"
| "same_report (Some a) (Some b) \<longleftrightarrow> a = b \<or> json_fields_eq a b"
| "same_report _ _ \<longleftrightarrow> False"

definition groups_in_step :: "externals \<Rightarrow> parsed_query \<Rightarrow> column_store \<Rightarrow> nat set \<Rightarrow> aggregate_sub_state \<Rightarrow> bool" where
  "groups_in_step ext q s M agg \<longleftrightarrow>
     row_group agg = (\<lambda>r. if r \<in> M then Some (group_text ext q (cs_schema s) (row_of s r)) else None) \<and>
     group_rows agg = membership ext q s M \<and>
     (\<forall>k. \<exists>rep. group_report ext q s M k = Some rep \<and> same_report (map_of (last_emitted agg) k) rep)"

lemma aggregate_one_group_cong:
  assumes ok: "store_ok s" "store_ok t" "cs_schema t = cs_schema s" "groups_fit (length (mappings s)) q"
    and B: "finite B" "\<forall>r \<in> B. r < row_count s \<and> r < row_count t \<and> row_of t r = row_of s r"
  shows "aggregate_one_group ext q t B = aggregate_one_group ext q s B"
proof (cases "B = {}")
  case True
  show ?thesis using True ok(3) by (simp add: aggregate_one_group_def nth_opt_def Let_def)
next
  case False
  have n: "length (mappings t) = length (mappings s)"
    using store_ok_shape(1) [OF ok(1)] store_ok_shape(1) [OF ok(2)] ok(3) by (simp add: store_layout_def)
  let ?rs = "sorted_list_of_set B"
  have fit: "\<forall>a \<in> set (aggregates q). agg_fits (length (mappings s)) a" "\<forall>c \<in> set (group_by q). c < length (mappings s)"
    using ok(4) by (simp_all add: groups_fit_def)
  have "update_all ext t (aggregates q) ?rs st = update_all ext s (aggregates q) ?rs st" for st
  proof -
    have "update_all ext t (aggregates q) ?rs st = Some (fold (\<lambda>r. update_of_row ext (aggregates q) (row_of t r)) ?rs st)"
      by (rule update_all_rows) (use ok(2) fit n B in auto)
    moreover have "update_all ext s (aggregates q) ?rs st = Some (fold (\<lambda>r. update_of_row ext (aggregates q) (row_of s r)) ?rs st)"
      by (rule update_all_rows) (use ok(1) fit B in auto)
    moreover have "fold (\<lambda>r. update_of_row ext (aggregates q) (row_of t r)) ?rs st = fold (\<lambda>r. update_of_row ext (aggregates q) (row_of s r)) ?rs st"
      by (rule fold_cong) (use B in auto)
    ultimately show ?thesis by simp
  qed
  moreover have "row_group_key ext t (group_by q) a = row_group_key ext s (group_by q) a" if "nth_opt ?rs 0 = Some a" for a
  proof -
    have "a \<in> B" using that B(1) False by (cases ?rs) (auto simp: nth_opt_def dest: arg_cong [of _ _ set])
    then show ?thesis using row_group_key_row [OF ok(1), of a "group_by q" ext] row_group_key_row [OF ok(2), of a "group_by q" ext] B(2) fit n by simp
  qed
  ultimately show ?thesis using ok(3) by (cases "nth_opt ?rs 0") (simp_all add: aggregate_one_group_def Let_def)
qed

section \<open>Recomputing the groups a row touches\<close>

text \<open>The deltas tell the difference between two tables of reported groups.\<close>

definition tells_difference :: "delta list \<Rightarrow> (string \<rightharpoonup> json_map) \<Rightarrow> (string \<rightharpoonup> json_map) \<Rightarrow> bool" where
  "tells_difference ds old new \<longleftrightarrow>
     (\<forall>d \<in> set ds. delta_type d \<in> {DAdd, DUpdate} \<and> (\<exists>k. new k = Some (row_data d)) \<or>
        delta_type d = DRemove \<and> (\<exists>k. old k = Some (row_data d) \<and> new k = None)) \<and>
     (\<forall>k. new k = old k \<or>
        (\<exists>d \<in> set ds. delta_type d \<in> {DAdd, DUpdate} \<and> new k = Some (row_data d) \<or>
           delta_type d = DRemove \<and> old k = Some (row_data d) \<and> new k = None))"

lemma emit_group_ok:
  assumes "emit_group sub seq k rep em = (em', ds)"
  shows "same_report (map_of em' k) rep" "\<And>k'. k' \<noteq> k \<Longrightarrow> map_of em' k' = map_of em k'"
    "\<forall>d \<in> set ds. delta_type d \<in> {DAdd, DUpdate} \<and> map_of em' k = Some (row_data d) \<or>
        delta_type d = DRemove \<and> map_of em k = Some (row_data d) \<and> map_of em' k = None"
    "map_of em' k = map_of em k \<or> ds \<noteq> []"
  using assms by (auto simp: emit_group_def update_conv' delete_conv' make_delta_def split: option.splits if_splits)

lemma recompute_groups_ok:
  assumes "distinct ks" "\<forall>k \<in> set ks. (case groups k of Some b \<Rightarrow> if b = {} then Some None else aggregate_one_group ext (sub_query sub) s b | None \<Rightarrow> Some None) = Some (rep k)"
  shows "\<exists>em' ds. recompute_groups ext s sub seq groups ks em = Some (em', ds) \<and> tells_difference ds (map_of em) (map_of em') \<and>
    (\<forall>k. if k \<in> set ks then same_report (map_of em' k) (rep k) else map_of em' k = map_of em k)"
  using assms
proof (induction ks arbitrary: em)
  case Nil
  then show ?case by (simp add: tells_difference_def)
next
  case (Cons k ks)
  obtain em1 ds1 where e: "emit_group sub seq k (rep k) em = (em1, ds1)" by (cases "emit_group sub seq k (rep k) em")
  note em1 = emit_group_ok [OF e]
  obtain em' ds where r: "recompute_groups ext s sub seq groups ks em1 = Some (em', ds)" "tells_difference ds (map_of em1) (map_of em')"
    "\<forall>k. if k \<in> set ks then same_report (map_of em' k) (rep k) else map_of em' k = map_of em1 k"
    using Cons.IH [of em1] Cons.prems by auto
  have k: "map_of em' k = map_of em1 k" using r(3) Cons.prems(1) by auto
  have "tells_difference (ds1 @ ds) (map_of em) (map_of em')"
    unfolding tells_difference_def
  proof (intro conjI ballI allI)
    fix d assume "d \<in> set (ds1 @ ds)"
    then consider "d \<in> set ds1" | "d \<in> set ds" by auto
    then show "delta_type d \<in> {DAdd, DUpdate} \<and> (\<exists>k. map_of em' k = Some (row_data d)) \<or>
        delta_type d = DRemove \<and> (\<exists>k. map_of em k = Some (row_data d) \<and> map_of em' k = None)"
    proof cases
      case 1
      then show ?thesis using em1(3) k by metis
    next
      case 2
      then have "delta_type d \<in> {DAdd, DUpdate} \<and> (\<exists>k. map_of em' k = Some (row_data d)) \<or>
          delta_type d = DRemove \<and> (\<exists>k. map_of em1 k = Some (row_data d) \<and> map_of em' k = None)"
        using r(2) unfolding tells_difference_def by blast
      then show ?thesis using em1(2) k by (metis option.distinct(1))
    qed
  next
    fix k'
    show "map_of em' k' = map_of em k' \<or> (\<exists>d \<in> set (ds1 @ ds). delta_type d \<in> {DAdd, DUpdate} \<and> map_of em' k' = Some (row_data d) \<or>
           delta_type d = DRemove \<and> map_of em k' = Some (row_data d) \<and> map_of em' k' = None)"
    proof (cases "k' = k")
      case True
      then show ?thesis using em1(3,4) k by (cases ds1) auto
    next
      case False
      then show ?thesis using r(2) em1(2) [OF False] unfolding tells_difference_def set_append by (metis Un_iff)
    qed
  qed
  moreover have "\<forall>k'. if k' \<in> set (k # ks) then same_report (map_of em' k') (rep k') else map_of em' k' = map_of em k'"
    using r(3) k em1(1,2) by (metis set_ConsD list.set_intros)
  moreover have "recompute_groups ext s sub seq groups (k # ks) em = Some (em', ds1 @ ds)"
    using Cons.prems(2) e r(1) by simp
  ultimately show ?case by blast
qed

text \<open>A row that changes moves between groups; the others stay where they are.\<close>

lemma move_member_ok:
  fixes g g' :: "string \<Rightarrow> nat set"
  assumes "\<And>k. r \<in> g k \<longleftrightarrow> old = Some k" "\<And>k. g' k = (if new = Some k then insert r (g k) else g k - {r})"
  shows "move_member r old new (\<lambda>k. if g k = {} then None else Some (g k)) = (\<lambda>k. if g' k = {} then None else Some (g' k))"
proof (cases "old = new")
  case True
  have "g' k = g k" for k using assms(1) [of k] assms(2) [of k] True by (cases "new = Some k") auto
  then have "g' = g" by (rule ext)
  show ?thesis unfolding \<open>g' = g\<close> True move_member_def by simp
next
  case False
  define mid where "mid = (\<lambda>k. if g k - {r} = {} then None else Some (g k - {r}))"
  have "(case old of None \<Rightarrow> (\<lambda>k. if g k = {} then None else Some (g k))
      | Some a \<Rightarrow> (case (if g a = {} then None else Some (g a)) of None \<Rightarrow> (\<lambda>k. if g k = {} then None else Some (g k))
         | Some b \<Rightarrow> if b - {r} = {} then (\<lambda>k. if g k = {} then None else Some (g k))(a := None)
                     else (\<lambda>k. if g k = {} then None else Some (g k))(a \<mapsto> b - {r}))) = mid" (is "?left = mid")
  proof (cases old)
    case None
    then have "g k - {r} = g k" for k using assms(1) [of k] by auto
    then show ?thesis using None by (simp add: mid_def cong: if_cong)
  next
    case (Some a)
    then have "g k - {r} = g k" if "k \<noteq> a" for k using assms(1) [of k] that by auto
    moreover have "g a \<noteq> {}" using assms(1) [of a] Some by auto
    ultimately show ?thesis using Some by (auto simp: mid_def fun_eq_iff)
  qed
  then have "move_member r old new (\<lambda>k. if g k = {} then None else Some (g k)) =
      (case new of None \<Rightarrow> mid | Some a \<Rightarrow> mid(a \<mapsto> insert r (case mid a of Some b \<Rightarrow> b | None \<Rightarrow> {})))"
    using False by (simp add: move_member_def Let_def)
  also have "\<dots> = (\<lambda>k. if g' k = {} then None else Some (g' k))"
    using assms(2) by (cases new) (auto simp: mid_def fun_eq_iff)
  finally show ?thesis .
qed

lemma membership_moves:
  assumes "cs_schema t = cs_schema s" "\<forall>x \<in> M. x \<noteq> r \<longrightarrow> row_of t x = row_of s x" "M' = (if hit then insert r M else M - {r})"
  shows "move_member r (if r \<in> M then Some (group_text ext q (cs_schema s) (row_of s r)) else None)
      (if hit then Some (group_text ext q (cs_schema t) (row_of t r)) else None) (membership ext q s M) = membership ext q t M'"
proof -
  have "r \<in> group_of ext q s M k \<longleftrightarrow> (if r \<in> M then Some (group_text ext q (cs_schema s) (row_of s r)) else None) = Some k" for k
    by (simp add: group_of_def)
  moreover have "group_of ext q t M' k = (if (if hit then Some (group_text ext q (cs_schema t) (row_of t r)) else None) = Some k
      then insert r (group_of ext q s M k) else group_of ext q s M k - {r})" for k
    using assms by (auto simp: group_of_def)
  ultimately show ?thesis unfolding membership_def [abs_def] by (rule move_member_ok)
qed

text \<open>A group that the changed row neither leaves nor joins is reported as before.\<close>

lemma report_unchanged:
  assumes step: "one_row_changes s r t" and q: "groups_fit (length (mappings t)) q" and M: "M \<subseteq> {..<row_count s}"
    and same: "group_of ext q t M' k = group_of ext q s M k" "r \<notin> group_of ext q s M k"
  shows "group_report ext q t M' k = group_report ext q s M k"
proof -
  have ok: "store_ok s" "store_ok t" "cs_schema t = cs_schema s" using step by (simp_all add: one_row_changes_def)
  have n: "length (mappings t) = length (mappings s)"
    using store_ok_shape(1) [OF ok(1)] store_ok_shape(1) [OF ok(2)] ok(3) by (simp add: store_layout_def)
  have "group_of ext q s M k \<subseteq> M" by (auto simp: group_of_def)
  then have "x < row_count s \<and> x < row_count t \<and> row_of t x = row_of s x" if "x \<in> group_of ext q s M k" for x
    using that same(2) M step by (auto simp: one_row_changes_def)
  moreover have "finite (group_of ext q s M k)"
    using \<open>group_of ext q s M k \<subseteq> M\<close> M by (meson finite_lessThan finite_subset)
  ultimately have "aggregate_one_group ext q t (group_of ext q s M k) = aggregate_one_group ext q s (group_of ext q s M k)"
    using q n by (intro aggregate_one_group_cong [OF ok]) simp_all
  then show ?thesis using same(1) by (simp add: group_report_def)
qed

text \<open>The keys before and after, the groups they make dirty, and the evaluation in their terms.\<close>

definition member_text :: "externals \<Rightarrow> parsed_query \<Rightarrow> column_store \<Rightarrow> nat set \<Rightarrow> nat \<Rightarrow> string option" where
  "member_text ext q s M r = (if r \<in> M then Some (group_text ext q (cs_schema s) (row_of s r)) else None)"

lemma dirty_groups_set: "distinct (dirty_groups a b)" "set (dirty_groups a b) = {k. a = Some k \<or> b = Some k}"
  by (auto simp: dirty_groups_def split: option.splits)

lemma incremental_evaluation:
  fixes mk :: mutation_kind and tx :: text_ops and ext :: externals
  assumes s: "store_ok s" "r < row_count s" "groups_fit (length (mappings s)) q" "pred_typed (row_kinds s) (predicate q)"
    and sub: "sub_query sub = q" "\<not> aggregate_needs_full_recompute q" "\<not> sub_closed sub" "live_start_sequence sub \<le> seq"
      "sub_aggregate sub = Some agg" "incremental_ready agg"
  defines "M \<equiv> (if mk \<noteq> MutDelete \<and> selects tx q s r then {r} else {})"
  defines "new \<equiv> member_text ext q s M r"
  shows "evaluate_sub ext tx sub r seq mk s =
    (if row_group agg r = None \<and> new = None then Some (sub, [])
     else let groups = move_member r (row_group agg r) new (group_rows agg) in do {
       (emitted, ds) \<leftarrow> recompute_groups ext s sub seq groups (dirty_groups (row_group agg r) new) (last_emitted agg);
       Some (sub\<lparr>sub_aggregate := Some (agg\<lparr>last_emitted := emitted, group_rows := groups, row_group := (row_group agg)(r := new)\<rparr>)\<rparr>, ds)
     })"
proof -
  define hit where "hit \<longleftrightarrow> mk \<noteq> MutDelete \<and> selects tx q s r"
  have m: "(if mk = MutDelete then Some False else matches tx s r (predicate q)) = Some hit"
    using matches_row [OF s(1,2,4)] by (simp add: selects_def hit_def)
  have key: "(if hit then map_option Some (group_key_canonical_from_store ext s r (group_by q)) else Some None) = Some new"
    using group_text_row [OF s(1-3)] by (simp add: new_def member_text_def M_def hit_def)
  have "evaluate_sub ext tx sub r seq mk s = evaluate_aggregating_incremental ext tx sub agg r seq mk s"
    using sub by (simp add: evaluate_sub_def evaluate_aggregating_def)
  then show ?thesis by (simp only: evaluate_aggregating_incremental_def sub(1) m key bind.simps Let_def)
qed


lemma sample_groups:
  assumes t: "store_ok t" "row_count t = 1" "cs_schema t = sample_schema"
    "row_of t 0 = fresh_values sample_externals [TLong, TDouble, TString] [VLong 1, VNull, VString (Some ''a'')]"
  shows "aggregate_one_group sample_externals (count_by 2 0 PTrue) t {0} \<noteq> None"
proof -
  let ?q = "count_by 2 0 PTrue"
  have "length (row_kinds t) = 3" using t row_kinds_schema [OF t(1)] by (simp add: sample_columns)
  then have n: "length (mappings t) = 3" by (simp add: row_kinds_def)
  have v: "row_of t 0 ! 0 = VLong 1"
    using t(4) by (simp add: fresh_values_def overlay_def cell_after_def upt_rec)
  have "update_all sample_externals t (aggregates ?q) [0] st = Some (update_of_row sample_externals (aggregates ?q) (row_of t 0) st)" for st
    using update_all_rows [OF t(1), of "aggregates ?q" "[0]" sample_externals st] t(2) n by (simp add: agg_fits_def)
  moreover have "row_group_key sample_externals t (group_by ?q) 0 = Some (key_of_row sample_externals (group_by ?q) (row_of t 0))"
    by (rule row_group_key_row) (use t n in simp_all)
  ultimately show ?thesis
    using v by (simp add: aggregate_one_group_def t(3) Let_def agg_types_def column_type_at_def column_name_at_def column_at_def sample_columns nth_opt_def
        group_output_def finalize_states_def update_of_row_def input_of_row_def agg_inits_def agg_init_def)
qed


end
