(* ===== verification/Spec2Isabelle.thy ===== *)
theory Spec2Isabelle
  imports CQ_Row_Json CQ_Seqlock CQ_Sec_Index CQ_Conflation CQ_Queue CQ_Codec CQ_Predicate_Compile CQ_Snapshot CQ_Live_Groups
begin

text \<open>
  A verification development for the continuous-query server in \<open>crates/\<close>.

  \<^bold>\<open>The program.\<close> A server keeps topics. A topic is a columnar table of the latest document per
  key (\<open>cq-core\<close>: \<open>schema.rs\<close>, \<open>store.rs\<close>, \<open>topic.rs\<close>), with secondary indexes
  (\<open>sec_index.rs\<close>), a journal and snapshots (\<open>cq-txlog\<close>), and subscriptions whose filters
  (\<open>predicate.rs\<close>) select the rows a client follows, whose deltas (\<open>subscription.rs\<close>) keep it up
  to date and are coalesced (\<open>conflation.rs\<close>). Queries (\<open>query.rs\<close>) read the same tables. Clients speak length-prefixed frames (\<open>cq-protocol\<close>: \<open>codec.rs\<close>,
  \<open>compression.rs\<close>, \<open>version.rs\<close>, \<open>depth_guard.rs\<close>); message queues with competing consumers are
  a second kind of destination (\<open>cq-transport\<close>: \<open>queue.rs\<close>).

  \<^bold>\<open>Conventions.\<close> A Rust panic is the value \<open>None\<close>; a \<open>Result\<close> is a sum type with the error on the
  left. \<open>i64\<close>, \<open>i32\<close>, \<open>u64\<close>, \<open>u32\<close> data are words of their width and \<open>f64\<close> is its bit pattern;
  row numbers, sequence numbers and other counters that grow by one are \<open>nat\<close>. A Rust string is
  its UTF-8 bytes. A \<open>HashMap\<close> is an association list, and where the code iterates over one the
  order is an argument. The clock is an argument. Functions of other crates are fields of the
  records \<open>externals\<close>, \<open>text_ops\<close>, \<open>json_io\<close> and \<open>topic_env\<close>; theorems that rely on their
  documented behaviour say so in a premise (\<open>json_laws\<close>, \<open>regex_law\<close>).

  \<^bold>\<open>The theories.\<close>
  \<^item> \<open>CQ_Prelude\<close>: machine numbers, decimal text, JSON documents, arrays with bounds checks,
    results, and the locale \<open>refinement\<close> that lifts one-step simulations to runs.
  \<^item> \<open>CQ_Schema\<close> (\<open>schema.rs\<close>): column types, the name index, the layout; no two columns share
    an array.
  \<^item> \<open>CQ_Value\<close> (\<open>Value\<close> of \<open>store.rs\<close>): null sentinels, conversions from and to JSON and their
    round trip.
  \<^item> \<open>CQ_Store\<close> (\<open>ColumnStore\<close> of \<open>store.rs\<close>): the typed arrays implement a table of values; this
    is an interpretation of \<open>refinement\<close>. \<open>CQ_Row_Json\<close>: the readers and the JSON writers of a row.
    \<open>CQ_Seqlock\<close>: the interleaving of a row writer with the optimistic reader, which never
    returns a torn row and returns when it is left alone.
  \<^item> \<open>CQ_Sec_Index\<close> (\<open>sec_index.rs\<close>): lookups are scans, for bitmaps behind the locales
    \<open>bitmap_map\<close> and \<open>bitmap_list\<close>.
  \<^item> \<open>CQ_Float\<close>, \<open>CQ_Predicate\<close>, \<open>CQ_Predicate_Meaning\<close>, \<open>CQ_Predicate_Compile\<close> (\<open>predicate.rs\<close>):
    compiled filters, their three-valued reference semantics, and the compiler from the syntax
    tree, whose output never panics.
  \<^item> \<open>CQ_Conflation\<close> (\<open>conflation.rs\<close>): the conflator leaves a consumer with the same rows.
  \<^item> \<open>CQ_Queue\<close> (\<open>queue.rs\<close>): message accounting, fairness, eviction.
  \<^item> \<open>CQ_Codec\<close> (\<open>codec.rs\<close>, \<open>compression.rs\<close>, \<open>version.rs\<close>, \<open>depth_guard.rs\<close>): framing round trip
    for any split of the stream (locale \<open>framing\<close>), negotiation, the nesting guard.
  \<^item> \<open>CQ_Txlog\<close> (\<open>cq-txlog\<close>): what is appended is read back across rotations and the archive,
    and what a torn tail loses (locale \<open>journal\<close>).
  \<^item> \<open>CQ_Flatten\<close> (\<open>flatten.rs\<close>), \<open>CQ_Topic\<close> (\<open>topic.rs\<close>, the replay of \<open>main.rs\<close>): the operations
    of a topic. \<open>CQ_Topic_Table\<close>: they implement a table from keys to rows (\<open>refinement\<close> again).
    \<open>CQ_Topic_Effects\<close>: journal, sequence numbers and events of single operations.
  \<^item> \<open>CQ_Recovery\<close>: replaying the journal rebuilds the topic up to the time stamps of rows;
    \<open>CQ_Snapshot\<close> (\<open>snapshot.rs\<close>): the same for snapshot, pruned journal and restart. Both are
    interpretations of the locale \<open>replay_relation\<close>.
  \<^item> \<open>CQ_Expr\<close>, \<open>CQ_Aggregate\<close>, \<open>CQ_Query\<close> (\<open>query.rs\<close>, \<open>pivot.rs\<close>): expressions, aggregate states, the
    planner and the executor of parsed queries, pivots and window functions. \<open>CQ_Query_Plan\<close>: a
    query that uses an index answers as a scan does. \<open>CQ_Query_Results\<close>: the answer of a plain
    SELECT (sorting rests on the locale \<open>comparison\<close>) and of a grouped one, which is what the
    recomputation of each group gives.
  \<^item> \<open>CQ_Predicate_Index\<close> (\<open>predicate_index.rs\<close>): the index from columns to subscriptions, a further
    interpretation of \<open>refinement\<close>. \<open>CQ_Subscription\<close> (\<open>subscription.rs\<close>): row, sparse, top-n and
    aggregating subscriptions and the engine that evaluates a mutation for them. \<open>CQ_Topic_Query\<close>
    (\<open>topic.rs\<close>): queries, streaming, subscribing and evaluating on the lanes of a topic.
    \<open>CQ_Live_Query\<close>: publishers and the evaluator interleave as the step relation \<open>live_step\<close>; the
    invariant \<open>catching_up\<close> shows that the deltas a client gets rebuild the rows of its query.
    \<open>CQ_Live_Window\<close>: the same for top-n subscriptions, whose consumer holds the window.
    \<open>CQ_Live_Groups\<close>: aggregating subscriptions, whose incremental groups are what recomputation gives.

  \<^bold>\<open>Bounds and fuel.\<close> No definition takes fuel: recursions are structural or have a termination
  proof. The reader of \<open>CQ_Seqlock\<close>, whose loop may be disturbed forever, is a step relation.
  Length fields of the formats are bounded as in the code, and the theorems name the bounds
  (\<open>snapshot_ok\<close>, entries whose key and topic fit the length field).

  \<^bold>\<open>Not modelled.\<close> The parser of SELECT statements (an argument of the topic functions), joins and
  the limits on queries (\<open>query.rs\<close>), views (\<open>view.rs\<close>), cost estimates, routing and sessions
  (\<open>router.rs\<close>, \<open>session.rs\<close>), delivery to connections, replication links, configuration and
  administration, the client library: they are either asynchronous input and output around the
  components above or still to be added. Compression of archived segments, \<open>fsync\<close>, metrics and
  logging have no counterpart in the state.
\<close>

end
